(* ===== verification/Fw_Prelude.thy ===== *)
theory Fw_Prelude
  imports Main "HOL-Library.Word"
begin

text \<open>
  Shared vocabulary of the development: names for the machine integers of the C sources, the
  negative error numbers the kernel code returns, bit-field access by mask and shift (the way every
  packet accessor of the sources is written), and the generic facts on words, lists and bit fields
  that the component theories use.  The collections \<open>field_defs\<close> and \<open>field_laws\<close> hold the
  definitions and the laws of the packet accessors.
\<close>

unbundle bit_operations_syntax

named_theorems field_defs \<open>accessors of packet fields\<close>
named_theorems field_laws \<open>laws of accessors of packet fields\<close>

section \<open>Machine integers and error numbers\<close>

type_synonym u8 = "8 word"
type_synonym u16 = "16 word"
type_synonym u32 = "32 word"
type_synonym u64 = "64 word"

datatype errno = ENOENT | EIO | EAGAIN | ENOMEM | EBUSY | EINVAL | ENODATA | EPROTO | ENODEV
  | ETIMEDOUT | EFBIG | E2BIG | EBADMSG | ENXIO | ESTALE | ERANGE | ENOSYS | EFAULT | ENOSPC
  | EILSEQ | EOPNOTSUPP | ERESTARTSYS | EISCONN | ECONNREFUSED | EBADFD | EXDEV | EPIPE | ECANCELED | EACCES
  | ENOTTY

text \<open>The C expression \<open>a \<plusminus> b\<close> on \<open>int\<close> that stays in range is an unbounded integer; where a
  narrower C type holds the result the width is explicit.\<close>

section \<open>Bit fields by mask and shift\<close>

definition field_get :: "'a::len word \<Rightarrow> nat \<Rightarrow> 'a word \<Rightarrow> 'a word" where
  "field_get m s q = drop_bit s (q AND m)"

definition field_set :: "'a::len word \<Rightarrow> nat \<Rightarrow> 'a word \<Rightarrow> 'a word \<Rightarrow> 'a word" where
  "field_set m s q v = ((q AND NOT m) OR (push_bit s v AND m))"

text \<open>A mask of \<open>n\<close> ones at position \<open>s\<close>.\<close>

definition field_mask :: "nat \<Rightarrow> nat \<Rightarrow> 'a::len word" where
  "field_mask s n = push_bit s (mask n)"

lemma bit_field_mask [simp]:
  "bit (field_mask s n :: 'a::len word) k \<longleftrightarrow> k < LENGTH('a) \<and> s \<le> k \<and> k < s + n"
  by (auto simp: field_mask_def bit_simps)

lemma field_get_set_mask:
  assumes "s + n \<le> LENGTH('a)"
  shows "field_get (field_mask s n) s (field_set (field_mask s n) s (q :: 'a::len word) v) = take_bit n v"
  using assms by (intro bit_word_eqI) (auto simp: field_get_def field_set_def bit_simps)

lemma field_get_set_other_mask:
  assumes "s + n \<le> t \<or> t + m \<le> s"
  shows "field_get (field_mask t m) t (field_set (field_mask s n) s (q :: 'a::len word) v) =
    field_get (field_mask t m) t q"
  using assms by (intro bit_word_eqI) (auto simp: field_get_def field_set_def bit_simps)

lemma field_set_get_mask:
  "field_set (field_mask s n) s q (field_get (field_mask s n) s q) = (q :: 'a::len word)"
  by (intro bit_word_eqI) (auto simp: field_get_def field_set_def bit_simps)

lemma field_set_set_mask:
  "field_set (field_mask s n) s (field_set (field_mask s n) s q v) w =
    field_set (field_mask s n) s (q :: 'a::len word) w"
  by (intro bit_word_eqI) (auto simp: field_set_def bit_simps)

lemma field_get_less_mask:
  "unat (field_get (field_mask s n) s (q :: 'a::len word)) < 2 ^ n"
proof -
  have "field_get (field_mask s n) s q = take_bit n (drop_bit s q)"
    by (intro bit_word_eqI) (auto simp: field_get_def bit_simps dest: bit_imp_le_length)
  then show ?thesis
    by (metis take_bit_nat_less_exp unsigned_take_bit_eq)
qed

lemma bit_of_nat_less: "n < 2 ^ k \<Longrightarrow> bit (of_nat n :: 'a::len word) i \<Longrightarrow> i < k"
  by (metis bit_take_bit_iff bit_unsigned_iff take_bit_nat_eq_self_iff bit_of_nat_iff_bit bit_imp_take_bit_positive not_less
      of_nat_take_bit take_bit_of_nat)

section \<open>The interface of a packet field\<close>

text \<open>
  Every accessor pair of the packet definitions promises the same contract: what is stored in the
  field is what is read back, cut to the width of the field, and writing touches nothing but the
  field.  The two locales state it; the accessors of the packet theories interpret them.
\<close>

locale packet_field =
  fixes fget :: "'p \<Rightarrow> 'v::len word"
    and fset :: "'p \<Rightarrow> 'v word \<Rightarrow> 'p"
    and width :: nat
  assumes get_set: "fget (fset p v) = take_bit width v"
    and set_get: "fset p (fget p) = p"
    and set_set: "fset (fset p v) w = fset p w"
begin

lemma get_bounded: "take_bit width (fget p) = fget p"
proof -
  have "fget p = fget (fset p (fget p))" by (simp add: set_get)
  also have "\<dots> = take_bit width (fget p)" by (simp add: get_set)
  finally show ?thesis by simp
qed

lemma get_set_fits: "unat v < 2 ^ width \<Longrightarrow> fget (fset p v) = v"
  by (metis get_set take_bit_nat_eq_self unsigned_take_bit_eq unsigned_word_eqI)

lemma get_less: "unat (fget p) < 2 ^ width"
  by (metis get_bounded take_bit_nat_less_exp unsigned_take_bit_eq)

lemma set_truncates: "fset p (take_bit width v) = fset p v"
  by (metis get_set set_get set_set)

lemma eq_by_field: "fset p w = fset q w \<Longrightarrow> fget p = fget q \<Longrightarrow> p = q"
  by (metis set_get set_set)

end

locale independent_fields = a: packet_field get_a set_a width_a + b: packet_field get_b set_b width_b
  for get_a :: "'p \<Rightarrow> 'v::len word" and set_a width_a
    and get_b :: "'p \<Rightarrow> 'w::len word" and set_b width_b +
  assumes get_a_set_b: "get_a (set_b p w) = get_a p"
    and get_b_set_a: "get_b (set_a p v) = get_b p"
begin

lemma get_a_set_both: "get_a (set_b (set_a p v) w) = take_bit width_a v"
  by (simp add: get_a_set_b a.get_set)

lemma get_b_set_both: "get_b (set_b (set_a p v) w) = take_bit width_b w"
  by (rule b.get_set)

end

text \<open>A field of one bit is read and written as a \<open>bool\<close>.\<close>

definition flag_get :: "'a::len word \<Rightarrow> nat \<Rightarrow> 'a word \<Rightarrow> bool" where
  "flag_get m s q \<longleftrightarrow> drop_bit s (q AND m) \<noteq> 0"

definition flag_set :: "'a::len word \<Rightarrow> nat \<Rightarrow> 'a word \<Rightarrow> bool \<Rightarrow> 'a word" where
  "flag_set m s q b = ((q AND NOT m) OR (push_bit s (of_bool b) AND m))"

locale packet_flag =
  fixes bget :: "'p \<Rightarrow> bool"
    and bset :: "'p \<Rightarrow> bool \<Rightarrow> 'p"
  assumes get_set: "bget (bset p b) = b"
    and set_get: "bset p (bget p) = p"
    and set_set: "bset (bset p b) c = bset p c"
begin

lemma set_same_iff: "bset p b = p \<longleftrightarrow> bget p = b"
  using get_set [of p b] set_get [of p] by auto

end

lemma flag_get_bit:
  assumes "s < LENGTH('a)"
  shows "flag_get (field_mask s (Suc 0)) s (q :: 'a::len word) = bit q s"
proof -
  have "drop_bit s (q AND field_mask s (Suc 0)) = of_bool (bit q s)"
    using assms by (intro bit_word_eqI) (auto simp: bit_simps)
  then show ?thesis by (simp add: flag_get_def)
qed

lemma bit_flag_set:
  "bit (flag_set (field_mask s (Suc 0)) s (q :: 'a::len word) b) k =
    (if k = s \<and> s < LENGTH('a) then b else bit q k)"
  by (cases b) (auto simp: flag_set_def bit_simps dest: bit_imp_le_length)

lemma packet_flag_mask:
  "s < LENGTH('a) \<Longrightarrow>
    packet_flag (flag_get (field_mask s (Suc 0)) s) (flag_set (field_mask s (Suc 0) :: 'a::len word) s)"
  by unfold_locales (auto simp: flag_get_bit bit_flag_set split: if_splits intro!: bit_word_eqI)

text \<open>The contract holds for a mask of consecutive ones and its shift.\<close>

lemma packet_field_mask:
  "s + n \<le> LENGTH('a) \<Longrightarrow>
    packet_field (field_get (field_mask s n) s) (field_set (field_mask s n :: 'a::len word) s) n"
  by unfold_locales (simp_all add: field_get_set_mask field_set_get_mask field_set_set_mask)

section \<open>Writing a run of elements into a buffer\<close>

definition overwrite :: "'a list \<Rightarrow> nat \<Rightarrow> 'a list \<Rightarrow> 'a list" where
  "overwrite buf i xs = take i buf @ xs @ drop (i + length xs) buf"

lemma overwrite_Nil [simp]: "overwrite buf i [] = buf"
  by (simp add: overwrite_def)

lemma length_overwrite [simp]: "i + length xs \<le> length buf \<Longrightarrow> length (overwrite buf i xs) = length buf"
  by (simp add: overwrite_def)

lemma list_update_overwrite1: "i < length buf \<Longrightarrow> buf[i := x] = overwrite buf i [x]"
  by (simp add: overwrite_def upd_conv_take_nth_drop)

lemma overwrite_overwrite:
  "i + length xs + length ys \<le> length buf \<Longrightarrow>
    overwrite (overwrite buf i xs) (i + length xs) ys = overwrite buf i (xs @ ys)"
  by (simp add: overwrite_def ac_simps)

lemma list_update_overwrite_before:
  "k < i \<Longrightarrow> i \<le> length buf \<Longrightarrow> (overwrite buf i xs)[k := v] = overwrite (buf[k := v]) i xs"
  by (simp add: overwrite_def list_update_append take_update_swap)

lemma take_overwrite: "length xs \<le> length buf \<Longrightarrow> take (length xs) (overwrite buf 0 xs) = xs"
  by (simp add: overwrite_def)

lemma nth_overwrite:
  "i + length xs \<le> length buf \<Longrightarrow> k < length buf \<Longrightarrow>
    overwrite buf i xs ! k = (if i \<le> k \<and> k < i + length xs then xs ! (k - i) else buf ! k)"
  by (auto simp: overwrite_def nth_append min_def)

lemma concat_map_concat_eq:
  "(\<And>d. d \<in> set ds \<Longrightarrow> g d = concat (f d)) \<Longrightarrow> concat (map g ds) = concat (concat (map f ds))"
  by (induction ds) auto

lemma nth_update: "j < length xs \<Longrightarrow> xs[i := x] ! j = (if i = j then x else xs ! j)"
  by (cases "i < length xs") (auto simp: nth_list_update)

end
