(* ===== verification/Packet_Header.thy ===== *)
theory Packet_Header
  imports Fw_Prelude
begin

text \<open>
  The headers of asynchronous and isochronous packets, after
  \<^verbatim>\<open>drivers/firewire/packet-header-definitions.h\<close>.  A header of four quadlets is a record of four
  32-bit words; each accessor is a mask and a shift, written with the constants of the source.  The
  codes of \<^verbatim>\<open>include/uapi/linux/firewire-constants.h\<close> are abbreviations.
\<close>

section \<open>Codes\<close>

abbreviation (input) TCODE_WRITE_QUADLET_REQUEST :: u32 where "TCODE_WRITE_QUADLET_REQUEST \<equiv> 0x0"
abbreviation (input) TCODE_WRITE_BLOCK_REQUEST :: u32 where "TCODE_WRITE_BLOCK_REQUEST \<equiv> 0x1"
abbreviation (input) TCODE_WRITE_RESPONSE :: u32 where "TCODE_WRITE_RESPONSE \<equiv> 0x2"
abbreviation (input) TCODE_READ_QUADLET_REQUEST :: u32 where "TCODE_READ_QUADLET_REQUEST \<equiv> 0x4"
abbreviation (input) TCODE_READ_BLOCK_REQUEST :: u32 where "TCODE_READ_BLOCK_REQUEST \<equiv> 0x5"
abbreviation (input) TCODE_READ_QUADLET_RESPONSE :: u32 where "TCODE_READ_QUADLET_RESPONSE \<equiv> 0x6"
abbreviation (input) TCODE_READ_BLOCK_RESPONSE :: u32 where "TCODE_READ_BLOCK_RESPONSE \<equiv> 0x7"
abbreviation (input) TCODE_LOCK_REQUEST :: u32 where "TCODE_LOCK_REQUEST \<equiv> 0x9"
abbreviation (input) TCODE_STREAM_DATA :: u32 where "TCODE_STREAM_DATA \<equiv> 0xa"
abbreviation (input) TCODE_LOCK_RESPONSE :: u32 where "TCODE_LOCK_RESPONSE \<equiv> 0xb"
abbreviation (input) TCODE_LINK_INTERNAL :: u32 where "TCODE_LINK_INTERNAL \<equiv> 0xe"
abbreviation (input) TCODE_LOCK_COMPARE_SWAP :: u32 where "TCODE_LOCK_COMPARE_SWAP \<equiv> 0x12"
abbreviation (input) EXTCODE_COMPARE_SWAP :: u32 where "EXTCODE_COMPARE_SWAP \<equiv> 0x2"
abbreviation (input) EXTCODE_FETCH_ADD :: u32 where "EXTCODE_FETCH_ADD \<equiv> 0x3"
abbreviation (input) EXTCODE_LITTLE_ADD :: u32 where "EXTCODE_LITTLE_ADD \<equiv> 0x4"
abbreviation (input) RCODE_COMPLETE :: u32 where "RCODE_COMPLETE \<equiv> 0x0"
abbreviation (input) RCODE_CONFLICT_ERROR :: u32 where "RCODE_CONFLICT_ERROR \<equiv> 0x4"
abbreviation (input) RCODE_DATA_ERROR :: u32 where "RCODE_DATA_ERROR \<equiv> 0x5"
abbreviation (input) RCODE_TYPE_ERROR :: u32 where "RCODE_TYPE_ERROR \<equiv> 0x6"
abbreviation (input) RCODE_ADDRESS_ERROR :: u32 where "RCODE_ADDRESS_ERROR \<equiv> 0x7"
abbreviation (input) RCODE_SEND_ERROR :: u32 where "RCODE_SEND_ERROR \<equiv> 0x10"
abbreviation (input) RCODE_CANCELLED :: u32 where "RCODE_CANCELLED \<equiv> 0x11"
abbreviation (input) RCODE_BUSY :: u32 where "RCODE_BUSY \<equiv> 0x12"
abbreviation (input) RCODE_GENERATION :: u32 where "RCODE_GENERATION \<equiv> 0x13"
abbreviation (input) RCODE_NO_ACK :: u32 where "RCODE_NO_ACK \<equiv> 0x14"
abbreviation (input) SCODE_100 :: u32 where "SCODE_100 \<equiv> 0x0"
abbreviation (input) SCODE_BETA :: u32 where "SCODE_BETA \<equiv> 0x3"
abbreviation (input) ACK_COMPLETE :: u32 where "ACK_COMPLETE \<equiv> 0x1"
abbreviation (input) ACK_PENDING :: u32 where "ACK_PENDING \<equiv> 0x2"
abbreviation (input) ACK_BUSY_X :: u32 where "ACK_BUSY_X \<equiv> 0x4"
abbreviation (input) ACK_BUSY_A :: u32 where "ACK_BUSY_A \<equiv> 0x5"
abbreviation (input) ACK_BUSY_B :: u32 where "ACK_BUSY_B \<equiv> 0x6"
abbreviation (input) ACK_DATA_ERROR :: u32 where "ACK_DATA_ERROR \<equiv> 0xd"
abbreviation (input) ACK_TYPE_ERROR :: u32 where "ACK_TYPE_ERROR \<equiv> 0xe"
abbreviation (input) RETRY_1 :: u32 where "RETRY_1 \<equiv> 0x00"
abbreviation (input) RETRY_X :: u32 where "RETRY_X \<equiv> 0x01"

section \<open>Asynchronous packets\<close>

record async_header =
  q0 :: u32
  q1 :: u32
  q2 :: u32
  q3 :: u32

definition async_header_get_destination :: "async_header \<Rightarrow> u32" where
  [field_defs]: "async_header_get_destination h = field_get 0xffff0000 16 (q0 h)"

definition async_header_get_tlabel :: "async_header \<Rightarrow> u32" where
  [field_defs]: "async_header_get_tlabel h = field_get 0x0000fc00 10 (q0 h)"

definition async_header_get_retry :: "async_header \<Rightarrow> u32" where
  [field_defs]: "async_header_get_retry h = field_get 0x00000300 8 (q0 h)"

definition async_header_get_tcode :: "async_header \<Rightarrow> u32" where
  [field_defs]: "async_header_get_tcode h = field_get 0x000000f0 4 (q0 h)"

definition async_header_get_priority :: "async_header \<Rightarrow> u32" where
  [field_defs]: "async_header_get_priority h = field_get 0x0000000f 0 (q0 h)"

definition async_header_get_source :: "async_header \<Rightarrow> u32" where
  [field_defs]: "async_header_get_source h = field_get 0xffff0000 16 (q1 h)"

definition async_header_get_rcode :: "async_header \<Rightarrow> u32" where
  [field_defs]: "async_header_get_rcode h = field_get 0x0000f000 12 (q1 h)"

definition async_header_get_data_length :: "async_header \<Rightarrow> u32" where
  [field_defs]: "async_header_get_data_length h = field_get 0xffff0000 16 (q3 h)"

definition async_header_get_extended_tcode :: "async_header \<Rightarrow> u32" where
  [field_defs]: "async_header_get_extended_tcode h = field_get 0x0000ffff 0 (q3 h)"

definition async_header_get_offset :: "async_header \<Rightarrow> u64" where
  [field_defs]: "async_header_get_offset h =
    (let hi = field_get 0x0000ffff 0 (q1 h)
     in push_bit 32 (ucast hi :: u64) OR (ucast (q2 h) :: u64))"

definition async_header_get_quadlet_data :: "async_header \<Rightarrow> u32" where
  [field_defs]: "async_header_get_quadlet_data h = q3 h"

definition async_header_set_destination :: "async_header \<Rightarrow> u32 \<Rightarrow> async_header" where
  [field_defs]: "async_header_set_destination h v = h\<lparr>q0 := field_set 0xffff0000 16 (q0 h) v\<rparr>"

definition async_header_set_tlabel :: "async_header \<Rightarrow> u32 \<Rightarrow> async_header" where
  [field_defs]: "async_header_set_tlabel h v = h\<lparr>q0 := field_set 0x0000fc00 10 (q0 h) v\<rparr>"

definition async_header_set_retry :: "async_header \<Rightarrow> u32 \<Rightarrow> async_header" where
  [field_defs]: "async_header_set_retry h v = h\<lparr>q0 := field_set 0x00000300 8 (q0 h) v\<rparr>"

definition async_header_set_tcode :: "async_header \<Rightarrow> u32 \<Rightarrow> async_header" where
  [field_defs]: "async_header_set_tcode h v = h\<lparr>q0 := field_set 0x000000f0 4 (q0 h) v\<rparr>"

definition async_header_set_priority :: "async_header \<Rightarrow> u32 \<Rightarrow> async_header" where
  [field_defs]: "async_header_set_priority h v = h\<lparr>q0 := field_set 0x0000000f 0 (q0 h) v\<rparr>"

definition async_header_set_source :: "async_header \<Rightarrow> u32 \<Rightarrow> async_header" where
  [field_defs]: "async_header_set_source h v = h\<lparr>q1 := field_set 0xffff0000 16 (q1 h) v\<rparr>"

definition async_header_set_rcode :: "async_header \<Rightarrow> u32 \<Rightarrow> async_header" where
  [field_defs]: "async_header_set_rcode h v = h\<lparr>q1 := field_set 0x0000f000 12 (q1 h) v\<rparr>"

definition async_header_set_data_length :: "async_header \<Rightarrow> u32 \<Rightarrow> async_header" where
  [field_defs]: "async_header_set_data_length h v = h\<lparr>q3 := field_set 0xffff0000 16 (q3 h) v\<rparr>"

definition async_header_set_extended_tcode :: "async_header \<Rightarrow> u32 \<Rightarrow> async_header" where
  [field_defs]: "async_header_set_extended_tcode h v = h\<lparr>q3 := field_set 0x0000ffff 0 (q3 h) v\<rparr>"

definition async_header_set_offset :: "async_header \<Rightarrow> u64 \<Rightarrow> async_header" where
  [field_defs]: "async_header_set_offset h offset =
    (let hi = ucast (drop_bit 32 offset) :: u32
     in h\<lparr>q1 := field_set 0x0000ffff 0 (q1 h) hi,
          q2 := ucast (offset AND 0x00000000ffffffff)\<rparr>)"

definition async_header_set_quadlet_data :: "async_header \<Rightarrow> u32 \<Rightarrow> async_header" where
  [field_defs]: "async_header_set_quadlet_data h v = h\<lparr>q3 := v\<rparr>"

section \<open>Isochronous packets\<close>

definition isoc_header_get_data_length :: "u32 \<Rightarrow> u32" where
  [field_defs]: "isoc_header_get_data_length h = field_get 0xffff0000 16 h"

definition isoc_header_get_tag :: "u32 \<Rightarrow> u32" where
  [field_defs]: "isoc_header_get_tag h = field_get 0x0000c000 14 h"

definition isoc_header_get_channel :: "u32 \<Rightarrow> u32" where
  [field_defs]: "isoc_header_get_channel h = field_get 0x00003f00 8 h"

definition isoc_header_get_tcode :: "u32 \<Rightarrow> u32" where
  [field_defs]: "isoc_header_get_tcode h = field_get 0x000000f0 4 h"

definition isoc_header_get_sy :: "u32 \<Rightarrow> u32" where
  [field_defs]: "isoc_header_get_sy h = field_get 0x0000000f 0 h"

definition isoc_header_set_data_length :: "u32 \<Rightarrow> u32 \<Rightarrow> u32" where
  [field_defs]: "isoc_header_set_data_length h v = field_set 0xffff0000 16 h v"

definition isoc_header_set_tag :: "u32 \<Rightarrow> u32 \<Rightarrow> u32" where
  [field_defs]: "isoc_header_set_tag h v = field_set 0x0000c000 14 h v"

definition isoc_header_set_channel :: "u32 \<Rightarrow> u32 \<Rightarrow> u32" where
  [field_defs]: "isoc_header_set_channel h v = field_set 0x00003f00 8 h v"

definition isoc_header_set_tcode :: "u32 \<Rightarrow> u32 \<Rightarrow> u32" where
  [field_defs]: "isoc_header_set_tcode h v = field_set 0x000000f0 4 h v"

definition isoc_header_set_sy :: "u32 \<Rightarrow> u32 \<Rightarrow> u32" where
  [field_defs]: "isoc_header_set_sy h v = field_set 0x0000000f 0 h v"

section \<open>Laws of the accessors\<close>

text \<open>The masks of the source are runs of ones.\<close>

lemma async_masks:
  "(0xffff0000 :: u32) = field_mask 16 16" "(0x0000fc00 :: u32) = field_mask 10 6"
  "(0x00000300 :: u32) = field_mask 8 2" "(0x000000f0 :: u32) = field_mask 4 4"
  "(0x0000000f :: u32) = field_mask 0 4" "(0x0000f000 :: u32) = field_mask 12 4"
  "(0x0000ffff :: u32) = field_mask 0 16" "(0x0000c000 :: u32) = field_mask 14 2"
  "(0x00003f00 :: u32) = field_mask 8 6"
  by (simp_all add: field_mask_def mask_eq_exp_minus_1)

lemmas async_field_laws = field_get_set_mask field_get_set_other_mask field_set_get_mask
  field_set_set_mask

interpretation ah_destination: packet_field async_header_get_destination async_header_set_destination 16
  by unfold_locales (simp_all only: field_defs async_masks, simp_all add: async_field_laws)

interpretation ah_tlabel: packet_field async_header_get_tlabel async_header_set_tlabel 6
  by unfold_locales (simp_all only: field_defs async_masks, simp_all add: async_field_laws)

interpretation ah_retry: packet_field async_header_get_retry async_header_set_retry 2
  by unfold_locales (simp_all only: field_defs async_masks, simp_all add: async_field_laws)

interpretation ah_tcode: packet_field async_header_get_tcode async_header_set_tcode 4
  by unfold_locales (simp_all only: field_defs async_masks, simp_all add: async_field_laws)

interpretation ah_priority: packet_field async_header_get_priority async_header_set_priority 4
  by unfold_locales (simp_all only: field_defs async_masks, simp_all add: async_field_laws)

interpretation ah_source: packet_field async_header_get_source async_header_set_source 16
  by unfold_locales (simp_all only: field_defs async_masks, simp_all add: async_field_laws)

interpretation ah_rcode: packet_field async_header_get_rcode async_header_set_rcode 4
  by unfold_locales (simp_all only: field_defs async_masks, simp_all add: async_field_laws)

interpretation ah_data_length: packet_field async_header_get_data_length async_header_set_data_length 16
  by unfold_locales (simp_all only: field_defs async_masks, simp_all add: async_field_laws)

interpretation ah_extended_tcode: packet_field async_header_get_extended_tcode async_header_set_extended_tcode 16
  by unfold_locales (simp_all only: field_defs async_masks, simp_all add: async_field_laws)

lemma low_quadlet_mask: "(0x00000000ffffffff :: u64) = field_mask 0 32"
  by (simp add: field_mask_def mask_eq_exp_minus_1)

lemma async_offset_get_set:
  "async_header_get_offset (async_header_set_offset h v) = take_bit 48 v"
  unfolding field_defs Let_def async_masks low_quadlet_mask field_get_def field_set_def
  by (intro bit_word_eqI) (auto simp: bit_simps)

interpretation ah_offset: packet_field async_header_get_offset async_header_set_offset 48
proof unfold_locales
  fix h :: async_header and v w :: u64
  show "async_header_get_offset (async_header_set_offset h v) = take_bit 48 v"
    by (rule async_offset_get_set)
  show "async_header_set_offset h (async_header_get_offset h) = h"
    unfolding field_defs Let_def async_masks low_quadlet_mask field_get_def field_set_def
    by (cases h) (auto simp: bit_eq_iff bit_simps dest: bit_imp_le_length)
  show "async_header_set_offset (async_header_set_offset h v) w = async_header_set_offset h w"
    unfolding field_defs Let_def async_masks by (simp add: field_set_set_mask)
qed

interpretation ah_quadlet_data: packet_field async_header_get_quadlet_data async_header_set_quadlet_data 32
  by unfold_locales (simp_all add: field_defs take_bit_word_eq_self)

interpretation ih_data_length: packet_field isoc_header_get_data_length isoc_header_set_data_length 16
  by unfold_locales (simp_all only: field_defs async_masks, simp_all add: async_field_laws)

interpretation ih_tag: packet_field isoc_header_get_tag isoc_header_set_tag 2
  by unfold_locales (simp_all only: field_defs async_masks, simp_all add: async_field_laws)

interpretation ih_channel: packet_field isoc_header_get_channel isoc_header_set_channel 6
  by unfold_locales (simp_all only: field_defs async_masks, simp_all add: async_field_laws)

interpretation ih_tcode: packet_field isoc_header_get_tcode isoc_header_set_tcode 4
  by unfold_locales (simp_all only: field_defs async_masks, simp_all add: async_field_laws)

interpretation ih_sy: packet_field isoc_header_get_sy isoc_header_set_sy 4
  by unfold_locales (simp_all only: field_defs async_masks, simp_all add: async_field_laws)

text \<open>
  Reading one field after writing another: the fields that do not share bits are independent.
  (\<open>rcode\<close> of a response shares its bits with the offset of a request, and the quadlet data of a
  quadlet packet shares its quadlet with length and extended tcode of a block packet.)
\<close>

lemma async_get_set_destination [field_laws, simp]:
  "async_header_get_tlabel (async_header_set_destination h v) = async_header_get_tlabel h"
  "async_header_get_retry (async_header_set_destination h v) = async_header_get_retry h"
  "async_header_get_tcode (async_header_set_destination h v) = async_header_get_tcode h"
  "async_header_get_priority (async_header_set_destination h v) = async_header_get_priority h"
  "async_header_get_source (async_header_set_destination h v) = async_header_get_source h"
  "async_header_get_rcode (async_header_set_destination h v) = async_header_get_rcode h"
  "async_header_get_data_length (async_header_set_destination h v) = async_header_get_data_length h"
  "async_header_get_extended_tcode (async_header_set_destination h v) = async_header_get_extended_tcode h"
  "async_header_get_offset (async_header_set_destination h v) = async_header_get_offset h"
  "async_header_get_quadlet_data (async_header_set_destination h v) = async_header_get_quadlet_data h"
  by (simp_all only: field_defs async_masks Let_def, simp_all add: async_field_laws)

lemma async_get_set_tlabel [field_laws, simp]:
  "async_header_get_destination (async_header_set_tlabel h v) = async_header_get_destination h"
  "async_header_get_retry (async_header_set_tlabel h v) = async_header_get_retry h"
  "async_header_get_tcode (async_header_set_tlabel h v) = async_header_get_tcode h"
  "async_header_get_priority (async_header_set_tlabel h v) = async_header_get_priority h"
  "async_header_get_source (async_header_set_tlabel h v) = async_header_get_source h"
  "async_header_get_rcode (async_header_set_tlabel h v) = async_header_get_rcode h"
  "async_header_get_data_length (async_header_set_tlabel h v) = async_header_get_data_length h"
  "async_header_get_extended_tcode (async_header_set_tlabel h v) = async_header_get_extended_tcode h"
  "async_header_get_offset (async_header_set_tlabel h v) = async_header_get_offset h"
  "async_header_get_quadlet_data (async_header_set_tlabel h v) = async_header_get_quadlet_data h"
  by (simp_all only: field_defs async_masks Let_def, simp_all add: async_field_laws)

lemma async_get_set_retry [field_laws, simp]:
  "async_header_get_destination (async_header_set_retry h v) = async_header_get_destination h"
  "async_header_get_tlabel (async_header_set_retry h v) = async_header_get_tlabel h"
  "async_header_get_tcode (async_header_set_retry h v) = async_header_get_tcode h"
  "async_header_get_priority (async_header_set_retry h v) = async_header_get_priority h"
  "async_header_get_source (async_header_set_retry h v) = async_header_get_source h"
  "async_header_get_rcode (async_header_set_retry h v) = async_header_get_rcode h"
  "async_header_get_data_length (async_header_set_retry h v) = async_header_get_data_length h"
  "async_header_get_extended_tcode (async_header_set_retry h v) = async_header_get_extended_tcode h"
  "async_header_get_offset (async_header_set_retry h v) = async_header_get_offset h"
  "async_header_get_quadlet_data (async_header_set_retry h v) = async_header_get_quadlet_data h"
  by (simp_all only: field_defs async_masks Let_def, simp_all add: async_field_laws)

lemma async_get_set_tcode [field_laws, simp]:
  "async_header_get_destination (async_header_set_tcode h v) = async_header_get_destination h"
  "async_header_get_tlabel (async_header_set_tcode h v) = async_header_get_tlabel h"
  "async_header_get_retry (async_header_set_tcode h v) = async_header_get_retry h"
  "async_header_get_priority (async_header_set_tcode h v) = async_header_get_priority h"
  "async_header_get_source (async_header_set_tcode h v) = async_header_get_source h"
  "async_header_get_rcode (async_header_set_tcode h v) = async_header_get_rcode h"
  "async_header_get_data_length (async_header_set_tcode h v) = async_header_get_data_length h"
  "async_header_get_extended_tcode (async_header_set_tcode h v) = async_header_get_extended_tcode h"
  "async_header_get_offset (async_header_set_tcode h v) = async_header_get_offset h"
  "async_header_get_quadlet_data (async_header_set_tcode h v) = async_header_get_quadlet_data h"
  by (simp_all only: field_defs async_masks Let_def, simp_all add: async_field_laws)

lemma async_get_set_priority [field_laws, simp]:
  "async_header_get_destination (async_header_set_priority h v) = async_header_get_destination h"
  "async_header_get_tlabel (async_header_set_priority h v) = async_header_get_tlabel h"
  "async_header_get_retry (async_header_set_priority h v) = async_header_get_retry h"
  "async_header_get_tcode (async_header_set_priority h v) = async_header_get_tcode h"
  "async_header_get_source (async_header_set_priority h v) = async_header_get_source h"
  "async_header_get_rcode (async_header_set_priority h v) = async_header_get_rcode h"
  "async_header_get_data_length (async_header_set_priority h v) = async_header_get_data_length h"
  "async_header_get_extended_tcode (async_header_set_priority h v) = async_header_get_extended_tcode h"
  "async_header_get_offset (async_header_set_priority h v) = async_header_get_offset h"
  "async_header_get_quadlet_data (async_header_set_priority h v) = async_header_get_quadlet_data h"
  by (simp_all only: field_defs async_masks Let_def, simp_all add: async_field_laws)

lemma async_get_set_source [field_laws, simp]:
  "async_header_get_destination (async_header_set_source h v) = async_header_get_destination h"
  "async_header_get_tlabel (async_header_set_source h v) = async_header_get_tlabel h"
  "async_header_get_retry (async_header_set_source h v) = async_header_get_retry h"
  "async_header_get_tcode (async_header_set_source h v) = async_header_get_tcode h"
  "async_header_get_priority (async_header_set_source h v) = async_header_get_priority h"
  "async_header_get_rcode (async_header_set_source h v) = async_header_get_rcode h"
  "async_header_get_data_length (async_header_set_source h v) = async_header_get_data_length h"
  "async_header_get_extended_tcode (async_header_set_source h v) = async_header_get_extended_tcode h"
  "async_header_get_offset (async_header_set_source h v) = async_header_get_offset h"
  "async_header_get_quadlet_data (async_header_set_source h v) = async_header_get_quadlet_data h"
  by (simp_all only: field_defs async_masks Let_def, simp_all add: async_field_laws)

lemma async_get_set_rcode [field_laws, simp]:
  "async_header_get_destination (async_header_set_rcode h v) = async_header_get_destination h"
  "async_header_get_tlabel (async_header_set_rcode h v) = async_header_get_tlabel h"
  "async_header_get_retry (async_header_set_rcode h v) = async_header_get_retry h"
  "async_header_get_tcode (async_header_set_rcode h v) = async_header_get_tcode h"
  "async_header_get_priority (async_header_set_rcode h v) = async_header_get_priority h"
  "async_header_get_source (async_header_set_rcode h v) = async_header_get_source h"
  "async_header_get_data_length (async_header_set_rcode h v) = async_header_get_data_length h"
  "async_header_get_extended_tcode (async_header_set_rcode h v) = async_header_get_extended_tcode h"
  "async_header_get_quadlet_data (async_header_set_rcode h v) = async_header_get_quadlet_data h"
  by (simp_all only: field_defs async_masks Let_def, simp_all add: async_field_laws)

lemma async_get_set_data_length [field_laws, simp]:
  "async_header_get_destination (async_header_set_data_length h v) = async_header_get_destination h"
  "async_header_get_tlabel (async_header_set_data_length h v) = async_header_get_tlabel h"
  "async_header_get_retry (async_header_set_data_length h v) = async_header_get_retry h"
  "async_header_get_tcode (async_header_set_data_length h v) = async_header_get_tcode h"
  "async_header_get_priority (async_header_set_data_length h v) = async_header_get_priority h"
  "async_header_get_source (async_header_set_data_length h v) = async_header_get_source h"
  "async_header_get_rcode (async_header_set_data_length h v) = async_header_get_rcode h"
  "async_header_get_extended_tcode (async_header_set_data_length h v) = async_header_get_extended_tcode h"
  "async_header_get_offset (async_header_set_data_length h v) = async_header_get_offset h"
  by (simp_all only: field_defs async_masks Let_def, simp_all add: async_field_laws)

lemma async_get_set_extended_tcode [field_laws, simp]:
  "async_header_get_destination (async_header_set_extended_tcode h v) = async_header_get_destination h"
  "async_header_get_tlabel (async_header_set_extended_tcode h v) = async_header_get_tlabel h"
  "async_header_get_retry (async_header_set_extended_tcode h v) = async_header_get_retry h"
  "async_header_get_tcode (async_header_set_extended_tcode h v) = async_header_get_tcode h"
  "async_header_get_priority (async_header_set_extended_tcode h v) = async_header_get_priority h"
  "async_header_get_source (async_header_set_extended_tcode h v) = async_header_get_source h"
  "async_header_get_rcode (async_header_set_extended_tcode h v) = async_header_get_rcode h"
  "async_header_get_data_length (async_header_set_extended_tcode h v) = async_header_get_data_length h"
  "async_header_get_offset (async_header_set_extended_tcode h v) = async_header_get_offset h"
  by (simp_all only: field_defs async_masks Let_def, simp_all add: async_field_laws)

lemma async_get_set_offset [field_laws, simp]:
  "async_header_get_destination (async_header_set_offset h v) = async_header_get_destination h"
  "async_header_get_tlabel (async_header_set_offset h v) = async_header_get_tlabel h"
  "async_header_get_retry (async_header_set_offset h v) = async_header_get_retry h"
  "async_header_get_tcode (async_header_set_offset h v) = async_header_get_tcode h"
  "async_header_get_priority (async_header_set_offset h v) = async_header_get_priority h"
  "async_header_get_source (async_header_set_offset h v) = async_header_get_source h"
  "async_header_get_data_length (async_header_set_offset h v) = async_header_get_data_length h"
  "async_header_get_extended_tcode (async_header_set_offset h v) = async_header_get_extended_tcode h"
  "async_header_get_quadlet_data (async_header_set_offset h v) = async_header_get_quadlet_data h"
  by (simp_all only: field_defs async_masks Let_def, simp_all add: async_field_laws)

lemma async_get_set_quadlet_data [field_laws, simp]:
  "async_header_get_destination (async_header_set_quadlet_data h v) = async_header_get_destination h"
  "async_header_get_tlabel (async_header_set_quadlet_data h v) = async_header_get_tlabel h"
  "async_header_get_retry (async_header_set_quadlet_data h v) = async_header_get_retry h"
  "async_header_get_tcode (async_header_set_quadlet_data h v) = async_header_get_tcode h"
  "async_header_get_priority (async_header_set_quadlet_data h v) = async_header_get_priority h"
  "async_header_get_source (async_header_set_quadlet_data h v) = async_header_get_source h"
  "async_header_get_rcode (async_header_set_quadlet_data h v) = async_header_get_rcode h"
  "async_header_get_offset (async_header_set_quadlet_data h v) = async_header_get_offset h"
  by (simp_all only: field_defs async_masks Let_def, simp_all add: async_field_laws)

lemmas async_get_set_same [field_laws, simp] =
  ah_destination.get_set ah_tlabel.get_set ah_retry.get_set ah_tcode.get_set ah_priority.get_set ah_source.get_set ah_rcode.get_set ah_data_length.get_set ah_extended_tcode.get_set ah_offset.get_set ah_quadlet_data.get_set

lemma isoc_get_set [field_laws, simp]:
  "isoc_header_get_tag (isoc_header_set_data_length h v) = isoc_header_get_tag h"
  "isoc_header_get_channel (isoc_header_set_data_length h v) = isoc_header_get_channel h"
  "isoc_header_get_tcode (isoc_header_set_data_length h v) = isoc_header_get_tcode h"
  "isoc_header_get_sy (isoc_header_set_data_length h v) = isoc_header_get_sy h"
  "isoc_header_get_data_length (isoc_header_set_tag h v) = isoc_header_get_data_length h"
  "isoc_header_get_channel (isoc_header_set_tag h v) = isoc_header_get_channel h"
  "isoc_header_get_tcode (isoc_header_set_tag h v) = isoc_header_get_tcode h"
  "isoc_header_get_sy (isoc_header_set_tag h v) = isoc_header_get_sy h"
  "isoc_header_get_data_length (isoc_header_set_channel h v) = isoc_header_get_data_length h"
  "isoc_header_get_tag (isoc_header_set_channel h v) = isoc_header_get_tag h"
  "isoc_header_get_tcode (isoc_header_set_channel h v) = isoc_header_get_tcode h"
  "isoc_header_get_sy (isoc_header_set_channel h v) = isoc_header_get_sy h"
  "isoc_header_get_data_length (isoc_header_set_tcode h v) = isoc_header_get_data_length h"
  "isoc_header_get_tag (isoc_header_set_tcode h v) = isoc_header_get_tag h"
  "isoc_header_get_channel (isoc_header_set_tcode h v) = isoc_header_get_channel h"
  "isoc_header_get_sy (isoc_header_set_tcode h v) = isoc_header_get_sy h"
  "isoc_header_get_data_length (isoc_header_set_sy h v) = isoc_header_get_data_length h"
  "isoc_header_get_tag (isoc_header_set_sy h v) = isoc_header_get_tag h"
  "isoc_header_get_channel (isoc_header_set_sy h v) = isoc_header_get_channel h"
  "isoc_header_get_tcode (isoc_header_set_sy h v) = isoc_header_get_tcode h"
  by (simp_all only: field_defs async_masks, simp_all add: async_field_laws)

lemmas isoc_get_set_same [field_laws, simp] =
  ih_data_length.get_set ih_tag.get_set ih_channel.get_set ih_tcode.get_set ih_sy.get_set

interpretation ah_label_source: independent_fields
    async_header_get_tlabel async_header_set_tlabel 6 async_header_get_source async_header_set_source 16
  by unfold_locales simp_all

end
