(* ===== verification/Phy_Packet.thy ===== *)
theory Phy_Packet
  imports Packet_Header
begin

text \<open>
  PHY packets after \<^verbatim>\<open>drivers/firewire/phy-packet-definitions.h\<close>: the PHY configuration packet, the
  self-ID packets that a node sends after a bus reset, the enumerator that splits the self-ID stream
  into one sequence per node, and the port states packed into a sequence.  A pointer into the
  stream is the list of quadlets from there on.
\<close>

section \<open>Fields\<close>

definition phy_packet_get_packet_identifier :: "u32 \<Rightarrow> u32" where
  [field_defs]: "phy_packet_get_packet_identifier q = field_get 0xc0000000 30 q"

definition phy_packet_set_packet_identifier :: "u32 \<Rightarrow> u32 \<Rightarrow> u32" where
  [field_defs]: "phy_packet_set_packet_identifier q v = field_set 0xc0000000 30 q v"

definition phy_packet_phy_config_get_root_id :: "u32 \<Rightarrow> u32" where
  [field_defs]: "phy_packet_phy_config_get_root_id q = field_get 0x3f000000 24 q"

definition phy_packet_phy_config_set_root_id :: "u32 \<Rightarrow> u32 \<Rightarrow> u32" where
  [field_defs]: "phy_packet_phy_config_set_root_id q v = field_set 0x3f000000 24 q v"

definition phy_packet_phy_config_get_force_root_node :: "u32 \<Rightarrow> bool" where
  [field_defs]: "phy_packet_phy_config_get_force_root_node q = flag_get 0x00800000 23 q"

definition phy_packet_phy_config_set_force_root_node :: "u32 \<Rightarrow> bool \<Rightarrow> u32" where
  [field_defs]: "phy_packet_phy_config_set_force_root_node q v = flag_set 0x00800000 23 q v"

definition phy_packet_phy_config_get_gap_count_optimization :: "u32 \<Rightarrow> bool" where
  [field_defs]: "phy_packet_phy_config_get_gap_count_optimization q = flag_get 0x00400000 22 q"

definition phy_packet_phy_config_set_gap_count_optimization :: "u32 \<Rightarrow> bool \<Rightarrow> u32" where
  [field_defs]: "phy_packet_phy_config_set_gap_count_optimization q v = flag_set 0x00400000 22 q v"

definition phy_packet_phy_config_get_gap_count :: "u32 \<Rightarrow> u32" where
  [field_defs]: "phy_packet_phy_config_get_gap_count q = field_get 0x003f0000 16 q"

definition phy_packet_phy_config_set_gap_count :: "u32 \<Rightarrow> u32 \<Rightarrow> u32" where
  [field_defs]: "phy_packet_phy_config_set_gap_count q v = field_set 0x003f0000 16 q v"

definition phy_packet_self_id_get_phy_id :: "u32 \<Rightarrow> u32" where
  [field_defs]: "phy_packet_self_id_get_phy_id q = field_get 0x3f000000 24 q"

definition phy_packet_self_id_set_phy_id :: "u32 \<Rightarrow> u32 \<Rightarrow> u32" where
  [field_defs]: "phy_packet_self_id_set_phy_id q v = field_set 0x3f000000 24 q v"

definition phy_packet_self_id_get_extended :: "u32 \<Rightarrow> bool" where
  [field_defs]: "phy_packet_self_id_get_extended q = flag_get 0x00800000 23 q"

definition phy_packet_self_id_set_extended :: "u32 \<Rightarrow> bool \<Rightarrow> u32" where
  [field_defs]: "phy_packet_self_id_set_extended q v = flag_set 0x00800000 23 q v"

definition phy_packet_self_id_zero_get_link_active :: "u32 \<Rightarrow> bool" where
  [field_defs]: "phy_packet_self_id_zero_get_link_active q = flag_get 0x00400000 22 q"

definition phy_packet_self_id_zero_set_link_active :: "u32 \<Rightarrow> bool \<Rightarrow> u32" where
  [field_defs]: "phy_packet_self_id_zero_set_link_active q v = flag_set 0x00400000 22 q v"

definition phy_packet_self_id_zero_get_gap_count :: "u32 \<Rightarrow> u32" where
  [field_defs]: "phy_packet_self_id_zero_get_gap_count q = field_get 0x003f0000 16 q"

definition phy_packet_self_id_zero_set_gap_count :: "u32 \<Rightarrow> u32 \<Rightarrow> u32" where
  [field_defs]: "phy_packet_self_id_zero_set_gap_count q v = field_set 0x003f0000 16 q v"

definition phy_packet_self_id_zero_get_scode :: "u32 \<Rightarrow> u32" where
  [field_defs]: "phy_packet_self_id_zero_get_scode q = field_get 0x0000c000 14 q"

definition phy_packet_self_id_zero_set_scode :: "u32 \<Rightarrow> u32 \<Rightarrow> u32" where
  [field_defs]: "phy_packet_self_id_zero_set_scode q v = field_set 0x0000c000 14 q v"

definition phy_packet_self_id_zero_get_contender :: "u32 \<Rightarrow> bool" where
  [field_defs]: "phy_packet_self_id_zero_get_contender q = flag_get 0x00000800 11 q"

definition phy_packet_self_id_zero_set_contender :: "u32 \<Rightarrow> bool \<Rightarrow> u32" where
  [field_defs]: "phy_packet_self_id_zero_set_contender q v = flag_set 0x00000800 11 q v"

definition phy_packet_self_id_zero_get_power_class :: "u32 \<Rightarrow> u32" where
  [field_defs]: "phy_packet_self_id_zero_get_power_class q = field_get 0x00000700 8 q"

definition phy_packet_self_id_zero_set_power_class :: "u32 \<Rightarrow> u32 \<Rightarrow> u32" where
  [field_defs]: "phy_packet_self_id_zero_set_power_class q v = field_set 0x00000700 8 q v"

definition phy_packet_self_id_zero_get_initiated_reset :: "u32 \<Rightarrow> bool" where
  [field_defs]: "phy_packet_self_id_zero_get_initiated_reset q = flag_get 0x00000002 1 q"

definition phy_packet_self_id_zero_set_initiated_reset :: "u32 \<Rightarrow> bool \<Rightarrow> u32" where
  [field_defs]: "phy_packet_self_id_zero_set_initiated_reset q v = flag_set 0x00000002 1 q v"

definition phy_packet_self_id_get_more_packets :: "u32 \<Rightarrow> bool" where
  [field_defs]: "phy_packet_self_id_get_more_packets q = flag_get 0x00000001 0 q"

definition phy_packet_self_id_set_more_packets :: "u32 \<Rightarrow> bool \<Rightarrow> u32" where
  [field_defs]: "phy_packet_self_id_set_more_packets q v = flag_set 0x00000001 0 q v"

definition phy_packet_self_id_extended_get_sequence :: "u32 \<Rightarrow> u32" where
  [field_defs]: "phy_packet_self_id_extended_get_sequence q = field_get 0x00700000 20 q"

text \<open>The setter shifts by \<^verbatim>\<open>SELF_ID_EXTENDED_SHIFT\<close>, 23, as the source does.\<close>

definition phy_packet_self_id_extended_set_sequence :: "u32 \<Rightarrow> u32 \<Rightarrow> u32" where
  [field_defs]: "phy_packet_self_id_extended_set_sequence q v = field_set 0x00700000 23 q v"

section \<open>Self-ID sequences\<close>

abbreviation (input) SELF_ID_SEQUENCE_MAXIMUM_QUADLET_COUNT :: nat where
  "SELF_ID_SEQUENCE_MAXIMUM_QUADLET_COUNT \<equiv> 4"

record self_id_sequence_enumerator =
  cursor :: "u32 list option"
  quadlet_count :: nat

text \<open>
  The \<open>while\<close> loop of \<^verbatim>\<open>self_id_sequence_enumerator_next\<close>: \<open>count\<close> quadlets have been read, the last of
  them is at \<open>count - 1\<close>.  A read happens only below the quadlet count of the enumerator.
\<close>

function self_id_sequence_scan :: "u32 list \<Rightarrow> nat \<Rightarrow> nat \<Rightarrow> u32 \<Rightarrow> errno + nat" where
  "self_id_sequence_scan p avail count seqno =
    (if phy_packet_self_id_get_more_packets (p ! (count - 1)) then
       if count \<ge> avail \<or> count \<ge> SELF_ID_SEQUENCE_MAXIMUM_QUADLET_COUNT then Inl EPROTO
       else
         let quadlet = p ! count in
         if \<not> phy_packet_self_id_get_extended quadlet \<or>
            seqno \<noteq> phy_packet_self_id_extended_get_sequence quadlet then Inl EPROTO
         else self_id_sequence_scan p avail (count + 1) (seqno + 1)
     else Inr count)"
  by pat_completeness auto
termination
  by (relation "measure (\<lambda>(p, avail, count, seqno). 4 - count)") auto

definition self_id_sequence_enumerator_next ::
  "self_id_sequence_enumerator \<Rightarrow> errno + (u32 list \<times> nat \<times> self_id_sequence_enumerator)" where
  "self_id_sequence_enumerator_next e =
    (case cursor e of
       None \<Rightarrow> Inl ENODATA
     | Some p \<Rightarrow>
         if quadlet_count e = 0 then Inl ENODATA
         else
           case self_id_sequence_scan p (quadlet_count e) 1 0 of
             Inl err \<Rightarrow> Inl err
           | Inr count \<Rightarrow>
               Inr (p, count, e\<lparr>cursor := Some (drop count p), quadlet_count := quadlet_count e - count\<rparr>))"

datatype port_status = PORT_NONE | PORT_NCONN | PORT_PARENT | PORT_CHILD

primrec port_status_code :: "port_status \<Rightarrow> u32" where
  "port_status_code PORT_NONE = 0"
| "port_status_code PORT_NCONN = 1"
| "port_status_code PORT_PARENT = 2"
| "port_status_code PORT_CHILD = 3"

definition port_status_of :: "u32 \<Rightarrow> port_status" where
  "port_status_of v = (if v = 0 then PORT_NONE else if v = 1 then PORT_NCONN
     else if v = 2 then PORT_PARENT else PORT_CHILD)"

text \<open>The unsigned subtraction wraps around below one quadlet.\<close>

definition self_id_sequence_get_port_capacity :: "nat \<Rightarrow> nat" where
  "self_id_sequence_get_port_capacity n = (n * 8 + (2 ^ 32 - 5)) mod 2 ^ 32"

definition self_id_sequence_get_port_status :: "u32 list \<Rightarrow> nat \<Rightarrow> nat \<Rightarrow> port_status" where
  "self_id_sequence_get_port_status sids n port_index =
    (let index = (port_index + 5) div 8; shift = 16 - ((port_index + 5) mod 8) * 2
     in if index < n \<and> index < SELF_ID_SEQUENCE_MAXIMUM_QUADLET_COUNT
        then port_status_of (drop_bit shift (sids ! index) AND 0x3)
        else PORT_NONE)"

definition self_id_sequence_set_port_status :: "u32 list \<Rightarrow> nat \<Rightarrow> nat \<Rightarrow> port_status \<Rightarrow> u32 list" where
  "self_id_sequence_set_port_status sids n port_index status =
    (let index = (port_index + 5) div 8; shift = 16 - ((port_index + 5) mod 8) * 2
     in if index < n
        then sids[index := ((sids ! index) AND NOT (push_bit shift 0x3)) OR
                           push_bit shift (port_status_code status)]
        else sids)"

section \<open>Laws of the fields\<close>

lemma phy_masks:
  "(0xc0000000 :: u32) = field_mask 30 2" "(0x3f000000 :: u32) = field_mask 24 6"
  "(0x00800000 :: u32) = field_mask 23 (Suc 0)" "(0x00400000 :: u32) = field_mask 22 (Suc 0)"
  "(0x003f0000 :: u32) = field_mask 16 6" "(0x0000c000 :: u32) = field_mask 14 2"
  "(0x00000800 :: u32) = field_mask 11 (Suc 0)" "(0x00000700 :: u32) = field_mask 8 3"
  "(0x00000002 :: u32) = field_mask 1 (Suc 0)" "(0x00000001 :: u32) = field_mask 0 (Suc 0)"
  "(0x00700000 :: u32) = field_mask 20 3"
  by (simp_all add: field_mask_def mask_eq_exp_minus_1)

interpretation pp_packet_identifier: packet_field phy_packet_get_packet_identifier phy_packet_set_packet_identifier 2
  unfolding field_defs [abs_def] phy_masks by (rule packet_field_mask) simp

interpretation pp_c_root_id: packet_field phy_packet_phy_config_get_root_id phy_packet_phy_config_set_root_id 6
  unfolding field_defs [abs_def] phy_masks by (rule packet_field_mask) simp

interpretation pp_c_force_root_node: packet_flag phy_packet_phy_config_get_force_root_node phy_packet_phy_config_set_force_root_node
  unfolding field_defs [abs_def] phy_masks by (rule packet_flag_mask) simp

interpretation pp_c_gap_count_optimization: packet_flag phy_packet_phy_config_get_gap_count_optimization phy_packet_phy_config_set_gap_count_optimization
  unfolding field_defs [abs_def] phy_masks by (rule packet_flag_mask) simp

interpretation pp_c_gap_count: packet_field phy_packet_phy_config_get_gap_count phy_packet_phy_config_set_gap_count 6
  unfolding field_defs [abs_def] phy_masks by (rule packet_field_mask) simp

interpretation pp_s_phy_id: packet_field phy_packet_self_id_get_phy_id phy_packet_self_id_set_phy_id 6
  unfolding field_defs [abs_def] phy_masks by (rule packet_field_mask) simp

interpretation pp_s_extended: packet_flag phy_packet_self_id_get_extended phy_packet_self_id_set_extended
  unfolding field_defs [abs_def] phy_masks by (rule packet_flag_mask) simp

interpretation pp_s_link_active: packet_flag phy_packet_self_id_zero_get_link_active phy_packet_self_id_zero_set_link_active
  unfolding field_defs [abs_def] phy_masks by (rule packet_flag_mask) simp

interpretation pp_s_gap_count: packet_field phy_packet_self_id_zero_get_gap_count phy_packet_self_id_zero_set_gap_count 6
  unfolding field_defs [abs_def] phy_masks by (rule packet_field_mask) simp

interpretation pp_s_scode: packet_field phy_packet_self_id_zero_get_scode phy_packet_self_id_zero_set_scode 2
  unfolding field_defs [abs_def] phy_masks by (rule packet_field_mask) simp

interpretation pp_s_contender: packet_flag phy_packet_self_id_zero_get_contender phy_packet_self_id_zero_set_contender
  unfolding field_defs [abs_def] phy_masks by (rule packet_flag_mask) simp

interpretation pp_s_power_class: packet_field phy_packet_self_id_zero_get_power_class phy_packet_self_id_zero_set_power_class 3
  unfolding field_defs [abs_def] phy_masks by (rule packet_field_mask) simp

interpretation pp_s_initiated_reset: packet_flag phy_packet_self_id_zero_get_initiated_reset phy_packet_self_id_zero_set_initiated_reset
  unfolding field_defs [abs_def] phy_masks by (rule packet_flag_mask) simp

interpretation pp_s_more_packets: packet_flag phy_packet_self_id_get_more_packets phy_packet_self_id_set_more_packets
  unfolding field_defs [abs_def] phy_masks by (rule packet_flag_mask) simp

lemma extended_sequence_setter_stores_nothing:
  "phy_packet_self_id_extended_get_sequence (phy_packet_self_id_extended_set_sequence q v) = 0"
  unfolding field_defs phy_masks field_get_def field_set_def
  by (intro bit_word_eqI) (auto simp: bit_simps)

lemma config_fields_independent [field_laws, simp]:
  "phy_packet_get_packet_identifier (phy_packet_phy_config_set_root_id q v) = phy_packet_get_packet_identifier q"
  "phy_packet_get_packet_identifier (phy_packet_phy_config_set_gap_count q v) = phy_packet_get_packet_identifier q"
  "phy_packet_phy_config_get_root_id (phy_packet_phy_config_set_gap_count q v) = phy_packet_phy_config_get_root_id q"
  "phy_packet_phy_config_get_gap_count (phy_packet_phy_config_set_root_id q v) = phy_packet_phy_config_get_gap_count q"
  unfolding field_defs phy_masks by (simp_all add: field_get_set_other_mask)

interpretation pp_root_gap: independent_fields
    phy_packet_phy_config_get_root_id phy_packet_phy_config_set_root_id 6
    phy_packet_phy_config_get_gap_count phy_packet_phy_config_set_gap_count 6
  by unfold_locales simp_all

text \<open>Writing a flag leaves every field without that bit alone, and the other way round.\<close>

lemma field_get_flag_set:
  assumes "t < s \<or> s + n \<le> t"
  shows "field_get (field_mask s n) s (flag_set (field_mask t (Suc 0)) t (q :: 'a::len word) b) =
    field_get (field_mask s n) s q"
  using assms by (intro bit_word_eqI) (auto simp: field_get_def bit_simps bit_flag_set split: if_splits)

lemma flag_get_field_set:
  assumes "t < s \<or> s + n \<le> t" "t < LENGTH('a)"
  shows "flag_get (field_mask t (Suc 0)) t (field_set (field_mask s n) s (q :: 'a::len word) v) =
    flag_get (field_mask t (Suc 0)) t q"
  using assms by (auto simp: flag_get_bit field_set_def bit_simps)

lemma flag_get_flag_set:
  assumes "s \<noteq> t" "t < LENGTH('a)"
  shows "flag_get (field_mask t (Suc 0)) t (flag_set (field_mask s (Suc 0)) s (q :: 'a::len word) b) =
    flag_get (field_mask t (Suc 0)) t q"
  using assms by (auto simp: flag_get_bit bit_flag_set)

lemmas field_flag_laws = field_get_flag_set flag_get_field_set flag_get_flag_set

section \<open>What the enumerator accepts\<close>

text \<open>A well-formed sequence: up to four quadlets, all but the last announce another one, and
  each quadlet after the first is an extended packet with the next sequence number.\<close>

definition self_id_sequence_wf :: "u32 list \<Rightarrow> bool" where
  "self_id_sequence_wf s \<longleftrightarrow>
     1 \<le> length s \<and> length s \<le> SELF_ID_SEQUENCE_MAXIMUM_QUADLET_COUNT \<and>
     (\<forall>i < length s. phy_packet_self_id_get_more_packets (s ! i) \<longleftrightarrow> i + 1 < length s) \<and>
     (\<forall>i < length s. 0 < i \<longrightarrow> phy_packet_self_id_get_extended (s ! i) \<and>
        phy_packet_self_id_extended_get_sequence (s ! i) = of_nat (i - 1))"

declare self_id_sequence_scan.simps [simp del]

lemma self_id_sequence_scan_iff:
  "1 \<le> k \<Longrightarrow> self_id_sequence_scan p avail k s = Inr c \<longleftrightarrow>
     k \<le> c \<and> \<not> phy_packet_self_id_get_more_packets (p ! (c - 1)) \<and>
     (\<forall>i. k \<le> i \<and> i < c \<longrightarrow> i < avail \<and> i < 4 \<and> phy_packet_self_id_get_more_packets (p ! (i - 1)) \<and>
        phy_packet_self_id_get_extended (p ! i) \<and>
        phy_packet_self_id_extended_get_sequence (p ! i) = s + of_nat (i - k))"
  (is "_ \<Longrightarrow> _ \<longleftrightarrow> ?ok p avail k s c")
proof (induction p avail k s rule: self_id_sequence_scan.induct)
  case (1 p avail k s)
  let ?more = "\<lambda>i. phy_packet_self_id_get_more_packets (p ! i)"
  let ?good = "\<lambda>s i. phy_packet_self_id_get_extended (p ! i) \<and>
      phy_packet_self_id_extended_get_sequence (p ! i) = s"
  show ?case
  proof (cases "?more (k - 1)")
    case False
    then have "?ok p avail k s c \<longleftrightarrow> c = k"
      by (metis le_eq_less_or_eq le_refl not_less)
    with False show ?thesis by (auto simp: self_id_sequence_scan.simps [of p avail k s])
  next
    case more: True
    note IH = "1.IH" [OF more _ refl]
    have step: "?ok p avail k s c \<longleftrightarrow> k < avail \<and> k < 4 \<and> ?good s k \<and> ?ok p avail (k + 1) (s + 1) c"
      (is "?L \<longleftrightarrow> ?R")
    proof
      assume L: ?L
      with more have "k \<noteq> c" by auto
      with L have "k < c" by simp
      with L more show ?R
        by (auto simp: Suc_diff_le)
    next
      assume R: ?R
      show ?L
      proof (intro conjI allI impI)
        show "k \<le> c" "\<not> ?more (c - 1)" using R by simp_all
        fix i assume i: "k \<le> i \<and> i < c"
        show "i < avail" "i < 4" "?more (i - 1)" "phy_packet_self_id_get_extended (p ! i)"
          "phy_packet_self_id_extended_get_sequence (p ! i) = s + of_nat (i - k)"
          using R i more by (cases "i = k"; auto simp: Suc_diff_Suc [symmetric] add.assoc)+
      qed
    qed
    show ?thesis
    proof (cases "k < avail \<and> k < 4 \<and> ?good s k")
      case True
      then have "self_id_sequence_scan p avail k s = self_id_sequence_scan p avail (k + 1) (s + 1)"
        using more by (simp add: self_id_sequence_scan.simps [of p avail k s] Let_def)
      moreover have "self_id_sequence_scan p avail (k + 1) (s + 1) = Inr c \<longleftrightarrow> ?ok p avail (k + 1) (s + 1) c"
        using True by (intro IH) auto
      ultimately show ?thesis using True unfolding step by (simp only: simp_thms)
    next
      case False
      then have "self_id_sequence_scan p avail k s = Inl EPROTO"
        using more by (auto simp: self_id_sequence_scan.simps [of p avail k s] Let_def)
      then have "self_id_sequence_scan p avail k s \<noteq> Inr c" by simp
      with False show ?thesis unfolding step by blast
    qed
  qed
qed

lemma self_id_sequence_scan_wf:
  assumes "0 < avail" "avail \<le> length p"
  shows "self_id_sequence_scan p avail 1 0 = Inr c \<longleftrightarrow> c \<le> avail \<and> self_id_sequence_wf (take c p)"
proof
  assume ok: "self_id_sequence_scan p avail 1 0 = Inr c"
  then have c: "1 \<le> c" and no_more: "\<not> phy_packet_self_id_get_more_packets (p ! (c - 1))"
    and ext: "\<And>i. 1 \<le> i \<Longrightarrow> i < c \<Longrightarrow> i < avail \<and> i < 4 \<and>
        phy_packet_self_id_get_more_packets (p ! (i - 1)) \<and> phy_packet_self_id_get_extended (p ! i) \<and>
        phy_packet_self_id_extended_get_sequence (p ! i) = of_nat (i - 1)"
    using self_id_sequence_scan_iff [of 1 p avail 0 c] by auto
  have bound: "c \<le> avail \<and> c \<le> 4"
  proof (cases "c = 1")
    case True
    then show ?thesis using assms by simp
  next
    case False
    with c have "1 \<le> c - 1" "c - 1 < c" by simp_all
    from ext [OF this] have "c - 1 < avail" "c - 1 < 4" by blast+
    then show ?thesis by linarith
  qed
  have "phy_packet_self_id_get_more_packets (p ! i) \<longleftrightarrow> i + 1 < c" if "i < c" for i
    using ext [of "i + 1"] no_more that by (cases "i + 1 < c") (auto dest: Suc_lessI)
  then show "c \<le> avail \<and> self_id_sequence_wf (take c p)"
    using c bound assms ext by (auto simp: self_id_sequence_wf_def)
next
  assume wf: "c \<le> avail \<and> self_id_sequence_wf (take c p)"
  with assms have len: "length (take c p) = c" by simp
  from wf len have "\<And>i. i < c \<Longrightarrow> phy_packet_self_id_get_more_packets (p ! i) \<longleftrightarrow> i + 1 < c"
    and "\<And>i. i < c \<Longrightarrow> 0 < i \<Longrightarrow> phy_packet_self_id_get_extended (p ! i) \<and>
        phy_packet_self_id_extended_get_sequence (p ! i) = of_nat (i - 1)"
    and "1 \<le> c" "c \<le> 4"
    by (auto simp: self_id_sequence_wf_def)
  with wf assms show "self_id_sequence_scan p avail 1 0 = Inr c"
    by (subst self_id_sequence_scan_iff) auto
qed

lemma self_id_sequence_enumerator_next_Inr:
  assumes "cursor e = Some p" "quadlet_count e \<le> length p"
  shows "self_id_sequence_enumerator_next e = Inr (s, n, e') \<longleftrightarrow>
    s = p \<and> n \<le> quadlet_count e \<and> self_id_sequence_wf (take n p) \<and>
    e' = e\<lparr>cursor := Some (drop n p), quadlet_count := quadlet_count e - n\<rparr>"
proof (cases "quadlet_count e = 0")
  case True
  then show ?thesis
    using assms by (auto simp: self_id_sequence_enumerator_next_def self_id_sequence_wf_def)
next
  case False
  then show ?thesis
    using assms self_id_sequence_scan_wf [of "quadlet_count e" p n]
    by (cases "self_id_sequence_scan p (quadlet_count e) 1 0")
      (auto simp: self_id_sequence_enumerator_next_def)
qed

lemma self_id_sequence_enumerator_next_err:
  "self_id_sequence_enumerator_next e = Inl err \<Longrightarrow>
     (err = ENODATA \<longleftrightarrow> cursor e = None \<or> quadlet_count e = 0)"
proof -
  have "self_id_sequence_scan p a k s = Inl x \<Longrightarrow> x = EPROTO" for p a k s x
    by (induction p a k s rule: self_id_sequence_scan.induct)
      (subst (asm) (2) self_id_sequence_scan.simps, auto simp: Let_def split: if_splits)
  then show "self_id_sequence_enumerator_next e = Inl err \<Longrightarrow> ?thesis"
    by (fastforce simp: self_id_sequence_enumerator_next_def split: option.splits if_splits sum.splits)
qed

lemma self_id_sequence_wf_length: "self_id_sequence_wf s \<Longrightarrow> 0 < length s \<and> length s \<le> 4"
  by (auto simp: self_id_sequence_wf_def)

section \<open>Port states\<close>

lemma port_status_of_code [simp]: "port_status_of (port_status_code st) = st"
  by (cases st) (auto simp: port_status_of_def)

lemma port_status_code_mask: "port_status_code st AND 0x3 = port_status_code st"
  by (cases st) auto

lemma port_shift_distinct:
  "(i + 5) div 8 = (j + 5) div 8 \<Longrightarrow> i \<noteq> j \<Longrightarrow>
    16 - ((i + 5) mod 8) * 2 + 2 \<le> 16 - ((j + 5) mod 8) * 2 \<or>
    16 - ((j + 5) mod 8) * 2 + 2 \<le> 16 - ((i + 5) mod 8) * (2::nat)"
proof -
  assume eq: "(i + 5) div 8 = (j + 5) div 8" and ne: "i \<noteq> j"
  have "(i + 5) mod 8 \<noteq> (j + 5) mod 8"
    using eq ne by (metis add_right_cancel div_mult_mod_eq)
  moreover have "(i + 5) mod 8 < 8" "(j + 5) mod 8 < 8" by simp_all
  ultimately show ?thesis by arith
qed

lemma port_bits_store:
  fixes q v :: u32
  assumes "s \<le> 16" "v AND 0x3 = v"
  shows "drop_bit s ((q AND NOT (push_bit s 0x3)) OR push_bit s v) AND 0x3 = v"
proof -
  have three: "(0x3 :: u32) = mask 2" by (simp add: mask_eq_exp_minus_1)
  have small: "k < 2" if "bit v k" for k
    using that assms(2) by (metis three bit_and_iff bit_mask_iff)
  show ?thesis
    using assms(1) unfolding three
    by (intro bit_word_eqI) (auto simp: bit_simps dest: small bit_imp_le_length)
qed

lemma port_bits_frame:
  fixes q v :: u32
  assumes "s + 2 \<le> t \<or> t + 2 \<le> s" "v AND 0x3 = v"
  shows "drop_bit t ((q AND NOT (push_bit s 0x3)) OR push_bit s v) AND 0x3 = drop_bit t q AND 0x3"
proof -
  have three: "(0x3 :: u32) = mask 2" by (simp add: mask_eq_exp_minus_1)
  have small: "k < 2" if "bit v k" for k
    using that assms(2) by (metis three bit_and_iff bit_mask_iff)
  show ?thesis
    using assms(1) unfolding three
    by (intro bit_word_eqI) (auto simp: bit_simps dest: small bit_imp_le_length)
qed

lemma get_set_port_status:
  assumes "n \<le> length sids" "(i + 5) div 8 < n" "n \<le> 4"
  shows "self_id_sequence_get_port_status (self_id_sequence_set_port_status sids n i st) n j =
    (if j = i then st else self_id_sequence_get_port_status sids n j)"
proof (cases "(j + 5) div 8 = (i + 5) div 8")
  case False
  then have "j \<noteq> i" by auto
  with False assms show ?thesis
    by (simp add: self_id_sequence_get_port_status_def self_id_sequence_set_port_status_def Let_def)
next
  case True
  with assms show ?thesis
    using port_shift_distinct [of j i]
    by (auto simp: self_id_sequence_get_port_status_def self_id_sequence_set_port_status_def Let_def
        port_bits_store port_status_code_mask simp del: drop_bit_and drop_bit_or intro!: arg_cong [where f = port_status_of] port_bits_frame)
qed

end
