(* ===== verification/Config_Rom.thy ===== *)
theory Config_Rom
  imports Fw_Prelude
begin

text \<open>
  The configuration ROM of the local node, after \<^verbatim>\<open>drivers/firewire/core-card.c\<close>: the list of
  descriptors that drivers register, the generation of the ROM image from it, and the checksum of
  its blocks.  A big-endian quadlet in memory is the value it stands for; the checksum function of
  the kernel library, which works on the bytes, is the parameter \<open>crc_itu_t\<close>.
\<close>

section \<open>Descriptors and the image\<close>

record fw_descriptor =
  desc_length :: nat
  immediate :: u32
  key :: u32
  data :: "u32 list"

text \<open>The part of a card the image depends on, and the image last handed to \<open>set_config_rom\<close> of its
  driver.\<close>

record rom_card =
  link_speed :: u32
  config_rom_generation :: nat
  max_receive :: u32
  guid :: u64
  config_rom :: "u32 list"

record rom_state =
  descriptor_list :: "fw_descriptor list"
  descriptor_count :: nat
  config_rom_length :: nat
  tmp_config_rom :: "u32 list"
  card_list :: "rom_card list"

definition rom_init :: rom_state where
  "rom_init = \<lparr>descriptor_list = [], descriptor_count = 0, config_rom_length = 1 + 4 + 1 + 1,
     tmp_config_rom = replicate 256 0, card_list = []\<rparr>"

definition be32_bytes :: "u32 \<Rightarrow> u8 list" where
  "be32_bytes q = [ucast (drop_bit 24 q), ucast (drop_bit 16 q), ucast (drop_bit 8 q), ucast q]"

text \<open>\<open>fw_compute_block_crc\<close> gets a pointer to the block; here it is the index of the block in the
  buffer.  It returns the buffer and the length it read.\<close>

definition fw_compute_block_crc ::
  "(u16 \<Rightarrow> u8 list \<Rightarrow> u16) \<Rightarrow> u32 list \<Rightarrow> nat \<Rightarrow> u32 list \<times> nat" where
  "fw_compute_block_crc crc_itu_t rom i =
    (let len = unat (drop_bit 16 (rom ! i) AND 0xff);
         crc = crc_itu_t 0 (concat (map be32_bytes (take len (drop (i + 1) rom))))
     in (rom[i := rom ! i OR ucast crc], len))"

fun rom_root_entries :: "fw_descriptor list \<Rightarrow> u32 list \<Rightarrow> nat \<Rightarrow> nat \<Rightarrow> u32 list \<times> nat \<times> nat" where
  "rom_root_entries [] rom i j = (rom, i, j)"
| "rom_root_entries (desc # ds) rom i j =
    (let (rom, i) = (if immediate desc > 0 then (rom[i := immediate desc], i + 1) else (rom, i));
         rom = rom[i := key desc OR of_nat (j - i)]
     in rom_root_entries ds rom (i + 1) (j + desc_length desc))"

definition rom_copy_data :: "fw_descriptor \<Rightarrow> u32 list \<Rightarrow> nat \<Rightarrow> u32 list" where
  "rom_copy_data desc rom i = foldl (\<lambda>rom k. rom[i + k := data desc ! k]) rom [0..<desc_length desc]"

fun rom_copy_descriptors :: "fw_descriptor list \<Rightarrow> u32 list \<Rightarrow> nat \<Rightarrow> u32 list \<times> nat" where
  "rom_copy_descriptors [] rom i = (rom, i)"
| "rom_copy_descriptors (desc # ds) rom i =
    rom_copy_descriptors ds (rom_copy_data desc rom i) (i + desc_length desc)"

function rom_crc_blocks :: "(u16 \<Rightarrow> u8 list \<Rightarrow> u16) \<Rightarrow> u32 list \<Rightarrow> nat \<Rightarrow> nat \<Rightarrow> u32 list" where
  "rom_crc_blocks crc_itu_t rom i j =
    (if i < j then
       let (rom, len) = fw_compute_block_crc crc_itu_t rom i
       in rom_crc_blocks crc_itu_t rom (i + (len + 1)) j
     else rom)"
  by pat_completeness auto
termination
  by (relation "measure (\<lambda>(crc, rom, i, j). j - i)") auto

text \<open>The image before its checksums: the buffer, the end of the root directory and the end of the
  image.\<close>

definition generate_config_rom_body ::
  "rom_state \<Rightarrow> rom_card \<Rightarrow> u32 list \<Rightarrow> u32 list \<times> nat" where
  "generate_config_rom_body st c rom =
    (let rom = rom[0 := push_bit 16 4 OR push_bit 24 4 OR push_bit 0 0];
         rom = rom[1 := 0x31333934];
         rom = rom[2 := push_bit 0 (link_speed c) OR
                        push_bit 4 (of_nat (config_rom_generation c mod 14 + 2)) OR
                        push_bit 8 2 OR push_bit 12 (max_receive c) OR
                        push_bit 28 1 OR push_bit 29 1 OR push_bit 30 1 OR push_bit 31 1];
         rom = rom[3 := ucast (drop_bit 32 (guid c))];
         rom = rom[4 := ucast (guid c)];
         rom = rom[6 := 0x0c0083c0];
         (rom, i, j) = rom_root_entries (descriptor_list st) rom 7 (7 + descriptor_count st);
         rom = rom[5 := push_bit 16 (of_nat (i - 5 - 1))];
         (rom, i) = rom_copy_descriptors (descriptor_list st) rom i
     in (rom, j))"

text \<open>The result also says whether the \<open>WARN_ON\<close> at the end fires.\<close>

definition generate_config_rom ::
  "(u16 \<Rightarrow> u8 list \<Rightarrow> u16) \<Rightarrow> rom_state \<Rightarrow> rom_card \<Rightarrow> u32 list \<Rightarrow> u32 list \<times> rom_card \<times> bool" where
  "generate_config_rom crc_itu_t st c rom =
    (let (rom, j) = generate_config_rom_body st c rom
     in (rom_crc_blocks crc_itu_t rom 0 j,
         c\<lparr>config_rom_generation := config_rom_generation c + 1\<rparr>,
         j \<noteq> config_rom_length st))"

text \<open>Every card on the list gets the image, generated in one shared buffer.\<close>

fun update_config_roms_loop ::
  "(u16 \<Rightarrow> u8 list \<Rightarrow> u16) \<Rightarrow> rom_state \<Rightarrow> rom_card list \<Rightarrow> u32 list \<Rightarrow> rom_card list \<times> u32 list" where
  "update_config_roms_loop crc_itu_t st [] tmp = ([], tmp)"
| "update_config_roms_loop crc_itu_t st (c # cs) tmp =
    (let (tmp, c, warn) = generate_config_rom crc_itu_t st c tmp;
         c = c\<lparr>config_rom := take (config_rom_length st) tmp\<rparr>;
         (cs, tmp) = update_config_roms_loop crc_itu_t st cs tmp
     in (c # cs, tmp))"

definition update_config_roms :: "(u16 \<Rightarrow> u8 list \<Rightarrow> u16) \<Rightarrow> rom_state \<Rightarrow> rom_state" where
  "update_config_roms crc_itu_t st =
    (let (cs, tmp) = update_config_roms_loop crc_itu_t st (card_list st) (tmp_config_rom st)
     in st\<lparr>card_list := cs, tmp_config_rom := tmp\<rparr>)"

definition required_space :: "fw_descriptor \<Rightarrow> nat" where
  "required_space desc = desc_length desc + 1 + (if immediate desc > 0 then 1 else 0)"

text \<open>The loop that adds up the lengths of the blocks of a descriptor.\<close>

function descriptor_blocks_end :: "fw_descriptor \<Rightarrow> nat \<Rightarrow> nat" where
  "descriptor_blocks_end desc i =
    (if i < desc_length desc
     then descriptor_blocks_end desc (i + (unat (drop_bit 16 (data desc ! i)) + 1))
     else i)"
  by pat_completeness auto
termination
  by (relation "measure (\<lambda>(desc, i). desc_length desc - i)") auto

definition fw_core_add_descriptor ::
  "(u16 \<Rightarrow> u8 list \<Rightarrow> u16) \<Rightarrow> rom_state \<Rightarrow> fw_descriptor \<Rightarrow> errno + rom_state" where
  "fw_core_add_descriptor crc_itu_t st desc =
    (if descriptor_blocks_end desc 0 \<noteq> desc_length desc then Inl EINVAL
     else if config_rom_length st + required_space desc > 256 then Inl EBUSY
     else
       let st = st\<lparr>descriptor_list := descriptor_list st @ [desc],
                    config_rom_length := config_rom_length st + required_space desc,
                    descriptor_count := descriptor_count st + 1\<rparr>;
           st = (if immediate desc > 0 then st\<lparr>descriptor_count := descriptor_count st + 1\<rparr> else st)
       in Inr (update_config_roms crc_itu_t st))"

definition fw_core_remove_descriptor ::
  "(u16 \<Rightarrow> u8 list \<Rightarrow> u16) \<Rightarrow> rom_state \<Rightarrow> fw_descriptor \<Rightarrow> rom_state" where
  "fw_core_remove_descriptor crc_itu_t st desc =
    (let st = st\<lparr>descriptor_list := remove1 desc (descriptor_list st),
                  config_rom_length := config_rom_length st - required_space desc,
                  descriptor_count := descriptor_count st - 1\<rparr>;
         st = (if immediate desc > 0 then st\<lparr>descriptor_count := descriptor_count st - 1\<rparr> else st)
     in update_config_roms crc_itu_t st)"


section \<open>The layout of the image\<close>

text \<open>What the image is meant to be: header, bus information block, root directory with one entry
  per descriptor that points to it, and the descriptors one after the other.\<close>

definition descriptor_blob :: "fw_descriptor \<Rightarrow> u32 list" where
  "descriptor_blob d = take (desc_length d) (data d)"

definition descriptor_entries :: "fw_descriptor \<Rightarrow> nat" where
  "descriptor_entries d = 1 + (if immediate d > 0 then 1 else 0)"

fun directory_entries :: "nat \<Rightarrow> nat \<Rightarrow> fw_descriptor list \<Rightarrow> u32 list" where
  "directory_entries i j [] = []"
| "directory_entries i j (d # ds) =
    (if immediate d > 0 then [immediate d, key d OR of_nat (j - (i + 1))]
     else [key d OR of_nat (j - i)]) @
    directory_entries (i + descriptor_entries d) (j + desc_length d) ds"

definition bus_info_block :: "rom_card \<Rightarrow> u32 list" where
  "bus_info_block c =
    [push_bit 16 4 OR push_bit 24 4 OR push_bit 0 0, 0x31333934,
     push_bit 0 (link_speed c) OR push_bit 4 (of_nat (config_rom_generation c mod 14 + 2)) OR
       push_bit 8 2 OR push_bit 12 (max_receive c) OR
       push_bit 28 1 OR push_bit 29 1 OR push_bit 30 1 OR push_bit 31 1,
     ucast (drop_bit 32 (guid c)), ucast (guid c)]"

definition root_directory :: "fw_descriptor list \<Rightarrow> u32 list" where
  "root_directory ds =
    (let es = directory_entries 7 (7 + sum_list (map descriptor_entries ds)) ds
     in [push_bit 16 (of_nat (1 + length es)), 0x0c0083c0] @ es)"

definition rom_layout :: "fw_descriptor list \<Rightarrow> rom_card \<Rightarrow> u32 list" where
  "rom_layout ds c = bus_info_block c @ root_directory ds @ concat (map descriptor_blob ds)"

definition rom_wf :: "rom_state \<Rightarrow> bool" where
  "rom_wf st \<longleftrightarrow>
     config_rom_length st = 7 + sum_list (map required_space (descriptor_list st)) \<and>
     descriptor_count st = sum_list (map descriptor_entries (descriptor_list st)) \<and>
     config_rom_length st \<le> 256 \<and> length (tmp_config_rom st) = 256 \<and>
     (\<forall>d \<in> set (descriptor_list st).
        desc_length d \<le> length (data d) \<and> descriptor_blocks_end d 0 = desc_length d)"

declare rom_crc_blocks.simps [simp del] descriptor_blocks_end.simps [simp del]

lemma length_directory_entries [simp]:
  "length (directory_entries i j ds) = sum_list (map descriptor_entries ds)"
  by (induction i j ds rule: directory_entries.induct) (auto simp: descriptor_entries_def)

lemma length_descriptor_blob: "desc_length d \<le> length (data d) \<Longrightarrow> length (descriptor_blob d) = desc_length d"
  by (simp add: descriptor_blob_def)

lemma required_space_split: "required_space d = descriptor_entries d + desc_length d"
  by (simp add: required_space_def descriptor_entries_def)

lemma sum_required_space:
  "sum_list (map required_space ds) =
    sum_list (map descriptor_entries ds) + sum_list (map desc_length ds)"
  by (induction ds) (simp_all add: required_space_split)

lemma rom_root_entries_layout:
  "i + sum_list (map descriptor_entries ds) \<le> length rom \<Longrightarrow>
    rom_root_entries ds rom i j =
      (overwrite rom i (directory_entries i j ds), i + sum_list (map descriptor_entries ds),
       j + sum_list (map desc_length ds))"
proof (induction ds arbitrary: rom i j)
  case Nil
  then show ?case by simp
next
  case (Cons d ds)
  let ?es = "if immediate d > 0 then [immediate d, key d OR of_nat (j - (i + 1))]
     else [key d OR of_nat (j - i)]"
  have len: "length ?es = descriptor_entries d" by (simp add: descriptor_entries_def)
  have "rom_root_entries (d # ds) rom i j =
      rom_root_entries ds (overwrite rom i ?es) (i + descriptor_entries d) (j + desc_length d)"
    using Cons.prems overwrite_overwrite [of i "[immediate d]" _ rom]
    by (auto simp: list_update_overwrite1 descriptor_entries_def)
  also have "\<dots> = (overwrite (overwrite rom i ?es) (i + descriptor_entries d)
        (directory_entries (i + descriptor_entries d) (j + desc_length d) ds),
      i + sum_list (map descriptor_entries (d # ds)), j + sum_list (map desc_length (d # ds)))"
    using Cons.prems len by (subst Cons.IH) (simp_all add: add.assoc)
  also have "overwrite (overwrite rom i ?es) (i + descriptor_entries d)
        (directory_entries (i + descriptor_entries d) (j + desc_length d) ds) =
      overwrite rom i (directory_entries i j (d # ds))"
    using Cons.prems overwrite_overwrite [of i ?es _ rom] len by (simp add: add.assoc)
  finally show ?case .
qed

lemma rom_copy_data_layout:
  assumes "desc_length d \<le> length (data d)" "i + desc_length d \<le> length rom"
  shows "rom_copy_data d rom i = overwrite rom i (descriptor_blob d)"
proof -
  have "foldl (\<lambda>rom k. rom[i + k := data d ! k]) rom [0..<n] = overwrite rom i (take n (data d))"
    if "n \<le> desc_length d" for n
    using that
  proof (induction n)
    case 0
    then show ?case by simp
  next
    case (Suc n)
    with assms have len: "length (take n (data d)) = n" by simp
    have "foldl (\<lambda>rom k. rom[i + k := data d ! k]) rom [0..<Suc n] =
        (overwrite rom i (take n (data d)))[i + n := data d ! n]"
      using Suc by simp
    also have "\<dots> = overwrite rom i (take n (data d) @ [data d ! n])"
      using Suc.prems assms overwrite_overwrite [of i "take n (data d)" "[data d ! n]" rom]
      by (subst list_update_overwrite1) (simp_all add: len)
    finally show ?case using Suc.prems assms by (simp add: take_Suc_conv_app_nth)
  qed
  then show ?thesis by (simp add: rom_copy_data_def descriptor_blob_def)
qed

lemma rom_copy_descriptors_layout:
  assumes "\<forall>d \<in> set ds. desc_length d \<le> length (data d)"
    "i + sum_list (map desc_length ds) \<le> length rom"
  shows "rom_copy_descriptors ds rom i =
    (overwrite rom i (concat (map descriptor_blob ds)), i + sum_list (map desc_length ds))"
  using assms
proof (induction ds arbitrary: rom i)
  case Nil
  then show ?case by simp
next
  case (Cons d ds)
  then have len: "length (descriptor_blob d) = desc_length d"
    "length (concat (map descriptor_blob ds)) = sum_list (map desc_length ds)"
    by (auto simp: length_descriptor_blob length_concat comp_def intro!: arg_cong [where f = sum_list])
  show ?case
    using Cons len overwrite_overwrite [of i "descriptor_blob d" "concat (map descriptor_blob ds)" rom]
    by (simp add: rom_copy_data_layout add.assoc)
qed

lemma generate_config_rom_body_layout:
  assumes wf: "rom_wf st" and len: "length rom = 256"
  shows "generate_config_rom_body st c rom =
    (overwrite rom 0 (rom_layout (descriptor_list st) c), config_rom_length st)"
proof -
  let ?ds = "descriptor_list st"
  let ?n = "sum_list (map descriptor_entries ?ds)"
  let ?es = "directory_entries 7 (7 + ?n) ?ds"
  let ?blobs = "concat (map descriptor_blob ?ds)"
  let ?hd = "bus_info_block c @ [push_bit 16 (of_nat (1 + length ?es)), 0x0c0083c0]"
  have fit: "7 + ?n + sum_list (map desc_length ?ds) \<le> 256"
    using wf by (simp add: rom_wf_def sum_required_space)
  have blobs: "length ?blobs = sum_list (map desc_length ?ds)"
    using wf by (auto simp: rom_wf_def length_concat comp_def length_descriptor_blob
        intro!: arg_cong [where f = sum_list])
  have "Suc (Suc (Suc (Suc (Suc (Suc (Suc 0)))))) \<le> length rom" using len by simp
  then obtain x0 x1 x2 x3 x4 x5 x6 rest where rom: "rom = x0 # x1 # x2 # x3 # x4 # x5 # x6 # rest"
    by (auto simp only: Suc_le_length_iff)
  define rom1 where "rom1 = rom[0 := push_bit 16 4 OR push_bit 24 4 OR push_bit 0 0, 1 := 0x31333934,
      2 := push_bit 0 (link_speed c) OR push_bit 4 (of_nat (config_rom_generation c mod 14 + 2)) OR
        push_bit 8 2 OR push_bit 12 (max_receive c) OR
        push_bit 28 1 OR push_bit 29 1 OR push_bit 30 1 OR push_bit 31 1,
      3 := ucast (drop_bit 32 (guid c)), 4 := ucast (guid c), 6 := 0x0c0083c0]"
  have len1: "length rom1 = 256" using len by (simp add: rom1_def)
  have head: "rom1[5 := push_bit 16 (of_nat (1 + length ?es))] = overwrite rom 0 ?hd"
    by (simp add: rom1_def rom overwrite_def bus_info_block_def)
  have lhd: "length ?hd = 7" by (simp add: bus_info_block_def)
  have "generate_config_rom_body st c rom =
      (let (rom, i, j) = rom_root_entries ?ds rom1 7 (7 + ?n);
           rom = rom[5 := push_bit 16 (of_nat (i - 5 - 1))];
           (rom, i) = rom_copy_descriptors ?ds rom i in (rom, j))"
    using wf by (simp add: generate_config_rom_body_def rom1_def rom_wf_def Let_def)
  also have "\<dots> = (let (rom, i) = rom_copy_descriptors ?ds
        ((overwrite rom1 7 ?es)[5 := push_bit 16 (of_nat (1 + length ?es))]) (7 + ?n)
      in (rom, 7 + ?n + sum_list (map desc_length ?ds)))"
    using fit len1 by (simp add: rom_root_entries_layout Let_def)
  also have "(overwrite rom1 7 ?es)[5 := push_bit 16 (of_nat (1 + length ?es))] =
      overwrite (overwrite rom 0 ?hd) 7 ?es"
    using len1 head by (subst list_update_overwrite_before) simp_all
  also have "\<dots> = overwrite rom 0 (?hd @ ?es)"
    using fit len lhd overwrite_overwrite [of 0 ?hd ?es rom] by simp
  also have "rom_copy_descriptors ?ds (overwrite rom 0 (?hd @ ?es)) (7 + ?n) =
      (overwrite (overwrite rom 0 (?hd @ ?es)) (7 + ?n) ?blobs, 7 + ?n + sum_list (map desc_length ?ds))"
    using fit len lhd wf by (intro rom_copy_descriptors_layout) (auto simp: rom_wf_def)
  also have "overwrite (overwrite rom 0 (?hd @ ?es)) (7 + ?n) ?blobs = overwrite rom 0 ((?hd @ ?es) @ ?blobs)"
    using fit len lhd blobs overwrite_overwrite [of 0 "?hd @ ?es" ?blobs rom] by simp
  finally show ?thesis
    using wf by (simp add: rom_layout_def root_directory_def Let_def rom_wf_def sum_required_space)
qed

section \<open>Checksums\<close>

definition seal_block :: "(u16 \<Rightarrow> u8 list \<Rightarrow> u16) \<Rightarrow> u32 list \<Rightarrow> u32 list" where
  "seal_block crc_itu_t b = (hd b OR ucast (crc_itu_t 0 (concat (map be32_bytes (tl b))))) # tl b"

definition block_ok :: "u32 list \<Rightarrow> bool" where
  "block_ok b \<longleftrightarrow> b \<noteq> [] \<and> unat (drop_bit 16 (hd b) AND 0xff) = length (tl b)"

lemma rom_crc_blocks_seals:
  assumes "\<forall>b \<in> set bs. block_ok b"
  shows "rom_crc_blocks crc (pre @ concat bs @ post) (length pre) (length pre + length (concat bs)) =
    pre @ concat (map (seal_block crc) bs) @ post"
  using assms
proof (induction bs arbitrary: pre)
  case Nil
  then show ?case by (simp add: rom_crc_blocks.simps)
next
  case (Cons b bs)
  then obtain h body where b: "b = h # body" and len: "unat (drop_bit 16 h AND 0xff) = length body"
    by (auto simp: block_ok_def neq_Nil_conv)
  let ?buf = "pre @ concat (b # bs) @ post"
  have "fw_compute_block_crc crc ?buf (length pre) =
      (pre @ seal_block crc b @ concat bs @ post, length body)"
    by (simp add: fw_compute_block_crc_def Let_def b len seal_block_def nth_append list_update_append)
  then have "rom_crc_blocks crc ?buf (length pre) (length pre + length (concat (b # bs))) =
      rom_crc_blocks crc ((pre @ seal_block crc b) @ concat bs @ post)
        (length (pre @ seal_block crc b)) (length (pre @ seal_block crc b) + length (concat bs))"
    by (subst rom_crc_blocks.simps) (simp add: b seal_block_def ac_simps)
  also have "\<dots> = (pre @ seal_block crc b) @ concat (map (seal_block crc) bs) @ post"
    using Cons.prems by (intro Cons.IH) simp
  finally show ?case by simp
qed

lemma block_ok_small:
  assumes "unat (drop_bit 16 h) = length body" "length body < 256"
  shows "block_ok (h # body)"
proof -
  have "drop_bit 16 h AND 0xff = take_bit 8 (drop_bit 16 h)"
    by (simp add: take_bit_eq_mask mask_eq_exp_minus_1)
  then have "unat (drop_bit 16 h AND 0xff) = take_bit 8 (unat (drop_bit 16 h))"
    by (simp add: unsigned_take_bit_eq)
  with assms show ?thesis by (simp add: block_ok_def take_bit_nat_eq_self)
qed

lemma descriptor_blocks_end_ge: "i \<le> descriptor_blocks_end d i"
  by (induction d i rule: descriptor_blocks_end.induct)
    (subst descriptor_blocks_end.simps, auto)

lemma descriptor_blob_blocks:
  assumes "descriptor_blocks_end d i = desc_length d" "desc_length d \<le> length (data d)"
    "desc_length d < 256" "i \<le> desc_length d"
  shows "\<exists>bs. drop i (descriptor_blob d) = concat bs \<and> (\<forall>b \<in> set bs. block_ok b)"
  using assms
proof (induction d i rule: descriptor_blocks_end.induct)
  case (1 d i)
  show ?case
  proof (cases "i < desc_length d")
    case False
    with 1 have "drop i (descriptor_blob d) = concat []" by (simp add: descriptor_blob_def)
    then show ?thesis by (intro exI [of _ "[]"]) simp
  next
    case True
    define n where "n = unat (drop_bit 16 (data d ! i))"
    have end1: "descriptor_blocks_end d (i + (n + 1)) = desc_length d"
      using True 1(2) by (simp add: descriptor_blocks_end.simps [of d i] n_def)
    then have fit: "i + (n + 1) \<le> desc_length d"
      using descriptor_blocks_end_ge [of "i + (n + 1)" d] by simp
    obtain bs where bs: "drop (i + (n + 1)) (descriptor_blob d) = concat bs" "\<forall>b \<in> set bs. block_ok b"
      using "1.IH" [OF True] end1 fit 1(3,4) by (auto simp: n_def)
    let ?b = "take (n + 1) (drop i (descriptor_blob d))"
    have split: "?b = data d ! i # take n (drop (i + 1) (descriptor_blob d))"
      using True 1(3) by (simp add: descriptor_blob_def Cons_nth_drop_Suc [symmetric])
    have "length (take n (drop (i + 1) (descriptor_blob d))) = n"
      using fit 1(3) by (simp add: descriptor_blob_def)
    moreover have "n < 256" using fit 1(4) by simp
    ultimately have "block_ok ?b"
      unfolding split by (intro block_ok_small) (simp_all add: n_def)
    moreover have "drop i (descriptor_blob d) = concat (?b # bs)"
      using bs(1) append_take_drop_id [of "n + 1" "drop i (descriptor_blob d)"]
      by (simp add: add.commute)
    ultimately show ?thesis using bs(2) by (intro exI [of _ "?b # bs"]) simp
  qed
qed

lemma root_directory_block:
  assumes "length (root_directory ds) \<le> 256"
  shows "block_ok (root_directory ds)"
proof -
  let ?n = "sum_list (map descriptor_entries ds)"
  have len: "length (root_directory ds) = 2 + ?n" by (simp add: root_directory_def Let_def)
  have "1 + ?n < 2 ^ 16" using assms len by simp
  then have "drop_bit 16 (push_bit 16 (of_nat (1 + ?n) :: u32)) = of_nat (1 + ?n)"
  proof -
    have "drop_bit 16 (push_bit 16 (of_nat (1 + ?n) :: u32)) = take_bit 16 (of_nat (1 + ?n))"
      by (intro bit_word_eqI) (auto simp: bit_simps)
    also have "\<dots> = of_nat (take_bit 16 (1 + ?n))" by (simp only: take_bit_of_nat)
    finally show ?thesis using \<open>1 + ?n < 2 ^ 16\<close> by (simp only: take_bit_nat_eq_self)
  qed
  moreover have "unat (of_nat (1 + ?n) :: u32) = 1 + ?n"
    unfolding unat_of_nat using assms len by simp
  ultimately show ?thesis
    unfolding root_directory_def Let_def using assms len
    by (simp only: append_Cons append_Nil, intro block_ok_small) simp_all
qed

lemma rom_layout_blocks:
  assumes "rom_wf st"
  shows "\<exists>bs. rom_layout (descriptor_list st) c = concat bs \<and> (\<forall>b \<in> set bs. block_ok b) \<and>
    length (rom_layout (descriptor_list st) c) = config_rom_length st"
proof -
  let ?ds = "descriptor_list st"
  have d_len: "desc_length d < 256" if "d \<in> set ?ds" for d
  proof -
    have "required_space d \<le> sum_list (map required_space ?ds)"
      using that by (intro member_le_sum_list) auto
    then show ?thesis using assms by (simp add: rom_wf_def required_space_def)
  qed
  have "\<exists>bs. descriptor_blob d = concat bs \<and> (\<forall>b \<in> set bs. block_ok b)" if "d \<in> set ?ds" for d
    using descriptor_blob_blocks [of d 0] d_len [OF that] that assms by (auto simp: rom_wf_def)
  then obtain f where f: "\<And>d. d \<in> set ?ds \<Longrightarrow> descriptor_blob d = concat (f d) \<and> (\<forall>b \<in> set (f d). block_ok b)"
    by metis
  have blobs: "concat (map descriptor_blob ?ds) = concat (concat (map f ?ds))"
    using f by (intro concat_map_concat_eq) auto
  have len: "length (rom_layout ?ds c) = config_rom_length st"
    using assms by (auto simp: rom_layout_def bus_info_block_def root_directory_def Let_def rom_wf_def
        length_concat comp_def sum_required_space length_descriptor_blob
        intro!: arg_cong [where f = sum_list])
  have "length (root_directory ?ds) \<le> 256"
    using len assms by (simp add: rom_layout_def rom_wf_def)
  then have "block_ok (root_directory ?ds)" by (rule root_directory_block)
  moreover have "block_ok (bus_info_block c)" by (simp add: bus_info_block_def block_ok_def)
  ultimately have "\<forall>b \<in> set ([bus_info_block c, root_directory ?ds] @ concat (map f ?ds)). block_ok b"
    using f by auto
  moreover have "rom_layout ?ds c = concat ([bus_info_block c, root_directory ?ds] @ concat (map f ?ds))"
    by (simp add: rom_layout_def blobs)
  ultimately show ?thesis using len by blast
qed

text \<open>C8.  In a consistent registry the generated image is exactly the intended layout with every
  block sealed by its checksum: the blocks that the checksum loop visits are the blocks of the
  layout, the image fills precisely the registered length and the warning does not fire.\<close>

theorem generate_config_rom_correct:
  assumes "rom_wf st" "length rom = 256"
  shows "\<exists>bs. rom_layout (descriptor_list st) c = concat bs \<and> (\<forall>b \<in> set bs. block_ok b) \<and>
    generate_config_rom crc st c rom =
      (overwrite rom 0 (concat (map (seal_block crc) bs)),
       c\<lparr>config_rom_generation := config_rom_generation c + 1\<rparr>, False)"
proof -
  obtain bs where bs: "rom_layout (descriptor_list st) c = concat bs" "\<forall>b \<in> set bs. block_ok b"
    and len: "length (concat bs) = config_rom_length st"
    using rom_layout_blocks [OF assms(1), of c] by metis
  have "length (concat (map (seal_block crc) bs)) = length (concat bs)"
    using bs(2) by (auto simp: length_concat comp_def seal_block_def block_ok_def intro!: arg_cong [where f = sum_list])
  then show ?thesis
    using bs len rom_crc_blocks_seals [OF bs(2), of crc "[]" "drop (length (concat bs)) rom"]
      generate_config_rom_body_layout [OF assms, of c]
    by (intro exI [of _ bs]) (simp add: generate_config_rom_def overwrite_def)
qed

lemma directory_entries_append:
  "directory_entries i j (xs @ ys) = directory_entries i j xs @
    directory_entries (i + sum_list (map descriptor_entries xs)) (j + sum_list (map desc_length xs)) ys"
  by (induction xs arbitrary: i j) (simp_all add: add.assoc)

text \<open>Every directory entry leads to its descriptor: for a registered descriptor the entry holds
  its key with the distance to a place of the image where exactly the quadlets of the descriptor
  stand (before the checksums are added).\<close>

lemma rom_directory_points_to_descriptor:
  assumes "rom_wf st" "descriptor_list st = xs @ d # ys"
  defines "e \<equiv> 7 + sum_list (map descriptor_entries xs) + (if immediate d > 0 then 1 else 0)"
    and "p \<equiv> 7 + descriptor_count st + sum_list (map desc_length xs)"
  shows "e < p \<and> rom_layout (descriptor_list st) c ! e = key d OR of_nat (p - e) \<and>
    take (desc_length d) (drop p (rom_layout (descriptor_list st) c)) = take (desc_length d) (data d)"
proof -
  let ?n = "sum_list (map descriptor_entries (descriptor_list st))"
  let ?xs = "sum_list (map descriptor_entries xs)"
  let ?pre = "bus_info_block c @ take 2 (root_directory (descriptor_list st))"
  have cnt: "descriptor_count st = ?n" using assms(1) by (simp add: rom_wf_def)
  have lay: "rom_layout (descriptor_list st) c =
      ?pre @ directory_entries 7 (7 + ?n) (descriptor_list st) @ concat (map descriptor_blob (descriptor_list st))"
    by (simp add: rom_layout_def root_directory_def Let_def)
  have lpre: "length ?pre = 7" by (simp add: bus_info_block_def root_directory_def Let_def)
  have ep: "e < p" using assms(2) by (simp add: e_def p_def cnt descriptor_entries_def)
  have "rom_layout (descriptor_list st) c ! e =
      directory_entries 7 (7 + ?n) (xs @ d # ys) ! (?xs + (if immediate d > 0 then 1 else 0))"
    using assms(2) lpre unfolding lay
    by (simp add: nth_append e_def bus_info_block_def root_directory_def Let_def descriptor_entries_def)
  also have "\<dots> = key d OR of_nat (p - e)"
    by (simp add: directory_entries_append nth_append p_def e_def cnt)
  finally have entry: "rom_layout (descriptor_list st) c ! e = key d OR of_nat (p - e)" .
  have lens: "\<And>x. x \<in> set (xs @ d # ys) \<Longrightarrow> length (descriptor_blob x) = desc_length x"
    using assms(1,2) by (auto simp: rom_wf_def length_descriptor_blob)
  then have "length (concat (map descriptor_blob xs)) = sum_list (map desc_length xs)"
    by (auto simp: length_concat comp_def intro!: arg_cong [where f = sum_list])
  then have "drop p (rom_layout (descriptor_list st) c) = concat (map descriptor_blob (d # ys))"
    using assms(2) lpre unfolding lay by (simp add: p_def cnt)
  then show ?thesis
    using ep entry lens [of d] by (simp add: descriptor_blob_def)
qed

section \<open>The registry stays consistent\<close>

lemma length_rom_crc_blocks [simp]: "length (rom_crc_blocks crc rom i j) = length rom"
  by (induction crc rom i j rule: rom_crc_blocks.induct)
    (subst rom_crc_blocks.simps, auto simp: fw_compute_block_crc_def Let_def)

lemma length_rom_root_entries: "rom_root_entries ds rom i j = (rom', i', j') \<Longrightarrow> length rom' = length rom"
  by (induction ds rom i j rule: rom_root_entries.induct) (auto simp: Let_def split: if_splits)

lemma length_rom_copy_data [simp]: "length (rom_copy_data d rom i) = length rom"
proof -
  have "length (foldl (\<lambda>rom k. rom[i + k := data d ! k]) rom ks) = length rom" for ks
    by (induction ks arbitrary: rom) auto
  then show ?thesis by (simp add: rom_copy_data_def)
qed

lemma length_rom_copy_descriptors: "rom_copy_descriptors ds rom i = (rom', i') \<Longrightarrow> length rom' = length rom"
  by (induction ds rom i rule: rom_copy_descriptors.induct) auto

lemma length_generate_config_rom:
  "generate_config_rom crc st c rom = (rom', c', w) \<Longrightarrow> length rom' = length rom"
  by (auto simp: generate_config_rom_def generate_config_rom_body_def Let_def split: prod.splits
      dest!: length_rom_root_entries length_rom_copy_descriptors)

lemma update_config_roms_loop_length:
  "update_config_roms_loop crc st cs tmp = (cs', tmp') \<Longrightarrow> length tmp' = length tmp \<and> length cs' = length cs"
  by (induction crc st cs tmp arbitrary: cs' tmp' rule: update_config_roms_loop.induct)
    (fastforce simp: Let_def split: prod.splits dest!: length_generate_config_rom)+

lemma update_config_roms_fields [simp]:
  "descriptor_list (update_config_roms crc st) = descriptor_list st"
  "descriptor_count (update_config_roms crc st) = descriptor_count st"
  "config_rom_length (update_config_roms crc st) = config_rom_length st"
  "length (tmp_config_rom (update_config_roms crc st)) = length (tmp_config_rom st)"
  by (auto simp: update_config_roms_def Let_def split: prod.splits dest: update_config_roms_loop_length)

lemma rom_wf_init: "rom_wf rom_init"
  by (simp add: rom_wf_def rom_init_def)

lemma rom_wf_add:
  assumes "rom_wf st" "desc_length d \<le> length (data d)" "fw_core_add_descriptor crc st d = Inr st'"
  shows "rom_wf st'"
  using assms
  by (auto simp: rom_wf_def fw_core_add_descriptor_def Let_def required_space_def descriptor_entries_def
      split: if_splits)

lemma rom_wf_remove:
  assumes "rom_wf st" "d \<in> set (descriptor_list st)"
  shows "rom_wf (fw_core_remove_descriptor crc st d)"
proof -
  obtain xs ys where split: "descriptor_list st = xs @ d # ys" "d \<notin> set xs"
    using split_list_first [OF assms(2)] by blast
  then have "remove1 d (descriptor_list st) = xs @ ys" by (simp add: remove1_append)
  with assms(1) split(1) show ?thesis
    by (auto simp: rom_wf_def fw_core_remove_descriptor_def Let_def required_space_def descriptor_entries_def)
qed

text \<open>Operations on the registry and their runs.\<close>

datatype rom_op = AddDescriptor fw_descriptor | RemoveDescriptor fw_descriptor

inductive rom_step :: "(u16 \<Rightarrow> u8 list \<Rightarrow> u16) \<Rightarrow> rom_state \<Rightarrow> rom_op \<Rightarrow> rom_state \<Rightarrow> bool" for crc where
  add_ok: "desc_length d \<le> length (data d) \<Longrightarrow> fw_core_add_descriptor crc st d = Inr st' \<Longrightarrow>
    rom_step crc st (AddDescriptor d) st'"
| add_err: "fw_core_add_descriptor crc st d = Inl e \<Longrightarrow> rom_step crc st (AddDescriptor d) st"
| remove: "d \<in> set (descriptor_list st) \<Longrightarrow>
    rom_step crc st (RemoveDescriptor d) (fw_core_remove_descriptor crc st d)"

inductive rom_reachable :: "(u16 \<Rightarrow> u8 list \<Rightarrow> u16) \<Rightarrow> rom_state \<Rightarrow> bool" for crc where
  init: "rom_reachable crc (rom_init\<lparr>card_list := cs\<rparr>)"
| step: "rom_reachable crc st \<Longrightarrow> rom_step crc st a st' \<Longrightarrow> rom_reachable crc st'"

inductive_cases rom_step_AddE: "rom_step crc st (AddDescriptor d) st'"

text \<open>Whatever descriptors drivers add and remove, the registry stays consistent: the recorded
  length and entry count are those of the registered descriptors and the image fits its 256
  quadlets.\<close>

lemma rom_reachable_wf:
  assumes "rom_reachable crc st"
  shows "rom_wf st"
  using assms
proof (induction rule: rom_reachable.induct)
  case (init cs)
  then show ?case by (simp add: rom_wf_def rom_init_def)
next
  case (step st a st')
  from step.hyps(2) step.IH show ?case
    by cases (auto intro: rom_wf_add rom_wf_remove)
qed

section \<open>Witnesses\<close>

text \<open>The two descriptors that the core registers at start.\<close>

definition vendor_id_descriptor :: fw_descriptor where
  "vendor_id_descriptor = \<lparr>desc_length = 7, immediate = 0x03001f11, key = 0x81000000,
     data = [0x00060000, 0, 0, 0x4c696e75, 0x78204669, 0x72657769, 0x72650000]\<rparr>"

definition model_id_descriptor :: fw_descriptor where
  "model_id_descriptor = \<lparr>desc_length = 4, immediate = 0x17023901, key = 0x81000000,
     data = [0x00030000, 0, 0, 0x4a756a75]\<rparr>"

definition rom_started :: rom_state where
  "rom_started = \<lparr>descriptor_list = [vendor_id_descriptor, model_id_descriptor], descriptor_count = 4,
     config_rom_length = 22, tmp_config_rom = replicate 256 0, card_list = []\<rparr>"

lemma rom_started_adds:
  "fw_core_add_descriptor crc rom_init vendor_id_descriptor = Inr (rom_started\<lparr>
     descriptor_list := [vendor_id_descriptor], descriptor_count := 2, config_rom_length := 16\<rparr>)"
  "fw_core_add_descriptor crc (rom_started\<lparr>
     descriptor_list := [vendor_id_descriptor], descriptor_count := 2, config_rom_length := 16\<rparr>)
     model_id_descriptor = Inr rom_started"
  by (simp_all add: fw_core_add_descriptor_def rom_init_def rom_started_def vendor_id_descriptor_def
      model_id_descriptor_def descriptor_blocks_end.simps required_space_def update_config_roms_def)

lemma rom_started_reachable: "rom_reachable crc rom_started"
proof -
  have "rom_reachable crc rom_init"
    using rom_reachable.init [of crc "[]"] by (simp add: rom_init_def)
  then show ?thesis
    by (rule rom_reachable.step [OF rom_reachable.step [OF _ rom_step.add_ok [OF _ rom_started_adds(1)]]
        rom_step.add_ok [OF _ rom_started_adds(2)]])
      (simp_all add: vendor_id_descriptor_def model_id_descriptor_def)
qed

lemma rom_started_wf: "rom_wf rom_started"
  by (simp add: rom_wf_def rom_started_def vendor_id_descriptor_def model_id_descriptor_def
      descriptor_blocks_end.simps required_space_def descriptor_entries_def)

definition rom_card_example :: rom_card where
  "rom_card_example =
    \<lparr>link_speed = 2, config_rom_generation = 0, max_receive = 10, guid = 1, config_rom = []\<rparr>"

theorem generate_config_rom_correct_witness:
  "rom_wf rom_started \<and>
   (\<exists>bs. rom_layout (descriptor_list rom_started) rom_card_example = concat bs \<and> list_all block_ok bs \<and>
    generate_config_rom (\<lambda>_ _. 7) rom_started rom_card_example (replicate 256 0) =
      (overwrite (replicate 256 0) 0 (concat (map (seal_block (\<lambda>_ _. 7)) bs)),
       rom_card_example\<lparr>config_rom_generation := config_rom_generation rom_card_example + 1\<rparr>, False))"
  using rom_started_wf generate_config_rom_correct [OF rom_started_wf, of "replicate 256 0" rom_card_example "\<lambda>_ _. 7"]
  by (simp add: list_all_iff)

end
