(* ===== verification/Topology.thy ===== *)
theory Topology
  imports Phy_Packet Config_Rom
begin

text \<open>
  The bus topology, after \<^verbatim>\<open>drivers/firewire/core-topology.c\<close> and the node part of
  \<^verbatim>\<open>drivers/firewire/core.h\<close>.  Nodes live in a heap, a list that only grows; a pointer is an index.
  A node whose reference count has dropped to zero is freed, and a function that would read it (or
  follow any other dangling pointer) yields \<open>None\<close>.  The intrusive list links of a node are the lists
  of pointers that the functions build; \<open>fw_node_event\<close> of the device layer is recorded as a trace.
\<close>

section \<open>Nodes and the card\<close>

type_synonym node_ptr = nat

text \<open>\<open>port_count\<close> is the length of \<open>ports\<close>; \<open>max_depth\<close> and \<open>max_hops\<close> are bit fields of four bits.\<close>

record fw_node =
  node_id :: u16
  color :: u8
  link_on :: bool
  initiated_reset :: bool
  b_path :: bool
  phy_speed :: u32
  max_speed :: u32
  max_depth :: nat
  max_hops :: nat
  kref :: nat
  ports :: "node_ptr option list"

datatype fw_node_event = FW_NODE_CREATED | FW_NODE_UPDATED | FW_NODE_DESTROYED | FW_NODE_LINK_ON
  | FW_NODE_LINK_OFF | FW_NODE_INITIATED_RESET

record topo_card =
  nodes :: "fw_node list"
  events :: "(fw_node_event \<times> node_ptr) list"
  c_node_id :: u32
  c_generation :: u32
  reset_jiffies :: u64
  local_node :: "node_ptr option"
  root_node :: "node_ptr option"
  irm_node :: "node_ptr option"
  c_color :: u8
  gap_count :: u32
  beta_repeaters_present :: bool
  bm_retries :: nat
  bm_node_id :: u32
  bm_abdicate :: bool
  broadcast_channel_auto_allocated :: bool
  broadcast_channel_allocated :: bool
  topology_map :: "u32 list"
  bm_work_scheduled :: nat

definition node_at :: "topo_card \<Rightarrow> node_ptr \<Rightarrow> fw_node option" where
  "node_at c p = (if p < length (nodes c) \<and> kref (nodes c ! p) > 0 then Some (nodes c ! p) else None)"

definition node_upd :: "topo_card \<Rightarrow> node_ptr \<Rightarrow> (fw_node \<Rightarrow> fw_node) \<Rightarrow> topo_card" where
  "node_upd c p f = c\<lparr>nodes := (nodes c)[p := f (nodes c ! p)]\<rparr>"

definition fw_node_get :: "topo_card \<Rightarrow> node_ptr \<Rightarrow> topo_card" where
  "fw_node_get c p = node_upd c p (\<lambda>n. n\<lparr>kref := kref n + 1\<rparr>)"

definition fw_node_put :: "topo_card \<Rightarrow> node_ptr \<Rightarrow> topo_card" where
  "fw_node_put c p = node_upd c p (\<lambda>n. n\<lparr>kref := kref n - 1\<rparr>)"

definition fw_node_event :: "topo_card \<Rightarrow> node_ptr \<Rightarrow> fw_node_event \<Rightarrow> topo_card" where
  "fw_node_event c p ev = c\<lparr>events := events c @ [(ev, p)]\<rparr>"

definition is_next_generation :: "u32 \<Rightarrow> u32 \<Rightarrow> bool" where
  "is_next_generation new old \<longleftrightarrow> new AND 0xff = (old + 1) AND 0xff"

section \<open>Building the tree\<close>

definition fw_node_create :: "u32 \<Rightarrow> nat \<Rightarrow> u8 \<Rightarrow> fw_node" where
  "fw_node_create sid port_count col =
    \<lparr>node_id = 0xffc0 OR ucast (phy_packet_self_id_get_phy_id sid), color = col,
     link_on = phy_packet_self_id_zero_get_link_active sid,
     initiated_reset = phy_packet_self_id_zero_get_initiated_reset sid, b_path = False,
     phy_speed = phy_packet_self_id_zero_get_scode sid, max_speed = 0, max_depth = 0, max_hops = 0,
     kref = 1, ports = replicate port_count None\<rparr>"

text \<open>The loop of \<open>update_hop_count\<close> over the ports, and the result cut to four bits.\<close>

fun hop_count_scan :: "fw_node list \<Rightarrow> node_ptr option list \<Rightarrow> int \<Rightarrow> int \<Rightarrow> int \<Rightarrow> int \<times> int \<times> int" where
  "hop_count_scan heap [] d0 d1 max_child_hops = (d0, d1, max_child_hops)"
| "hop_count_scan heap (None # ps) d0 d1 max_child_hops = hop_count_scan heap ps d0 d1 max_child_hops"
| "hop_count_scan heap (Some q # ps) d0 d1 max_child_hops =
    (let n = heap ! q;
         mch = (if int (max_hops n) > max_child_hops then int (max_hops n) else max_child_hops);
         (d0, d1) = (if int (max_depth n) > d0 then (int (max_depth n), d0)
                     else if int (max_depth n) > d1 then (d0, int (max_depth n)) else (d0, d1))
     in hop_count_scan heap ps d0 d1 mch)"

definition update_hop_count :: "topo_card \<Rightarrow> node_ptr \<Rightarrow> topo_card" where
  "update_hop_count c p =
    (let (d0, d1, mch) = hop_count_scan (nodes c) (ports (nodes c ! p)) (-1) (-1) 0
     in node_upd c p (\<lambda>n. n\<lparr>max_depth := nat (d0 + 1) mod 16,
                            max_hops := nat (max mch (d0 + d1 + 2)) mod 16\<rparr>))"

text \<open>The second pass over the ports: remember the parent port in the colour, connect the children.
  \<open>None\<close> stands for following the child pointer past the end of the stack.\<close>

definition connect_child :: "topo_card \<Rightarrow> node_ptr \<Rightarrow> nat \<Rightarrow> node_ptr \<Rightarrow> topo_card" where
  "connect_child c node i child =
    (let c = node_upd c node (\<lambda>n. n\<lparr>ports := (ports n)[i := Some child]\<rparr>);
         c = node_upd c child (\<lambda>n. n\<lparr>ports := (ports n)[unat (color n) := Some node]\<rparr>)
     in node_upd c child (\<lambda>n. n\<lparr>color := c_color c\<rparr>))"

fun link_ports ::
  "topo_card \<Rightarrow> node_ptr \<Rightarrow> (nat \<Rightarrow> port_status) \<Rightarrow> nat list \<Rightarrow> node_ptr list \<Rightarrow> nat \<Rightarrow>
    (topo_card \<times> nat) option" where
  "link_ports c node st [] children parent_count = Some (c, parent_count)"
| "link_ports c node st (i # is) children parent_count =
    (case st i of
       PORT_PARENT \<Rightarrow>
         link_ports (node_upd c node (\<lambda>n. n\<lparr>color := of_nat i\<rparr>)) node st is children (parent_count + 1)
     | PORT_CHILD \<Rightarrow>
         (case children of
            [] \<Rightarrow> None
          | child # rest \<Rightarrow> link_ports (connect_child c node i child) node st is rest parent_count)
     | _ \<Rightarrow> link_ports c node st is children parent_count)"

record build_state =
  b_card :: topo_card
  b_enum :: self_id_sequence_enumerator
  b_stack :: "node_ptr list"
  b_phy_id :: nat
  b_node :: "node_ptr option"
  b_local :: "node_ptr option"
  b_irm :: "node_ptr option"
  b_gap :: u32
  b_beta :: bool

text \<open>One iteration ends the function with \<open>NULL\<close>, leaves the loop, goes on, or reads through a bad
  pointer.  The parameter \<open>alloc\<close> says for the \<open>n\<close>-th node whether memory is available.\<close>

datatype build_outcome = Build_fail topo_card | Build_break | Build_next build_state | Build_crash

text \<open>Popping the children and pushing the new node, with what the loop keeps track of.\<close>

definition build_push ::
  "build_state \<Rightarrow> topo_card \<Rightarrow> self_id_sequence_enumerator \<Rightarrow> u32 \<Rightarrow> node_ptr \<Rightarrow> nat \<Rightarrow> nat \<Rightarrow> build_state" where
  "build_push b c enum sid node child_port_count parent_count =
    \<lparr>b_card = update_hop_count c node, b_enum = enum,
     b_stack = take (length (b_stack b) - child_port_count) (b_stack b) @ [node],
     b_phy_id = b_phy_id b + 1, b_node = Some node,
     b_local = (if b_phy_id b = unat (c_node_id c AND 0x3f) then Some node else b_local b),
     b_irm = (if phy_packet_self_id_zero_get_contender sid then Some node else b_irm b),
     b_gap = (if phy_packet_self_id_zero_get_gap_count sid \<noteq> b_gap b then 0 else b_gap b),
     b_beta = (b_beta b \<or> (phy_packet_self_id_zero_get_scode sid = SCODE_BETA \<and>
                            parent_count + child_port_count > 1))\<rparr>"

definition build_step :: "(nat \<Rightarrow> bool) \<Rightarrow> build_state \<Rightarrow> build_outcome" where
  "build_step alloc b =
    (case self_id_sequence_enumerator_next (b_enum b) of
       Inl err \<Rightarrow> if err \<noteq> ENODATA then Build_fail (b_card b) else Build_break
     | Inr (sids, n, enum) \<Rightarrow>
         let st = self_id_sequence_get_port_status sids n;
             port_capacity = self_id_sequence_get_port_capacity n;
             child_port_count = length (filter (\<lambda>i. st i = PORT_CHILD) [0..<port_capacity]);
             total_port_count = length (filter (\<lambda>i. st i \<noteq> PORT_NONE) [0..<port_capacity]);
             sid = sids ! 0
         in if b_phy_id b \<noteq> unat (phy_packet_self_id_get_phy_id sid) then Build_fail (b_card b)
            else if child_port_count > length (b_stack b) then Build_fail (b_card b)
            else if \<not> alloc (length (nodes (b_card b))) then Build_fail (b_card b)
            else
              let c = b_card b;
                  node = length (nodes c);
                  children = drop (length (b_stack b) - child_port_count) (b_stack b);
                  c = c\<lparr>nodes := nodes c @ [fw_node_create sid total_port_count (c_color c)]\<rparr>
              in case link_ports c node st [0..<total_port_count] children 0 of
                   None \<Rightarrow> Build_crash
                 | Some (c, parent_count) \<Rightarrow>
                     if (quadlet_count enum = 0 \<and> parent_count \<noteq> 0) \<or>
                        (quadlet_count enum > 0 \<and> parent_count \<noteq> 1) then Build_fail c
                     else Build_next (build_push b c enum sid node child_port_count parent_count))"

lemma enumerator_next_decreases:
  assumes "self_id_sequence_enumerator_next e = Inr (s, n, e')"
  shows "quadlet_count e' < quadlet_count e"
proof -
  from assms obtain p where p: "self_id_sequence_scan p (quadlet_count e) 1 0 = Inr n" "0 < quadlet_count e"
    and e': "quadlet_count e' = quadlet_count e - n"
    by (auto simp: self_id_sequence_enumerator_next_def split: option.splits if_splits sum.splits)
  have "1 \<le> n" using p(1) self_id_sequence_scan_iff [of 1 p "quadlet_count e" 0 n] by simp
  with p(2) e' show ?thesis by simp
qed

lemma build_step_nextE:
  assumes "build_step alloc b = Build_next b'"
  obtains sids n enum c child_count parent_count node where
    "self_id_sequence_enumerator_next (b_enum b) = Inr (sids, n, enum)"
    "b' = build_push b c enum (sids ! 0) node child_count parent_count"
proof -
  obtain sids n enum where e: "self_id_sequence_enumerator_next (b_enum b) = Inr (sids, n, enum)"
    using assms by (cases "self_id_sequence_enumerator_next (b_enum b)") (auto simp: build_step_def split: if_split_asm)
  have "(if P1 then Build_fail c1 else if P2 then Build_fail c2 else if P3 then Build_fail c3
      else case r of None \<Rightarrow> Build_crash | Some (c, k) \<Rightarrow> if P4 c k then Build_fail c else Build_next (f c k)) =
      Build_next b' \<Longrightarrow> \<exists>c k. b' = f c k" for P1 P2 P3 c1 c2 c3 r P4 f
    by (auto split: if_split_asm option.splits) blast
  from this [OF assms [unfolded build_step_def e sum.case prod.case Let_def]]
  obtain c k where "b' = build_push b c enum (sids ! 0) (length (nodes (b_card b)))
      (length (filter (\<lambda>i. self_id_sequence_get_port_status sids n i = PORT_CHILD)
        [0..<self_id_sequence_get_port_capacity n])) k"
    by (elim exE)
  with e show ?thesis by (rule that)
qed

lemma build_step_decreases:
  assumes "build_step alloc b = Build_next b'"
  shows "quadlet_count (b_enum b') < quadlet_count (b_enum b)"
  using assms by (rule build_step_nextE) (auto simp: build_push_def dest: enumerator_next_decreases)

datatype build_result = Tree_failed topo_card | Tree_built build_state | Tree_crashed

function build_loop :: "(nat \<Rightarrow> bool) \<Rightarrow> build_state \<Rightarrow> build_result" where
  "build_loop alloc b =
    (if quadlet_count (b_enum b) > 0 then
       case build_step alloc b of
         Build_fail c \<Rightarrow> Tree_failed c
       | Build_break \<Rightarrow> Tree_built b
       | Build_crash \<Rightarrow> Tree_crashed
       | Build_next b' \<Rightarrow> build_loop alloc b'
     else Tree_built b)"
  by pat_completeness auto
termination
  by (relation "measure (\<lambda>(alloc, b). quadlet_count (b_enum b))") (auto dest: build_step_decreases)

definition build_init :: "topo_card \<Rightarrow> u32 list \<Rightarrow> nat \<Rightarrow> build_state" where
  "build_init c sids self_id_count =
    \<lparr>b_card = c, b_enum = \<lparr>cursor = Some sids, quadlet_count = self_id_count\<rparr>, b_stack = [],
     b_phy_id = 0, b_node = None, b_local = None, b_irm = None,
     b_gap = phy_packet_self_id_zero_get_gap_count (sids ! 0), b_beta = False\<rparr>"

text \<open>The card and the local node; the outer \<open>None\<close> is the crash.\<close>

definition build_tree ::
  "(nat \<Rightarrow> bool) \<Rightarrow> topo_card \<Rightarrow> u32 list \<Rightarrow> nat \<Rightarrow> (topo_card \<times> node_ptr option) option" where
  "build_tree alloc c sids self_id_count =
    (case build_loop alloc (build_init c sids self_id_count) of
       Tree_crashed \<Rightarrow> None
     | Tree_failed c' \<Rightarrow> Some (c', None)
     | Tree_built b \<Rightarrow>
         Some ((b_card b)\<lparr>root_node := b_node b, irm_node := b_irm b, gap_count := b_gap b,
                          beta_repeaters_present := b_beta b\<rparr>, b_local b))"


section \<open>Walking the tree\<close>

datatype node_callback = Report_lost_node | Report_found_node

definition report_lost_node :: "topo_card \<Rightarrow> node_ptr \<Rightarrow> node_ptr option \<Rightarrow> topo_card option" where
  "report_lost_node c node parent =
    (let c = fw_node_event c node FW_NODE_DESTROYED;
         c = fw_node_put c node
     in Some (c\<lparr>bm_retries := 0\<rparr>))"

definition report_found_node :: "topo_card \<Rightarrow> node_ptr \<Rightarrow> node_ptr option \<Rightarrow> topo_card option" where
  "report_found_node c node parent =
    (case node_at c node of
       None \<Rightarrow> None
     | Some n \<Rightarrow>
         let beta = (phy_speed n = SCODE_BETA);
             found = (\<lambda>speed bp.
               (fw_node_event (node_upd c node (\<lambda>n. n\<lparr>max_speed := speed, b_path := bp\<rparr>)) node
                 FW_NODE_CREATED)\<lparr>bm_retries := 0\<rparr>)
         in case parent of
              None \<Rightarrow> Some (found (phy_speed n) beta)
            | Some q \<Rightarrow>
                (case node_at c q of
                   None \<Rightarrow> None
                 | Some p \<Rightarrow>
                     Some (found (if max_speed p < phy_speed n then max_speed p else phy_speed n)
                                 (b_path p \<and> beta))))"

fun run_callback :: "node_callback \<Rightarrow> topo_card \<Rightarrow> node_ptr \<Rightarrow> node_ptr option \<Rightarrow> topo_card option" where
  "run_callback Report_lost_node = report_lost_node"
| "run_callback Report_found_node = report_found_node"

fun for_each_ports ::
  "topo_card \<Rightarrow> node_ptr option list \<Rightarrow> node_ptr list \<Rightarrow> node_ptr option \<Rightarrow>
    (topo_card \<times> node_ptr list \<times> node_ptr option) option" where
  "for_each_ports c [] queue parent = Some (c, queue, parent)"
| "for_each_ports c (None # ps) queue parent = for_each_ports c ps queue parent"
| "for_each_ports c (Some child # ps) queue parent =
    (case node_at c child of
       None \<Rightarrow> None
     | Some n \<Rightarrow>
         if color n = c_color c then for_each_ports c ps queue (Some child)
         else for_each_ports (fw_node_get c child) ps (queue @ [child]) parent)"

definition uncolored :: "topo_card \<Rightarrow> node_ptr set" where
  "uncolored c = {p. p < length (nodes c) \<and> color (nodes c ! p) \<noteq> c_color c}"

lemma finite_uncolored [simp]: "finite (uncolored c)"
  by (simp add: uncolored_def)

lemma nodes_node_upd: "nodes (node_upd c p f) = (nodes c)[p := f (nodes c ! p)]"
  by (simp add: node_upd_def)

lemma length_node_upd [simp]: "length (nodes (node_upd c p f)) = length (nodes c)"
  by (simp add: node_upd_def)

lemma c_color_node_upd [simp]: "c_color (node_upd c p f) = c_color c"
  by (simp add: node_upd_def)

text \<open>An operation that keeps every colour.\<close>

definition same_colors :: "topo_card \<Rightarrow> topo_card \<Rightarrow> bool" where
  "same_colors c c' \<longleftrightarrow> length (nodes c') = length (nodes c) \<and> c_color c' = c_color c \<and>
     (\<forall>p < length (nodes c). color (nodes c' ! p) = color (nodes c ! p))"

lemma same_colors_refl [simp]: "same_colors c c"
  by (simp add: same_colors_def)

lemma same_colors_trans: "same_colors a b \<Longrightarrow> same_colors b c \<Longrightarrow> same_colors a c"
  by (simp add: same_colors_def)

lemma same_colors_node_upd: "(\<And>n. color (f n) = color n) \<Longrightarrow> same_colors c (node_upd c p f)"
  by (auto simp: same_colors_def nodes_node_upd nth_update)

lemma same_colors_uncolored: "same_colors c c' \<Longrightarrow> uncolored c' = uncolored c"
  by (auto simp: same_colors_def uncolored_def)

lemma same_colors_get [simp]: "same_colors c (fw_node_get c p)"
  and same_colors_put [simp]: "same_colors c (fw_node_put c p)"
  unfolding fw_node_get_def fw_node_put_def by (simp_all add: same_colors_node_upd)

lemma run_callback_same_colors: "run_callback cb c n parent = Some c' \<Longrightarrow> same_colors c c'"
proof (cases cb)
  case Report_lost_node
  assume "run_callback cb c n parent = Some c'"
  with Report_lost_node show ?thesis
    by (auto simp: report_lost_node_def fw_node_event_def same_colors_def fw_node_put_def
        nodes_node_upd nth_update)
next
  case Report_found_node
  assume "run_callback cb c n parent = Some c'"
  with Report_found_node show ?thesis
    by (auto simp: report_found_node_def fw_node_event_def same_colors_def Let_def
        nodes_node_upd nth_update split: option.splits)
qed

lemma for_each_ports_queue:
  assumes "for_each_ports c ps queue parent = Some (c', queue', parent')"
  shows "same_colors c c' \<and> (\<exists>new. queue' = queue @ new \<and> set new \<subseteq> uncolored c)"
  using assms
proof (induction c ps queue parent rule: for_each_ports.induct)
  case (3 c child ps queue parent)
  from "3.prems" obtain n where n: "node_at c child = Some n"
    by (auto split: option.splits)
  show ?case
  proof (cases "color n = c_color c")
    case True
    with 3 n show ?thesis by simp
  next
    case False
    with "3.prems" n have "for_each_ports (fw_node_get c child) ps (queue @ [child]) parent = Some (c', queue', parent')"
      by simp
    from "3.IH"(2) [OF n False this] obtain new where
      "same_colors (fw_node_get c child) c'" "queue' = (queue @ [child]) @ new"
      "set new \<subseteq> uncolored (fw_node_get c child)" by blast
    moreover have "child \<in> uncolored c"
      using n False by (auto simp: node_at_def uncolored_def split: if_splits)
    ultimately show ?thesis
      using same_colors_trans [OF same_colors_get, of c child c']
        same_colors_uncolored [OF same_colors_get, of c child] by auto
  qed
qed auto

text \<open>The walk over the growing list.  \<open>parent\<close> keeps its value from one node to the next.\<close>

function for_each_loop ::
  "node_callback \<Rightarrow> topo_card \<Rightarrow> node_ptr list \<Rightarrow> node_ptr list \<Rightarrow> node_ptr option \<Rightarrow>
    (topo_card \<times> node_ptr list) option" where
  "for_each_loop cb c visited [] parent = Some (c, visited)"
| "for_each_loop cb c visited (node # queue) parent =
    (case node_at c node of
       None \<Rightarrow> None
     | Some n \<Rightarrow>
         (case for_each_ports (node_upd c node (\<lambda>n. n\<lparr>color := c_color c\<rparr>)) (ports n) queue parent of
            None \<Rightarrow> None
          | Some (c, queue, parent) \<Rightarrow>
              (case run_callback cb c node parent of
                 None \<Rightarrow> None
               | Some c \<Rightarrow> for_each_loop cb c (visited @ [node]) queue parent)))"
  by pat_completeness auto

definition colored_prefix :: "topo_card \<Rightarrow> node_ptr list \<Rightarrow> nat" where
  "colored_prefix c queue = length (takeWhile (\<lambda>p. p \<notin> uncolored c) queue)"

lemma uncolored_visit:
  "n < length (nodes c) \<Longrightarrow> uncolored (node_upd c n (\<lambda>n. n\<lparr>color := c_color c\<rparr>)) = uncolored c - {n}"
  by (auto simp: uncolored_def nodes_node_upd nth_update split: if_splits)

lemma colored_prefix_append:
  assumes "set new \<subseteq> uncolored c"
  shows "colored_prefix c (queue @ new) = colored_prefix c queue"
proof (cases "\<forall>p \<in> set queue. p \<notin> uncolored c")
  case True
  have new: "takeWhile (\<lambda>p. p \<notin> uncolored c) new = []"
    using assms by (cases new) auto
  have queue: "takeWhile (\<lambda>p. p \<notin> uncolored c) queue = queue"
    using True by (simp only: takeWhile_eq_all_conv)
  have "takeWhile (\<lambda>p. p \<notin> uncolored c) (queue @ new) = queue @ takeWhile (\<lambda>p. p \<notin> uncolored c) new"
    using True by (intro takeWhile_append2) blast
  then show ?thesis by (simp only: colored_prefix_def new queue append_Nil2)
next
  case False
  then show ?thesis by (auto simp: colored_prefix_def takeWhile_append1)
qed

lemma for_each_measure:
  assumes n: "node_at c n = Some nd"
    and ports: "for_each_ports (node_upd c n (\<lambda>n. n\<lparr>color := c_color c\<rparr>)) ps queue parent = Some (c1, queue', parent')"
    and cb: "run_callback cb c1 n parent' = Some c2"
  shows "card (uncolored c2) < card (uncolored c) \<or>
    card (uncolored c2) = card (uncolored c) \<and> colored_prefix c2 queue' < colored_prefix c (n # queue)"
proof -
  let ?c0 = "node_upd c n (\<lambda>n. n\<lparr>color := c_color c\<rparr>)"
  have "n < length (nodes c)" using n by (auto simp: node_at_def split: if_splits)
  then have c0: "uncolored ?c0 = uncolored c - {n}" by (rule uncolored_visit)
  obtain new where new: "queue' = queue @ new" "set new \<subseteq> uncolored ?c0" "same_colors ?c0 c1"
    using for_each_ports_queue [OF ports] by blast
  have c2: "uncolored c2 = uncolored c - {n}"
    using same_colors_uncolored [OF run_callback_same_colors [OF cb]] same_colors_uncolored [OF new(3)] c0
    by simp
  show ?thesis
  proof (cases "n \<in> uncolored c")
    case True
    then have "card (uncolored c2) < card (uncolored c)"
      unfolding c2 by (intro psubset_card_mono) auto
    then show ?thesis by simp
  next
    case False
    then have eq: "uncolored c2 = uncolored c" using c2 by simp
    have "colored_prefix c2 queue' = colored_prefix c2 queue"
      using new(1,2) c0 c2 by (simp add: colored_prefix_append)
    also have "\<dots> < colored_prefix c (n # queue)"
      using False eq by (simp add: colored_prefix_def)
    finally show ?thesis using eq by simp
  qed
qed

termination for_each_loop
  by (relation "measures [\<lambda>(cb, c, visited, queue, parent). card (uncolored c),
      \<lambda>(cb, c, visited, queue, parent). colored_prefix c queue]")
    (auto dest: for_each_measure)

definition for_each_fw_node :: "node_callback \<Rightarrow> topo_card \<Rightarrow> node_ptr \<Rightarrow> topo_card option" where
  "for_each_fw_node cb c root =
    (case for_each_loop cb (fw_node_get c root) [] [root] None of
       None \<Rightarrow> None
     | Some (c, visited) \<Rightarrow> Some (foldl fw_node_put c visited))"

definition fw_destroy_nodes :: "topo_card \<Rightarrow> topo_card option" where
  "fw_destroy_nodes c =
    (let c = c\<lparr>c_color := c_color c + 1\<rparr> in
     case local_node c of
       None \<Rightarrow> Some c
     | Some l \<Rightarrow> map_option (\<lambda>c. c\<lparr>local_node := None\<rparr>) (for_each_fw_node Report_lost_node c l))"

section \<open>Comparing two trees\<close>

fun replace_first :: "'a \<Rightarrow> 'a \<Rightarrow> 'a list \<Rightarrow> 'a list" where
  "replace_first x y [] = []"
| "replace_first x y (z # zs) = (if z = x then y # zs else z # replace_first x y zs)"

definition move_tree :: "topo_card \<Rightarrow> node_ptr \<Rightarrow> node_ptr \<Rightarrow> nat \<Rightarrow> topo_card option" where
  "move_tree c node0 node1 port =
    (case ports (nodes c ! node1) ! port of
       None \<Rightarrow> None
     | Some tree \<Rightarrow>
         let c = node_upd c node0 (\<lambda>n. n\<lparr>ports := (ports n)[port := Some tree]\<rparr>)
         in Some (node_upd c tree (\<lambda>n. n\<lparr>ports := replace_first (Some node1) (Some node0) (ports n)\<rparr>)))"

text \<open>The port of the new node at an index; beyond its ports the source warns and reads whatever
  follows, here the walk stops.\<close>

definition port_at :: "fw_node \<Rightarrow> nat \<Rightarrow> node_ptr option option" where
  "port_at n i = (if i < length (ports n) then Some (ports n ! i) else None)"

definition update_port ::
  "topo_card \<Rightarrow> node_ptr \<Rightarrow> node_ptr \<Rightarrow> nat \<Rightarrow> node_ptr list \<Rightarrow> node_ptr list \<Rightarrow>
    (topo_card \<times> node_ptr list \<times> node_ptr list) option" where
  "update_port c node0 node1 i list0 list1 =
    (case (node_at c node0, node_at c node1) of
       (Some n0, Some n1) \<Rightarrow>
         (case (port_at n0 i, port_at n1 i) of
            (Some (Some p0), Some (Some p1)) \<Rightarrow>
              (case node_at c p0 of
                 None \<Rightarrow> None
               | Some np0 \<Rightarrow>
                   if color np0 = c_color c then Some (c, list0, list1)
                   else Some (c, list0 @ [p0], list1 @ [p1]))
          | (Some (Some p0), Some None) \<Rightarrow>
              (case for_each_fw_node Report_lost_node c p0 of
                 None \<Rightarrow> None
               | Some c \<Rightarrow>
                   Some (node_upd c node0 (\<lambda>n. n\<lparr>ports := (ports n)[i := None]\<rparr>), list0, list1))
          | (Some None, Some (Some p1)) \<Rightarrow>
              (case move_tree c node0 node1 i of
                 None \<Rightarrow> None
               | Some c \<Rightarrow>
                   (case for_each_fw_node Report_found_node c p1 of
                      None \<Rightarrow> None
                    | Some c \<Rightarrow> Some (c, list0, list1)))
          | (Some None, Some None) \<Rightarrow> Some (c, list0, list1)
          | _ \<Rightarrow> None)
     | _ \<Rightarrow> None)"

fun update_ports ::
  "topo_card \<Rightarrow> node_ptr \<Rightarrow> node_ptr \<Rightarrow> nat list \<Rightarrow> node_ptr list \<Rightarrow> node_ptr list \<Rightarrow>
    (topo_card \<times> node_ptr list \<times> node_ptr list) option" where
  "update_ports c node0 node1 [] list0 list1 = Some (c, list0, list1)"
| "update_ports c node0 node1 (i # is) list0 list1 =
    (case update_port c node0 node1 i list0 list1 of
       None \<Rightarrow> None
     | Some (c, list0, list1) \<Rightarrow> update_ports c node0 node1 is list0 list1)"

definition update_event :: "fw_node \<Rightarrow> fw_node \<Rightarrow> fw_node_event" where
  "update_event n0 n1 =
    (if link_on n0 \<and> \<not> link_on n1 then FW_NODE_LINK_OFF
     else if \<not> link_on n0 \<and> link_on n1 then FW_NODE_LINK_ON
     else if initiated_reset n1 \<and> link_on n1 then FW_NODE_INITIATED_RESET
     else FW_NODE_UPDATED)"

text \<open>One iteration of the loop of \<open>update_tree\<close> on the heads of the two lists.\<close>

definition update_node ::
  "topo_card \<Rightarrow> node_ptr \<Rightarrow> node_ptr \<Rightarrow> node_ptr list \<Rightarrow> node_ptr list \<Rightarrow>
    (topo_card \<times> node_ptr list \<times> node_ptr list) option" where
  "update_node c node0 node1 list0 list1 =
    (case (node_at c node0, node_at c node1) of
       (Some n0, Some n1) \<Rightarrow>
         let event = update_event n0 n1;
             c = node_upd c node0 (\<lambda>n. n\<lparr>node_id := node_id n1, color := c_color c, link_on := link_on n1,
                   initiated_reset := initiated_reset n1, max_hops := max_hops n1\<rparr>);
             c = node_upd c node1 (\<lambda>n. n\<lparr>color := c_color c\<rparr>);
             c = fw_node_event c node0 event;
             c = (if root_node c = Some node1 then c\<lparr>root_node := Some node0\<rparr> else c);
             c = (if irm_node c = Some node1 then c\<lparr>irm_node := Some node0\<rparr> else c)
         in (case update_ports c node0 node1 [0..<length (ports n0)] list0 list1 of
               None \<Rightarrow> None
             | Some (c, list0, list1) \<Rightarrow> Some (fw_node_put c node1, list0, list1))
     | _ \<Rightarrow> None)"

lemma for_each_loop_colors:
  "for_each_loop cb c visited queue parent = Some (c', visited') \<Longrightarrow>
    uncolored c' \<subseteq> uncolored c \<and> length (nodes c') = length (nodes c) \<and> c_color c' = c_color c"
proof (induction cb c visited queue parent rule: for_each_loop.induct)
  case (1 cb c visited parent)
  then show ?case by simp
next
  case (2 cb c visited node queue parent)
  let ?c0 = "node_upd c node (\<lambda>n. n\<lparr>color := c_color c\<rparr>)"
  from "2.prems" obtain n c1 queue1 parent1 c2 where
    n: "node_at c node = Some n"
    and ports: "for_each_ports ?c0 (ports n) queue parent = Some (c1, queue1, parent1)"
    and cb: "run_callback cb c1 node parent1 = Some c2"
    and rest: "for_each_loop cb c2 (visited @ [node]) queue1 parent1 = Some (c', visited')"
    by (auto split: option.splits prod.splits)
  have "node < length (nodes c)" using n by (auto simp: node_at_def split: if_splits)
  then have "uncolored ?c0 \<subseteq> uncolored c" by (auto simp: uncolored_visit)
  moreover have s1: "same_colors ?c0 c1" using for_each_ports_queue [OF ports] by blast
  moreover have s2: "same_colors c1 c2" by (rule run_callback_same_colors [OF cb])
  ultimately have "uncolored c2 \<subseteq> uncolored c" "length (nodes c2) = length (nodes c)" "c_color c2 = c_color c"
    using same_colors_uncolored [OF s1] same_colors_uncolored [OF s2] by (auto simp: same_colors_def)
  with "2.IH" [OF n ports refl refl cb rest] show ?case by auto
qed

lemma foldl_put_same_colors: "same_colors c (foldl fw_node_put c vs)"
proof (induction vs arbitrary: c)
  case (Cons v vs)
  have "same_colors (fw_node_put c v) (foldl fw_node_put (fw_node_put c v) vs)" by (rule Cons.IH)
  with same_colors_put [of c v] show ?case by (simp add: same_colors_trans [of c "fw_node_put c v"])
qed simp

lemma for_each_fw_node_colors:
  assumes "for_each_fw_node cb c p = Some c'"
  shows "uncolored c' \<subseteq> uncolored c \<and> length (nodes c') = length (nodes c) \<and> c_color c' = c_color c"
proof -
  obtain c1 vs where loop: "for_each_loop cb (fw_node_get c p) [] [p] None = Some (c1, vs)"
    and c': "c' = foldl fw_node_put c1 vs"
    using assms by (auto simp: for_each_fw_node_def split: option.splits)
  have get: "same_colors c (fw_node_get c p)" by simp
  have put: "same_colors c1 c'" by (simp add: c' foldl_put_same_colors)
  show ?thesis
    using for_each_loop_colors [OF loop] same_colors_uncolored [OF get] same_colors_uncolored [OF put]
      get put by (auto simp: same_colors_def)
qed

lemma move_tree_same_colors: "move_tree c n0 n1 i = Some c' \<Longrightarrow> same_colors c c'"
  by (auto simp: move_tree_def same_colors_def nodes_node_upd nth_update Let_def split: option.splits)

text \<open>A step that keeps the heap and colours at least what was coloured before.\<close>

definition colors_grow :: "topo_card \<Rightarrow> topo_card \<Rightarrow> bool" where
  "colors_grow c c' \<longleftrightarrow>
    uncolored c' \<subseteq> uncolored c \<and> length (nodes c') = length (nodes c) \<and> c_color c' = c_color c"

lemma colors_grow_trans: "colors_grow a b \<Longrightarrow> colors_grow b c \<Longrightarrow> colors_grow a c"
  by (auto simp: colors_grow_def)

lemma same_colors_grow: "same_colors a b \<Longrightarrow> colors_grow a b"
  using same_colors_uncolored [of a b] by (auto simp: colors_grow_def same_colors_def)

lemma for_each_colors_grow: "for_each_fw_node cb c p = Some c' \<Longrightarrow> colors_grow c c'"
  by (drule for_each_fw_node_colors) (simp add: colors_grow_def)

lemma colors_grow_refl [simp]: "colors_grow c c"
  by (simp add: colors_grow_def)

lemma node_at_uncolored: "node_at c p = Some n \<Longrightarrow> color n \<noteq> c_color c \<Longrightarrow> p \<in> uncolored c"
  by (auto simp: node_at_def uncolored_def split: if_splits)

lemma update_port_queue:
  assumes "update_port c n0 n1 i list0 list1 = Some (c', list0', list1')"
  shows "colors_grow c c' \<and> (\<exists>new. list0' = list0 @ new \<and> set new \<subseteq> uncolored c)"
proof -
  have upd: "colors_grow c1 (node_upd c1 n0 (\<lambda>n. n\<lparr>ports := (ports n)[i := None]\<rparr>))" for c1
    by (intro same_colors_grow same_colors_node_upd) simp
  show ?thesis
    using assms
    by (auto simp: update_port_def node_at_uncolored split: option.splits if_splits
        intro: colors_grow_trans [OF for_each_colors_grow upd]
          colors_grow_trans [OF same_colors_grow [OF move_tree_same_colors] for_each_colors_grow])
qed

lemma update_ports_queue:
  "update_ports c n0 n1 is list0 list1 = Some (c', list0', list1') \<Longrightarrow>
    colors_grow c c' \<and> (\<exists>new. list0' = list0 @ new \<and> set new \<subseteq> uncolored c)"
proof (induction c n0 n1 "is" list0 list1 rule: update_ports.induct)
  case (1 c node0 node1 list0 list1)
  then show ?case by (simp add: colors_grow_def)
next
  case (2 c node0 node1 i "is" list0 list1)
  from "2.prems" obtain c1 l0 l1 where
    port: "update_port c node0 node1 i list0 list1 = Some (c1, l0, l1)"
    and rest: "update_ports c1 node0 node1 is l0 l1 = Some (c', list0', list1')"
    by (auto split: option.splits)
  obtain new new' where
    new: "colors_grow c c1" "l0 = list0 @ new" "set new \<subseteq> uncolored c"
    and new': "colors_grow c1 c'" "list0' = l0 @ new'" "set new' \<subseteq> uncolored c1"
    using update_port_queue [OF port] "2.IH" [OF port refl refl rest] by blast
  then show ?case
    using colors_grow_trans [OF new(1) new'(1)] by (auto simp: colors_grow_def)
qed

lemma update_node_measure:
  assumes "update_node c n0 n1 list0 list1 = Some (c', list0', list1')"
  shows "card (uncolored c') < card (uncolored c) \<or>
    card (uncolored c') = card (uncolored c) \<and> colored_prefix c' list0' < colored_prefix c (n0 # list0)"
proof -
  from assms obtain m0 m1 where m: "node_at c n0 = Some m0" "node_at c n1 = Some m1"
    by (auto simp: update_node_def split: option.splits prod.splits)
  define c1 where "c1 = node_upd c n0 (\<lambda>n. n\<lparr>node_id := node_id m1, color := c_color c, link_on := link_on m1,
                   initiated_reset := initiated_reset m1, max_hops := max_hops m1\<rparr>)"
  define c2 where "c2 = node_upd c1 n1 (\<lambda>n. n\<lparr>color := c_color c1\<rparr>)"
  have lt: "n0 < length (nodes c)" "n1 < length (nodes c)"
    using m by (auto simp: node_at_def split: if_splits)
  have c2: "uncolored c2 = uncolored c - {n0, n1}"
    using lt by (auto simp: c2_def c1_def uncolored_def nodes_node_upd nth_update split: if_splits)
  define c3a where "c3a = fw_node_event c2 n0 (update_event m0 m1)"
  define c3b where "c3b = (if root_node c3a = Some n1 then c3a\<lparr>root_node := Some n0\<rparr> else c3a)"
  define c3 where "c3 = (if irm_node c3b = Some n1 then c3b\<lparr>irm_node := Some n0\<rparr> else c3b)"
  have c3: "nodes c3 = nodes c2" "c_color c3 = c_color c2"
    by (simp_all add: c3_def c3b_def c3a_def fw_node_event_def)
  have "(case update_ports c3 n0 n1 [0..<length (ports m0)] list0 list1 of
       None \<Rightarrow> None | Some (c, list0, list1) \<Rightarrow> Some (fw_node_put c n1, list0, list1)) = Some (c', list0', list1')"
    using assms m unfolding update_node_def c3_def c3b_def c3a_def c2_def c1_def by (simp add: Let_def)
  then obtain c4 where upd: "update_ports c3 n0 n1 [0..<length (ports m0)] list0 list1 = Some (c4, list0', list1')"
    and c': "c' = fw_node_put c4 n1"
    by (auto split: option.splits)
  have u3: "uncolored c3 = uncolored c - {n0, n1}"
    using c3 c2 by (simp add: uncolored_def)
  obtain new where new: "colors_grow c3 c4" "list0' = list0 @ new" "set new \<subseteq> uncolored c3"
    using update_ports_queue [OF upd] by blast
  have u': "uncolored c' \<subseteq> uncolored c - {n0, n1}"
    using new(1) u3 same_colors_uncolored [OF same_colors_put, of c4 n1] by (simp add: c' colors_grow_def)
  show ?thesis
  proof (cases "uncolored c' = uncolored c")
    case False
    then have "card (uncolored c') < card (uncolored c)"
      using u' by (intro psubset_card_mono) auto
    then show ?thesis by simp
  next
    case True
    then have "n0 \<notin> uncolored c" using u' by auto
    moreover have "colored_prefix c' list0' = colored_prefix c' list0"
      using new(2,3) u3 True by (auto intro!: colored_prefix_append)
    ultimately show ?thesis using True by (simp add: colored_prefix_def)
  qed
qed

function update_loop :: "topo_card \<Rightarrow> node_ptr list \<Rightarrow> node_ptr list \<Rightarrow> topo_card option" where
  "update_loop c [] list1 = Some c"
| "update_loop c (node0 # list0) [] = None"
| "update_loop c (node0 # list0) (node1 # list1) =
    (case update_node c node0 node1 list0 list1 of
       None \<Rightarrow> None
     | Some (c, list0, list1) \<Rightarrow> update_loop c list0 list1)"
  by pat_completeness auto
termination
  by (relation "measures [\<lambda>(c, list0, list1). card (uncolored c), \<lambda>(c, list0, list1). colored_prefix c list0]")
    (auto dest: update_node_measure)

definition update_tree :: "topo_card \<Rightarrow> node_ptr \<Rightarrow> topo_card option" where
  "update_tree c root =
    (case local_node c of
       None \<Rightarrow> None
     | Some l \<Rightarrow> update_loop c [l] [root])"

section \<open>Bus reset\<close>

text \<open>The buffer holds 256 quadlets.  It is cleared before its second quadlet is read.\<close>

definition update_topology_map ::
  "(u16 \<Rightarrow> u8 list \<Rightarrow> u16) \<Rightarrow> u32 list \<Rightarrow> u32 \<Rightarrow> u32 list \<Rightarrow> nat \<Rightarrow> u32 list" where
  "update_topology_map crc_itu_t buffer root_node_id self_ids self_id_count =
    (let node_count = (root_node_id AND 0x3f) + 1;
         buffer = replicate (length buffer) 0;
         buffer = buffer[0 := push_bit 16 (of_nat (self_id_count + 2))];
         buffer = buffer[1 := buffer ! 1 + 1];
         buffer = buffer[2 := push_bit 16 node_count OR of_nat self_id_count];
         buffer = foldl (\<lambda>buffer k. buffer[3 + k := self_ids ! k]) buffer [0..<self_id_count]
     in fst (fw_compute_block_crc crc_itu_t buffer 0))"

text \<open>\<open>None\<close> is a read through a null or dangling pointer.\<close>

definition fw_core_handle_bus_reset ::
  "(u16 \<Rightarrow> u8 list \<Rightarrow> u16) \<Rightarrow> (nat \<Rightarrow> bool) \<Rightarrow> u64 \<Rightarrow> topo_card \<Rightarrow> u32 \<Rightarrow> u32 \<Rightarrow> nat \<Rightarrow> u32 list \<Rightarrow> bool \<Rightarrow>
    topo_card option" where
  "fw_core_handle_bus_reset crc_itu_t alloc jiffies c nid generation self_id_count self_ids abdicate =
    (case (if \<not> is_next_generation generation (c_generation c) \<and> local_node c \<noteq> None
           then map_option (\<lambda>c. c\<lparr>bm_retries := 0\<rparr>) (fw_destroy_nodes c) else Some c) of
       None \<Rightarrow> None
     | Some c \<Rightarrow>
         let c = c\<lparr>broadcast_channel_allocated := broadcast_channel_auto_allocated c, c_node_id := nid,
                   c_generation := generation, reset_jiffies := jiffies, bm_node_id := 0xffff,
                   bm_abdicate := abdicate\<rparr>
         in case build_tree alloc c self_ids self_id_count of
              None \<Rightarrow> None
            | Some (c, new_local) \<Rightarrow>
                let c = c\<lparr>c_color := c_color c + 1\<rparr> in
                (case (case new_local of
                         None \<Rightarrow> Some c
                       | Some l \<Rightarrow>
                           (case local_node c of
                              None \<Rightarrow> for_each_fw_node Report_found_node (c\<lparr>local_node := Some l\<rparr>) l
                            | Some _ \<Rightarrow> update_tree c l)) of
                   None \<Rightarrow> None
                 | Some c \<Rightarrow>
                     let c = c\<lparr>bm_work_scheduled := bm_work_scheduled c + 1\<rparr> in
                     (case root_node c of
                        None \<Rightarrow> None
                      | Some r \<Rightarrow>
                          (case node_at c r of
                             None \<Rightarrow> None
                           | Some n \<Rightarrow>
                               Some (c\<lparr>topology_map := update_topology_map crc_itu_t (topology_map c)
                                        (ucast (node_id n)) self_ids self_id_count\<rparr>)))))"

end
