(* ===== verification/Topology_Proofs.thy ===== *)
theory Topology_Proofs
  imports Topology "HOL-Library.Multiset"
begin

text \<open>
  What the topology code guarantees: \<open>build_tree\<close> never follows a bad pointer, leaves the nodes of
  the previous topology alone and produces nodes with consecutive identifiers whose connections
  are mutual; hop counts; the walk over a tree; the bus reset handler.
\<close>

section \<open>Connecting a child\<close>

definition mutual_links :: "nat \<Rightarrow> fw_node list \<Rightarrow> bool" where
  "mutual_links lo h \<longleftrightarrow>
    (\<forall>p i q. lo \<le> p \<and> p < length h \<and> i < length (ports (h ! p)) \<and> ports (h ! p) ! i = Some q \<longrightarrow>
       lo \<le> q \<and> q < length h \<and> q \<noteq> p \<and> (\<exists>j < length (ports (h ! q)). ports (h ! q) ! j = Some p))"

lemma mutual_links_cong:
  assumes "mutual_links lo h" "map ports h' = map ports h"
  shows "mutual_links lo h'"
proof -
  have len: "length h' = length h" using map_eq_imp_length_eq [OF assms(2)] .
  have "ports (h' ! p) = ports (h ! p)" if "p < length h" for p
    using arg_cong [OF assms(2), of "\<lambda>xs. xs ! p"] that len by simp
  with assms(1) len show ?thesis unfolding mutual_links_def by metis
qed

text \<open>A node that waits for its parent: its colour is the number of a free port.\<close>

definition awaits_parent :: "fw_node \<Rightarrow> bool" where
  "awaits_parent n \<longleftrightarrow> unat (color n) < length (ports n) \<and> ports n ! unat (color n) = None"

text \<open>What linking may change of a node.\<close>

definition same_identity :: "fw_node \<Rightarrow> fw_node \<Rightarrow> bool" where
  "same_identity n n' \<longleftrightarrow> node_id n' = node_id n \<and> kref n' = kref n \<and> phy_speed n' = phy_speed n \<and>
     link_on n' = link_on n \<and> length (ports n') = length (ports n)"

lemma same_identity_refl [simp]: "same_identity n n"
  by (simp add: same_identity_def)

lemma same_identity_trans: "same_identity a b \<Longrightarrow> same_identity b c \<Longrightarrow> same_identity a c"
  by (simp add: same_identity_def)

lemma nodes_connect_child:
  assumes "node \<noteq> child"
  shows "nodes (connect_child c node i child) =
    (nodes c)[node := (nodes c ! node)\<lparr>ports := (ports (nodes c ! node))[i := Some child]\<rparr>,
              child := (nodes c ! child)\<lparr>ports := (ports (nodes c ! child))[unat (color (nodes c ! child)) := Some node],
                                        color := c_color c\<rparr>]"
proof (cases "child < length (nodes c)")
  case True
  with assms show ?thesis by (simp add: connect_child_def Let_def nodes_node_upd nth_update)
next
  case False
  with assms show ?thesis by (simp add: connect_child_def Let_def nodes_node_upd list_update_beyond)
qed

lemma connect_child_simps [simp]:
  "length (nodes (connect_child c node i child)) = length (nodes c)"
  "c_color (connect_child c node i child) = c_color c"
  "c_node_id (connect_child c node i child) = c_node_id c"
  by (simp_all add: connect_child_def Let_def node_upd_def)

lemma connect_child_mutual:
  assumes links: "mutual_links lo (nodes c)" and ne: "node \<noteq> child"
    and lo: "lo \<le> node" "node < length (nodes c)" "lo \<le> child" "child < length (nodes c)"
    and i: "i < length (ports (nodes c ! node))" "ports (nodes c ! node) ! i = None"
    and w: "awaits_parent (nodes c ! child)"
  shows "mutual_links lo (nodes (connect_child c node i child))"
proof -
  let ?h = "nodes c" and ?h' = "nodes (connect_child c node i child)"
  let ?k = "unat (color (?h ! child))"
  have h': "?h' = ?h[node := (?h ! node)\<lparr>ports := (ports (?h ! node))[i := Some child]\<rparr>,
      child := (?h ! child)\<lparr>ports := (ports (?h ! child))[?k := Some node], color := c_color c\<rparr>]"
    by (rule nodes_connect_child [OF ne])
  have k: "?k < length (ports (?h ! child))" "ports (?h ! child) ! ?k = None"
    using w by (auto simp: awaits_parent_def)
  have len: "length (ports (?h' ! p)) = length (ports (?h ! p))" if "p < length ?h" for p
    using that lo by (auto simp: h' nth_update)
  have keep: "ports (?h' ! p) ! j = Some q"
    if "p < length ?h" "j < length (ports (?h ! p))" "ports (?h ! p) ! j = Some q" for p j q
    using that i k lo by (auto simp: h' nth_update)
  have new: "ports (?h' ! node) ! i = Some child" "ports (?h' ! child) ! ?k = Some node"
    using i k lo ne by (auto simp: h' nth_update)
  show ?thesis
    unfolding mutual_links_def
  proof (intro allI impI)
    fix p j q
    assume a: "lo \<le> p \<and> p < length ?h' \<and> j < length (ports (?h' ! p)) \<and> ports (?h' ! p) ! j = Some q"
    then have p: "lo \<le> p" "p < length ?h" "j < length (ports (?h ! p))" by (auto simp: len)
    consider (old) "ports (?h ! p) ! j = Some q" | (node) "p = node" "j = i" "q = child"
      | (child) "p = child" "j = ?k" "q = node"
    proof (cases "p = child")
      case True
      then have "ports (?h' ! p) = (ports (?h ! child))[?k := Some node]"
        using lo by (simp add: h' nth_update)
      with a p True show ?thesis using old child by (cases "j = ?k") (auto simp: nth_update)
    next
      case False
      show ?thesis
      proof (cases "p = node")
        case True
        then have "ports (?h' ! p) = (ports (?h ! node))[i := Some child]"
          using lo False by (simp add: h' nth_update)
        with a p True show ?thesis using old node by (cases "j = i") (auto simp: nth_update)
      next
        case False
        with \<open>p \<noteq> child\<close> have "?h' ! p = ?h ! p" using p by (simp add: h' nth_update)
        with a show ?thesis using old by simp
      qed
    qed
    then show "lo \<le> q \<and> q < length ?h' \<and> q \<noteq> p \<and> (\<exists>j < length (ports (?h' ! q)). ports (?h' ! q) ! j = Some p)"
    proof cases
      case old
      then obtain j' where "lo \<le> q" "q < length ?h" "q \<noteq> p" "j' < length (ports (?h ! q))"
        "ports (?h ! q) ! j' = Some p"
        using links p unfolding mutual_links_def by metis
      then show ?thesis using keep len by auto
    next
      case node
      then show ?thesis using lo ne k new len by auto
    next
      case child
      then show ?thesis using lo ne i new len by auto
    qed
  qed
qed

section \<open>The second pass over the ports\<close>

abbreviation parent_ports :: "(nat \<Rightarrow> port_status) \<Rightarrow> nat list \<Rightarrow> nat list" where
  "parent_ports st is \<equiv> filter (\<lambda>i. st i = PORT_PARENT) is"

abbreviation child_ports :: "(nat \<Rightarrow> port_status) \<Rightarrow> nat list \<Rightarrow> nat list" where
  "child_ports st is \<equiv> filter (\<lambda>i. st i = PORT_CHILD) is"

lemma link_ports_correct:
  assumes "mutual_links lo (nodes c)" "lo \<le> node" "node < length (nodes c)"
    and "distinct children" "node \<notin> set children"
    and "\<forall>p \<in> set children. lo \<le> p \<and> p < length (nodes c) \<and> awaits_parent (nodes c ! p)"
    and "distinct is" "\<forall>i \<in> set is. i < length (ports (nodes c ! node)) \<and> ports (nodes c ! node) ! i = None"
    and "length (child_ports st is) \<le> length children"
  shows "\<exists>c'. link_ports c node st is children pc = Some (c', pc + length (parent_ports st is)) \<and>
    mutual_links lo (nodes c') \<and> length (nodes c') = length (nodes c) \<and>
    c_color c' = c_color c \<and> c_node_id c' = c_node_id c \<and>
    (\<forall>p < length (nodes c). same_identity (nodes c ! p) (nodes c' ! p)) \<and>
    (\<forall>p < length (nodes c). p \<noteq> node \<and> p \<notin> set children \<longrightarrow> nodes c' ! p = nodes c ! p) \<and>
    (\<forall>i < length (ports (nodes c ! node)). i \<notin> set (child_ports st is) \<longrightarrow>
       ports (nodes c' ! node) ! i = ports (nodes c ! node) ! i) \<and>
    color (nodes c' ! node) =
      (if parent_ports st is = [] then color (nodes c ! node) else of_nat (last (parent_ports st is)))"
  (is "\<exists>c'. ?goal c is children pc c'")
  using assms
proof (induction "is" arbitrary: c children pc)
  case Nil
  then show ?case by simp
next
  case (Cons i "is")
  show ?case
  proof (cases "st i")
    case PORT_PARENT
    let ?c = "node_upd c node (\<lambda>n. n\<lparr>color := of_nat i\<rparr>)"
    have h: "nodes ?c ! p = (if p = node then (nodes c ! node)\<lparr>color := of_nat i\<rparr> else nodes c ! p)"
      if "p < length (nodes c)" for p
      using that by (auto simp: nodes_node_upd nth_update)
    have m: "mutual_links lo (nodes ?c)"
    proof (rule mutual_links_cong [OF Cons.prems(1)])
      show "map ports (nodes ?c) = map ports (nodes c)"
        by (rule nth_equalityI) (auto simp: h)
    qed
    have w: "\<forall>p \<in> set children. lo \<le> p \<and> p < length (nodes ?c) \<and> awaits_parent (nodes ?c ! p)"
      using Cons.prems(5,6) by (auto simp: h)
    have f: "\<forall>i \<in> set is. i < length (ports (nodes ?c ! node)) \<and> ports (nodes ?c ! node) ! i = None"
      using Cons.prems(3,8) by (simp add: h)
    have "\<exists>c'. ?goal ?c is children (pc + 1) c'"
      by (rule Cons.IH [OF m _ _ Cons.prems(4,5) w _ f]) (use Cons.prems PORT_PARENT in simp_all)
    then obtain c' where c': "?goal ?c is children (pc + 1) c'" ..
    have "?goal c (i # is) children pc c'"
    proof (intro conjI)
      show "\<forall>p < length (nodes c). same_identity (nodes c ! p) (nodes c' ! p)"
        using c' h Cons.prems(3) by (auto simp: same_identity_def split: if_splits)
    qed (use c' h Cons.prems(3) PORT_PARENT in \<open>auto simp: node_upd_def split: if_splits\<close>)
    then show ?thesis by blast
  next
    case PORT_CHILD
    then obtain child rest where ch: "children = child # rest"
      using Cons.prems(9) by (cases children) auto
    let ?c = "connect_child c node i child"
    have ne: "node \<noteq> child" and child: "lo \<le> child" "child < length (nodes c)" "awaits_parent (nodes c ! child)"
      using Cons.prems ch by auto
    have h: "nodes ?c ! p =
        (if p = node then (nodes c ! node)\<lparr>ports := (ports (nodes c ! node))[i := Some child]\<rparr>
         else if p = child then (nodes c ! child)\<lparr>ports := (ports (nodes c ! child))[unat (color (nodes c ! child)) := Some node],
              color := c_color c\<rparr> else nodes c ! p)" if "p < length (nodes c)" for p
      using that ne by (simp add: nodes_connect_child nth_update)
    have m: "mutual_links lo (nodes ?c)"
      using Cons.prems ne child by (intro connect_child_mutual) auto
    have w: "\<forall>p \<in> set rest. lo \<le> p \<and> p < length (nodes ?c) \<and> awaits_parent (nodes ?c ! p)"
      using Cons.prems(4,5,6) ch by (auto simp: h)
    have f: "\<forall>i \<in> set is. i < length (ports (nodes ?c ! node)) \<and> ports (nodes ?c ! node) ! i = None"
      using Cons.prems(3,7,8) by (auto simp: h nth_update)
    have "\<exists>c'. ?goal ?c is rest pc c'"
      by (rule Cons.IH [OF m _ _ _ _ w _ f]) (use Cons.prems PORT_CHILD ch in simp_all)
    then obtain c' where c': "?goal ?c is rest pc c'" ..
    have "?goal c (i # is) children pc c'"
    proof (intro conjI)
      show "\<forall>p < length (nodes c). same_identity (nodes c ! p) (nodes c' ! p)"
        using c' h by (auto simp: same_identity_def split: if_splits)
      show "\<forall>j < length (ports (nodes c ! node)). j \<notin> set (child_ports st (i # is)) \<longrightarrow>
          ports (nodes c' ! node) ! j = ports (nodes c ! node) ! j"
        using c' h Cons.prems(3) PORT_CHILD by (auto simp: nth_update)
    qed (use c' h Cons.prems(3) PORT_CHILD ch in \<open>auto split: if_splits\<close>)
    then show ?thesis by blast
  next
    case PORT_NONE
    then show ?thesis using Cons.IH [of c children pc] Cons.prems by auto
  next
    case PORT_NCONN
    then show ?thesis using Cons.IH [of c children pc] Cons.prems by auto
  qed
qed


section \<open>Building keeps its invariant\<close>

lemma link_ports_frame: "link_ports c node st is children pc = Some (c', pc') \<Longrightarrow> c' = c\<lparr>nodes := nodes c'\<rparr>"
proof (induction c node st "is" children pc rule: link_ports.induct)
  case (2 c node st i "is" children pc)
  then show ?case
    by (cases "st i"; cases children) (force simp: node_upd_def connect_child_def Let_def)+
qed simp

lemma update_hop_count_effect:
  "\<exists>d m. update_hop_count c p = c\<lparr>nodes := (nodes c)[p := (nodes c ! p)\<lparr>max_depth := d, max_hops := m\<rparr>]\<rparr>"
  by (auto simp: update_hop_count_def node_upd_def split: prod.splits)

lemma port_capacity_bound: "1 \<le> n \<Longrightarrow> n \<le> 4 \<Longrightarrow> self_id_sequence_get_port_capacity n \<le> 27"
  by (auto simp: self_id_sequence_get_port_capacity_def mod_if)

lemma filter_upt_prefix_le:
  "m \<le> n \<Longrightarrow> length (filter P [0..<m]) \<le> length (filter P [0..<(n::nat)])"
  using upt_add_eq_append [of 0 m "n - m"] by simp

lemma phy_id_word: "k < 64 \<Longrightarrow> unat (of_nat k :: 16 word) = k"
  by (simp add: unat_of_nat)

definition build_inv :: "topo_card \<Rightarrow> build_state \<Rightarrow> bool" where
  "build_inv c0 b \<longleftrightarrow>
     b_card b = c0\<lparr>nodes := nodes (b_card b)\<rparr> \<and>
     length (nodes (b_card b)) = length (nodes c0) + b_phy_id b \<and>
     take (length (nodes c0)) (nodes (b_card b)) = nodes c0 \<and>
     (\<forall>k < b_phy_id b. node_id (nodes (b_card b) ! (length (nodes c0) + k)) = 0xffc0 OR of_nat k \<and>
        kref (nodes (b_card b) ! (length (nodes c0) + k)) = 1) \<and>
     distinct (b_stack b) \<and> set (b_stack b) \<subseteq> {length (nodes c0)..<length (nodes (b_card b))} \<and>
     (0 < quadlet_count (b_enum b) \<longrightarrow> (\<forall>p \<in> set (b_stack b). awaits_parent (nodes (b_card b) ! p))) \<and>
     mutual_links (length (nodes c0)) (nodes (b_card b)) \<and> b_phy_id b \<le> 64 \<and>
     b_node b = (if b_phy_id b = 0 then None else Some (length (nodes c0) + b_phy_id b - 1)) \<and>
     b_local b = (if unat (c_node_id c0 AND 0x3f) < b_phy_id b
       then Some (length (nodes c0) + unat (c_node_id c0 AND 0x3f)) else None) \<and>
     (\<exists>p. cursor (b_enum b) = Some p \<and> quadlet_count (b_enum b) \<le> length p)"

text \<open>The facts of one accepted iteration, before the node is pushed.\<close>

lemma build_link:
  assumes inv: "build_inv c0 b" and qc: "0 < quadlet_count (b_enum b)"
    and cap: "cap \<le> 27"
    and cc: "cc = length (filter (\<lambda>i. st i = PORT_CHILD) [0..<cap])"
    and tc: "tc = length (filter (\<lambda>i. st i \<noteq> PORT_NONE) [0..<cap])"
    and fit: "cc \<le> length (b_stack b)"
    and c: "c = (b_card b)\<lparr>nodes := nodes (b_card b) @ [fw_node_create sid tc (c_color (b_card b))]\<rparr>"
    and node: "node = length (nodes (b_card b))"
  shows "\<exists>c'. link_ports c node st [0..<tc] (drop (length (b_stack b) - cc) (b_stack b)) 0 =
        Some (c', length (parent_ports st [0..<tc])) \<and>
    c' = c0\<lparr>nodes := nodes c'\<rparr> \<and> mutual_links (length (nodes c0)) (nodes c') \<and> length (nodes c') = Suc node \<and>
    (\<forall>p \<le> node. same_identity (nodes c ! p) (nodes c' ! p)) \<and>
    (\<forall>p < node. p \<notin> set (drop (length (b_stack b) - cc) (b_stack b)) \<longrightarrow> nodes c' ! p = nodes (b_card b) ! p) \<and>
    (length (parent_ports st [0..<tc]) = 1 \<longrightarrow> awaits_parent (nodes c' ! node))"
proof -
  let ?lo = "length (nodes c0)" and ?ch = "drop (length (b_stack b) - cc) (b_stack b)"
  have lo: "?lo \<le> node" and nc: "node < length (nodes c)" and lenc: "length (nodes c) = Suc node"
    using inv by (simp_all add: build_inv_def node c)
  have hn: "nodes c ! node = fw_node_create sid tc (c_color (b_card b))"
    and hold: "\<And>p. p < node \<Longrightarrow> nodes c ! p = nodes (b_card b) ! p"
    by (simp_all add: c node nth_append)
  have stack: "distinct (b_stack b)" "set (b_stack b) \<subseteq> {?lo..<node}"
    "\<forall>p \<in> set (b_stack b). awaits_parent (nodes (b_card b) ! p)"
    using inv qc by (auto simp: build_inv_def node)
  have sub: "set ?ch \<subseteq> set (b_stack b)" by (rule set_drop_subset)
  have ports_n: "ports (nodes c ! node) = replicate tc None" by (simp add: hn fw_node_create_def)
  have links: "mutual_links ?lo (nodes c)"
  proof -
    have old: "mutual_links ?lo (nodes (b_card b))" using inv by (simp add: build_inv_def)
    show ?thesis
      unfolding mutual_links_def
    proof (intro allI impI)
      fix p i q
      assume a: "?lo \<le> p \<and> p < length (nodes c) \<and> i < length (ports (nodes c ! p)) \<and> ports (nodes c ! p) ! i = Some q"
      then have "p \<noteq> node" using ports_n by auto
      with a lenc have p: "p < node" by simp
      with a hold old obtain j where "?lo \<le> q" "q < node" "q \<noteq> p" "j < length (ports (nodes (b_card b) ! q))"
        "ports (nodes (b_card b) ! q) ! j = Some p"
        unfolding mutual_links_def node by metis
      then show "?lo \<le> q \<and> q < length (nodes c) \<and> q \<noteq> p \<and>
          (\<exists>j < length (ports (nodes c ! q)). ports (nodes c ! q) ! j = Some p)"
        using hold lenc by auto
    qed
  qed
  have tc_cap: "tc \<le> cap" unfolding tc using length_filter_le [of _ "[0..<cap]"] by simp
  have children: "length (child_ports st [0..<tc]) \<le> length ?ch"
    using filter_upt_prefix_le [OF tc_cap, of "\<lambda>i. st i = PORT_CHILD"] fit by (simp add: cc)
  have "\<exists>c'. link_ports c node st [0..<tc] ?ch 0 = Some (c', 0 + length (parent_ports st [0..<tc])) \<and>
      mutual_links ?lo (nodes c') \<and> length (nodes c') = length (nodes c) \<and>
      c_color c' = c_color c \<and> c_node_id c' = c_node_id c \<and>
      (\<forall>p < length (nodes c). same_identity (nodes c ! p) (nodes c' ! p)) \<and>
      (\<forall>p < length (nodes c). p \<noteq> node \<and> p \<notin> set ?ch \<longrightarrow> nodes c' ! p = nodes c ! p) \<and>
      (\<forall>i < length (ports (nodes c ! node)). i \<notin> set (child_ports st [0..<tc]) \<longrightarrow>
         ports (nodes c' ! node) ! i = ports (nodes c ! node) ! i) \<and>
      color (nodes c' ! node) = (if parent_ports st [0..<tc] = [] then color (nodes c ! node)
        else of_nat (last (parent_ports st [0..<tc])))"
    using stack sub hold lenc children ports_n
    by (intro link_ports_correct [OF links lo nc]) (auto simp: subset_iff)
  then obtain c' where c': "link_ports c node st [0..<tc] ?ch 0 = Some (c', length (parent_ports st [0..<tc]))"
      "mutual_links ?lo (nodes c')" "length (nodes c') = length (nodes c)"
      "\<forall>p < length (nodes c). same_identity (nodes c ! p) (nodes c' ! p)"
      "\<forall>p < length (nodes c). p \<noteq> node \<and> p \<notin> set ?ch \<longrightarrow> nodes c' ! p = nodes c ! p"
      "\<forall>i < length (ports (nodes c ! node)). i \<notin> set (child_ports st [0..<tc]) \<longrightarrow>
         ports (nodes c' ! node) ! i = ports (nodes c ! node) ! i"
      "color (nodes c' ! node) = (if parent_ports st [0..<tc] = [] then color (nodes c ! node)
        else of_nat (last (parent_ports st [0..<tc])))"
    by auto
  have await: "awaits_parent (nodes c' ! node)" if one: "length (parent_ports st [0..<tc]) = 1"
  proof -
    let ?i = "last (parent_ports st [0..<tc])"
    have "?i \<in> set (parent_ports st [0..<tc])" using one by (intro last_in_set) auto
    then have i: "?i < tc" "st ?i = PORT_PARENT" by auto
    have "unat (of_nat ?i :: u8) = ?i"
      unfolding unat_of_nat using i(1) tc_cap cap by simp
    moreover have "length (ports (nodes c' ! node)) = tc"
      using c'(4) nc ports_n by (auto simp: same_identity_def)
    moreover have "ports (nodes c' ! node) ! ?i = None"
      using c'(6) i ports_n by auto
    ultimately show ?thesis
      using c'(7) one i(1) by (auto simp: awaits_parent_def)
  qed
  obtain h where hb: "b_card b = c0\<lparr>nodes := h\<rparr>"
    using inv unfolding build_inv_def by blast
  have frame: "c' = c0\<lparr>nodes := nodes c'\<rparr>"
  proof -
    have "c' = c\<lparr>nodes := nodes c'\<rparr>" by (rule link_ports_frame [OF c'(1)])
    also have "c\<lparr>nodes := nodes c'\<rparr> = c0\<lparr>nodes := nodes c'\<rparr>" by (simp add: c hb)
    finally show ?thesis .
  qed
  show ?thesis
    using c' await frame lenc hold by (intro exI [of _ c']) auto
qed

text \<open>Linking leaves the old nodes alone and keeps identifiers and references of the new ones.\<close>

lemma linked_prefix:
  assumes inv: "build_inv c0 b" and qc: "0 < quadlet_count (b_enum b)"
    and node: "node = length (nodes (b_card b))" and len: "length (nodes c') = Suc node"
    and old: "\<forall>p < node. p \<notin> set (drop (length (b_stack b) - cc) (b_stack b)) \<longrightarrow> nodes c' ! p = nodes (b_card b) ! p"
  shows "take (length (nodes c0)) (nodes c') = nodes c0"
proof -
  let ?lo = "length (nodes c0)"
  have ln: "?lo \<le> node" using inv by (simp add: build_inv_def node)
  have "nodes c' ! p = nodes c0 ! p" if "p < ?lo" for p
  proof -
    have "set (b_stack b) \<subseteq> {?lo..<node}" using inv unfolding build_inv_def node by blast
    then have "p \<notin> set (drop (length (b_stack b) - cc) (b_stack b))"
      using that set_drop_subset [of "length (b_stack b) - cc" "b_stack b"] by fastforce
    then have "nodes c' ! p = nodes (b_card b) ! p" using old that ln by simp
    also have "\<dots> = take ?lo (nodes (b_card b)) ! p" using that by simp
    finally show ?thesis using inv by (simp add: build_inv_def)
  qed
  then show ?thesis using len ln by (intro nth_equalityI) simp_all
qed

lemma linked_ids:
  assumes inv: "build_inv c0 b" and id: "b_phy_id b = unat (phy_packet_self_id_get_phy_id sid)"
    and c: "c = (b_card b)\<lparr>nodes := nodes (b_card b) @ [fw_node_create sid tc (c_color (b_card b))]\<rparr>"
    and node: "node = length (nodes (b_card b))"
    and same: "\<forall>p \<le> node. same_identity (nodes c ! p) (nodes c' ! p)" and k: "k < Suc (b_phy_id b)"
  shows "node_id (nodes c' ! (length (nodes c0) + k)) = 0xffc0 OR of_nat k \<and>
    kref (nodes c' ! (length (nodes c0) + k)) = 1"
proof (cases "k = b_phy_id b")
  case True
  have small: "b_phy_id b < 64" using pp_s_phy_id.get_less [of sid] id by simp
  have "phy_packet_self_id_get_phy_id sid = of_nat (b_phy_id b)" by (simp add: id)
  then have "ucast (phy_packet_self_id_get_phy_id sid) = (of_nat (b_phy_id b) :: u16)"
    using small by (simp add: unsigned_of_nat take_bit_nat_eq_self)
  moreover have "length (nodes c0) + k = node" using inv True by (simp add: build_inv_def node)
  ultimately show ?thesis
    using True same by (auto simp: same_identity_def c node nth_append fw_node_create_def)
next
  case False
  with k inv have lt: "length (nodes c0) + k < node" by (simp add: build_inv_def node)
  then have "nodes c ! (length (nodes c0) + k) = nodes (b_card b) ! (length (nodes c0) + k)"
    by (simp add: c node nth_append)
  then show ?thesis
    using same lt inv False k by (auto simp: same_identity_def build_inv_def)
qed

lemma build_push_inv:
  assumes inv: "build_inv c0 b" and qc: "0 < quadlet_count (b_enum b)"
    and id: "b_phy_id b = unat (phy_packet_self_id_get_phy_id sid)"
    and c: "c = (b_card b)\<lparr>nodes := nodes (b_card b) @ [fw_node_create sid tc (c_color (b_card b))]\<rparr>"
    and node: "node = length (nodes (b_card b))"
    and frame: "c' = c0\<lparr>nodes := nodes c'\<rparr>" and links: "mutual_links (length (nodes c0)) (nodes c')"
    and len: "length (nodes c') = Suc node"
    and same: "\<forall>p \<le> node. same_identity (nodes c ! p) (nodes c' ! p)"
    and old: "\<forall>p < node. p \<notin> set (drop (length (b_stack b) - cc) (b_stack b)) \<longrightarrow> nodes c' ! p = nodes (b_card b) ! p"
    and await: "0 < quadlet_count enum \<longrightarrow> awaits_parent (nodes c' ! node)"
    and enum: "\<exists>p. cursor enum = Some p \<and> quadlet_count enum \<le> length p"
  shows "build_inv c0 (build_push b c' enum sid node cc pc)"
proof -
  let ?lo = "length (nodes c0)" and ?keep = "take (length (b_stack b) - cc) (b_stack b)"
  obtain d m where hop: "update_hop_count c' node = c'\<lparr>nodes := (nodes c')[node := (nodes c' ! node)\<lparr>max_depth := d, max_hops := m\<rparr>]\<rparr>"
    using update_hop_count_effect by blast
  let ?h = "nodes (update_hop_count c' node)"
  have h: "?h = (nodes c')[node := (nodes c' ! node)\<lparr>max_depth := d, max_hops := m\<rparr>]" by (simp add: hop)
  have lh: "length ?h = Suc node" using len by (simp add: h)
  have hp: "ports (?h ! p) = ports (nodes c' ! p)" "node_id (?h ! p) = node_id (nodes c' ! p)"
    "kref (?h ! p) = kref (nodes c' ! p)" "color (?h ! p) = color (nodes c' ! p)" if "p < Suc node" for p
    using that len by (auto simp: h nth_update)
  have ln: "node = ?lo + b_phy_id b" using inv by (simp add: build_inv_def node)
  have stack: "distinct (b_stack b)" "set (b_stack b) \<subseteq> {?lo..<node}"
    "\<forall>p \<in> set (b_stack b). awaits_parent (nodes (b_card b) ! p)"
    using inv qc by (auto simp: build_inv_def node)
  have keep: "set ?keep \<inter> set (drop (length (b_stack b) - cc) (b_stack b)) = {}"
    using stack(1) by (metis append_take_drop_id distinct_append)
  have keep_sub: "set ?keep \<subseteq> set (b_stack b)" by (rule set_take_subset)
  have awaits: "awaits_parent (?h ! p)" if "p \<in> set ?keep" for p
  proof -
    have "p < node" using that keep_sub stack(2) by auto
    moreover have "p \<notin> set (drop (length (b_stack b) - cc) (b_stack b))" using keep that by blast
    ultimately have "nodes c' ! p = nodes (b_card b) ! p" using old by blast
    then show ?thesis
      using stack(3) keep_sub that hp [of p] \<open>p < node\<close> by (auto simp: awaits_parent_def)
  qed
  have small: "b_phy_id b < 64" using pp_s_phy_id.get_less [of sid] id by simp
  have ids: "node_id (?h ! (?lo + k)) = 0xffc0 OR of_nat k \<and> kref (?h ! (?lo + k)) = 1" if "k < Suc (b_phy_id b)" for k
    using linked_ids [OF inv id c node same that] hp [of "?lo + k"] that ln by simp
  have pre: "take ?lo ?h = nodes c0"
    unfolding h using linked_prefix [OF inv qc node len old] ln by simp
  have links': "mutual_links ?lo ?h"
  proof (rule mutual_links_cong [OF links])
    show "map ports ?h = map ports (nodes c')"
      unfolding h using len by (intro nth_equalityI) (auto simp: nth_update)
  qed
  have loc: "c_node_id c' = c_node_id c0" by (subst frame) simp
  have "build_push b c' enum sid node cc pc =
      (build_push b c' enum sid node cc pc)\<lparr>b_card := c0\<lparr>nodes := ?h\<rparr>\<rparr>"
    unfolding build_push_def by (subst (1) hop, subst (1) frame) (simp add: h)
  then have bc: "b_card (build_push b c' enum sid node cc pc) = c0\<lparr>nodes := ?h\<rparr>"
    by (metis build_state.select_convs(1) build_state.surjective build_state.update_convs(1))
  show ?thesis
    unfolding build_inv_def bc
  proof (intro conjI)
    show "length (nodes (c0\<lparr>nodes := ?h\<rparr>)) = ?lo + b_phy_id (build_push b c' enum sid node cc pc)"
      using ln lh by (simp add: build_push_def)
    show "distinct (b_stack (build_push b c' enum sid node cc pc))"
      using stack keep_sub by (auto simp: build_push_def)
    show "set (b_stack (build_push b c' enum sid node cc pc)) \<subseteq> {?lo..<length (nodes (c0\<lparr>nodes := ?h\<rparr>))}"
      using stack(2) keep_sub ln lh by (auto simp: build_push_def)
    show "0 < quadlet_count (b_enum (build_push b c' enum sid node cc pc)) \<longrightarrow>
        (\<forall>p \<in> set (b_stack (build_push b c' enum sid node cc pc)). awaits_parent (nodes (c0\<lparr>nodes := ?h\<rparr>) ! p))"
      using awaits await hp [of node] by (auto simp: build_push_def awaits_parent_def)
    show "b_local (build_push b c' enum sid node cc pc) =
        (if unat (c_node_id c0 AND 0x3f) < b_phy_id (build_push b c' enum sid node cc pc)
         then Some (?lo + unat (c_node_id c0 AND 0x3f)) else None)"
      using inv ln loc by (auto simp: build_push_def build_inv_def)
  qed (use ids pre links' enum small ln in \<open>simp_all add: build_push_def\<close>)
qed

text \<open>What a failed build leaves behind: new nodes that nobody refers to, nothing else.\<close>

definition only_new_nodes :: "topo_card \<Rightarrow> topo_card \<Rightarrow> bool" where
  "only_new_nodes c0 c \<longleftrightarrow>
    c = c0\<lparr>nodes := nodes c\<rparr> \<and> take (length (nodes c0)) (nodes c) = nodes c0"

lemma build_inv_only_new: "build_inv c0 b \<Longrightarrow> only_new_nodes c0 (b_card b)"
  by (simp add: build_inv_def only_new_nodes_def)

lemma build_step_cases:
  assumes inv: "build_inv c0 b" and qc: "0 < quadlet_count (b_enum b)"
  shows "(\<exists>c. build_step alloc b = Build_fail c \<and> only_new_nodes c0 c) \<or>
    (\<exists>b'. build_step alloc b = Build_next b' \<and> build_inv c0 b')"
proof -
  obtain p where p: "cursor (b_enum b) = Some p" "quadlet_count (b_enum b) \<le> length p"
    using inv by (auto simp: build_inv_def)
  have keep: "only_new_nodes c0 (b_card b)" by (rule build_inv_only_new [OF inv])
  show ?thesis
  proof (cases "self_id_sequence_enumerator_next (b_enum b)")
    case (Inl err)
    then have "err \<noteq> ENODATA" using self_id_sequence_enumerator_next_err p qc by fastforce
    with Inl keep show ?thesis by (simp add: build_step_def)
  next
    case (Inr r)
    obtain s n enum where r: "r = (s, n, enum)" by (cases r)
    have e: "s = p" "n \<le> quadlet_count (b_enum b)" "self_id_sequence_wf (take n p)"
      "enum = (b_enum b)\<lparr>cursor := Some (drop n p), quadlet_count := quadlet_count (b_enum b) - n\<rparr>"
      using Inr r self_id_sequence_enumerator_next_Inr [OF p] by auto
    have "1 \<le> n \<and> n \<le> 4" using self_id_sequence_wf_length [OF e(3)] e(2) p(2) by simp
    then have cap: "self_id_sequence_get_port_capacity n \<le> 27" by (simp add: port_capacity_bound)
    have enum: "\<exists>p. cursor enum = Some p \<and> quadlet_count enum \<le> length p"
      using e(2,4) p(2) by simp
    define st where "st = self_id_sequence_get_port_status s n"
    define cc where "cc = length (filter (\<lambda>i. st i = PORT_CHILD) [0..<self_id_sequence_get_port_capacity n])"
    define tc where "tc = length (filter (\<lambda>i. st i \<noteq> PORT_NONE) [0..<self_id_sequence_get_port_capacity n])"
    define node where "node = length (nodes (b_card b))"
    define c where "c = (b_card b)\<lparr>nodes := nodes (b_card b) @ [fw_node_create (s ! 0) tc (c_color (b_card b))]\<rparr>"
    have step: "build_step alloc b =
        (if b_phy_id b \<noteq> unat (phy_packet_self_id_get_phy_id (s ! 0)) then Build_fail (b_card b)
         else if cc > length (b_stack b) then Build_fail (b_card b)
         else if \<not> alloc node then Build_fail (b_card b)
         else case link_ports c node st [0..<tc] (drop (length (b_stack b) - cc) (b_stack b)) 0 of
                None \<Rightarrow> Build_crash
              | Some (c, pc) \<Rightarrow>
                  if (quadlet_count enum = 0 \<and> pc \<noteq> 0) \<or> (quadlet_count enum > 0 \<and> pc \<noteq> 1) then Build_fail c
                  else Build_next (build_push b c enum (s ! 0) node cc pc))"
      unfolding build_step_def Inr r cc_def tc_def c_def node_def st_def
      by (simp only: sum.case prod.case Let_def)
    show ?thesis
    proof (cases "b_phy_id b \<noteq> unat (phy_packet_self_id_get_phy_id (s ! 0)) \<or> cc > length (b_stack b) \<or> \<not> alloc node")
      case True
      then show ?thesis using keep by (auto simp: step)
    next
      case False
      then obtain c' where c':
        "link_ports c node st [0..<tc] (drop (length (b_stack b) - cc) (b_stack b)) 0 = Some (c', length (parent_ports st [0..<tc]))"
        "c' = c0\<lparr>nodes := nodes c'\<rparr>" "mutual_links (length (nodes c0)) (nodes c')" "length (nodes c') = Suc node"
        "\<forall>p \<le> node. same_identity (nodes c ! p) (nodes c' ! p)"
        "\<forall>p < node. p \<notin> set (drop (length (b_stack b) - cc) (b_stack b)) \<longrightarrow> nodes c' ! p = nodes (b_card b) ! p"
        "length (parent_ports st [0..<tc]) = 1 \<longrightarrow> awaits_parent (nodes c' ! node)"
        using build_link [OF inv qc cap cc_def tc_def _ c_def node_def] by auto
      have push: "build_inv c0 (build_push b c' enum (s ! 0) node cc pc)"
        if "0 < quadlet_count enum \<longrightarrow> length (parent_ports st [0..<tc]) = 1" for pc
        using build_push_inv [OF inv qc _ c_def node_def c'(2-6) _ enum] False c'(7) that by auto
      have "only_new_nodes c0 c'"
        using linked_prefix [OF inv qc node_def c'(4,6)] c'(2) by (simp add: only_new_nodes_def)
      then show ?thesis using False c'(1) push by (auto simp: step)
    qed
  qed
qed

declare build_loop.simps [simp del]

lemma build_loop_cases:
  "build_inv c0 b \<Longrightarrow>
    (\<exists>c. build_loop alloc b = Tree_failed c \<and> only_new_nodes c0 c) \<or>
    (\<exists>b'. build_loop alloc b = Tree_built b' \<and> build_inv c0 b' \<and> quadlet_count (b_enum b') = 0)"
proof (induction alloc b rule: build_loop.induct)
  case (1 alloc b)
  show ?case
  proof (cases "0 < quadlet_count (b_enum b)")
    case False
    with 1 show ?thesis by (auto simp: build_loop.simps [of alloc b])
  next
    case True
    from build_step_cases [OF "1.prems" True, of alloc] show ?thesis
    proof (elim disjE exE conjE)
      fix c assume "build_step alloc b = Build_fail c" "only_new_nodes c0 c"
      with True show ?thesis by (auto simp: build_loop.simps [of alloc b])
    next
      fix b' assume b': "build_step alloc b = Build_next b'" "build_inv c0 b'"
      from "1.IH" [OF True b'] True b'(1) show ?thesis by (simp add: build_loop.simps [of alloc b])
    qed
  qed
qed

lemma build_init_inv: "n \<le> length sids \<Longrightarrow> build_inv c (build_init c sids n)"
  by (simp add: build_inv_def build_init_def mutual_links_def)


lemma build_step_phy_id: "build_step alloc b = Build_next b' \<Longrightarrow> b_phy_id b' = b_phy_id b + 1"
  by (erule build_step_nextE) (simp add: build_push_def)

lemma build_loop_phy_id: "build_loop alloc b = Tree_built b' \<Longrightarrow> b_phy_id b \<le> b_phy_id b'"
proof (induction alloc b rule: build_loop.induct)
  case (1 alloc b)
  then show ?case
    by (subst (asm) (2) build_loop.simps)
      (auto split: if_splits build_outcome.splits dest: build_step_phy_id)
qed

lemma built_nonempty:
  assumes "build_loop alloc (build_init c sids n) = Tree_built b" "n \<le> length sids" "0 < n"
  shows "0 < b_phy_id b"
proof -
  have qc: "0 < quadlet_count (b_enum (build_init c sids n))" using assms(3) by (simp add: build_init_def)
  obtain b' where "build_step alloc (build_init c sids n) = Build_next b'" "build_loop alloc b' = Tree_built b"
    using build_step_cases [OF build_init_inv [OF assms(2)] qc, of alloc] assms(1) qc
    by (auto simp: build_loop.simps [of alloc "build_init c sids n"])
  then show ?thesis
    using build_step_phy_id build_loop_phy_id by fastforce
qed

text \<open>C1.  Building the tree from any self-ID stream follows no bad pointer.  It either gives up and
  leaves the card as it was, but for new nodes that nobody refers to; or it leaves the nodes of the
  previous topology untouched and adds at most 64 nodes, one for each physical ID in order, each
  with one reference, the last of them the root, with the local node at the card's own ID; and
  whenever a port of a new node leads to another node, that node has a port that leads back.\<close>

theorem build_tree_sound:
  assumes "n \<le> length sids" "0 < n"
  shows "\<exists>c' l. build_tree alloc c sids n = Some (c', l) \<and>
    (only_new_nodes c c' \<and> l = None \<or>
     (\<exists>k. 0 < k \<and> k \<le> 64 \<and> length (nodes c') = length (nodes c) + k \<and>
       take (length (nodes c)) (nodes c') = nodes c \<and> local_node c' = local_node c \<and>
       events c' = events c \<and> root_node c' = Some (length (nodes c) + k - 1) \<and>
       l = (if unat (c_node_id c AND 0x3f) < k then Some (length (nodes c) + unat (c_node_id c AND 0x3f)) else None) \<and>
       (\<forall>i < k. node_id (nodes c' ! (length (nodes c) + i)) = 0xffc0 OR of_nat i \<and>
          kref (nodes c' ! (length (nodes c) + i)) = 1) \<and>
       mutual_links (length (nodes c)) (nodes c')))"
proof -
  have "build_inv c (build_init c sids n)" using assms(1) by (rule build_init_inv)
  from build_loop_cases [OF this, of alloc] show ?thesis
  proof (elim disjE exE conjE)
    fix c' assume "build_loop alloc (build_init c sids n) = Tree_failed c'" "only_new_nodes c c'"
    then show ?thesis by (simp add: build_tree_def)
  next
    fix b assume b: "build_loop alloc (build_init c sids n) = Tree_built b" "build_inv c b"
      "quadlet_count (b_enum b) = 0"
    have pos: "0 < b_phy_id b"
      using b(1) assms by (rule built_nonempty)
    let ?c = "(b_card b)\<lparr>root_node := b_node b, irm_node := b_irm b, gap_count := b_gap b,
        beta_repeaters_present := b_beta b\<rparr>"
    have "build_tree alloc c sids n = Some (?c, b_local b)" by (simp add: build_tree_def b(1))
    moreover have "local_node ?c = local_node c" "events ?c = events c"
      using b(2) unfolding build_inv_def by (metis (no_types, lifting) topo_card.ext_inject topo_card.surjective topo_card.update_convs)+
    ultimately show ?thesis
      using b(2) pos by (intro exI [of _ ?c] exI [of _ "b_local b"]) (auto simp: build_inv_def intro!: exI [of _ "b_phy_id b"])
  qed
qed


text \<open>A bus of two nodes: node 0 hangs off the root, node 1; both are link-active contenders.\<close>

definition fresh_card :: topo_card where
  "fresh_card = \<lparr>nodes = [], events = [], c_node_id = 0xffc0, c_generation = 0, reset_jiffies = 0,
     local_node = None, root_node = None, irm_node = None, c_color = 0, gap_count = 0,
     beta_repeaters_present = False, bm_retries = 0, bm_node_id = 0, bm_abdicate = False,
     broadcast_channel_auto_allocated = False, broadcast_channel_allocated = False,
     topology_map = replicate 256 0, bm_work_scheduled = 0\<rparr>"

abbreviation two_node_bus :: "u32 list" where
  "two_node_bus \<equiv> [0x807f8880, 0x817f88c0]"

lemma two_node_bus_enum:
  "self_id_sequence_enumerator_next \<lparr>cursor = Some two_node_bus, quadlet_count = 2\<rparr> =
    Inr (two_node_bus, Suc 0, \<lparr>cursor = Some [0x817f88c0], quadlet_count = Suc 0\<rparr>)"
  "self_id_sequence_enumerator_next \<lparr>cursor = Some [0x817f88c0], quadlet_count = Suc 0\<rparr> =
    Inr ([0x817f88c0], Suc 0, \<lparr>cursor = Some [], quadlet_count = 0\<rparr>)"
  by code_simp+

lemma two_node_bus_ports:
  "map (self_id_sequence_get_port_status two_node_bus (Suc 0)) [0, Suc 0, 2] = [PORT_PARENT, PORT_NONE, PORT_NONE]"
  "map (self_id_sequence_get_port_status [0x817f88c0] (Suc 0)) [0, Suc 0, 2] = [PORT_CHILD, PORT_NONE, PORT_NONE]"
  by code_simp+

lemma one_packet_ports:
  "self_id_sequence_get_port_capacity (Suc 0) = 3" "[0..<3] = [0, Suc 0, 2]"
  by (simp_all add: self_id_sequence_get_port_capacity_def upt_rec)

lemmas topology_eval = Let_def build_step_def build_init_def two_node_bus_enum one_packet_ports
  two_node_bus_ports [simplified] field_defs fresh_card_def fw_node_create_def build_push_def
  update_hop_count_def connect_child_def node_upd_def field_get_def flag_get_def build_tree_def

theorem build_tree_sound_witness:
  "\<exists>c. build_tree (\<lambda>_. True) fresh_card two_node_bus 2 = Some (c, Some 0) \<and>
     length (nodes c) = 2 \<and> root_node c = Some 1 \<and> mutual_links 0 (nodes c)"
proof -
  have e: "map_option (\<lambda>(c, l). (length (nodes c), l)) (build_tree (\<lambda>_. True) fresh_card two_node_bus 2) = Some (2, Some 0)"
    by (simp add: topology_eval build_loop.simps)
  have z: "nodes fresh_card = []" by (simp add: fresh_card_def)
  from build_tree_sound [of 2 two_node_bus "\<lambda>_. True" fresh_card] e show ?thesis
    by (auto simp: z)
qed

section \<open>Hop counts\<close>

text \<open>The reference: depths of the connected neighbours, each one hop further, largest first.\<close>

fun connected :: "node_ptr option list \<Rightarrow> node_ptr list" where
  "connected [] = []"
| "connected (None # ps) = connected ps"
| "connected (Some q # ps) = q # connected ps"

definition neighbour_depths :: "fw_node list \<Rightarrow> fw_node \<Rightarrow> nat list" where
  "neighbour_depths heap n = map (\<lambda>q. Suc (max_depth (heap ! q))) (connected (ports n))"

definition longest_path_through :: "nat list \<Rightarrow> nat" where
  "longest_path_through ds = sum_list (take 2 (rev (sort ds)))"

fun insert_desc :: "int \<Rightarrow> int list \<Rightarrow> int list" where
  "insert_desc x [] = [x]"
| "insert_desc x (y # ys) = (if x > y then x # y # ys else y # insert_desc x ys)"

lemma mset_insert_desc [simp]: "mset (insert_desc x ys) = add_mset x (mset ys)"
  by (induction ys) auto

lemma set_insert_desc [simp]: "set (insert_desc x ys) = insert x (set ys)"
  by (induction ys) auto

lemma sorted_insert_desc [simp]: "sorted_wrt (\<ge>) (insert_desc x ys) \<longleftrightarrow> sorted_wrt (\<ge>) ys"
  by (induction ys) auto

lemma take_insert_desc: "take 2 (insert_desc x ys) = take 2 (insert_desc x (take 2 ys))"
proof (cases ys)
  case (Cons y zs)
  then show ?thesis by (cases zs) auto
qed simp

lemma take_foldr_insert_desc:
  "take 2 (foldr insert_desc xs ys) = take 2 (foldr insert_desc xs (take 2 ys))"
proof (induction xs)
  case (Cons x xs)
  have "take 2 (insert_desc x (foldr insert_desc xs ys)) =
      take 2 (insert_desc x (take 2 (foldr insert_desc xs ys)))" by (rule take_insert_desc)
  also have "\<dots> = take 2 (insert_desc x (take 2 (foldr insert_desc xs (take 2 ys))))"
    by (simp only: Cons.IH)
  also have "\<dots> = take 2 (insert_desc x (foldr insert_desc xs (take 2 ys)))"
    by (rule take_insert_desc [symmetric])
  finally show ?case by simp
qed simp

lemma foldr_insert_desc: "foldr insert_desc xs [] = rev (sort xs)"
proof -
  have "mset (foldr insert_desc xs []) = mset xs" by (induction xs) auto
  moreover have "sorted_wrt (\<ge>) (foldr insert_desc xs [])" by (induction xs) auto
  then have "sorted (rev (foldr insert_desc xs []))" by (simp add: sorted_wrt_rev)
  ultimately have "sort xs = rev (foldr insert_desc xs [])" by (intro properties_for_sort) simp_all
  then show ?thesis by simp
qed

text \<open>The scan keeps the two largest depths and the largest hop count.\<close>

abbreviation depths_of :: "fw_node list \<Rightarrow> node_ptr option list \<Rightarrow> int list" where
  "depths_of heap ps \<equiv> map (\<lambda>q. int (max_depth (heap ! q))) (connected ps)"

abbreviation hops_of :: "fw_node list \<Rightarrow> node_ptr option list \<Rightarrow> int list" where
  "hops_of heap ps \<equiv> map (\<lambda>q. int (max_hops (heap ! q))) (connected ps)"

lemma hop_count_scan_top:
  assumes "d1 \<le> d0" "hop_count_scan heap ps d0 d1 m = (e0, e1, m')"
  shows "[e0, e1] = take 2 (foldr insert_desc (rev (depths_of heap ps)) [d0, d1])"
  using assms
proof (induction heap ps d0 d1 m rule: hop_count_scan.induct)
  case (3 heap q ps d0 d1 m)
  let ?x = "int (max_depth (heap ! q))"
  define n0 n1 where "n0 = (if ?x > d0 then ?x else d0)"
    and "n1 = (if ?x > d0 then d0 else if ?x > d1 then ?x else d1)"
  have top: "take 2 (insert_desc ?x [d0, d1]) = [n0, n1]" by (auto simp: n0_def n1_def)
  have "hop_count_scan heap ps n0 n1 (if int (max_hops (heap ! q)) > m then int (max_hops (heap ! q)) else m) = (e0, e1, m')"
    and "n1 \<le> n0"
    using "3.prems" by (auto simp: n0_def n1_def Let_def split: if_splits)
  then have "[e0, e1] = take 2 (foldr insert_desc (rev (depths_of heap ps)) [n0, n1])"
    using "3.IH" unfolding n0_def n1_def by (auto split: if_splits)
  also have "\<dots> = take 2 (foldr insert_desc (rev (depths_of heap ps)) (insert_desc ?x [d0, d1]))"
    by (simp only: top [symmetric] take_foldr_insert_desc [symmetric])
  finally show ?case by (simp)
qed (auto)

lemma hop_count_scan_max:
  "hop_count_scan heap ps d0 d1 m = (e0, e1, m') \<Longrightarrow>
    e0 = fold max (depths_of heap ps) d0 \<and> m' = fold max (hops_of heap ps) m"
proof (induction heap ps d0 d1 m rule: hop_count_scan.induct)
  case (3 heap q ps d0 d1 m)
  let ?x = "int (max_depth (heap ! q))" and ?h = "int (max_hops (heap ! q))"
  obtain f1 where
    eq: "(if ?x > d0 then (?x, d0) else if ?x > d1 then (d0, ?x) else (d0, d1)) = (max ?x d0, f1)"
    by (cases "?x > d0"; cases "?x > d1") auto
  then have "hop_count_scan heap ps (max ?x d0) f1 (if ?h > m then ?h else m) = (e0, e1, m')"
    using "3.prems" by (simp add: Let_def)
  from "3.IH" [OF refl refl refl eq [symmetric] this] show ?case
    by (simp add: max_def)
qed auto

lemma fold_max_int: "0 \<le> a \<Longrightarrow> fold max (map int xs) a = int (Max (set (nat a # xs)))"
proof -
  assume "0 \<le> a"
  then have "fold max (map int xs) a = int (fold max xs (nat a))"
  proof (induction xs arbitrary: a)
    case (Cons x xs)
    have "nat (max (int x) a) = max x (nat a)" by linarith
    with Cons show ?case by simp
  qed simp
  then show ?thesis by (simp only: Max.set_eq_fold)
qed

lemma fold_max_shift: "fold max (map int xs) (-1) + 1 = fold max (map int (map Suc xs)) 0"
proof -
  have "fold max (map int xs) a + 1 = fold max (map int (map Suc xs)) (a + 1)" for a
  proof (induction xs arbitrary: a)
    case (Cons x xs)
    have "max (int x) a + 1 = max (int (Suc x)) (a + 1)" by (simp add: max_def)
    with Cons show ?case by simp
  qed simp
  from this [of "-1"] show ?thesis by simp
qed

lemma sort_shift: "mono f \<Longrightarrow> map f (sort xs) = sort (map f xs)"
  by (rule properties_for_sort [symmetric]) (auto simp: sorted_map monoD intro: sorted_wrt_mono_rel [OF _ sorted_sort])

lemma sort_zeroes: "sort (xs @ [0, 0 :: nat]) = 0 # 0 # sort xs"
  by (rule properties_for_sort) (simp_all add: sorted_insort)

lemma top_two_sum:
  assumes "[e0, e1] = take 2 (foldr insert_desc (rev (map int xs)) [-1, -1])"
  shows "nat (e0 + e1 + 2) = longest_path_through (map Suc xs)"
proof -
  let ?f = "\<lambda>x :: int. nat (x + 1)"
  have shift: "mono ?f" by (auto intro: monoI)
  have sums: "sum_list (take 2 (ys @ [0, 0 :: nat])) = sum_list (take 2 ys)" for ys
    by (cases ys rule: remdups_adj.cases) auto
  have "[e0, e1] = take 2 (rev (sort (rev (map int xs) @ [-1, -1])))"
    using assms foldr_insert_desc [of "rev (map int xs) @ [-1, -1]"] by simp
  then have "map ?f [e0, e1] = take 2 (rev (sort (map ?f (rev (map int xs) @ [-1, -1]))))"
    by (simp only: sort_shift [OF shift, symmetric] rev_map take_map)
  also have "map ?f (rev (map int xs) @ [-1, -1]) = rev (map Suc xs) @ [0, 0]"
    by (simp add: rev_map nat_add_distrib)
  finally have eq: "[?f e0, ?f e1] = take 2 (rev (sort (rev (map Suc xs) @ [0, 0])))" by simp
  have perm: "sort (rev (map Suc xs)) = sort (map Suc xs)" by (rule properties_for_sort) simp_all
  have "-1 \<le> e0 \<and> -1 \<le> e1"
  proof -
    have "set (take 2 (foldr insert_desc (rev (map int xs)) [-1, -1])) \<subseteq> insert (-1) (int ` set xs)"
      by (rule subset_trans [OF set_take_subset]) (induction xs rule: rev_induct, auto)
    then have "set [e0, e1] \<subseteq> insert (-1) (int ` set xs)" by (simp only: assms)
    then show ?thesis by auto
  qed
  then have "nat (e0 + e1 + 2) = sum_list [?f e0, ?f e1]" by simp linarith
  also have "\<dots> = longest_path_through (map Suc xs)"
    unfolding eq sort_zeroes perm longest_path_through_def
    by (simp only: rev.simps append.simps append_assoc sums)
  finally show ?thesis .
qed

text \<open>C16.  After \<open>update_hop_count\<close> a node records, cut to four bits, one hop more than its deepest
  neighbour, and as the longest path of its subtree the larger of what its neighbours record and
  the two deepest branches that meet in it; nothing else changes.\<close>

theorem update_hop_count_correct:
  "update_hop_count c p =
    (let ds = neighbour_depths (nodes c) (nodes c ! p);
         hops = map (\<lambda>q. max_hops (nodes c ! q)) (connected (ports (nodes c ! p)))
     in node_upd c p (\<lambda>n. n\<lparr>max_depth := Max (set (0 # ds)) mod 16,
          max_hops := Max (set (longest_path_through ds # hops)) mod 16\<rparr>))"
proof -
  let ?ps = "ports (nodes c ! p)"
  obtain e0 e1 m where scan: "hop_count_scan (nodes c) ?ps (-1) (-1) 0 = (e0, e1, m)"
    by (cases "hop_count_scan (nodes c) ?ps (-1) (-1) 0") auto
  have top: "nat (e0 + e1 + 2) = longest_path_through (neighbour_depths (nodes c) (nodes c ! p))"
    using top_two_sum [of e0 e1 "map (\<lambda>q. max_depth (nodes c ! q)) (connected ?ps)"]
      hop_count_scan_top [OF order_refl scan] by (simp add: neighbour_depths_def o_def)
  have m: "m = int (Max (set (0 # map (\<lambda>q. max_hops (nodes c ! q)) (connected ?ps))))"
    using hop_count_scan_max [OF scan] fold_max_int [of 0 "map (\<lambda>q. max_hops (nodes c ! q)) (connected ?ps)"]
    by (simp add: o_def)
  have d: "nat (e0 + 1) = Max (set (0 # neighbour_depths (nodes c) (nodes c ! p)))"
    using hop_count_scan_max [OF scan] fold_max_int [of 0 "neighbour_depths (nodes c) (nodes c ! p)"]
      fold_max_shift [of "map (\<lambda>q. max_depth (nodes c ! q)) (connected ?ps)"]
    by (simp add: neighbour_depths_def o_def)
  have "nat (max m (e0 + e1 + 2)) = max (nat m) (nat (e0 + e1 + 2))" by (simp add: max_def nat_mono)
  also have "\<dots> = Max (set (longest_path_through (neighbour_depths (nodes c) (nodes c ! p)) #
      map (\<lambda>q. max_hops (nodes c ! q)) (connected ?ps)))"
    unfolding top m by (cases "connected ?ps") (simp_all add: max.commute max.left_commute)
  finally show ?thesis by (simp add: update_hop_count_def scan d Let_def)
qed

section \<open>The bus reset handler\<close>

lemma tl_list_update: "tl (xs[0 := x]) = tl xs"
  by (cases xs) simp_all

lemma store_self_ids_length [simp]:
  "length (foldl (\<lambda>buffer k. buffer[3 + k := self_ids ! k]) buffer ks) = length buffer"
  by (induction ks arbitrary: buffer) auto

lemma store_self_ids_drop:
  assumes "3 + n \<le> length buffer"
  shows "take (3 + n) (foldl (\<lambda>buffer k. buffer[3 + k := self_ids ! k]) buffer [0..<n]) =
    take 3 buffer @ map ((!) self_ids) [0..<n]"
  using assms
proof (induction n)
  case (Suc n)
  let ?b = "foldl (\<lambda>buffer k. buffer[3 + k := self_ids ! k]) buffer [0..<n]"
  have "take (3 + Suc n) (?b[3 + n := self_ids ! n]) = take (3 + n) ?b @ [self_ids ! n]"
    using Suc.prems by (subst add_Suc_right, subst take_Suc_conv_app_nth) simp_all
  with Suc show ?case by simp
qed simp

text \<open>The topology map that other nodes read holds, after its header quadlet, the
  generation, the node and self-ID counts and the self-IDs in order.  The generation is always 1:
  the buffer is cleared before the old generation is read, so it never advances.\<close>

lemma update_topology_map_contents:
  assumes "length buffer = 256" "n \<le> 252"
  shows "take (2 + n) (tl (update_topology_map crc_itu_t buffer root_node_id self_ids n)) =
    [1, push_bit 16 ((root_node_id AND 0x3f) + 1) OR of_nat n] @ map ((!) self_ids) [0..<n]"
proof -
  define b0 where "b0 = (replicate 256 (0 :: u32))[0 := push_bit 16 (of_nat (n + 2)), 1 := 1,
    2 := push_bit 16 ((root_node_id AND 0x3f) + 1) OR of_nat n]"
  let ?b = "foldl (\<lambda>buffer k. buffer[3 + k := self_ids ! k]) b0 [0..<n]"
  have "tl (update_topology_map crc_itu_t buffer root_node_id self_ids n) = tl ?b"
    using assms by (simp add: update_topology_map_def fw_compute_block_crc_def Let_def b0_def tl_list_update)
  then have "take (2 + n) (tl (update_topology_map crc_itu_t buffer root_node_id self_ids n)) = tl (take (3 + n) ?b)"
    by (simp add: tl_take)
  also have "\<dots> = tl (take 3 b0 @ map ((!) self_ids) [0..<n])"
    using assms by (subst store_self_ids_drop) (simp_all add: b0_def)
  finally show ?thesis by (simp add: b0_def numeral_eq_Suc)
qed

lemma build_step_no_memory: "build_step (\<lambda>_. False) b \<noteq> Build_next b'"
proof
  have no: "(if P1 then Build_fail c1 else if P2 then Build_fail c1 else if \<not> False then Build_fail c1 else r) \<noteq> Build_next b'"
    for P1 P2 c1 r by simp
  assume "build_step (\<lambda>_. False) b = Build_next b'"
  then show False
    unfolding build_step_def Let_def using no
    by (cases "self_id_sequence_enumerator_next (b_enum b)") (auto split: if_split_asm)
qed

lemma build_tree_no_memory:
  assumes "0 < n" "n \<le> length self_ids"
  shows "\<exists>c'. build_tree (\<lambda>_. False) c self_ids n = Some (c', None) \<and> only_new_nodes c c'"
proof -
  have qc: "0 < quadlet_count (b_enum (build_init c self_ids n))" using assms by (simp add: build_init_def)
  obtain c' where c': "build_step (\<lambda>_. False) (build_init c self_ids n) = Build_fail c'" "only_new_nodes c c'"
    using build_step_cases [OF build_init_inv [OF assms(2)] qc, of "\<lambda>_. False"] build_step_no_memory by metis
  with qc show ?thesis by (simp add: build_tree_def build_loop.simps)
qed

text \<open>C17.  When the first tree of a card cannot be built because there is no memory for a node, the
  bus reset handler goes on to read \<open>card->root_node->node_id\<close> through the null pointer.\<close>

theorem bus_reset_null_root:
  assumes "local_node c = None" "root_node c = None" "0 < n" "n \<le> length self_ids"
  shows "fw_core_handle_bus_reset crc_itu_t (\<lambda>_. False) jiffies c nid generation n self_ids abdicate = None"
proof -
  let ?c = "c\<lparr>broadcast_channel_allocated := broadcast_channel_auto_allocated c, c_node_id := nid,
       c_generation := generation, reset_jiffies := jiffies, bm_node_id := 0xffff, bm_abdicate := abdicate\<rparr>"
  obtain c' where c': "build_tree (\<lambda>_. False) ?c self_ids n = Some (c', None)" "only_new_nodes ?c c'"
    using build_tree_no_memory assms(3,4) by blast
  have "root_node c' = root_node ?c"
    using c'(2) unfolding only_new_nodes_def by (metis topo_card.select_convs(7) topo_card.surjective topo_card.update_convs(1))
  with c'(1) assms(1,2) show ?thesis
    by (simp add: fw_core_handle_bus_reset_def Let_def)
qed

theorem bus_reset_null_root_witness:
  "fw_core_handle_bus_reset (\<lambda>c bs. 0) (\<lambda>_. False) 0 fresh_card 0xffc0 1 2 two_node_bus False = None"
  by (rule bus_reset_null_root) (simp_all add: fresh_card_def)

end
