(* ===== verification/Transaction.thy ===== *)
theory Transaction
  imports Phy_Packet
begin

text \<open>
  Outbound transactions, after \<^verbatim>\<open>drivers/firewire/core-transaction.c\<close>: transaction labels, the list of
  pending transactions, the split-transaction timer, the callbacks.  A transaction object is known by
  a number; calls that leave the core (completion callbacks, the driver's queue) go to a log.  Each
  function is one step under the locks it takes; a timer that has expired but whose handler has not
  yet run is in the state \<open>Timer_running\<close>, so that other functions can come in between.
\<close>

section \<open>Packets and transactions\<close>

abbreviation (input) PHY_PACKET_PACKET_IDENTIFIER_PHY_CONFIG :: u32 where
  "PHY_PACKET_PACKET_IDENTIFIER_PHY_CONFIG \<equiv> 0"

type_synonym bytes = "u8 list"

record fw_packet =
  p_speed :: u32
  p_generation :: u32
  p_header :: async_header
  p_header_length :: nat
  p_payload :: "bytes option"
  p_payload_length :: nat
  p_payload_mapped :: bool
  p_timestamp :: u32
  p_ack :: u32

datatype timer_state = Timer_idle | Timer_pending | Timer_running

text \<open>\<open>t_poisoned\<close> is the state of the list link after \<open>list_del\<close>.\<close>

record fw_transaction =
  t_node_id :: u32
  t_tlabel :: nat
  t_poisoned :: bool
  is_split_transaction :: bool
  split_timeout_timer :: timer_state
  split_timeout_cycle :: u32
  t_packet :: fw_packet
  with_tstamp :: bool

text \<open>A completion callback with its transaction, response code, time stamps of request and response
  where asked for, and data.\<close>

datatype tx_event =
    Tx_callback nat u32 "(u32 \<times> u32) option" bytes
  | Tx_send_request nat fw_packet
  | Tx_send_phy async_header u32

record tx_card =
  tlabel_mask :: u64
  current_tlabel :: nat
  tx_list :: "nat list"
  txs :: "nat \<Rightarrow> fw_transaction"
  tx_node_id :: u32
  split_cycles :: u32
  tx_log :: "tx_event list"

definition tx_emit :: "tx_card \<Rightarrow> tx_event \<Rightarrow> tx_card" where
  "tx_emit c e = c\<lparr>tx_log := tx_log c @ [e]\<rparr>"

definition tx_upd :: "tx_card \<Rightarrow> nat \<Rightarrow> (fw_transaction \<Rightarrow> fw_transaction) \<Rightarrow> tx_card" where
  "tx_upd c t f = c\<lparr>txs := (txs c)(t := f (txs c t))\<rparr>"

text \<open>\<open>list_empty (&t->link)\<close>.\<close>

definition link_empty :: "tx_card \<Rightarrow> nat \<Rightarrow> bool" where
  "link_empty c t \<longleftrightarrow> t \<notin> set (tx_list c) \<and> \<not> t_poisoned (txs c t)"

definition cycle_time_to_ohci_tstamp :: "u32 \<Rightarrow> u32" where
  "cycle_time_to_ohci_tstamp tstamp = drop_bit 12 (tstamp AND 0x0ffff000)"

section \<open>Completing a transaction\<close>

text \<open>\<open>timer_delete\<close> deactivates a pending timer and says whether it was pending.\<close>

definition try_cancel_split_timeout :: "tx_card \<Rightarrow> nat \<Rightarrow> bool \<times> tx_card" where
  "try_cancel_split_timeout c t =
    (if is_split_transaction (txs c t) then
       if split_timeout_timer (txs c t) = Timer_pending
       then (True, tx_upd c t (\<lambda>x. x\<lparr>split_timeout_timer := Timer_idle\<rparr>))
       else (False, c)
     else (True, c))"

definition remove_transaction_entry :: "tx_card \<Rightarrow> nat \<Rightarrow> tx_card" where
  "remove_transaction_entry c t =
    c\<lparr>tx_list := removeAll t (tx_list c),
      tlabel_mask := tlabel_mask c AND NOT (push_bit (t_tlabel (txs c t)) 1)\<rparr>"

definition run_tx_callback :: "tx_card \<Rightarrow> nat \<Rightarrow> u32 \<Rightarrow> u32 \<Rightarrow> bytes \<Rightarrow> tx_card" where
  "run_tx_callback c t rcode response_tstamp data =
    tx_emit c (if \<not> with_tstamp (txs c t) then Tx_callback t rcode None data
               else Tx_callback t rcode (Some (p_timestamp (t_packet (txs c t)), response_tstamp)) data)"

text \<open>The first loop moves the transactions whose timer could be stopped to the front of a list of its
  own.\<close>

fun cancel_pending_move :: "tx_card \<Rightarrow> nat list \<Rightarrow> nat list \<Rightarrow> tx_card \<times> nat list" where
  "cancel_pending_move c [] pending = (c, pending)"
| "cancel_pending_move c (t # ts) pending =
    (let (stopped, c) = try_cancel_split_timeout c t
     in if stopped then cancel_pending_move (c\<lparr>tx_list := removeAll t (tx_list c)\<rparr>) ts (t # pending)
        else cancel_pending_move c ts pending)"

definition fw_cancel_pending_transactions :: "tx_card \<Rightarrow> tx_card" where
  "fw_cancel_pending_transactions c =
    (let (c, pending) = cancel_pending_move c (tx_list c) []
     in foldl (\<lambda>c t. run_tx_callback (tx_upd c t (\<lambda>x. x\<lparr>t_poisoned := True\<rparr>)) t RCODE_CANCELLED 0 []) c pending)"

definition find_and_pop_transaction_entry :: "tx_card \<Rightarrow> (nat \<Rightarrow> bool) \<Rightarrow> nat option \<times> tx_card" where
  "find_and_pop_transaction_entry c condition =
    (case List.find condition (tx_list c) of
       None \<Rightarrow> (None, c)
     | Some t \<Rightarrow>
         let (stopped, c) = try_cancel_split_timeout c t
         in (Some t, if stopped then remove_transaction_entry c t else c))"

definition close_transaction :: "tx_card \<Rightarrow> nat \<Rightarrow> u32 \<Rightarrow> u32 \<Rightarrow> errno option \<times> tx_card" where
  "close_transaction c transaction rcode response_tstamp =
    (case find_and_pop_transaction_entry c (\<lambda>iter. iter = transaction) of
       (None, c) \<Rightarrow> (Some ENOENT, c)
     | (Some t, c) \<Rightarrow> (None, run_tx_callback c t rcode response_tstamp []))"

definition split_transaction_timeout_callback :: "tx_card \<Rightarrow> nat \<Rightarrow> tx_card" where
  "split_transaction_timeout_callback c t =
    (if link_empty c t then c
     else let c = remove_transaction_entry c t
          in run_tx_callback c t RCODE_CANCELLED (split_timeout_cycle (txs c t)) [])"

definition start_split_transaction_timeout :: "tx_card \<Rightarrow> nat \<Rightarrow> tx_card" where
  "start_split_transaction_timeout c t =
    (if link_empty c t \<or> is_split_transaction (txs c t) then c
     else tx_upd c t (\<lambda>x. x\<lparr>is_split_transaction := True, split_timeout_timer := Timer_pending\<rparr>))"

definition compute_split_timeout_timestamp :: "u32 \<Rightarrow> u32 \<Rightarrow> u32" where
  "compute_split_timeout_timestamp split_timeout_cycles request_timestamp =
    (let cycles = split_timeout_cycles + (request_timestamp AND 0x1fff);
         timestamp = request_timestamp AND NOT 0x1fff;
         timestamp = timestamp + push_bit 13 (cycles div 8000)
     in timestamp OR (cycles mod 8000))"

text \<open>The packet of a transaction is embedded in it, so that the packet names the transaction.\<close>

definition transmit_complete_callback :: "tx_card \<Rightarrow> nat \<Rightarrow> u32 \<Rightarrow> tx_card" where
  "transmit_complete_callback c t status =
    (let timestamp = p_timestamp (t_packet (txs c t)) in
     if status = ACK_COMPLETE then snd (close_transaction c t RCODE_COMPLETE timestamp)
     else if status = ACK_PENDING then
       let c = tx_upd c t (\<lambda>x. x\<lparr>split_timeout_cycle :=
                 compute_split_timeout_timestamp (split_cycles c) timestamp AND 0xffff\<rparr>)
       in start_split_transaction_timeout c t
     else if status = ACK_BUSY_X \<or> status = ACK_BUSY_A \<or> status = ACK_BUSY_B then
       snd (close_transaction c t RCODE_BUSY timestamp)
     else if status = ACK_DATA_ERROR then snd (close_transaction c t RCODE_DATA_ERROR timestamp)
     else if status = ACK_TYPE_ERROR then snd (close_transaction c t RCODE_TYPE_ERROR timestamp)
     else snd (close_transaction c t status timestamp))"

text \<open>\<open>cancelled\<close> says whether the driver's \<open>cancel_packet\<close> still found the packet in its queue; it
  then calls the transmission callback itself.  \<open>cycle_time\<close> is the register it may read.\<close>

definition fw_cancel_transaction :: "bool \<Rightarrow> u32 \<Rightarrow> tx_card \<Rightarrow> nat \<Rightarrow> errno option \<times> tx_card" where
  "fw_cancel_transaction cancelled cycle_time c t =
    (if cancelled then (None, transmit_complete_callback c t RCODE_CANCELLED)
     else
       let tstamp = (if p_ack (t_packet (txs c t)) = 0 then p_timestamp (t_packet (txs c t))
                     else cycle_time_to_ohci_tstamp cycle_time)
       in close_transaction c t RCODE_CANCELLED tstamp)"

section \<open>Sending a request\<close>

text \<open>The quadlet that a little-endian machine reads at a byte address, and the bytes it stores.\<close>

definition load32 :: "bytes \<Rightarrow> u32" where
  "load32 bs = ucast (bs ! 0) OR push_bit 8 (ucast (bs ! 1)) OR push_bit 16 (ucast (bs ! 2))
     OR push_bit 24 (ucast (bs ! 3))"

definition store32 :: "u32 \<Rightarrow> bytes" where
  "store32 q = [ucast q, ucast (drop_bit 8 q), ucast (drop_bit 16 q), ucast (drop_bit 24 q)]"

definition fw_fill_request ::
  "fw_packet \<Rightarrow> u32 \<Rightarrow> u32 \<Rightarrow> u32 \<Rightarrow> u32 \<Rightarrow> u32 \<Rightarrow> u32 \<Rightarrow> u64 \<Rightarrow> bytes option \<Rightarrow> nat \<Rightarrow> fw_packet" where
  "fw_fill_request packet tcode tlabel destination_id source_id generation speed offset payload len =
    (let packet =
       (if tcode = TCODE_STREAM_DATA then
          let h0 = isoc_header_set_tcode (isoc_header_set_data_length destination_id (of_nat len)) TCODE_STREAM_DATA
          in packet\<lparr>p_header := (p_header packet)\<lparr>q0 := h0\<rparr>, p_header_length := 4, p_payload := payload,
                    p_payload_length := len\<rparr>
        else
          let (ext_tcode, tcode) = (if tcode > 0x10 then (tcode AND NOT 0x10, TCODE_LOCK_REQUEST) else (0, tcode));
              h = async_header_set_retry (p_header packet) RETRY_X;
              h = async_header_set_tlabel h tlabel;
              h = async_header_set_tcode h tcode;
              h = async_header_set_destination h destination_id;
              h = async_header_set_source h source_id;
              h = async_header_set_offset h offset
          in if tcode = TCODE_WRITE_QUADLET_REQUEST then
               packet\<lparr>p_header := async_header_set_quadlet_data h (load32 (the payload)),
                      p_header_length := 16, p_payload_length := 0\<rparr>
             else if tcode = TCODE_LOCK_REQUEST \<or> tcode = TCODE_WRITE_BLOCK_REQUEST then
               packet\<lparr>p_header := async_header_set_extended_tcode
                        (async_header_set_data_length h (of_nat len)) ext_tcode,
                      p_header_length := 16, p_payload := payload, p_payload_length := len\<rparr>
             else if tcode = TCODE_READ_QUADLET_REQUEST then
               packet\<lparr>p_header := h, p_header_length := 12, p_payload_length := 0\<rparr>
             else if tcode = TCODE_READ_BLOCK_REQUEST then
               packet\<lparr>p_header := async_header_set_extended_tcode
                        (async_header_set_data_length h (of_nat len)) ext_tcode,
                      p_header_length := 16, p_payload_length := 0\<rparr>
             else packet\<lparr>p_header := h\<rparr>)
     in packet\<lparr>p_speed := speed, p_generation := generation, p_ack := 0, p_payload_mapped := False\<rparr>)"

text \<open>The search for a free label ends only if it meets the label it started from.\<close>

partial_function (option) tlabel_search :: "u64 \<Rightarrow> nat \<Rightarrow> nat \<Rightarrow> (errno + nat) option" where
  "tlabel_search m current tlabel =
    (if m AND push_bit tlabel 1 \<noteq> 0 then
       let tlabel = (tlabel + 1) mod 64
       in if tlabel = current then Some (Inl EBUSY) else tlabel_search m current tlabel
     else Some (Inr tlabel))"

declare tlabel_search.simps [code]

definition allocate_tlabel :: "tx_card \<Rightarrow> ((errno + nat) \<times> tx_card) option" where
  "allocate_tlabel c =
    (case tlabel_search (tlabel_mask c) (current_tlabel c) (current_tlabel c) of
       None \<Rightarrow> None
     | Some (Inl err) \<Rightarrow> Some (Inl err, c)
     | Some (Inr tlabel) \<Rightarrow>
         Some (Inr tlabel, c\<lparr>current_tlabel := (tlabel + 1) mod 64,
                            tlabel_mask := tlabel_mask c OR push_bit tlabel 1\<rparr>))"

record request_args =
  r_tcode :: u32
  r_destination_id :: u32
  r_generation :: u32
  r_speed :: u32
  r_offset :: u64
  r_payload :: "bytes option"
  r_length :: nat
  r_with_tstamp :: bool

definition fw_send_request :: "u32 \<Rightarrow> tx_card \<Rightarrow> nat \<Rightarrow> request_args \<Rightarrow> tx_card option" where
  "fw_send_request cycle_time c t a =
    (case allocate_tlabel c of
       None \<Rightarrow> None
     | Some (Inl _, c) \<Rightarrow>
         let tstamp = cycle_time_to_ohci_tstamp cycle_time
         in Some (tx_emit c (Tx_callback t RCODE_SEND_ERROR
              (if r_with_tstamp a then Some (tstamp, tstamp) else None) []))
     | Some (Inr tlabel, c) \<Rightarrow>
         let c = tx_upd c t (\<lambda>x. x\<lparr>t_node_id := r_destination_id a, t_tlabel := tlabel,
                   is_split_transaction := False, split_timeout_timer := Timer_idle,
                   with_tstamp := r_with_tstamp a\<rparr>);
             c = tx_upd c t (\<lambda>x. x\<lparr>t_packet := fw_fill_request (t_packet x) (r_tcode a) (of_nat (t_tlabel x))
                   (r_destination_id a) (tx_node_id c) (r_generation a) (r_speed a) (r_offset a)
                   (r_payload a) (r_length a)\<rparr>);
             c = tx_upd (c\<lparr>tx_list := tx_list c @ [t]\<rparr>) t (\<lambda>x. x\<lparr>t_poisoned := False\<rparr>)
         in Some (tx_emit c (Tx_send_request t (t_packet (txs c t)))))"

text \<open>A PHY configuration packet.  \<open>None\<close> stands for \<open>FW_PHY_CONFIG_NO_NODE_ID\<close> and for
  \<open>FW_PHY_CONFIG_CURRENT_GAP_COUNT\<close>; \<open>phy_reg\<close> is what the driver reads from PHY register 1.  The
  packet object is static, so that the bits of its first quadlet beside the code survive.\<close>

definition fw_send_phy_config ::
  "(errno + u32) \<Rightarrow> async_header \<Rightarrow> tx_card \<Rightarrow> u32 option \<Rightarrow> u32 \<Rightarrow> u32 option \<Rightarrow> async_header \<times> tx_card" where
  "fw_send_phy_config phy_reg packet_header c node_id generation gap_count =
    (let data = phy_packet_set_packet_identifier 0 PHY_PACKET_PACKET_IDENTIFIER_PHY_CONFIG;
         data = (case node_id of
                   None \<Rightarrow> data
                 | Some n \<Rightarrow> phy_packet_phy_config_set_force_root_node
                               (phy_packet_phy_config_set_root_id data n) True);
         gap = (case gap_count of
                  Some g \<Rightarrow> Some g
                | None \<Rightarrow>
                    (case phy_reg of
                       Inl _ \<Rightarrow> None
                     | Inr v \<Rightarrow> if v AND 63 = 63 then None else Some (v AND 63)))
     in case gap of
          None \<Rightarrow> (packet_header, c)
        | Some g \<Rightarrow>
            let data = phy_packet_phy_config_set_gap_count_optimization
                         (phy_packet_phy_config_set_gap_count data g) True;
                h = (async_header_set_tcode packet_header TCODE_LINK_INTERNAL)\<lparr>q1 := data, q2 := NOT data\<rparr>
            in (h, tx_emit c (Tx_send_phy h generation)))"

section \<open>Receiving a response\<close>

definition response_data :: "fw_packet \<Rightarrow> bytes" where
  "response_data p =
    (let tcode = async_header_get_tcode (p_header p) in
     if tcode = TCODE_READ_QUADLET_RESPONSE then
       store32 (q3 (p_header p))
     else if tcode = TCODE_WRITE_RESPONSE then []
     else if tcode = TCODE_READ_BLOCK_RESPONSE \<or> tcode = TCODE_LOCK_RESPONSE then
       take (unat (async_header_get_data_length (p_header p))) (the (p_payload p))
     else [])"

text \<open>\<open>cancelled\<close> is the driver's answer as before.\<close>

definition fw_core_handle_response :: "bool \<Rightarrow> tx_card \<Rightarrow> fw_packet \<Rightarrow> tx_card" where
  "fw_core_handle_response cancelled c p =
    (let tlabel = async_header_get_tlabel (p_header p);
         source = async_header_get_source (p_header p);
         rcode = async_header_get_rcode (p_header p);
         data = response_data p
     in case find_and_pop_transaction_entry c
               (\<lambda>iter. t_node_id (txs c iter) = source \<and> of_nat (t_tlabel (txs c iter)) = tlabel) of
          (None, c) \<Rightarrow> c
        | (Some t, c) \<Rightarrow>
            let c = (if cancelled then transmit_complete_callback c t RCODE_CANCELLED else c)
            in run_tx_callback c t rcode (p_timestamp p) data)"

text \<open>What \<open>fw_run_transaction\<close> returns: the response code, and the buffer with the response copied
  over its front when the transaction was complete.\<close>

definition transaction_callback :: "bytes \<Rightarrow> u32 \<Rightarrow> bytes \<Rightarrow> u32 \<times> bytes" where
  "transaction_callback payload rcode data =
    (rcode, if rcode = RCODE_COMPLETE then data @ drop (length data) payload else payload)"

definition fw_rcode_string :: "nat \<Rightarrow> string" where
  "fw_rcode_string rcode =
    (let names = [(0x0, ''no error''), (0x4, ''conflict error''), (0x5, ''data error''),
                  (0x6, ''type error''), (0x7, ''address error''), (0x10, ''send error''),
                  (0x11, ''timeout''), (0x12, ''busy''), (0x13, ''bus reset''), (0x14, ''no ack'')]
     in case map_of names rcode of Some s \<Rightarrow> s | None \<Rightarrow> ''unknown'')"

end
