(* ===== verification/Address_Handler.thy ===== *)
theory Address_Handler
  imports Packet_Header
begin

text \<open>
  The registry of address handlers, after \<^verbatim>\<open>drivers/firewire/core-transaction.c\<close>: the regions of the
  node's 48-bit address space that drivers and the core itself serve.  The interface the dispatch of
  incoming requests relies on is the locale \<open>address_registry\<close>.
\<close>

section \<open>Regions and handlers\<close>

abbreviation (input) CSR_REGISTER_BASE :: u64 where "CSR_REGISTER_BASE \<equiv> 0xfffff0000000"
abbreviation (input) CSR_CONFIG_ROM :: u64 where "CSR_CONFIG_ROM \<equiv> 0x400"
abbreviation (input) CSR_FCP_COMMAND :: u64 where "CSR_FCP_COMMAND \<equiv> 0xb00"
abbreviation (input) CSR_FCP_RESPONSE :: u64 where "CSR_FCP_RESPONSE \<equiv> 0xd00"
abbreviation (input) CSR_FCP_END :: u64 where "CSR_FCP_END \<equiv> 0xf00"
abbreviation (input) CSR_TOPOLOGY_MAP :: u64 where "CSR_TOPOLOGY_MAP \<equiv> 0x1000"
abbreviation (input) CSR_TOPOLOGY_MAP_END :: u64 where "CSR_TOPOLOGY_MAP_END \<equiv> 0x1400"
abbreviation (input) FW_MAX_PHYSICAL_RANGE :: u64 where "FW_MAX_PHYSICAL_RANGE \<equiv> 0x100000000"

record fw_address_region =
  region_start :: u64
  region_end :: u64

text \<open>The callbacks of the core itself, and those of other drivers by number.\<close>

datatype address_callback = Handle_topology_map | Handle_registers | Handle_low_memory
  | Handle_other nat

text \<open>\<open>h_ptr\<close> is the address of the handler object, \<open>h_done\<close> its completion.\<close>

record fw_address_handler =
  h_ptr :: nat
  h_offset :: u64
  h_length :: u64
  h_callback :: address_callback
  h_kref :: nat
  h_done :: bool

definition fw_high_memory_region :: fw_address_region where
  "fw_high_memory_region = \<lparr>region_start = FW_MAX_PHYSICAL_RANGE, region_end = 0xffffe0000000\<rparr>"

definition low_memory_region :: fw_address_region where
  "low_memory_region = \<lparr>region_start = 0x000000000000, region_end = FW_MAX_PHYSICAL_RANGE\<rparr>"

definition topology_map_region :: fw_address_region where
  "topology_map_region = \<lparr>region_start = CSR_REGISTER_BASE OR CSR_TOPOLOGY_MAP,
     region_end = CSR_REGISTER_BASE OR CSR_TOPOLOGY_MAP_END\<rparr>"

definition registers_region :: fw_address_region where
  "registers_region = \<lparr>region_start = CSR_REGISTER_BASE, region_end = CSR_REGISTER_BASE OR CSR_CONFIG_ROM\<rparr>"

definition is_in_fcp_region :: "u64 \<Rightarrow> u64 \<Rightarrow> bool" where
  "is_in_fcp_region offset len \<longleftrightarrow>
    offset \<ge> (CSR_REGISTER_BASE OR CSR_FCP_COMMAND) \<and> offset + len \<le> (CSR_REGISTER_BASE OR CSR_FCP_END)"

definition lookup_overlapping_address_handler ::
  "fw_address_handler list \<Rightarrow> u64 \<Rightarrow> u64 \<Rightarrow> fw_address_handler option" where
  "lookup_overlapping_address_handler hs offset len =
    List.find (\<lambda>handler. h_offset handler < offset + len \<and> offset < h_offset handler + h_length handler) hs"

definition is_enclosing_handler :: "fw_address_handler \<Rightarrow> u64 \<Rightarrow> u64 \<Rightarrow> bool" where
  "is_enclosing_handler handler offset len \<longleftrightarrow>
    h_offset handler \<le> offset \<and> offset + len \<le> h_offset handler + h_length handler"

definition lookup_enclosing_address_handler ::
  "fw_address_handler list \<Rightarrow> u64 \<Rightarrow> u64 \<Rightarrow> fw_address_handler option" where
  "lookup_enclosing_address_handler hs offset len =
    List.find (\<lambda>handler. is_enclosing_handler handler offset len) hs"

text \<open>The reference count of the handler object at an address.  \<open>put_address_handler\<close> completes
  \<open>done\<close> when the last reference goes.\<close>

definition get_address_handler :: "fw_address_handler \<Rightarrow> fw_address_handler" where
  "get_address_handler h = h\<lparr>h_kref := h_kref h + 1\<rparr>"

definition complete_address_handler :: "fw_address_handler \<Rightarrow> fw_address_handler" where
  "complete_address_handler h = h\<lparr>h_done := True\<rparr>"

definition put_address_handler :: "fw_address_handler \<Rightarrow> fw_address_handler" where
  "put_address_handler h =
    (let h = h\<lparr>h_kref := h_kref h - 1\<rparr>
     in if h_kref h = 0 then complete_address_handler h else h)"

section \<open>Adding and removing\<close>

text \<open>The search loop: the result (\<open>None\<close> for success), the handler and the list.  The loop need not
  end for arbitrary lists.\<close>

partial_function (option) add_handler_loop ::
  "fw_address_handler list \<Rightarrow> fw_address_handler \<Rightarrow> u64 \<Rightarrow>
    (errno option \<times> fw_address_handler \<times> fw_address_handler list) option" where
  "add_handler_loop hs handler e =
    (if h_offset handler + h_length handler \<le> e then
       case (if is_in_fcp_region (h_offset handler) (h_length handler) then None
             else lookup_overlapping_address_handler hs (h_offset handler) (h_length handler)) of
         Some other \<Rightarrow> add_handler_loop hs (handler\<lparr>h_offset := h_offset handler + h_length other\<rparr>) e
       | None \<Rightarrow>
           let handler = handler\<lparr>h_done := False, h_kref := 1\<rparr>
           in Some (None, handler, hs @ [handler])
     else Some (Some EBUSY, handler, hs))"

declare add_handler_loop.simps [code]

definition fw_core_add_address_handler ::
  "fw_address_handler list \<Rightarrow> fw_address_handler \<Rightarrow> fw_address_region \<Rightarrow>
    (errno option \<times> fw_address_handler \<times> fw_address_handler list) option" where
  "fw_core_add_address_handler hs handler region =
    (if region_start region AND 0xffff000000000003 \<noteq> 0 \<or> region_start region \<ge> region_end region \<or>
        region_end region > 0x0001000000000000 \<or> h_length handler AND 3 \<noteq> 0 \<or> h_length handler = 0
     then Some (Some EINVAL, handler, hs)
     else add_handler_loop hs (handler\<lparr>h_offset := region_start region\<rparr>) (region_end region))"

text \<open>Removal takes the object off the list, drops the list's reference, and waits for the callbacks
  that still hold one; the second result says whether it has to wait.\<close>

definition fw_core_remove_address_handler ::
  "fw_address_handler list \<Rightarrow> nat \<Rightarrow> fw_address_handler list \<times> bool" where
  "fw_core_remove_address_handler hs p =
    (case List.find (\<lambda>h. h_ptr h = p) hs of
       None \<Rightarrow> (hs, False)
     | Some h \<Rightarrow> (remove1 h hs, \<not> h_done (put_address_handler h)))"

section \<open>The invariant\<close>

abbreviation h_end :: "fw_address_handler \<Rightarrow> nat" where
  "h_end h \<equiv> unat (h_offset h) + unat (h_length h)"

definition disjoint_handlers :: "fw_address_handler \<Rightarrow> fw_address_handler \<Rightarrow> bool" where
  "disjoint_handlers a b \<longleftrightarrow> h_end a \<le> unat (h_offset b) \<or> h_end b \<le> unat (h_offset a)"

definition handler_ok :: "fw_address_handler \<Rightarrow> bool" where
  "handler_ok h \<longleftrightarrow> unat (h_offset h) mod 4 = 0 \<and> unat (h_length h) mod 4 = 0 \<and> h_length h \<noteq> 0 \<and>
     h_end h \<le> 2 ^ 48"

text \<open>Two handlers overlap only when the later one lies in the FCP region.\<close>

definition registry_ok :: "fw_address_handler list \<Rightarrow> bool" where
  "registry_ok hs \<longleftrightarrow> (\<forall>h \<in> set hs. handler_ok h) \<and>
     sorted_wrt (\<lambda>a b. disjoint_handlers a b \<or> is_in_fcp_region (h_offset b) (h_length b)) hs"

lemma unat_plus_small: "unat a + unat b < 2 ^ 64 \<Longrightarrow> unat (a + b :: u64) = unat a + unat b"
  by (subst unat_plus_simple [THEN iffD1]) (auto simp: no_olen_add_nat)

lemma handler_end: "handler_ok h \<Longrightarrow> unat (h_offset h + h_length h) = h_end h"
  by (rule unat_plus_small) (simp add: handler_ok_def)

lemma overlapping_None:
  assumes "\<forall>h \<in> set hs. handler_ok h" "unat offset + unat len < 2 ^ 64"
  shows "lookup_overlapping_address_handler hs offset len = None \<longleftrightarrow>
    (\<forall>h \<in> set hs. h_end h \<le> unat offset \<or> unat offset + unat len \<le> unat (h_offset h))"
  using assms unat_plus_small [OF assms(2)]
  by (auto simp: lookup_overlapping_address_handler_def find_None_iff word_less_nat_alt handler_end
      not_less [symmetric])

lemma overlapping_Some:
  "lookup_overlapping_address_handler hs offset len = Some other \<Longrightarrow>
    other \<in> set hs \<and> offset < h_offset other + h_length other"
  by (auto simp: lookup_overlapping_address_handler_def find_Some_iff)


text \<open>The search ends, without a change for want of room or with the new handler at the end of the
  list, in the given range and clear of all others unless it lies in the FCP region.\<close>

lemma add_handler_loop_result:
  assumes ok: "\<forall>h \<in> set hs. handler_ok h" and e: "unat e \<le> 2 ^ 48"
    and len: "h_length h \<noteq> 0" "unat (h_length h) mod 4 = 0" "unat (h_length h) \<le> 2 ^ 48"
    and off: "unat (h_offset h) mod 4 = 0" "unat (h_offset h) \<le> 2 ^ 49"
  shows "(\<exists>h'. add_handler_loop hs h e = Some (Some EBUSY, h', hs)) \<or>
    (\<exists>h'. add_handler_loop hs h e = Some (None, h', hs @ [h']) \<and>
      h' = h\<lparr>h_offset := h_offset h', h_done := False, h_kref := 1\<rparr> \<and> handler_ok h' \<and>
      unat (h_offset h) \<le> unat (h_offset h') \<and> h_end h' \<le> unat e \<and>
      (is_in_fcp_region (h_offset h') (h_length h') \<or> (\<forall>a \<in> set hs. disjoint_handlers a h')))"
  (is "?fail h \<or> (\<exists>h'. ?succ h h')")
  using len off
proof (induction "2 ^ 50 - unat (h_offset h)" arbitrary: h rule: less_induct)
  case less
  have sum: "unat (h_offset h + h_length h) = h_end h"
    using less.prems by (intro unat_plus_small) simp
  show ?case
  proof (cases "h_offset h + h_length h \<le> e")
    case False
    then show ?thesis by (simp add: add_handler_loop.simps [of hs h])
  next
    case True
    then have fits: "h_end h \<le> unat e" by (simp add: word_le_nat_alt sum)
    let ?other = "if is_in_fcp_region (h_offset h) (h_length h) then None
        else lookup_overlapping_address_handler hs (h_offset h) (h_length h)"
    show ?thesis
    proof (cases ?other)
      case None
      let ?h = "h\<lparr>h_done := False, h_kref := 1\<rparr>"
      have run: "add_handler_loop hs h e = Some (None, ?h, hs @ [?h])"
        using True None by (simp add: add_handler_loop.simps [of hs h] Let_def)
      have "handler_ok ?h" using less.prems fits e by (simp add: handler_ok_def)
      moreover have "is_in_fcp_region (h_offset h) (h_length h) \<or> (\<forall>a \<in> set hs. disjoint_handlers a ?h)"
        using None ok less.prems overlapping_None [OF ok, of "h_offset h" "h_length h"]
        by (auto simp: disjoint_handlers_def split: if_splits)
      ultimately have "?succ h ?h" using run fits by simp
      then show ?thesis by blast
    next
      case (Some other)
      then have other: "handler_ok other" "h_offset h < h_offset other + h_length other"
        using overlapping_Some ok by (auto split: if_splits)
      then have small: "unat (h_offset h) < 2 ^ 48" "unat (h_length other) \<le> 2 ^ 48" "0 < unat (h_length other)"
        using handler_end [OF other(1)]
        by (auto simp: handler_ok_def word_less_nat_alt unat_gt_0)
      let ?h = "h\<lparr>h_offset := h_offset h + h_length other\<rparr>"
      have off: "unat (h_offset ?h) = unat (h_offset h) + unat (h_length other)"
        using small by (simp add: unat_plus_small)
      have run: "add_handler_loop hs h e = add_handler_loop hs ?h e"
        using True Some by (simp add: add_handler_loop.simps [of hs h])
      have "?fail ?h \<or> (\<exists>h'. ?succ ?h h')"
        using less.prems small off other(1) by (intro less.hyps) (auto simp: handler_ok_def mod_add_eq [symmetric])
      then show ?thesis unfolding run using off by auto
    qed
  qed
qed

section \<open>The interface of the registry\<close>

text \<open>What the dispatcher of requests relies on: a lookup finds a member that covers the request
  whenever there is one, and outside the shared registers there is at most one.\<close>

locale address_registry =
  fixes ok :: "'r \<Rightarrow> bool" and members :: "'r \<Rightarrow> 'h set" and lookup :: "'r \<Rightarrow> u64 \<Rightarrow> u64 \<Rightarrow> 'h option"
    and covers :: "'h \<Rightarrow> u64 \<Rightarrow> u64 \<Rightarrow> bool" and shared :: "u64 \<Rightarrow> u64 \<Rightarrow> bool" and range_ok :: "u64 \<Rightarrow> u64 \<Rightarrow> bool"
  assumes lookup_sound: "lookup r a n = Some h \<Longrightarrow> h \<in> members r \<and> covers h a n"
    and lookup_complete: "h \<in> members r \<Longrightarrow> covers h a n \<Longrightarrow> \<exists>h'. lookup r a n = Some h'"
    and exclusive: "ok r \<Longrightarrow> range_ok a n \<Longrightarrow> \<not> shared a n \<Longrightarrow> h \<in> members r \<Longrightarrow> h' \<in> members r \<Longrightarrow>
      covers h a n \<Longrightarrow> covers h' a n \<Longrightarrow> h = h'"
begin

lemma lookup_iff:
  assumes "ok r" "range_ok a n" "\<not> shared a n"
  shows "lookup r a n = Some h \<longleftrightarrow> h \<in> members r \<and> covers h a n"
  using exclusive [OF assms] lookup_sound lookup_complete by metis

lemma lookup_extend:
  assumes "ok r" "ok r'" "range_ok a n" "\<not> shared a n" "members r' = insert h (members r)"
  shows "lookup r' a n = (if covers h a n then Some h else lookup r a n)"
proof (cases "covers h a n")
  case True
  then show ?thesis using lookup_iff [OF assms(2,3,4)] assms(5) by simp
next
  case False
  show ?thesis
  proof (cases "lookup r a n")
    case None
    then have "lookup r' a n \<noteq> Some k" for k
      using lookup_iff [OF assms(2,3,4), of k] lookup_complete [of k r a n] assms(5) False by auto
    then show ?thesis using None False by (cases "lookup r' a n") auto
  next
    case (Some k)
    then have "lookup r' a n = Some k"
      using lookup_iff [OF assms(1,3,4)] lookup_iff [OF assms(2,3,4)] assms(5) by simp
    with Some False show ?thesis by simp
  qed
qed

end

definition request_range_ok :: "u64 \<Rightarrow> u64 \<Rightarrow> bool" where
  "request_range_ok offset len \<longleftrightarrow> len \<noteq> 0 \<and> unat offset + unat len < 2 ^ 64"

lemma enclosing_iff:
  assumes "handler_ok h" "request_range_ok offset len"
  shows "is_enclosing_handler h offset len \<longleftrightarrow>
    unat (h_offset h) \<le> unat offset \<and> unat offset + unat len \<le> h_end h"
  using assms handler_end [OF assms(1)]
  by (simp add: is_enclosing_handler_def request_range_ok_def word_le_nat_alt unat_plus_small)

lemma enclosed_in_fcp:
  assumes "handler_ok h" "request_range_ok offset len" "is_enclosing_handler h offset len"
    "is_in_fcp_region (h_offset h) (h_length h)"
  shows "is_in_fcp_region offset len"
  using assms(3,4) unfolding is_enclosing_handler_def is_in_fcp_region_def by (meson order_trans)

lemma enclosing_unique:
  assumes "registry_ok hs" "request_range_ok offset len" "\<not> is_in_fcp_region offset len"
    and "h \<in> set hs" "h' \<in> set hs" "is_enclosing_handler h offset len" "is_enclosing_handler h' offset len"
  shows "h = h'"
proof -
  have *: "False" if "i < j" "j < length hs" "is_enclosing_handler (hs ! i) offset len"
    "is_enclosing_handler (hs ! j) offset len" for i j
  proof -
    have ok: "handler_ok (hs ! i)" "handler_ok (hs ! j)"
      using assms(1) that by (auto simp: registry_ok_def)
    have "disjoint_handlers (hs ! i) (hs ! j) \<or> is_in_fcp_region (h_offset (hs ! j)) (h_length (hs ! j))"
      using assms(1) that sorted_wrt_nth_less by (fastforce simp: registry_ok_def)
    then show False
    proof
      assume "disjoint_handlers (hs ! i) (hs ! j)"
      moreover have "0 < unat len" using assms(2) by (simp add: request_range_ok_def unat_gt_0)
      ultimately show False
        using that(3,4) enclosing_iff [OF ok(1) assms(2)] enclosing_iff [OF ok(2) assms(2)]
        by (auto simp: disjoint_handlers_def)
    next
      assume "is_in_fcp_region (h_offset (hs ! j)) (h_length (hs ! j))"
      then show False using enclosed_in_fcp [OF ok(2) assms(2) that(4)] assms(3) by blast
    qed
  qed
  obtain i j where ij: "i < length hs" "hs ! i = h" "j < length hs" "hs ! j = h'"
    using assms(4,5) by (auto simp: in_set_conv_nth)
  then show ?thesis using *[of i j] *[of j i] assms(6,7) by (cases i j rule: linorder_cases) auto
qed

interpretation handlers: address_registry registry_ok set lookup_enclosing_address_handler
  is_enclosing_handler is_in_fcp_region request_range_ok
proof unfold_locales
  fix r a n h
  show "lookup_enclosing_address_handler r a n = Some h \<Longrightarrow> h \<in> set r \<and> is_enclosing_handler h a n"
    by (auto simp: lookup_enclosing_address_handler_def find_Some_iff)
  show "h \<in> set r \<Longrightarrow> is_enclosing_handler h a n \<Longrightarrow> \<exists>h'. lookup_enclosing_address_handler r a n = Some h'"
    by (cases "lookup_enclosing_address_handler r a n")
      (auto simp: lookup_enclosing_address_handler_def find_None_iff)
qed (rule enclosing_unique)

section \<open>What the registry guarantees\<close>

lemma quadlet_aligned: "unat x mod 4 = 0" if "x AND 3 = (0 :: u64)"
proof -
  have "x AND 3 = take_bit 2 x" by (simp add: take_bit_eq_mask mask_eq_exp_minus_1)
  then have "unat (x AND 3) = unat x mod 4" by (simp add: unsigned_take_bit_eq take_bit_eq_mod unat_mod)
  with that show ?thesis by simp
qed

lemma region_start_aligned: "unat x mod 4 = 0" if "x AND 0xffff000000000003 = (0 :: u64)"
proof -
  have "x AND 3 = (x AND 0xffff000000000003) AND 3" by (simp add: and.assoc)
  with that show ?thesis by (intro quadlet_aligned) simp
qed

lemma registry_ok_append:
  "registry_ok hs \<Longrightarrow> handler_ok h \<Longrightarrow>
    is_in_fcp_region (h_offset h) (h_length h) \<or> (\<forall>a \<in> set hs. disjoint_handlers a h) \<Longrightarrow> registry_ok (hs @ [h])"
  by (auto simp: registry_ok_def sorted_wrt_append)

definition bad_handler_args :: "fw_address_handler \<Rightarrow> fw_address_region \<Rightarrow> bool" where
  "bad_handler_args h region \<longleftrightarrow>
    region_start region AND 0xffff000000000003 \<noteq> 0 \<or> region_start region \<ge> region_end region \<or>
    region_end region > 0x0001000000000000 \<or> h_length h AND 3 \<noteq> 0 \<or> h_length h = 0"

lemma fw_core_add_address_handler_eq:
  "fw_core_add_address_handler hs h region =
    (if bad_handler_args h region then Some (Some EINVAL, h, hs)
     else add_handler_loop hs (h\<lparr>h_offset := region_start region\<rparr>) (region_end region))"
  by (simp add: fw_core_add_address_handler_def bad_handler_args_def)

lemma add_address_handler_cases:
  assumes "registry_ok hs" "unat (h_length h) \<le> 2 ^ 48" "\<not> bad_handler_args h region"
  obtains (busy) h' where "fw_core_add_address_handler hs h region = Some (Some EBUSY, h', hs)"
  | (added) h' where "fw_core_add_address_handler hs h region = Some (None, h', hs @ [h'])"
      "registry_ok (hs @ [h'])" "h' = h\<lparr>h_offset := h_offset h', h_done := False, h_kref := 1\<rparr>"
      "unat (region_start region) \<le> unat (h_offset h')" "h_end h' \<le> unat (region_end region)"
proof -
  let ?h = "h\<lparr>h_offset := region_start region\<rparr>"
  have run: "fw_core_add_address_handler hs h region = add_handler_loop hs ?h (region_end region)"
    using assms(3) by (simp add: fw_core_add_address_handler_eq)
  have e: "unat (region_end region) \<le> 2 ^ 48" "unat (region_start region) < unat (region_end region)"
    using assms(3) by (simp_all add: bad_handler_args_def word_le_nat_alt word_less_nat_alt)
  have al: "unat (h_length h) mod 4 = 0" "unat (region_start region) mod 4 = 0" "h_length h \<noteq> 0"
    using assms(3) by (simp_all add: bad_handler_args_def quadlet_aligned region_start_aligned)
  have ok: "\<forall>h \<in> set hs. handler_ok h" using assms(1) by (simp add: registry_ok_def)
  have pre: "h_length ?h \<noteq> 0" "unat (h_length ?h) mod 4 = 0" "unat (h_length ?h) \<le> 2 ^ 48"
    "unat (h_offset ?h) mod 4 = 0" "unat (h_offset ?h) \<le> 2 ^ 49"
    using al e assms(2) by simp_all
  from add_handler_loop_result [OF ok e(1) pre] show thesis
  proof (elim disjE exE conjE)
    fix h' assume "add_handler_loop hs ?h (region_end region) = Some (Some EBUSY, h', hs)"
    then show thesis by (intro busy) (simp add: run)
  qed (auto simp: run intro!: added registry_ok_append [OF assms(1)])
qed

text \<open>C7.  In a well-formed registry the search of \<open>fw_core_add_address_handler\<close> always ends.  It
  refuses a bad region or length with \<open>-EINVAL\<close> or reports \<open>-EBUSY\<close>, both without a change; or the
  handler gets a quadlet-aligned place inside the region and is appended, and the registry stays well
  formed: two handlers overlap only when the later one lies in the FCP region.\<close>

theorem fw_core_add_address_handler_exclusive:
  assumes "registry_ok hs" "unat (h_length h) \<le> 2 ^ 48"
  shows "\<exists>err h' hs'. fw_core_add_address_handler hs h region = Some (err, h', hs') \<and>
    (case err of
       Some e \<Rightarrow> hs' = hs \<and> e = (if bad_handler_args h region then EINVAL else EBUSY)
     | None \<Rightarrow> hs' = hs @ [h'] \<and> registry_ok hs' \<and> h' = h\<lparr>h_offset := h_offset h', h_done := False, h_kref := 1\<rparr> \<and>
         unat (region_start region) \<le> unat (h_offset h') \<and> h_end h' \<le> unat (region_end region))"
proof (cases "bad_handler_args h region")
  case True
  then show ?thesis by (simp add: fw_core_add_address_handler_eq)
next
  case False
  from assms False show ?thesis by (cases rule: add_address_handler_cases) (use False in auto)
qed

definition registers_handler :: fw_address_handler where
  "registers_handler = \<lparr>h_ptr = 1, h_offset = 0, h_length = 0x400, h_callback = Handle_registers,
     h_kref = 0, h_done = False\<rparr>"

lemma add_registers:
  "fw_core_add_address_handler [] registers_handler registers_region =
    Some (None, registers_handler\<lparr>h_offset := 0xfffff0000000, h_kref := 1\<rparr>,
      [registers_handler\<lparr>h_offset := 0xfffff0000000, h_kref := 1\<rparr>])"
  unfolding fw_core_add_address_handler_def
  by (subst add_handler_loop.simps)
    (simp add: registers_region_def registers_handler_def lookup_overlapping_address_handler_def Let_def)

theorem fw_core_add_address_handler_exclusive_witness:
  "registry_ok [registers_handler\<lparr>h_offset := 0xfffff0000000, h_kref := 1\<rparr>]"
  using fw_core_add_address_handler_exclusive [of "[]" registers_handler registers_region] add_registers
  by (simp add: registry_ok_def registers_handler_def)

lemma sorted_wrt_remove1: "sorted_wrt P xs \<Longrightarrow> sorted_wrt P (remove1 x xs)"
  by (induction xs) (use notin_set_remove1 in fastforce)+

lemma fw_core_remove_address_handler_ok:
  "registry_ok hs \<Longrightarrow> registry_ok (fst (fw_core_remove_address_handler hs p))"
  unfolding registry_ok_def fw_core_remove_address_handler_def
  by (auto split: option.splits intro: sorted_wrt_remove1 dest: set_remove1_subset [THEN subsetD])

text \<open>After a handler has been added, a request outside the FCP registers that its range encloses
  goes to it, and every other such request goes where it went before.\<close>

lemma lookup_after_add:
  assumes "registry_ok hs" "unat (h_length h) \<le> 2 ^ 48"
    and add: "fw_core_add_address_handler hs h region = Some (None, h', hs')"
    and req: "request_range_ok offset len" "\<not> is_in_fcp_region offset len"
  shows "lookup_enclosing_address_handler hs' offset len =
    (if is_enclosing_handler h' offset len then Some h' else lookup_enclosing_address_handler hs offset len)"
proof -
  have "\<not> bad_handler_args h region" using add by (auto simp: fw_core_add_address_handler_eq)
  from assms(1,2) this have "hs' = hs @ [h'] \<and> registry_ok hs'"
    by (cases rule: add_address_handler_cases) (use add in auto)
  then show ?thesis using assms(1) req by (intro handlers.lookup_extend) auto
qed

end
