(* ===== verification/Request.thy ===== *)
theory Request
  imports Transaction Address_Handler Config_Rom
begin

text \<open>
  Inbound requests, after \<^verbatim>\<open>drivers/firewire/core-transaction.c\<close>: the request object and its references,
  the response packet, the dispatch to address handlers, and the handlers of the core itself (CSR
  registers, topology map, low memory).  Request objects live in a heap, a list of which an index is
  a pointer; \<open>None\<close> is a \<open>BUG()\<close> or the use of a freed request.
\<close>

section \<open>Request objects\<close>

record fw_request =
  rq_kref :: nat
  rq_response :: fw_packet
  rq_header :: async_header
  rq_ack :: u32
  rq_timestamp :: u32
  rq_length :: nat
  rq_data :: bytes

datatype rq_event =
    Rq_send_response nat fw_packet
  | Rq_write_csr u32 u32
  | Rq_phy_packet fw_packet

record rq_card =
  rq_handlers :: "fw_address_handler list"
  requests :: "fw_request list"
  split_hi :: u32
  split_lo :: u32
  split_timeout_cycles :: u32
  split_timeout_jiffies :: u32
  priority_budget_implemented :: bool
  maint_utility_register :: bytes
  broadcast_channel :: u32
  rq_topology_map :: "u32 list"
  rq_log :: "rq_event list"

definition rq_upd :: "rq_card \<Rightarrow> nat \<Rightarrow> (fw_request \<Rightarrow> fw_request) \<Rightarrow> rq_card" where
  "rq_upd c r f = c\<lparr>requests := (requests c)[r := f (requests c ! r)]\<rparr>"

definition rq_emit :: "rq_card \<Rightarrow> rq_event \<Rightarrow> rq_card" where
  "rq_emit c e = c\<lparr>rq_log := rq_log c @ [e]\<rparr>"

definition rq_live :: "rq_card \<Rightarrow> nat \<Rightarrow> bool" where
  "rq_live c r \<longleftrightarrow> r < length (requests c) \<and> 0 < rq_kref (requests c ! r)"

definition fw_request_get :: "rq_card \<Rightarrow> nat \<Rightarrow> rq_card" where
  "fw_request_get c r = rq_upd c r (\<lambda>x. x\<lparr>rq_kref := rq_kref x + 1\<rparr>)"

definition fw_request_put :: "rq_card \<Rightarrow> nat \<Rightarrow> rq_card" where
  "fw_request_put c r = rq_upd c r (\<lambda>x. x\<lparr>rq_kref := rq_kref x - 1\<rparr>)"

definition free_response_callback :: "rq_card \<Rightarrow> nat \<Rightarrow> rq_card" where
  "free_response_callback c r = fw_request_put (fw_request_put c r) r"

section \<open>Responses\<close>

text \<open>\<open>HEADER_DESTINATION_IS_BROADCAST\<close>.\<close>

definition header_destination_is_broadcast :: "async_header \<Rightarrow> bool" where
  "header_destination_is_broadcast h \<longleftrightarrow> async_header_get_destination h AND 0x3f = 0x3f"

definition fw_get_response_length :: "async_header \<Rightarrow> nat" where
  "fw_get_response_length h =
    (let tcode = async_header_get_tcode h;
         data_length = unat (async_header_get_data_length h) in
     if tcode = TCODE_WRITE_QUADLET_REQUEST \<or> tcode = TCODE_WRITE_BLOCK_REQUEST then 0
     else if tcode = TCODE_READ_QUADLET_REQUEST then 4
     else if tcode = TCODE_READ_BLOCK_REQUEST then data_length
     else if tcode = TCODE_LOCK_REQUEST then
       let ext_tcode = async_header_get_extended_tcode h in
       if ext_tcode = EXTCODE_FETCH_ADD \<or> ext_tcode = EXTCODE_LITTLE_ADD then data_length
       else data_length div 2
     else 0)"

definition fw_fill_response :: "fw_packet \<Rightarrow> async_header \<Rightarrow> u32 \<Rightarrow> bytes option \<Rightarrow> nat \<Rightarrow> fw_packet" where
  "fw_fill_response response request_header rcode payload len =
    (let tcode = async_header_get_tcode request_header;
         h = async_header_set_retry (p_header response) RETRY_1;
         h = async_header_set_tlabel h (async_header_get_tlabel request_header);
         h = async_header_set_destination h (async_header_get_source request_header);
         h = async_header_set_source h (async_header_get_destination request_header);
         h = async_header_set_rcode h rcode;
         h = h\<lparr>q2 := 0\<rparr>;
         response =
           (if tcode = TCODE_WRITE_QUADLET_REQUEST \<or> tcode = TCODE_WRITE_BLOCK_REQUEST then
              response\<lparr>p_header := async_header_set_tcode h TCODE_WRITE_RESPONSE, p_header_length := 12,
                       p_payload_length := 0\<rparr>
            else if tcode = TCODE_READ_QUADLET_REQUEST then
              response\<lparr>p_header := async_header_set_quadlet_data
                         (async_header_set_tcode h TCODE_READ_QUADLET_RESPONSE)
                         (case payload of Some dat \<Rightarrow> load32 dat | None \<Rightarrow> 0),
                       p_header_length := 16, p_payload_length := 0\<rparr>
            else if tcode = TCODE_READ_BLOCK_REQUEST \<or> tcode = TCODE_LOCK_REQUEST then
              response\<lparr>p_header := async_header_set_extended_tcode
                         (async_header_set_data_length (async_header_set_tcode h (tcode + 2)) (of_nat len))
                         (async_header_get_extended_tcode request_header),
                       p_header_length := 16, p_payload := payload, p_payload_length := len\<rparr>
            else response\<lparr>p_header := h\<rparr>)
     in response\<lparr>p_payload_mapped := False\<rparr>)"

text \<open>\<open>kmalloc\<close> gives the (uninitialised) bytes behind the object, or nothing.\<close>

definition allocate_request :: "(nat \<Rightarrow> bytes option) \<Rightarrow> rq_card \<Rightarrow> fw_packet \<Rightarrow> (nat \<times> rq_card) option" where
  "allocate_request kmalloc c p =
    (let tcode = async_header_get_tcode (p_header p);
         data_length = unat (async_header_get_data_length (p_header p));
         req = (if tcode = TCODE_WRITE_QUADLET_REQUEST then Some (Some (store32 (q3 (p_header p))), 4)
                else if tcode = TCODE_WRITE_BLOCK_REQUEST \<or> tcode = TCODE_LOCK_REQUEST then
                  Some (Some (the (p_payload p)), data_length)
                else if tcode = TCODE_READ_QUADLET_REQUEST then Some (None, 4)
                else if tcode = TCODE_READ_BLOCK_REQUEST then Some (None, data_length)
                else None)
     in case req of
          None \<Rightarrow> None
        | Some (dat, len) \<Rightarrow>
            (case kmalloc len of
               None \<Rightarrow> None
             | Some mem \<Rightarrow>
                 let response = \<lparr>p_speed = p_speed p, p_generation = p_generation p,
                       p_header = \<lparr>q0 = 0, q1 = 0, q2 = 0, q3 = 0\<rparr>, p_header_length = 0, p_payload = None,
                       p_payload_length = 0, p_payload_mapped = False,
                       p_timestamp = compute_split_timeout_timestamp (split_timeout_cycles c) (p_timestamp p),
                       p_ack = 0\<rparr>;
                     request = \<lparr>rq_kref = 1, rq_response = response, rq_header = p_header p,
                       rq_ack = p_ack p, rq_timestamp = p_timestamp p, rq_length = len,
                       rq_data = (case dat of Some d \<Rightarrow> take len d | None \<Rightarrow> mem)\<rparr>
                 in Some (length (requests c), c\<lparr>requests := requests c @ [request]\<rparr>)))"

definition fw_send_response :: "rq_card \<Rightarrow> nat \<Rightarrow> u32 \<Rightarrow> rq_card option" where
  "fw_send_response c r rcode =
    (if \<not> rq_live c r then None
     else
       let request = requests c ! r in
       if rq_ack request \<noteq> ACK_PENDING \<or> header_destination_is_broadcast (rq_header request)
       then Some (fw_request_put c r)
       else
         let (dat, data_length) =
               (if rcode = RCODE_COMPLETE then (Some (rq_data request), fw_get_response_length (rq_header request))
                else (None, 0));
             c = rq_upd c r (\<lambda>x. x\<lparr>rq_response :=
                   fw_fill_response (rq_response x) (rq_header x) rcode dat data_length\<rparr>);
             c = fw_request_get c r
         in Some (rq_emit c (Rq_send_response r (rq_response (requests c ! r)))))"

section \<open>The handlers of the core\<close>

abbreviation (input) CSR_STATE_CLEAR :: u32 where "CSR_STATE_CLEAR \<equiv> 0x0"
abbreviation (input) CSR_STATE_SET :: u32 where "CSR_STATE_SET \<equiv> 0x4"
abbreviation (input) CSR_NODE_IDS :: u32 where "CSR_NODE_IDS \<equiv> 0x8"
abbreviation (input) CSR_RESET_START :: u32 where "CSR_RESET_START \<equiv> 0xc"
abbreviation (input) CSR_SPLIT_TIMEOUT_HI :: u32 where "CSR_SPLIT_TIMEOUT_HI \<equiv> 0x18"
abbreviation (input) CSR_SPLIT_TIMEOUT_LO :: u32 where "CSR_SPLIT_TIMEOUT_LO \<equiv> 0x1c"
abbreviation (input) CSR_CYCLE_TIME :: u32 where "CSR_CYCLE_TIME \<equiv> 0x200"
abbreviation (input) CSR_BUS_TIME :: u32 where "CSR_BUS_TIME \<equiv> 0x204"
abbreviation (input) CSR_BUSY_TIMEOUT :: u32 where "CSR_BUSY_TIMEOUT \<equiv> 0x210"
abbreviation (input) CSR_PRIORITY_BUDGET :: u32 where "CSR_PRIORITY_BUDGET \<equiv> 0x218"
abbreviation (input) CSR_BUS_MANAGER_ID :: u32 where "CSR_BUS_MANAGER_ID \<equiv> 0x21c"
abbreviation (input) CSR_BANDWIDTH_AVAILABLE :: u32 where "CSR_BANDWIDTH_AVAILABLE \<equiv> 0x220"
abbreviation (input) CSR_CHANNELS_AVAILABLE_HI :: u32 where "CSR_CHANNELS_AVAILABLE_HI \<equiv> 0x224"
abbreviation (input) CSR_CHANNELS_AVAILABLE_LO :: u32 where "CSR_CHANNELS_AVAILABLE_LO \<equiv> 0x228"
abbreviation (input) CSR_MAINT_UTILITY :: u32 where "CSR_MAINT_UTILITY \<equiv> 0x230"
abbreviation (input) CSR_BROADCAST_CHANNEL :: u32 where "CSR_BROADCAST_CHANNEL \<equiv> 0x234"
abbreviation (input) CSR_STATE_BIT_ABDICATE :: u32 where "CSR_STATE_BIT_ABDICATE \<equiv> 0x400"
abbreviation (input) BROADCAST_CHANNEL_INITIAL :: u32 where "BROADCAST_CHANNEL_INITIAL \<equiv> 0x8000001f"
abbreviation (input) BROADCAST_CHANNEL_VALID :: u32 where "BROADCAST_CHANNEL_VALID \<equiv> 0x40000000"

definition tcode_is_read_request :: "u32 \<Rightarrow> bool" where
  "tcode_is_read_request tcode \<longleftrightarrow> tcode AND NOT 1 = 4"

definition tcode_is_link_internal :: "u32 \<Rightarrow> bool" where
  "tcode_is_link_internal tcode \<longleftrightarrow> tcode = TCODE_LINK_INTERNAL"

text \<open>The first quadlet of the payload in big-endian order.\<close>

definition be32_load :: "bytes \<Rightarrow> u32" where
  "be32_load bs = push_bit 24 (ucast (bs ! 0)) OR push_bit 16 (ucast (bs ! 1)) OR push_bit 8 (ucast (bs ! 2))
     OR ucast (bs ! 3)"

definition rq_store :: "rq_card \<Rightarrow> nat \<Rightarrow> bytes \<Rightarrow> rq_card" where
  "rq_store c r bs = rq_upd c r (\<lambda>x. x\<lparr>rq_data := bs @ drop (length bs) (rq_data x)\<rparr>)"

definition handle_topology_map :: "rq_card \<Rightarrow> nat \<Rightarrow> u32 \<Rightarrow> u64 \<Rightarrow> nat \<Rightarrow> rq_card option" where
  "handle_topology_map c r tcode offset len =
    (if \<not> tcode_is_read_request tcode then fw_send_response c r RCODE_TYPE_ERROR
     else if offset AND 3 > 0 \<or> len mod 4 > 0 then fw_send_response c r RCODE_ADDRESS_ERROR
     else
       let start = unat ((offset - region_start topology_map_region) div 4)
       in fw_send_response
            (rq_store c r (take len (concat (map be32_bytes (drop start (rq_topology_map c)))))) r RCODE_COMPLETE)"

text \<open>\<open>isoc_cycles_to_jiffies\<close> over the kernel's \<open>usecs_to_jiffies\<close>.\<close>

definition isoc_cycles_to_jiffies :: "(u32 \<Rightarrow> u32) \<Rightarrow> u32 \<Rightarrow> u32" where
  "isoc_cycles_to_jiffies usecs_to_jiffies cycles =
    usecs_to_jiffies (ucast ((ucast cycles * 1000000 :: u64) div 8000))"

definition update_split_timeout :: "(u32 \<Rightarrow> u32) \<Rightarrow> rq_card \<Rightarrow> rq_card" where
  "update_split_timeout usecs_to_jiffies c =
    (let cycles = split_hi c * 8000 + drop_bit 19 (split_lo c);
         cycles = (if cycles < 800 then 800 else if cycles > 3 * 8000 then 3 * 8000 else cycles)
     in c\<lparr>split_timeout_cycles := cycles,
          split_timeout_jiffies := isoc_cycles_to_jiffies usecs_to_jiffies cycles\<rparr>)"

text \<open>The switch over the register: the card and the response code, \<open>None\<close> for \<open>BUG()\<close>.\<close>

definition csr_plain_access :: "(u32 \<Rightarrow> u32) \<Rightarrow> rq_card \<Rightarrow> nat \<Rightarrow> u32 \<Rightarrow> u32 \<Rightarrow> rq_card \<times> u32" where
  "csr_plain_access read_csr c r tcode reg =
    (if tcode = TCODE_READ_QUADLET_REQUEST then (rq_store c r (be32_bytes (read_csr reg)), RCODE_COMPLETE)
     else if tcode = TCODE_WRITE_QUADLET_REQUEST
     then (rq_emit c (Rq_write_csr reg (be32_load (rq_data (requests c ! r)))), RCODE_COMPLETE)
     else (c, RCODE_TYPE_ERROR))"

definition csr_access ::
  "(u32 \<Rightarrow> u32) \<Rightarrow> (u32 \<Rightarrow> u32) \<Rightarrow> rq_card \<Rightarrow> nat \<Rightarrow> u32 \<Rightarrow> u32 \<Rightarrow> (rq_card \<times> u32) option" where
  "csr_access usecs_to_jiffies read_csr c r tcode reg =
    (let dat = rq_data (requests c ! r) in
     if reg = CSR_PRIORITY_BUDGET then
       Some (if \<not> priority_budget_implemented c then (c, RCODE_ADDRESS_ERROR)
             else csr_plain_access read_csr c r tcode reg)
     else if reg = CSR_NODE_IDS \<or> reg = CSR_STATE_CLEAR \<or> reg = CSR_STATE_SET \<or> reg = CSR_CYCLE_TIME \<or>
             reg = CSR_BUS_TIME \<or> reg = CSR_BUSY_TIMEOUT then
       Some (csr_plain_access read_csr c r tcode reg)
     else if reg = CSR_RESET_START then
       Some (if tcode = TCODE_WRITE_QUADLET_REQUEST
             then (rq_emit c (Rq_write_csr CSR_STATE_CLEAR CSR_STATE_BIT_ABDICATE), RCODE_COMPLETE)
             else (c, RCODE_TYPE_ERROR))
     else if reg = CSR_SPLIT_TIMEOUT_HI then
       Some (if tcode = TCODE_READ_QUADLET_REQUEST then (rq_store c r (be32_bytes (split_hi c)), RCODE_COMPLETE)
             else if tcode = TCODE_WRITE_QUADLET_REQUEST
             then (update_split_timeout usecs_to_jiffies (c\<lparr>split_hi := be32_load dat AND 7\<rparr>), RCODE_COMPLETE)
             else (c, RCODE_TYPE_ERROR))
     else if reg = CSR_SPLIT_TIMEOUT_LO then
       Some (if tcode = TCODE_READ_QUADLET_REQUEST then (rq_store c r (be32_bytes (split_lo c)), RCODE_COMPLETE)
             else if tcode = TCODE_WRITE_QUADLET_REQUEST
             then (update_split_timeout usecs_to_jiffies (c\<lparr>split_lo := be32_load dat AND 0xfff80000\<rparr>), RCODE_COMPLETE)
             else (c, RCODE_TYPE_ERROR))
     else if reg = CSR_MAINT_UTILITY then
       Some (if tcode = TCODE_READ_QUADLET_REQUEST then (rq_store c r (maint_utility_register c), RCODE_COMPLETE)
             else if tcode = TCODE_WRITE_QUADLET_REQUEST
             then (c\<lparr>maint_utility_register := take 4 dat\<rparr>, RCODE_COMPLETE)
             else (c, RCODE_TYPE_ERROR))
     else if reg = CSR_BROADCAST_CHANNEL then
       Some (if tcode = TCODE_READ_QUADLET_REQUEST then (rq_store c r (be32_bytes (broadcast_channel c)), RCODE_COMPLETE)
             else if tcode = TCODE_WRITE_QUADLET_REQUEST
             then (c\<lparr>broadcast_channel := (be32_load dat AND BROADCAST_CHANNEL_VALID) OR BROADCAST_CHANNEL_INITIAL\<rparr>,
                   RCODE_COMPLETE)
             else (c, RCODE_TYPE_ERROR))
     else if reg = CSR_BUS_MANAGER_ID \<or> reg = CSR_BANDWIDTH_AVAILABLE \<or> reg = CSR_CHANNELS_AVAILABLE_HI \<or>
             reg = CSR_CHANNELS_AVAILABLE_LO then None
     else Some (c, RCODE_ADDRESS_ERROR))"

definition handle_registers ::
  "(u32 \<Rightarrow> u32) \<Rightarrow> (u32 \<Rightarrow> u32) \<Rightarrow> rq_card \<Rightarrow> nat \<Rightarrow> u32 \<Rightarrow> u64 \<Rightarrow> rq_card option" where
  "handle_registers usecs_to_jiffies read_csr c r tcode offset =
    (let reg = ucast (offset AND NOT CSR_REGISTER_BASE) :: u32
     in case csr_access usecs_to_jiffies read_csr c r tcode reg of
          None \<Rightarrow> None
        | Some (c, rcode) \<Rightarrow> fw_send_response c r rcode)"

definition handle_low_memory :: "rq_card \<Rightarrow> nat \<Rightarrow> rq_card option" where
  "handle_low_memory c r = fw_send_response c r RCODE_TYPE_ERROR"

section \<open>Dispatch\<close>

text \<open>What a handler is told about a request.\<close>

record request_info =
  i_tcode :: u32
  i_destination :: u32
  i_source :: u32
  i_generation :: u32
  i_offset :: u64
  i_length :: nat

text \<open>The environment: the kernel's memory and clock functions, the driver's registers, and the
  callbacks of the other drivers.\<close>

record rq_env =
  e_kmalloc :: "nat \<Rightarrow> bytes option"
  e_krealloc :: "nat \<Rightarrow> bool"
  e_usecs_to_jiffies :: "u32 \<Rightarrow> u32"
  e_read_csr :: "u32 \<Rightarrow> u32"
  e_other :: "nat \<Rightarrow> rq_card \<Rightarrow> nat \<Rightarrow> request_info \<Rightarrow> rq_card option"

fun run_address_callback :: "rq_env \<Rightarrow> address_callback \<Rightarrow> rq_card \<Rightarrow> nat \<Rightarrow> request_info \<Rightarrow> rq_card option" where
  "run_address_callback e Handle_topology_map c r i = handle_topology_map c r (i_tcode i) (i_offset i) (i_length i)"
| "run_address_callback e Handle_registers c r i =
    handle_registers (e_usecs_to_jiffies e) (e_read_csr e) c r (i_tcode i) (i_offset i)"
| "run_address_callback e Handle_low_memory c r i = handle_low_memory c r"
| "run_address_callback e (Handle_other n) c r i = e_other e n c r i"

text \<open>The handler object at an address is held while its callback runs.\<close>

definition handler_upd :: "(fw_address_handler \<Rightarrow> fw_address_handler) \<Rightarrow> rq_card \<Rightarrow> fw_address_handler \<Rightarrow> rq_card" where
  "handler_upd f c h = c\<lparr>rq_handlers := map (\<lambda>x. if h_ptr x = h_ptr h then f x else x) (rq_handlers c)\<rparr>"

definition handle_exclusive_region_request :: "rq_env \<Rightarrow> rq_card \<Rightarrow> fw_packet \<Rightarrow> nat \<Rightarrow> u64 \<Rightarrow> rq_card option" where
  "handle_exclusive_region_request e c p r offset =
    (let len = rq_length (requests c ! r);
         tcode = async_header_get_tcode (p_header p);
         tcode = (if tcode = TCODE_LOCK_REQUEST then 0x10 + async_header_get_extended_tcode (p_header p) else tcode)
     in case lookup_enclosing_address_handler (rq_handlers c) offset (of_nat len) of
          None \<Rightarrow> fw_send_response c r RCODE_ADDRESS_ERROR
        | Some handler \<Rightarrow>
            map_option (\<lambda>c. handler_upd put_address_handler c handler)
              (run_address_callback e (h_callback handler) (handler_upd get_address_handler c handler) r
                \<lparr>i_tcode = tcode, i_destination = async_header_get_destination (p_header p),
                 i_source = async_header_get_source (p_header p), i_generation = p_generation p,
                 i_offset = offset, i_length = len\<rparr>))"

text \<open>The collected handlers; when the buffer is full and cannot be doubled the search stops.\<close>

fun fcp_collect ::
  "(nat \<Rightarrow> bool) \<Rightarrow> u64 \<Rightarrow> u64 \<Rightarrow> fw_address_handler list \<Rightarrow> nat \<Rightarrow> fw_address_handler list \<Rightarrow> fw_address_handler list" where
  "fcp_collect krealloc offset len [] buffer_size acc = acc"
| "fcp_collect krealloc offset len (h # hs) buffer_size acc =
    (if is_enclosing_handler h offset len then
       if length acc \<ge> buffer_size then
         if krealloc (buffer_size * 2) then fcp_collect krealloc offset len hs (buffer_size * 2) (acc @ [h]) else acc
       else fcp_collect krealloc offset len hs buffer_size (acc @ [h])
     else fcp_collect krealloc offset len hs buffer_size acc)"

fun fcp_deliver :: "rq_env \<Rightarrow> fw_address_handler list \<Rightarrow> rq_card \<Rightarrow> nat \<Rightarrow> request_info \<Rightarrow> rq_card option" where
  "fcp_deliver e [] c r i = Some c"
| "fcp_deliver e (h # hs) c r i =
    (case run_address_callback e (h_callback h) c r i of
       None \<Rightarrow> None
     | Some c \<Rightarrow> fcp_deliver e hs (handler_upd put_address_handler c h) r i)"

definition handle_fcp_region_request :: "rq_env \<Rightarrow> rq_card \<Rightarrow> fw_packet \<Rightarrow> nat \<Rightarrow> u64 \<Rightarrow> rq_card option" where
  "handle_fcp_region_request e c p r offset =
    (let len = rq_length (requests c ! r);
         tcode = async_header_get_tcode (p_header p) in
     if (offset \<noteq> (CSR_REGISTER_BASE OR CSR_FCP_COMMAND) \<and> offset \<noteq> (CSR_REGISTER_BASE OR CSR_FCP_RESPONSE)) \<or>
        len > 0x200 then fw_send_response c r RCODE_ADDRESS_ERROR
     else if tcode \<noteq> TCODE_WRITE_QUADLET_REQUEST \<and> tcode \<noteq> TCODE_WRITE_BLOCK_REQUEST then
       fw_send_response c r RCODE_TYPE_ERROR
     else
       let hs = fcp_collect (e_krealloc e) offset (of_nat len) (rq_handlers c) 4 [] in
       (case fcp_deliver e hs (foldl (handler_upd get_address_handler) c hs) r
               \<lparr>i_tcode = tcode, i_destination = async_header_get_destination (p_header p),
                i_source = async_header_get_source (p_header p), i_generation = p_generation p,
                i_offset = offset, i_length = len\<rparr> of
          None \<Rightarrow> None
        | Some c \<Rightarrow> fw_send_response c r RCODE_COMPLETE))"

definition fw_core_handle_request :: "rq_env \<Rightarrow> rq_card \<Rightarrow> fw_packet \<Rightarrow> rq_card option" where
  "fw_core_handle_request e c p =
    (if p_ack p \<noteq> ACK_PENDING \<and> p_ack p \<noteq> ACK_COMPLETE then Some c
     else if tcode_is_link_internal (async_header_get_tcode (p_header p)) then Some (rq_emit c (Rq_phy_packet p))
     else
       (case allocate_request (e_kmalloc e) c p of
          None \<Rightarrow> Some c
        | Some (r, c) \<Rightarrow>
            let offset = async_header_get_offset (p_header p) in
            if \<not> is_in_fcp_region offset (of_nat (rq_length (requests c ! r)))
            then handle_exclusive_region_request e c p r offset
            else handle_fcp_region_request e c p r offset))"

end
