(* ===== verification/Transaction_Proofs.thy ===== *)
theory Transaction_Proofs
  imports Transaction
begin

text \<open>
  What the transaction layer guarantees to its users: labels are unique among the pending
  transactions, a waiting split transaction always has its timeout armed, a response goes to the
  transaction it answers, and every submitted request is completed once, unless it is completed while
  its timeout handler is already on the way.
\<close>

section \<open>Transaction labels\<close>

lemma tlabel_bit: "m AND push_bit l 1 = (0 :: u64) \<longleftrightarrow> \<not> bit m l"
  by (simp add: push_bit_eq_mult and_exp_eq_0_iff_not_bit)

lemma tlabel_search_step:
  "tlabel_search m cur l =
    (if bit m l then if (l + 1) mod 64 = cur then Some (Inl EBUSY) else tlabel_search m cur ((l + 1) mod 64)
     else Some (Inr l))"
  by (subst tlabel_search.simps) (simp add: tlabel_bit and_exp_eq_0_iff_not_bit Let_def)

lemma tlabel_search_from:
  assumes "cur < 64" "k < 64" "\<forall>i < k. bit m ((cur + i) mod 64)"
  shows "tlabel_search m cur ((cur + k) mod 64) =
    Some (if \<forall>i < 64. bit m ((cur + i) mod 64) then Inl EBUSY
          else Inr ((cur + (LEAST i. \<not> bit m ((cur + i) mod 64))) mod 64))"
  using assms(2,3)
proof (induction "64 - k" arbitrary: k rule: less_induct)
  case less
  show ?case
  proof (cases "bit m ((cur + k) mod 64)")
    case False
    then have "(LEAST i. \<not> bit m ((cur + i) mod 64)) = k"
      using less.prems by (intro Least_equality) (auto simp: not_less [symmetric])
    with False less.prems show ?thesis by (auto simp: tlabel_search_step [of m cur "(cur + k) mod 64"])
  next
    case True
    have next_k: "((cur + k) mod 64 + 1) mod 64 = (cur + Suc k) mod 64" by (simp add: mod_Suc_eq)
    have all: "\<forall>i < Suc k. bit m ((cur + i) mod 64)" using True less.prems by (auto simp: less_Suc_eq)
    show ?thesis
    proof (cases "Suc k = 64")
      case last: True
      then have "((cur + k) mod 64 + 1) mod 64 = cur" using assms(1) next_k by simp
      moreover have "\<forall>i < 64. bit m ((cur + i) mod 64)" using all last by simp
      ultimately show ?thesis using True by (subst tlabel_search_step) simp
    next
      case False
      then have "Suc k < 64" using less.prems by simp
      have "(cur + Suc k) mod 64 \<noteq> cur"
      proof (cases "cur + Suc k < 64")
        case False
        then have "(cur + Suc k) mod 64 = cur + Suc k - 64"
          using assms(1) \<open>Suc k < 64\<close> by (subst mod_if, subst mod_less) auto
        then show ?thesis using \<open>Suc k < 64\<close> False by simp
      qed simp
      then have "tlabel_search m cur ((cur + k) mod 64) = tlabel_search m cur ((cur + Suc k) mod 64)"
        using True by (subst tlabel_search_step) (simp only: next_k if_True if_False)
      with less.hyps [of "Suc k"] \<open>Suc k < 64\<close> all show ?thesis by simp
    qed
  qed
qed

lemma all_labels_from:
  assumes "cur < (64 :: nat)"
  shows "(\<forall>i < 64. P ((cur + i) mod 64)) \<longleftrightarrow> (\<forall>l < 64. P l)"
proof
  assume all: "\<forall>i < 64. P ((cur + i) mod 64)"
  show "\<forall>l < 64. P l"
  proof (intro allI impI)
    fix l :: nat assume "l < 64"
    then have "(cur + (l + 64 - cur) mod 64) mod 64 = l"
      using assms by (simp add: mod_add_right_eq)
    then show "P l" using all [rule_format, of "(l + 64 - cur) mod 64"] by simp
  qed
qed simp

text \<open>The search for a label always ends.  It fails exactly when all 64 labels are in use;
  otherwise it takes the first free label at or after the current one, marks it and moves on.\<close>

lemma allocate_tlabel_correct:
  assumes "current_tlabel c < 64"
  shows "allocate_tlabel c =
    (if \<forall>l < 64. bit (tlabel_mask c) l then Some (Inl EBUSY, c)
     else let l = (current_tlabel c + (LEAST i. \<not> bit (tlabel_mask c) ((current_tlabel c + i) mod 64))) mod 64
          in Some (Inr l, c\<lparr>current_tlabel := (l + 1) mod 64, tlabel_mask := tlabel_mask c OR push_bit l 1\<rparr>))"
  using tlabel_search_from [OF assms, of 0 "tlabel_mask c"] assms all_labels_from [OF assms, of "bit (tlabel_mask c)"]
  by (simp add: allocate_tlabel_def Let_def)

lemma allocate_tlabel_cases:
  assumes "current_tlabel c < 64"
  obtains (full) "allocate_tlabel c = Some (Inl EBUSY, c)" "\<forall>l < 64. bit (tlabel_mask c) l"
  | (label) l where "l < 64" "\<not> bit (tlabel_mask c) l"
      "allocate_tlabel c = Some (Inr l, c\<lparr>current_tlabel := (l + 1) mod 64, tlabel_mask := tlabel_mask c OR push_bit l 1\<rparr>)"
proof (cases "\<forall>i < 64. bit (tlabel_mask c) ((current_tlabel c + i) mod 64)")
  case True
  then show thesis
    using full tlabel_search_from [OF assms, of 0 "tlabel_mask c"] assms all_labels_from [OF assms, of "bit (tlabel_mask c)"]
    by (simp add: allocate_tlabel_def)
next
  case False
  let ?P = "\<lambda>i. \<not> bit (tlabel_mask c) ((current_tlabel c + i) mod 64)"
  let ?l = "(current_tlabel c + (LEAST i. ?P i)) mod 64"
  have "?P (LEAST i. ?P i)" using False by (metis (mono_tags, lifting) LeastI_ex)
  then show thesis
    using label [of ?l] False tlabel_search_from [OF assms, of 0 "tlabel_mask c"] assms
    by (simp add: allocate_tlabel_def Let_def)
qed

definition idle_transaction :: fw_transaction where
  "idle_transaction = \<lparr>t_node_id = 0, t_tlabel = 0, t_poisoned = False, is_split_transaction = False,
     split_timeout_timer = Timer_idle, split_timeout_cycle = 0,
     t_packet = \<lparr>p_speed = 0, p_generation = 0, p_header = \<lparr>q0 = 0, q1 = 0, q2 = 0, q3 = 0\<rparr>, p_header_length = 0,
       p_payload = None, p_payload_length = 0, p_payload_mapped = False, p_timestamp = 0, p_ack = 0\<rparr>,
     with_tstamp = False\<rparr>"

definition idle_tx_card :: tx_card where
  "idle_tx_card = \<lparr>tlabel_mask = 0, current_tlabel = 0, tx_list = [], txs = (\<lambda>_. idle_transaction),
     tx_node_id = 0xffc0, split_cycles = 800, tx_log = []\<rparr>"

section \<open>The invariant of the pending list\<close>

text \<open>The part of a transaction that the invariant speaks about.\<close>

definition tx_core :: "fw_transaction \<Rightarrow> nat \<times> bool \<times> bool \<times> timer_state" where
  "tx_core x = (t_tlabel x, t_poisoned x, is_split_transaction x, split_timeout_timer x)"

definition tx_inv :: "tx_card \<Rightarrow> bool" where
  "tx_inv c \<longleftrightarrow> current_tlabel c < 64 \<and> distinct (tx_list c) \<and>
    (\<forall>t \<in> set (tx_list c). t_tlabel (txs c t) < 64 \<and> bit (tlabel_mask c) (t_tlabel (txs c t))) \<and>
    inj_on (\<lambda>t. t_tlabel (txs c t)) (set (tx_list c)) \<and>
    (\<forall>t. \<not> t_poisoned (txs c t)) \<and>
    (\<forall>t \<in> set (tx_list c). is_split_transaction (txs c t) \<longleftrightarrow> split_timeout_timer (txs c t) \<noteq> Timer_idle) \<and>
    (\<forall>t. t \<notin> set (tx_list c) \<longrightarrow> split_timeout_timer (txs c t) = Timer_idle)"

lemma tx_inv_cong:
  assumes "current_tlabel c' = current_tlabel c" "tlabel_mask c' = tlabel_mask c" "tx_list c' = tx_list c"
    and "\<And>t. tx_core (txs c' t) = tx_core (txs c t)"
  shows "tx_inv c' = tx_inv c"
proof -
  have "t_tlabel (txs c' t) = t_tlabel (txs c t)" "t_poisoned (txs c' t) = t_poisoned (txs c t)"
    "is_split_transaction (txs c' t) = is_split_transaction (txs c t)"
    "split_timeout_timer (txs c' t) = split_timeout_timer (txs c t)" for t
    using assms(4) [of t] by (simp_all add: tx_core_def)
  then show ?thesis by (simp add: tx_inv_def assms(1-3))
qed

lemma tx_simps [simp]:
  "tlabel_mask (tx_upd c t f) = tlabel_mask c" "current_tlabel (tx_upd c t f) = current_tlabel c"
  "tx_list (tx_upd c t f) = tx_list c" "tx_log (tx_upd c t f) = tx_log c"
  "txs (tx_upd c t f) = (txs c)(t := f (txs c t))" "split_cycles (tx_upd c t f) = split_cycles c"
  "tlabel_mask (run_tx_callback c t r ts d) = tlabel_mask c"
  "current_tlabel (run_tx_callback c t r ts d) = current_tlabel c"
  "tx_list (run_tx_callback c t r ts d) = tx_list c" "txs (run_tx_callback c t r ts d) = txs c"
  by (simp_all add: tx_upd_def run_tx_callback_def tx_emit_def)

lemma tx_inv_callback [simp]: "tx_inv (run_tx_callback c t r ts d) = tx_inv c"
  by (rule tx_inv_cong) simp_all

lemma tx_inv_upd: "(\<And>x. tx_core (f x) = tx_core x) \<Longrightarrow> tx_inv (tx_upd c t f) = tx_inv c"
  by (rule tx_inv_cong) auto

abbreviation stop_timer :: "tx_card \<Rightarrow> nat \<Rightarrow> tx_card" where
  "stop_timer c t \<equiv> tx_upd c t (\<lambda>x. x\<lparr>split_timeout_timer := Timer_idle\<rparr>)"

text \<open>In a consistent list the timer can be stopped unless its handler is on the way.\<close>

lemma try_cancel_listed:
  assumes "tx_inv c" "t \<in> set (tx_list c)"
  shows "try_cancel_split_timeout c t =
    (if split_timeout_timer (txs c t) = Timer_running then (False, c) else (True, stop_timer c t))"
proof (cases "split_timeout_timer (txs c t)")
  case Timer_idle
  then have "(txs c t)\<lparr>split_timeout_timer := Timer_idle\<rparr> = txs c t" by (cases "txs c t") simp
  then have "stop_timer c t = c" by (simp add: tx_upd_def)
  then show ?thesis using assms Timer_idle by (simp add: try_cancel_split_timeout_def tx_inv_def)
qed (use assms in \<open>auto simp: try_cancel_split_timeout_def tx_inv_def\<close>)

lemma tx_inv_remove:
  assumes "tx_inv c" "t \<in> set (tx_list c)"
  shows "tx_inv (remove_transaction_entry (stop_timer c t) t)"
proof -
  have "t_tlabel (txs c u) \<noteq> t_tlabel (txs c t)" if "u \<in> set (tx_list c)" "u \<noteq> t" for u
    using assms that by (auto simp: tx_inv_def inj_on_def)
  then show ?thesis
    using assms
    by (auto simp: tx_inv_def remove_transaction_entry_def bit_simps distinct_removeAll inj_on_def)
qed

text \<open>The three outcomes of looking for an entry.\<close>

lemma find_and_pop_cases:
  assumes "tx_inv c"
  obtains (none) "find_and_pop_transaction_entry c P = (None, c)" "\<forall>t \<in> set (tx_list c). \<not> P t"
  | (popped) t where "t \<in> set (tx_list c)" "P t" "split_timeout_timer (txs c t) \<noteq> Timer_running"
      "find_and_pop_transaction_entry c P = (Some t, remove_transaction_entry (stop_timer c t) t)"
  | (late) t where "t \<in> set (tx_list c)" "P t" "split_timeout_timer (txs c t) = Timer_running"
      "find_and_pop_transaction_entry c P = (Some t, c)"
proof (cases "List.find P (tx_list c)")
  case None
  then show thesis by (intro none) (simp add: find_and_pop_transaction_entry_def, simp add: find_None_iff)
next
  case (Some t)
  then have t: "t \<in> set (tx_list c)" "P t" by (auto simp: find_Some_iff)
  show thesis
  proof (cases "split_timeout_timer (txs c t) = Timer_running")
    case True
    with t Some show thesis
      by (intro late) (auto simp: find_and_pop_transaction_entry_def try_cancel_listed [OF assms])
  next
    case False
    with t Some show thesis
      by (intro popped) (auto simp: find_and_pop_transaction_entry_def try_cancel_listed [OF assms])
  qed
qed

section \<open>Completions\<close>

definition completions :: "tx_card \<Rightarrow> nat \<Rightarrow> nat" where
  "completions c t = length (filter (\<lambda>e. case e of Tx_callback u _ _ _ \<Rightarrow> u = t | _ \<Rightarrow> False) (tx_log c))"

text \<open>How often a transaction has been completed, and once more if it is pending.\<close>

definition balance :: "tx_card \<Rightarrow> nat \<Rightarrow> nat" where
  "balance c t = completions c t + of_bool (t \<in> set (tx_list c))"

text \<open>The transaction is pending and its timeout handler is on the way.\<close>

definition late :: "tx_card \<Rightarrow> nat \<Rightarrow> bool" where
  "late c t \<longleftrightarrow> t \<in> set (tx_list c) \<and> split_timeout_timer (txs c t) = Timer_running"

lemma completions_simps [simp]:
  "completions (run_tx_callback c t r ts d) u = completions c u + of_bool (u = t)"
  "completions (tx_upd c t f) u = completions c u"
  "completions (remove_transaction_entry c t) u = completions c u"
  "completions (c\<lparr>tx_list := l\<rparr>) u = completions c u"
  "completions (c\<lparr>current_tlabel := k, tlabel_mask := m\<rparr>) u = completions c u"
  "completions (tx_emit c (Tx_send_request t p)) u = completions c u"
  "completions (tx_emit c (Tx_callback t r tss d)) u = completions c u + of_bool (u = t)"
  by (auto simp: completions_def run_tx_callback_def tx_emit_def tx_upd_def remove_transaction_entry_def)

lemma remove_simps [simp]:
  "tx_list (remove_transaction_entry c t) = removeAll t (tx_list c)"
  "txs (remove_transaction_entry c t) = txs c"
  by (simp_all add: remove_transaction_entry_def)

lemma close_unlisted: "t \<notin> set (tx_list c) \<Longrightarrow> close_transaction c t r ts = (Some ENOENT, c)"
proof -
  assume "t \<notin> set (tx_list c)"
  then have "List.find (\<lambda>i. i = t) (tx_list c) = None" by (auto simp: find_None_iff)
  then show ?thesis by (simp add: close_transaction_def find_and_pop_transaction_entry_def)
qed

lemma close_keeps:
  assumes "tx_inv c"
  shows "tx_inv (snd (close_transaction c t r ts)) \<and>
    (\<not> late c t \<longrightarrow> balance (snd (close_transaction c t r ts)) u = balance c u)"
  using assms
proof (cases rule: find_and_pop_cases [where P = "\<lambda>i. i = t"])
  case (popped t')
  then show ?thesis
    using assms by (auto simp: close_transaction_def balance_def tx_inv_remove)
qed (use assms in \<open>auto simp: close_transaction_def late_def\<close>)

text \<open>The response code that stands for an acknowledge code.\<close>

definition ack_rcode :: "u32 \<Rightarrow> u32" where
  "ack_rcode status =
    (if status = ACK_COMPLETE then RCODE_COMPLETE
     else if status = ACK_BUSY_X \<or> status = ACK_BUSY_A \<or> status = ACK_BUSY_B then RCODE_BUSY
     else if status = ACK_DATA_ERROR then RCODE_DATA_ERROR
     else if status = ACK_TYPE_ERROR then RCODE_TYPE_ERROR else status)"

lemma transmit_not_pending:
  "status \<noteq> ACK_PENDING \<Longrightarrow> transmit_complete_callback c t status =
    snd (close_transaction c t (ack_rcode status) (p_timestamp (t_packet (txs c t))))"
  by (simp add: transmit_complete_callback_def ack_rcode_def)

lemma tx_inv_timer:
  assumes inv: "tx_inv c" and t: "t \<in> set (tx_list c)"
    and f: "t_tlabel (f (txs c t)) = t_tlabel (txs c t)" "t_poisoned (f (txs c t)) = t_poisoned (txs c t)"
      "is_split_transaction (f (txs c t)) \<longleftrightarrow> split_timeout_timer (f (txs c t)) \<noteq> Timer_idle"
  shows "tx_inv (tx_upd c t f)"
proof -
  have "t_tlabel (txs (tx_upd c t f) u) = t_tlabel (txs c u)" for u using f(1) by simp
  moreover have "t_poisoned (txs (tx_upd c t f) u) = t_poisoned (txs c u)" for u using f(2) by simp
  ultimately show ?thesis
    using inv t f(3) unfolding tx_inv_def by simp
qed

lemma start_timeout_keeps:
  assumes "tx_inv c"
  shows "tx_inv (start_split_transaction_timeout c t) \<and> balance (start_split_transaction_timeout c t) u = balance c u"
proof (cases "link_empty c t \<or> is_split_transaction (txs c t)")
  case True
  with assms show ?thesis by (simp add: start_split_transaction_timeout_def)
next
  case False
  then have "t \<in> set (tx_list c)" using assms by (simp add: link_empty_def tx_inv_def)
  from tx_inv_timer [OF assms this] show ?thesis
    using False by (simp add: start_split_transaction_timeout_def balance_def)
qed

lemma transmit_keeps:
  assumes "tx_inv c"
  shows "tx_inv (transmit_complete_callback c t status) \<and>
    (status = ACK_PENDING \<or> \<not> late c t \<longrightarrow> balance (transmit_complete_callback c t status) u = balance c u)"
proof (cases "status = ACK_PENDING")
  case True
  let ?c = "tx_upd c t (\<lambda>x. x\<lparr>split_timeout_cycle :=
    compute_split_timeout_timestamp (split_cycles c) (p_timestamp (t_packet (txs c t))) AND 0xffff\<rparr>)"
  have "tx_inv ?c" using assms by (subst tx_inv_upd) (simp_all add: tx_core_def)
  moreover have "balance ?c u = balance c u" by (simp add: balance_def)
  ultimately show ?thesis
    using True start_timeout_keeps [of ?c t u] by (simp add: transmit_complete_callback_def)
next
  case False
  then show ?thesis using close_keeps [OF assms] by (auto simp: transmit_not_pending)
qed

definition answers :: "tx_card \<Rightarrow> fw_packet \<Rightarrow> nat \<Rightarrow> bool" where
  "answers c p t \<longleftrightarrow> t_node_id (txs c t) = async_header_get_source (p_header p) \<and>
     of_nat (t_tlabel (txs c t)) = async_header_get_tlabel (p_header p)"

lemma transmit_unlisted:
  "status \<noteq> ACK_PENDING \<Longrightarrow> t \<notin> set (tx_list c) \<Longrightarrow> transmit_complete_callback c t status = c"
  by (simp add: transmit_not_pending close_unlisted)

lemma handle_response_cases:
  assumes "tx_inv c"
  obtains (none) "fw_core_handle_response b c p = c" "\<forall>t \<in> set (tx_list c). \<not> answers c p t"
  | (completed) t where "t \<in> set (tx_list c)" "answers c p t" "split_timeout_timer (txs c t) \<noteq> Timer_running"
      "fw_core_handle_response b c p =
        run_tx_callback (remove_transaction_entry (stop_timer c t) t) t (async_header_get_rcode (p_header p))
          (p_timestamp p) (response_data p)"
  | (late) t where "late c t" "answers c p t"
      "fw_core_handle_response b c p =
        run_tx_callback (if b then transmit_complete_callback c t RCODE_CANCELLED else c) t
          (async_header_get_rcode (p_header p)) (p_timestamp p) (response_data p)"
  using assms
proof (cases rule: find_and_pop_cases [where P = "answers c p"])
  case none
  with that(1) show thesis by (simp add: fw_core_handle_response_def answers_def [abs_def])
next
  case (popped t)
  with that(2) [of t] show thesis
    by (simp add: fw_core_handle_response_def answers_def [abs_def] transmit_unlisted)
next
  case (late t)
  with that(3) [of t] show thesis
    by (simp add: fw_core_handle_response_def answers_def [abs_def] late_def)
qed

section \<open>Runs of the transaction layer\<close>

datatype tx_action =
    Send nat request_args
  | Transmitted nat u32 u32
  | Response bool fw_packet
  | Cancel bool nat
  | Timer_expires nat
  | Timer_handler nat

text \<open>One step.  A transaction object is submitted only while it is not in use; when the driver has
  sent the packet it stores the acknowledge code and the time stamp before it calls back.\<close>

fun tx_exec :: "u32 \<Rightarrow> tx_card \<Rightarrow> tx_action \<Rightarrow> tx_card option" where
  "tx_exec ct c (Send t a) = (if t \<in> set (tx_list c) then None else fw_send_request ct c t a)"
| "tx_exec ct c (Transmitted t status ts) =
    Some (transmit_complete_callback
      (tx_upd c t (\<lambda>x. x\<lparr>t_packet := (t_packet x)\<lparr>p_ack := status, p_timestamp := ts\<rparr>\<rparr>)) t status)"
| "tx_exec ct c (Response cancelled p) = Some (fw_core_handle_response cancelled c p)"
| "tx_exec ct c (Cancel cancelled t) = Some (snd (fw_cancel_transaction cancelled ct c t))"
| "tx_exec ct c (Timer_expires t) =
    (if split_timeout_timer (txs c t) = Timer_pending
     then Some (tx_upd c t (\<lambda>x. x\<lparr>split_timeout_timer := Timer_running\<rparr>)) else None)"
| "tx_exec ct c (Timer_handler t) =
    (if split_timeout_timer (txs c t) = Timer_running
     then Some (stop_timer (split_transaction_timeout_callback c t) t) else None)"

text \<open>The step completes a transaction whose timeout handler is on the way.\<close>

fun completes_late :: "tx_card \<Rightarrow> tx_action \<Rightarrow> bool" where
  "completes_late c (Transmitted t status ts) = (status \<noteq> ACK_PENDING \<and> late c t)"
| "completes_late c (Response cancelled p) = (\<exists>t \<in> set (tx_list c). late c t \<and> answers c p t)"
| "completes_late c (Cancel cancelled t) = late c t"
| "completes_late c _ = False"

definition tx_initial :: "tx_card \<Rightarrow> bool" where
  "tx_initial c \<longleftrightarrow> current_tlabel c < 64 \<and> tx_list c = [] \<and> tx_log c = [] \<and>
     (\<forall>t. \<not> t_poisoned (txs c t) \<and> split_timeout_timer (txs c t) = Timer_idle)"

text \<open>The states that a sequence of steps can reach, with how often each transaction was submitted;
  the flag says whether steps of the late kind may occur.\<close>

inductive tx_run :: "bool \<Rightarrow> tx_card \<Rightarrow> (nat \<Rightarrow> nat) \<Rightarrow> bool" for late_ok where
  start: "tx_initial c \<Longrightarrow> tx_run late_ok c (\<lambda>_. 0)"
| step: "tx_run late_ok c n \<Longrightarrow> tx_exec ct c act = Some c' \<Longrightarrow> late_ok \<or> \<not> completes_late c act \<Longrightarrow>
    tx_run late_ok c' (case act of Send t _ \<Rightarrow> n(t := n t + 1) | _ \<Rightarrow> n)"

lemma tx_inv_initial: "tx_initial c \<Longrightarrow> tx_inv c"
  by (simp add: tx_initial_def tx_inv_def)

lemma send_keeps:
  assumes inv: "tx_inv c" and t: "t \<notin> set (tx_list c)"
  shows "\<exists>c'. fw_send_request ct c t a = Some c' \<and> tx_inv c' \<and> balance c' u = balance c u + of_bool (u = t)"
proof -
  have "current_tlabel c < 64" using inv by (simp add: tx_inv_def)
  then show ?thesis
  proof (cases rule: allocate_tlabel_cases)
    case full
    let ?c = "tx_emit c (Tx_callback t RCODE_SEND_ERROR
      (if r_with_tstamp a then Some (cycle_time_to_ohci_tstamp ct, cycle_time_to_ohci_tstamp ct) else None) [])"
    have "tx_inv ?c = tx_inv c" by (rule tx_inv_cong) (simp_all add: tx_emit_def)
    moreover have "balance ?c u = balance c u + of_bool (u = t)"
      by (simp add: balance_def) (simp add: tx_emit_def)
    ultimately show ?thesis using inv full by (simp add: fw_send_request_def Let_def)
  next
    case (label l)
    define x where "x = (txs c t)\<lparr>t_node_id := r_destination_id a, t_tlabel := l, is_split_transaction := False,
      split_timeout_timer := Timer_idle, with_tstamp := r_with_tstamp a,
      t_packet := fw_fill_request (t_packet (txs c t)) (r_tcode a) (of_nat l) (r_destination_id a)
        (tx_node_id c) (r_generation a) (r_speed a) (r_offset a) (r_payload a) (r_length a), t_poisoned := False\<rparr>"
    have x: "tx_core x = (l, False, False, Timer_idle)" by (simp add: x_def tx_core_def)
    define c1 where "c1 = c\<lparr>current_tlabel := (l + 1) mod 64, tlabel_mask := tlabel_mask c OR push_bit l 1,
      tx_list := tx_list c @ [t], txs := (txs c)(t := x)\<rparr>"
    have send: "fw_send_request ct c t a = Some (tx_emit c1 (Tx_send_request t (t_packet x)))"
      using label(3) by (simp add: fw_send_request_def Let_def tx_upd_def x_def c1_def)
    have "tx_inv c1"
      using inv t label(1,2) x unfolding c1_def by (auto simp: tx_inv_def tx_core_def inj_on_def bit_simps)
    moreover have "tx_inv (tx_emit c1 (Tx_send_request t p)) = tx_inv c1" for p
      by (rule tx_inv_cong) (simp_all add: tx_emit_def)
    moreover have "completions c1 u = completions c u" by (simp add: c1_def completions_def)
    ultimately show ?thesis
      using t send by (simp add: balance_def) (simp add: tx_emit_def c1_def)
  qed
qed

lemma timeout_handler_keeps:
  assumes inv: "tx_inv c" and run: "split_timeout_timer (txs c t) = Timer_running"
  shows "tx_inv (stop_timer (split_transaction_timeout_callback c t) t) \<and>
    balance (stop_timer (split_transaction_timeout_callback c t) t) u = balance c u"
proof -
  have t: "t \<in> set (tx_list c)" using inv run by (force simp: tx_inv_def)
  let ?c = "remove_transaction_entry (stop_timer c t) t"
  have "tx_inv (stop_timer (split_transaction_timeout_callback c t) t) = tx_inv ?c"
    using t by (intro tx_inv_cong)
      (simp_all add: split_transaction_timeout_callback_def link_empty_def Let_def remove_transaction_entry_def)
  then show ?thesis
    using tx_inv_remove [OF inv t] t
    by (simp add: balance_def split_transaction_timeout_callback_def link_empty_def Let_def)
qed

lemma tx_exec_keeps:
  assumes inv: "tx_inv c" and exec: "tx_exec ct c act = Some c'"
  shows "tx_inv c' \<and> (\<not> completes_late c act \<longrightarrow>
    balance c' u = balance c u + (case act of Send t _ \<Rightarrow> of_bool (u = t) | _ \<Rightarrow> 0))"
proof (cases act)
  case (Send t a)
  with exec send_keeps [OF inv, of t ct a u] show ?thesis by (auto split: if_splits)
next
  case (Transmitted t status ts)
  let ?c = "tx_upd c t (\<lambda>x. x\<lparr>t_packet := (t_packet x)\<lparr>p_ack := status, p_timestamp := ts\<rparr>\<rparr>)"
  have "tx_inv ?c" using inv by (subst tx_inv_upd) (simp_all add: tx_core_def)
  moreover have "balance ?c u = balance c u" "late ?c t = late c t" by (simp_all add: balance_def late_def)
  ultimately show ?thesis
    using exec Transmitted transmit_keeps [of ?c t status u] by auto
next
  case (Response b p)
  from inv show ?thesis
  proof (cases rule: handle_response_cases [where b = b and p = p])
    case (completed t)
    have c': "c' = run_tx_callback (remove_transaction_entry (stop_timer c t) t) t
        (async_header_get_rcode (p_header p)) (p_timestamp p) (response_data p)"
      using exec Response completed(4) by simp
    show ?thesis
      unfolding c' using completed(1) inv Response by (simp add: tx_inv_remove balance_def)
  next
    case (late t)
    have c': "c' = run_tx_callback (if b then transmit_complete_callback c t RCODE_CANCELLED else c) t
          (async_header_get_rcode (p_header p)) (p_timestamp p) (response_data p)"
      using exec Response late(3) by simp
    show ?thesis
      unfolding c' using late(1,2) inv Response transmit_keeps [OF inv, of t RCODE_CANCELLED u]
      by (auto simp: late_def)
  qed (use exec Response inv in auto)
next
  case (Cancel b t)
  then show ?thesis
    using exec transmit_keeps [OF inv, of t RCODE_CANCELLED u] close_keeps [OF inv, of t RCODE_CANCELLED _ u]
    by (auto simp: fw_cancel_transaction_def Let_def)
next
  case (Timer_expires t)
  then have t: "split_timeout_timer (txs c t) = Timer_pending"
    "c' = tx_upd c t (\<lambda>x. x\<lparr>split_timeout_timer := Timer_running\<rparr>)"
    using exec by (auto split: if_splits)
  moreover have "t \<in> set (tx_list c)" using inv t(1) by (force simp: tx_inv_def)
  ultimately show ?thesis
    using tx_inv_timer [OF inv] inv Timer_expires by (auto simp: balance_def tx_inv_def)
next
  case (Timer_handler t)
  then show ?thesis using exec timeout_handler_keeps [OF inv, of t u] by (auto split: if_splits)
qed

lemma tx_run_inv: "tx_run late_ok c n \<Longrightarrow> tx_inv c"
  by (induction rule: tx_run.induct) (use tx_inv_initial tx_exec_keeps in blast)+

section \<open>Guarantees\<close>

definition example_request :: request_args where
  "example_request = \<lparr>r_tcode = TCODE_READ_QUADLET_REQUEST, r_destination_id = 0xffc1, r_generation = 1,
     r_speed = 0, r_offset = 0xfffff0000400, r_payload = None, r_length = 4, r_with_tstamp = False\<rparr>"

lemma idle_tx_card_initial: "tx_initial idle_tx_card"
  by (simp add: tx_initial_def idle_tx_card_def idle_transaction_def)

lemma example_sent:
  obtains c where "tx_exec 0 idle_tx_card (Send 7 example_request) = Some c" "tx_run late_ok c ((\<lambda>_. 0)(7 := 1))"
    "tx_list c = [7]" "t_node_id (txs c 7) = 0xffc1" "t_tlabel (txs c 7) = 0"
    "split_timeout_timer (txs c 7) = Timer_idle"
proof -
  have free: "7 \<notin> set (tx_list idle_tx_card)" by (simp add: idle_tx_card_def)
  have "tlabel_search 0 0 0 = Some (Inr 0)" by (simp add: tlabel_search_step)
  then obtain c where c: "tx_exec 0 idle_tx_card (Send 7 example_request) = Some c"
    "tx_list c = [7]" "t_node_id (txs c 7) = 0xffc1" "t_tlabel (txs c 7) = 0"
    "split_timeout_timer (txs c 7) = Timer_idle"
    using free by (simp add: fw_send_request_def allocate_tlabel_def idle_tx_card_def Let_def tx_emit_def
        example_request_def)
  have "tx_run late_ok c (case Send 7 example_request of Send t _ \<Rightarrow> (\<lambda>_. 0)(t := 0 + 1) | _ \<Rightarrow> \<lambda>_. 0)"
    using tx_run.step [OF tx_run.start [OF idle_tx_card_initial] c(1)] by simp
  with c that show thesis by simp
qed

lemma answers_unique:
  assumes inv: "tx_inv c" and "u \<in> set (tx_list c)" "answers c p u" "t \<in> set (tx_list c)" "answers c p t"
  shows "u = t"
proof -
  have lt: "t_tlabel (txs c u) < 64" "t_tlabel (txs c t) < 64" using assms by (auto simp: tx_inv_def)
  have "(of_nat (t_tlabel (txs c u)) :: u32) = of_nat (t_tlabel (txs c t))" using assms by (simp add: answers_def)
  from arg_cong [OF this, of unat] lt have "t_tlabel (txs c u) = t_tlabel (txs c t)"
    by (simp add: unat_of_nat)
  then show ?thesis using assms by (auto simp: tx_inv_def inj_on_def)
qed

text \<open>C14.  In every interleaving of submissions, transmissions, responses, cancellations and timer
  events, a submission returns, two pending transactions have different labels, both marked in use,
  and a transaction that waits for its response has its timeout armed or running.\<close>

theorem pending_transactions_consistent:
  assumes "tx_run late_ok c n"
  shows "distinct (tx_list c) \<and> (\<exists>c'. t \<in> set (tx_list c) \<or> fw_send_request ct c t a = Some c') \<and>
    (\<forall>t \<in> set (tx_list c). t_tlabel (txs c t) < 64 \<and> bit (tlabel_mask c) (t_tlabel (txs c t)) \<and>
       (is_split_transaction (txs c t) \<longrightarrow> split_timeout_timer (txs c t) \<noteq> Timer_idle) \<and>
       (\<forall>u \<in> set (tx_list c). t_tlabel (txs c u) = t_tlabel (txs c t) \<longrightarrow> u = t))"
  using tx_run_inv [OF assms] send_keeps [OF tx_run_inv [OF assms], of t ct a]
  by (auto simp: tx_inv_def inj_on_def)

theorem pending_transactions_consistent_witness:
  "\<exists>c. tx_exec 0 idle_tx_card (Send 7 example_request) = Some c \<and> distinct (tx_list c)"
proof (rule example_sent)
  fix c assume "tx_exec 0 idle_tx_card (Send 7 example_request) = Some c" "tx_run True c ((\<lambda>_. 0)(7 := 1))"
  then show ?thesis using pending_transactions_consistent [of True c] by blast
qed

text \<open>C2.  As long as nothing completes a transaction whose timeout handler is already on the way,
  every submitted transaction is either pending and not yet completed for this submission, or has
  been completed exactly once for each submission.\<close>

theorem completed_exactly_once:
  assumes "tx_run False c n"
  shows "completions c t + (if t \<in> set (tx_list c) then 1 else 0) = n t"
proof -
  have "balance c t = n t"
    using assms
  proof (induction rule: tx_run.induct)
    case (start c)
    then show ?case by (simp add: balance_def completions_def tx_initial_def)
  next
    case (step c n ct act c')
    with tx_exec_keeps [OF tx_run_inv [OF step(1)] step(2), of t] show ?case by (cases act) auto
  qed
  then show ?thesis by (auto simp: balance_def)
qed

theorem completed_exactly_once_witness:
  "\<exists>c. tx_exec 0 idle_tx_card (Send 7 example_request) = Some c \<and>
     completions c 7 + (if 7 \<in> set (tx_list c) then 1 else 0) = 1"
proof (rule example_sent)
  fix c assume "tx_exec 0 idle_tx_card (Send 7 example_request) = Some c" "tx_run False c ((\<lambda>_. 0)(7 := 1))"
  then show ?thesis using completed_exactly_once [of c _ 7] by fastforce
qed



text \<open>C15.  The exception is real: cancelling a transaction, or receiving its response, while its
  timeout handler is on the way calls the completion callback but leaves the entry in the list, so
  that the handler calls the callback a second time.\<close>

theorem late_completion_runs_twice:
  assumes "tx_run late_ok c n" "late c t"
  shows "\<exists>c1 c2. tx_exec ct c (Cancel False t) = Some c1 \<and> tx_exec ct c1 (Timer_handler t) = Some c2 \<and>
    completions c2 t = completions c t + 2"
proof -
  have inv: "tx_inv c" using assms(1) by (rule tx_run_inv)
  have t: "t \<in> set (tx_list c)" "split_timeout_timer (txs c t) = Timer_running"
    using assms(2) by (auto simp: late_def)
  have "List.find (\<lambda>i. i = t) (tx_list c) = Some t"
    using t(1) by (cases "List.find (\<lambda>i. i = t) (tx_list c)") (auto simp: find_None_iff find_Some_iff)
  then have "close_transaction c t r ts = (None, run_tx_callback c t r ts [])" for r ts
    using t by (simp add: close_transaction_def find_and_pop_transaction_entry_def try_cancel_listed [OF inv])
  then show ?thesis
    using t by (simp add: fw_cancel_transaction_def Let_def split_transaction_timeout_callback_def link_empty_def)
qed

theorem late_completion_runs_twice_witness:
  "\<exists>c c1 c2. late c 7 \<and> tx_exec 0 c (Cancel False 7) = Some c1 \<and> tx_exec 0 c1 (Timer_handler 7) = Some c2 \<and>
    completions c2 7 = completions c 7 + 2"
proof (rule example_sent)
  fix c assume c: "tx_run False c ((\<lambda>_. 0)(7 := 1))" "tx_list c = [7]" "split_timeout_timer (txs c 7) = Timer_idle"
  let ?c1 = "the (tx_exec 0 c (Transmitted 7 ACK_PENDING 0))" and ?t = "Timer_expires 7"
  have split: "\<not> is_split_transaction (txs c 7)" using tx_run_inv [OF c(1)] c(2,3) by (simp add: tx_inv_def)
  have s1: "tx_exec 0 c (Transmitted 7 ACK_PENDING 0) = Some ?c1" by simp
  have t1: "tx_list ?c1 = [7]" "split_timeout_timer (txs ?c1 7) = Timer_pending"
    using c(2) split by (simp_all add: transmit_complete_callback_def start_split_transaction_timeout_def link_empty_def)
  let ?c2 = "the (tx_exec 0 ?c1 ?t)"
  have s2: "tx_exec 0 ?c1 ?t = Some ?c2" using t1 by simp
  have "tx_run False ?c1 ((\<lambda>_. 0)(7 := 1))" using tx_run.step [OF c(1) s1] by simp
  then have "tx_run False ?c2 ((\<lambda>_. 0)(7 := 1))" using tx_run.step [OF _ s2] by simp
  moreover have "late ?c2 7" using t1 by (simp add: late_def)
  ultimately show ?thesis using late_completion_runs_twice [of False ?c2 _ 7 0] by blast
qed

section \<open>Cancelling everything\<close>

definition stoppable :: "tx_card \<Rightarrow> nat \<Rightarrow> bool" where
  "stoppable c t \<longleftrightarrow> (is_split_transaction (txs c t) \<longrightarrow> split_timeout_timer (txs c t) = Timer_pending)"

lemma cancel_pending_move_eq:
  "distinct ts \<Longrightarrow> \<exists>c'. cancel_pending_move c ts pending = (c', rev (filter (stoppable c) ts) @ pending) \<and>
    tx_list c' = filter (\<lambda>t. t \<notin> set ts \<or> \<not> stoppable c t) (tx_list c) \<and> tx_log c' = tx_log c \<and>
    tlabel_mask c' = tlabel_mask c"
proof (induction ts arbitrary: c pending)
  case (Cons t ts)
  obtain b c1 where tc: "try_cancel_split_timeout c t = (b, c1)" by (cases "try_cancel_split_timeout c t")
  then have b: "b = stoppable c t" and c1: "tx_list c1 = tx_list c" "tx_log c1 = tx_log c" "tlabel_mask c1 = tlabel_mask c"
    "\<And>u. u \<noteq> t \<Longrightarrow> txs c1 u = txs c u"
    by (auto simp: try_cancel_split_timeout_def stoppable_def split: if_splits)
  have keep: "stoppable c1 u = stoppable c u" if "u \<in> set ts" for u
  proof -
    have "u \<noteq> t" using that Cons.prems by auto
    then show ?thesis using c1(4) by (simp add: stoppable_def)
  qed
  have same: "filter (stoppable c1) ts = filter (stoppable c) ts" "\<And>l. stoppable (c1\<lparr>tx_list := l\<rparr>) = stoppable c1"
    by (rule filter_cong [OF refl keep], assumption) (simp add: stoppable_def fun_eq_iff)
  show ?case
  proof (cases b)
    case True
    then show ?thesis
      using Cons.IH [of "c1\<lparr>tx_list := removeAll t (tx_list c1)\<rparr>" "t # pending"] Cons.prems tc b c1 keep
      by (auto simp: same removeAll_filter_not_eq intro!: filter_cong)
  next
    case False
    then show ?thesis
      using Cons.IH [of c1 pending] Cons.prems tc b c1 keep by (auto simp: same intro!: filter_cong)
  qed
qed simp

lemma cancel_callbacks:
  "distinct ts \<Longrightarrow> let c' = foldl (\<lambda>c t. run_tx_callback (tx_upd c t (\<lambda>x. x\<lparr>t_poisoned := True\<rparr>)) t r 0 []) c ts in
    tx_list c' = tx_list c \<and> tlabel_mask c' = tlabel_mask c \<and>
    completions c' t = completions c t + of_bool (t \<in> set ts)"
  by (induction ts arbitrary: c) (auto simp: Let_def)

text \<open>When a card goes away every pending transaction whose timeout handler is not already on the
  way is completed once, with \<open>RCODE_CANCELLED\<close>; the others stay in the list for their handler.  The
  labels of the cancelled transactions stay marked.\<close>

lemma fw_cancel_pending_transactions_correct:
  assumes "tx_run late_ok c n"
  shows "tx_list (fw_cancel_pending_transactions c) = filter (late c) (tx_list c) \<and>
    tlabel_mask (fw_cancel_pending_transactions c) = tlabel_mask c \<and>
    completions (fw_cancel_pending_transactions c) t =
      completions c t + (if t \<in> set (tx_list c) \<and> \<not> late c t then 1 else 0)"
proof -
  have inv: "tx_inv c" using assms by (rule tx_run_inv)
  have st: "stoppable c u \<longleftrightarrow> \<not> late c u" if "u \<in> set (tx_list c)" for u
    using inv that by (cases "split_timeout_timer (txs c u)") (auto simp: tx_inv_def late_def stoppable_def)
  let ?ts = "rev (filter (stoppable c) (tx_list c))"
  have d: "distinct (tx_list c)" using inv by (simp add: tx_inv_def)
  obtain c' where move: "cancel_pending_move c (tx_list c) [] = (c', ?ts)"
    "tx_list c' = filter (\<lambda>t. t \<notin> set (tx_list c) \<or> \<not> stoppable c t) (tx_list c)" "tx_log c' = tx_log c"
    "tlabel_mask c' = tlabel_mask c"
    using cancel_pending_move_eq [OF d, of c "[]"] by auto
  have "tx_list c' = filter (late c) (tx_list c)"
    unfolding move(2) by (rule filter_cong [OF refl]) (simp add: st)
  moreover have "completions c' t = completions c t" by (simp add: completions_def move(3))
  moreover have "t \<in> set ?ts \<longleftrightarrow> t \<in> set (tx_list c) \<and> \<not> late c t" using st by auto
  ultimately show ?thesis
    using cancel_callbacks [of ?ts RCODE_CANCELLED c' t] d move(1,4)
    by (simp add: fw_cancel_pending_transactions_def Let_def)
qed

end
