(* ===== verification/Request_Proofs.thy ===== *)
theory Request_Proofs
  imports Request Transaction_Proofs
begin

text \<open>
  What the responder guarantees: responses answer their request, request objects are released, CSR
  registers behave as registers, requests reach the right handlers.
\<close>

section \<open>Request and response headers\<close>

lemma async_get_q2 [simp]:
  "async_header_get_tlabel (h\<lparr>q2 := v\<rparr>) = async_header_get_tlabel h"
  "async_header_get_destination (h\<lparr>q2 := v\<rparr>) = async_header_get_destination h"
  "async_header_get_source (h\<lparr>q2 := v\<rparr>) = async_header_get_source h"
  "async_header_get_rcode (h\<lparr>q2 := v\<rparr>) = async_header_get_rcode h"
  "async_header_get_retry (h\<lparr>q2 := v\<rparr>) = async_header_get_retry h"
  by (simp_all add: field_defs)

lemma take_bit_small: "unat v < 2 ^ n \<Longrightarrow> take_bit n v = (v :: 'a::len word)"
  by (rule word_unat_eq_iff [THEN iffD2]) (simp add: unsigned_take_bit_eq take_bit_nat_eq_self)

abbreviation request_tcode :: "u32 \<Rightarrow> bool" where
  "request_tcode tcode \<equiv> tcode = TCODE_WRITE_QUADLET_REQUEST \<or> tcode = TCODE_WRITE_BLOCK_REQUEST \<or>
     tcode = TCODE_READ_QUADLET_REQUEST \<or> tcode = TCODE_READ_BLOCK_REQUEST \<or> tcode > 0x10"

lemma fw_fill_request_header:
  assumes "request_tcode tcode"
  shows "async_header_get_tlabel (p_header (fw_fill_request pk tcode lb d s g sp off pay len)) = take_bit 6 lb"
    "async_header_get_destination (p_header (fw_fill_request pk tcode lb d s g sp off pay len)) = take_bit 16 d"
    "async_header_get_source (p_header (fw_fill_request pk tcode lb d s g sp off pay len)) = take_bit 16 s"
    "async_header_get_offset (p_header (fw_fill_request pk tcode lb d s g sp off pay len)) = take_bit 48 off"
    "async_header_get_tcode (p_header (fw_fill_request pk tcode lb d s g sp off pay len)) =
      (if tcode > 0x10 then TCODE_LOCK_REQUEST else tcode)"
  using assms by (auto simp: fw_fill_request_def Let_def)


lemma fw_fill_response_header:
  "async_header_get_tlabel (p_header (fw_fill_response resp h rcode pay n)) = async_header_get_tlabel h"
  "async_header_get_source (p_header (fw_fill_response resp h rcode pay n)) = async_header_get_destination h"
  "async_header_get_destination (p_header (fw_fill_response resp h rcode pay n)) = async_header_get_source h"
  "async_header_get_rcode (p_header (fw_fill_response resp h rcode pay n)) = take_bit 4 rcode"
  by (auto simp: fw_fill_response_def Let_def ah_tlabel.get_bounded ah_source.get_bounded ah_destination.get_bounded)

lemma fw_send_request_listed:
  assumes "tx_inv c" "t \<notin> set (tx_list c)" "fw_send_request ct c t a = Some c'" "t \<in> set (tx_list c')"
  shows "\<exists>l < 64. t_tlabel (txs c' t) = l \<and> t_node_id (txs c' t) = r_destination_id a \<and>
    t_packet (txs c' t) = fw_fill_request (t_packet (txs c t)) (r_tcode a) (of_nat l) (r_destination_id a)
      (tx_node_id c) (r_generation a) (r_speed a) (r_offset a) (r_payload a) (r_length a)"
proof -
  have "current_tlabel c < 64" using assms(1) by (simp add: tx_inv_def)
  then show ?thesis
  proof (cases rule: allocate_tlabel_cases)
    case full
    with assms show ?thesis by (auto simp: fw_send_request_def Let_def tx_emit_def)
  next
    case (label l)
    with assms(3) show ?thesis by (auto simp: fw_send_request_def Let_def tx_emit_def tx_upd_def)
  qed
qed

text \<open>C12.  The response that a node fills in for a request sent by \<open>fw_send_request\<close> answers exactly
  the transaction of that request: it comes from the destination of the request and carries its label,
  goes back to the sender, and holds the response code.\<close>

theorem response_answers_request:
  assumes "tx_run late_ok c m" "t \<notin> set (tx_list c)" "fw_send_request ct c t a = Some c'" "t \<in> set (tx_list c')"
    and "request_tcode (r_tcode a)" "unat (r_destination_id a) < 2 ^ 16"
    and p_def: "p = fw_fill_response resp (p_header (t_packet (txs c' t))) rcode pay n"
  shows "(\<forall>u \<in> set (tx_list c'). answers c' p u \<longleftrightarrow> u = t) \<and>
    async_header_get_destination (p_header p) = take_bit 16 (tx_node_id c) \<and>
    async_header_get_rcode (p_header p) = take_bit 4 rcode"
proof -
  have inv: "tx_inv c" using assms(1) by (rule tx_run_inv)
  obtain l where l: "l < 64" "t_tlabel (txs c' t) = l" "t_node_id (txs c' t) = r_destination_id a"
    "t_packet (txs c' t) = fw_fill_request (t_packet (txs c t)) (r_tcode a) (of_nat l) (r_destination_id a)
      (tx_node_id c) (r_generation a) (r_speed a) (r_offset a) (r_payload a) (r_length a)"
    using fw_send_request_listed [OF inv assms(2-4)] by auto
  have "take_bit 6 (of_nat l :: u32) = of_nat l" using l(1) by (intro take_bit_small) (simp add: unat_of_nat)
  then have "answers c' p t"
    using l assms(6) fw_fill_request_header [OF assms(5)]
    by (simp add: answers_def p_def fw_fill_response_header take_bit_small)
  moreover have "tx_inv c'" using send_keeps [OF inv assms(2), of ct a 0] assms(3) by auto
  ultimately have "\<forall>u \<in> set (tx_list c'). answers c' p u \<longleftrightarrow> u = t"
    using answers_unique assms(4) by metis
  then show ?thesis
    using l(4) fw_fill_request_header [OF assms(5)] by (simp add: p_def fw_fill_response_header)
qed

theorem response_answers_request_witness:
  "\<exists>c. fw_send_request 0 idle_tx_card 7 example_request = Some c \<and>
     answers c (fw_fill_response (t_packet idle_transaction) (p_header (t_packet (txs c 7))) RCODE_COMPLETE None 0) 7"
proof (rule example_sent)
  fix c assume c: "tx_exec 0 idle_tx_card (Send 7 example_request) = Some c" "tx_list c = [7]"
  have free: "7 \<notin> set (tx_list idle_tx_card)" by (simp add: idle_tx_card_def)
  have s: "fw_send_request 0 idle_tx_card 7 example_request = Some c" using c(1) free by simp
  have args: "request_tcode (r_tcode example_request)" "unat (r_destination_id example_request) < 2 ^ 16"
    by (simp_all add: example_request_def)
  show ?thesis
    using response_answers_request [OF tx_run.start [OF idle_tx_card_initial] free s _ args refl] c(2) s by auto
qed

section \<open>The life of a request object\<close>

definition needs_response :: "fw_request \<Rightarrow> bool" where
  "needs_response x \<longleftrightarrow> rq_ack x = ACK_PENDING \<and> \<not> header_destination_is_broadcast (rq_header x)"

lemma rq_simps [simp]:
  "rq_log (rq_upd c r f) = rq_log c" "length (requests (rq_upd c r f)) = length (requests c)"
  "rq_log (rq_emit c ev) = rq_log c @ [ev]" "requests (rq_emit c ev) = requests c"
  "r < length (requests c) \<Longrightarrow> requests (rq_upd c r f) ! r = f (requests c ! r)"
  "r \<noteq> u \<Longrightarrow> requests (rq_upd c r f) ! u = requests c ! u"
  by (simp_all add: rq_upd_def rq_emit_def)

text \<open>Sending a response either drops the request or puts exactly one response packet in flight.\<close>

lemma fw_send_response_effect:
  assumes "rq_live c r"
  shows "\<exists>c'. fw_send_response c r rcode = Some c' \<and> length (requests c') = length (requests c) \<and>
    (if needs_response (requests c ! r)
     then rq_kref (requests c' ! r) = rq_kref (requests c ! r) + 1 \<and>
          (\<exists>p. rq_log c' = rq_log c @ [Rq_send_response r p] \<and> rq_response (requests c' ! r) = p \<and>
             p = fw_fill_response (rq_response (requests c ! r)) (rq_header (requests c ! r)) rcode
               (if rcode = RCODE_COMPLETE then Some (rq_data (requests c ! r)) else None)
               (if rcode = RCODE_COMPLETE then fw_get_response_length (rq_header (requests c ! r)) else 0))
     else rq_kref (requests c' ! r) = rq_kref (requests c ! r) - 1 \<and> rq_log c' = rq_log c) \<and>
    (\<forall>u. u \<noteq> r \<longrightarrow> requests c' ! u = requests c ! u)"
  using assms
  by (auto simp: fw_send_response_def needs_response_def rq_live_def fw_request_put_def fw_request_get_def Let_def)

text \<open>A request is settled when it is freed, or in flight in a response packet whose transmission
  callback will free it.\<close>

definition settled :: "rq_card \<Rightarrow> nat \<Rightarrow> bool" where
  "settled c r \<longleftrightarrow> (if needs_response (requests c ! r)
     then rq_kref (requests c ! r) = 2 \<and> (\<exists>p. Rq_send_response r p \<in> set (rq_log c)) \<and>
          rq_kref (requests (free_response_callback c r) ! r) = 0
     else rq_kref (requests c ! r) = 0)"

lemma needs_response_kept:
  "fw_send_response c r rcode = Some c' \<Longrightarrow> needs_response (requests c' ! r) = needs_response (requests c ! r)"
  by (auto simp: fw_send_response_def needs_response_def rq_live_def fw_request_put_def fw_request_get_def
      Let_def split: if_splits)

lemma send_response_settles:
  assumes "r < length (requests c)" "rq_kref (requests c ! r) = 1"
  shows "\<exists>c'. fw_send_response c r rcode = Some c' \<and> settled c' r"
proof -
  have "rq_live c r" using assms by (simp add: rq_live_def)
  from fw_send_response_effect [OF this, of rcode] obtain c' where c': "fw_send_response c r rcode = Some c'"
    "length (requests c') = length (requests c)"
    "if needs_response (requests c ! r)
     then rq_kref (requests c' ! r) = 2 \<and> (\<exists>p. rq_log c' = rq_log c @ [Rq_send_response r p])
     else rq_kref (requests c' ! r) = 0"
    using assms(2) by (auto split: if_splits)
  then have "settled c' r"
    using needs_response_kept [OF c'(1)] assms(1)
    by (auto simp: settled_def free_response_callback_def fw_request_put_def) blast
  with c'(1) show ?thesis by blast
qed

text \<open>The registers that the hardware answers itself.\<close>

definition irm_register :: "u64 \<Rightarrow> bool" where
  "irm_register offset \<longleftrightarrow> ucast (offset AND NOT CSR_REGISTER_BASE) \<in>
     {CSR_BUS_MANAGER_ID, CSR_BANDWIDTH_AVAILABLE, CSR_CHANNELS_AVAILABLE_HI, CSR_CHANNELS_AVAILABLE_LO}"

text \<open>What a register access does before the response goes out: \<open>handle_registers\<close> as a function of the
  register.\<close>

lemma rq_store_simps [simp]:
  "length (requests (rq_store c r bs)) = length (requests c)"
  "r < length (requests c) \<Longrightarrow> rq_kref (requests (rq_store c r bs) ! r) = rq_kref (requests c ! r)"
  by (simp_all add: rq_store_def)

lemma update_split_timeout_simps [simp]:
  "requests (update_split_timeout u c) = requests c" "rq_log (update_split_timeout u c) = rq_log c"
  by (simp_all add: update_split_timeout_def Let_def)

lemma csr_access_None:
  "csr_access u2j read_csr c r tcode reg = None \<longleftrightarrow>
    reg \<in> {CSR_BUS_MANAGER_ID, CSR_BANDWIDTH_AVAILABLE, CSR_CHANNELS_AVAILABLE_HI, CSR_CHANNELS_AVAILABLE_LO}"
  by (simp add: csr_access_def Let_def)

lemma csr_access_request:
  assumes "csr_access u2j read_csr c r tcode reg = Some (c', rcode)" "r < length (requests c)"
  shows "length (requests c') = length (requests c)" "rq_kref (requests c' ! r) = rq_kref (requests c ! r)"
    "rq_handlers c' = rq_handlers c"
  using assms
  by (auto simp: csr_access_def csr_plain_access_def Let_def rq_emit_def rq_store_def rq_upd_def
      update_split_timeout_def split: if_splits)

lemma handle_registers_settles:
  assumes "r < length (requests c)" "rq_kref (requests c ! r) = 1" "\<not> irm_register offset"
  shows "\<exists>c'. handle_registers u2j read_csr c r tcode offset = Some c' \<and> settled c' r"
proof (cases "csr_access u2j read_csr c r tcode (ucast (offset AND NOT CSR_REGISTER_BASE))")
  case None
  then show ?thesis using assms(3) by (simp add: csr_access_None irm_register_def)
next
  case (Some res)
  obtain c1 rcode where res: "res = (c1, rcode)" by (cases res)
  from csr_access_request [OF Some [unfolded res] assms(1)] assms(1,2)
  show ?thesis using Some res by (simp add: handle_registers_def send_response_settles)
qed

lemma handle_topology_map_settles:
  assumes "r < length (requests c)" "rq_kref (requests c ! r) = 1"
  shows "\<exists>c'. handle_topology_map c r tcode offset len = Some c' \<and> settled c' r"
  using assms by (auto simp: handle_topology_map_def Let_def intro!: send_response_settles)

lemma core_callback_settles:
  assumes "r < length (requests c)" "rq_kref (requests c ! r) = 1"
    and "cb \<in> {Handle_topology_map, Handle_registers, Handle_low_memory}"
    "cb = Handle_registers \<longrightarrow> \<not> irm_register (i_offset i)"
  shows "\<exists>c'. run_address_callback e cb c r i = Some c' \<and> settled c' r"
  using assms handle_topology_map_settles handle_registers_settles send_response_settles
  by (auto simp: handle_low_memory_def)

text \<open>What the callbacks of other drivers promise: they answer the request, except that an access to the
  FCP registers is answered by the core.\<close>

definition other_callbacks_ok :: "rq_env \<Rightarrow> bool" where
  "other_callbacks_ok e \<longleftrightarrow> (\<forall>n c r i. r < length (requests c) \<and> rq_kref (requests c ! r) = 1 \<longrightarrow>
    (\<exists>c'. e_other e n c r i = Some c' \<and>
      (if is_in_fcp_region (i_offset i) (of_nat (i_length i))
       then r < length (requests c') \<and> requests c' ! r = requests c ! r
       else settled c' r)))"

text \<open>The handlers of the core are not registered over the FCP registers.\<close>

definition core_handlers_clear_of_fcp :: "fw_address_handler list \<Rightarrow> bool" where
  "core_handlers_clear_of_fcp hs \<longleftrightarrow> (\<forall>h \<in> set hs. \<forall>offset len. unat offset + unat len < 2 ^ 64 \<and>
     is_in_fcp_region offset len \<and> is_enclosing_handler h offset len \<longrightarrow> (\<exists>n. h_callback h = Handle_other n))"

lemma handler_upd_simps [simp]:
  "requests (handler_upd f c h) = requests c" "rq_log (handler_upd f c h) = rq_log c"
  by (simp_all add: handler_upd_def)

lemma settled_handler_upd [simp]: "settled (handler_upd f c h) r = settled c r"
  by (simp add: settled_def free_response_callback_def fw_request_put_def rq_upd_def)

lemma callback_settles:
  assumes "r < length (requests c)" "rq_kref (requests c ! r) = 1" "other_callbacks_ok e"
    and "\<not> is_in_fcp_region (i_offset i) (of_nat (i_length i))" "\<not> irm_register (i_offset i)"
  shows "\<exists>c'. run_address_callback e cb c r i = Some c' \<and> settled c' r"
proof (cases "\<exists>n. cb = Handle_other n")
  case True
  then obtain n where "cb = Handle_other n" ..
  then show ?thesis
    using assms(3) [unfolded other_callbacks_ok_def, THEN spec, THEN spec, THEN spec, THEN spec, of r c n i]
      assms(1,2,4) by simp
next
  case False
  then have "cb \<in> {Handle_topology_map, Handle_registers, Handle_low_memory}" by (cases cb) auto
  with assms show ?thesis by (intro core_callback_settles) auto
qed

lemma exclusive_settles:
  assumes "r < length (requests c)" "rq_kref (requests c ! r) = 1" "other_callbacks_ok e"
    and "\<not> is_in_fcp_region offset (of_nat (rq_length (requests c ! r)))" "\<not> irm_register offset"
  shows "\<exists>c'. handle_exclusive_region_request e c p r offset = Some c' \<and> settled c' r"
proof (cases "lookup_enclosing_address_handler (rq_handlers c) offset (of_nat (rq_length (requests c ! r)))")
  case None
  then show ?thesis using send_response_settles [OF assms(1,2)] by (simp add: handle_exclusive_region_request_def Let_def)
next
  case (Some h)
  let ?c = "handler_upd get_address_handler c h"
  have "\<exists>c'. run_address_callback e (h_callback h) ?c r i = Some c' \<and> settled c' r"
    if "i_offset i = offset" "i_length i = rq_length (requests c ! r)" for i
    using callback_settles [of r ?c e i] assms that by simp
  then show ?thesis using Some by (simp add: handle_exclusive_region_request_def Let_def) force
qed

lemma fcp_collect_subset: "set (fcp_collect k offset len hs n acc) \<subseteq> set acc \<union> {h \<in> set hs. is_enclosing_handler h offset len}"
  by (induction k offset len hs n acc rule: fcp_collect.induct) auto

lemma foldl_handler_upd [simp]: "requests (foldl (handler_upd f) c hs) = requests c"
  by (induction hs arbitrary: c) simp_all

lemma fcp_deliver_keeps:
  assumes "\<forall>h \<in> set hs. \<exists>n. h_callback h = Handle_other n" "other_callbacks_ok e"
    and "is_in_fcp_region (i_offset i) (of_nat (i_length i))" "r < length (requests c)" "rq_kref (requests c ! r) = 1"
  shows "\<exists>c'. fcp_deliver e hs c r i = Some c' \<and> r < length (requests c') \<and> requests c' ! r = requests c ! r"
  using assms(1,4,5)
proof (induction hs arbitrary: c)
  case (Cons h hs)
  then obtain n where n: "h_callback h = Handle_other n" by auto
  obtain c1 where c1: "e_other e n c r i = Some c1" "r < length (requests c1)" "requests c1 ! r = requests c ! r"
    using assms(2,3) Cons.prems(2,3) unfolding other_callbacks_ok_def by metis
  then show ?case
    using Cons.IH [of "handler_upd put_address_handler c1 h"] Cons.prems n by simp
qed simp

lemma fcp_settles:
  assumes "r < length (requests c)" "rq_kref (requests c ! r) = 1" "other_callbacks_ok e"
    and "is_in_fcp_region offset (of_nat (rq_length (requests c ! r)))" "core_handlers_clear_of_fcp (rq_handlers c)"
    and "unat offset + unat (of_nat (rq_length (requests c ! r)) :: u64) < 2 ^ 64"
  shows "\<exists>c'. handle_fcp_region_request e c p r offset = Some c' \<and> settled c' r"
proof -
  let ?len = "rq_length (requests c ! r)" and ?tcode = "async_header_get_tcode (p_header p)"
  let ?hs = "fcp_collect (e_krealloc e) offset (of_nat ?len) (rq_handlers c) 4 []"
  let ?c = "foldl (handler_upd get_address_handler) c ?hs"
  have other: "\<forall>h \<in> set ?hs. \<exists>n. h_callback h = Handle_other n"
    using fcp_collect_subset [of "e_krealloc e" offset "of_nat ?len" "rq_handlers c" 4 "[]"] assms(4-6)
    by (fastforce simp: core_handlers_clear_of_fcp_def)
  have deliver: "\<exists>c'. fcp_deliver e ?hs ?c r i = Some c' \<and> r < length (requests c') \<and> requests c' ! r = requests c ! r"
    if "i_offset i = offset" "i_length i = ?len" for i
    using fcp_deliver_keeps [OF other assms(3), of i r ?c] assms(1,2,4) that by simp
  obtain c1 where c1: "fcp_deliver e ?hs ?c r \<lparr>i_tcode = ?tcode, i_destination = async_header_get_destination (p_header p),
      i_source = async_header_get_source (p_header p), i_generation = p_generation p, i_offset = offset,
      i_length = ?len\<rparr> = Some c1" "r < length (requests c1)" "requests c1 ! r = requests c ! r"
    using deliver by force
  from send_response_settles [OF assms(1,2)] send_response_settles [OF c1(2), of RCODE_COMPLETE] c1 assms(2)
  show ?thesis by (auto simp: handle_fcp_region_request_def Let_def)
qed

lemma allocate_request_fresh:
  assumes "allocate_request kmalloc c p = Some (r, c')"
  shows "r = length (requests c) \<and> r < length (requests c') \<and> rq_kref (requests c' ! r) = 1 \<and>
    rq_handlers c' = rq_handlers c \<and> rq_length (requests c' ! r) < 2 ^ 16 \<and> rq_header (requests c' ! r) = p_header p \<and>
    rq_ack (requests c' ! r) = p_ack p"
proof -
  have "unat (async_header_get_data_length (p_header p)) < 2 ^ 16"
    using ah_data_length.get_less [of "p_header p"] by simp
  then show ?thesis
    using assms by (auto simp: allocate_request_def Let_def split: if_splits option.splits)
qed


definition example_env :: rq_env where
  "example_env = \<lparr>e_kmalloc = (\<lambda>n. Some (replicate n 0)), e_krealloc = (\<lambda>_. True), e_usecs_to_jiffies = (\<lambda>us. us div 4000),
     e_read_csr = (\<lambda>_. 0),
     e_other = (\<lambda>n c r i. if is_in_fcp_region (i_offset i) (of_nat (i_length i)) then Some c
                 else fw_send_response c r RCODE_COMPLETE)\<rparr>"

definition example_rq_card :: rq_card where
  "example_rq_card = \<lparr>rq_handlers = [registers_handler\<lparr>h_offset := 0xfffff0000000, h_kref := 1\<rparr>], requests = [],
     split_hi = 0, split_lo = 0, split_timeout_cycles = 800, split_timeout_jiffies = 25,
     priority_budget_implemented = False, maint_utility_register = [0, 0, 0, 0], broadcast_channel = 0x8000001f,
     rq_topology_map = replicate 256 0, rq_log = []\<rparr>"

text \<open>A quadlet read request to the \<open>NODE_IDS\<close> register.\<close>

definition example_request_packet :: fw_packet where
  "example_request_packet = (t_packet idle_transaction)\<lparr>p_ack := ACK_PENDING,
     p_header := \<lparr>q0 = 0xffc00140, q1 = 0xffc1ffff, q2 = 0xf0000008, q3 = 0\<rparr>\<rparr>"

lemma example_env_ok: "other_callbacks_ok example_env"
  by (auto simp: other_callbacks_ok_def example_env_def intro!: send_response_settles)

lemma registers_clear_of_fcp:
  "core_handlers_clear_of_fcp [registers_handler\<lparr>h_offset := 0xfffff0000000, h_kref := 1\<rparr>]"
  by (auto simp: core_handlers_clear_of_fcp_def registers_handler_def is_in_fcp_region_def is_enclosing_handler_def
      word_le_nat_alt unat_plus_small)


section \<open>CSR registers\<close>

text \<open>The split timeout as the registers define it: whole seconds above, cycles in the upper thirteen
  bits of the low register, at least 100 ms and at most three seconds; and the form of the broadcast
  channel register.\<close>

definition csr_state_ok :: "rq_card \<Rightarrow> bool" where
  "csr_state_ok c \<longleftrightarrow> unat (split_hi c) < 8 \<and>
    unat (split_timeout_cycles c) = min 24000 (max 800 (unat (split_hi c) * 8000 + unat (split_lo c) div 2 ^ 19)) \<and>
    broadcast_channel c OR BROADCAST_CHANNEL_VALID = BROADCAST_CHANNEL_INITIAL OR BROADCAST_CHANNEL_VALID \<and>
    length (maint_utility_register c) = 4"

lemma update_split_timeout_cycles:
  assumes "unat (split_hi c) < 8"
  shows "unat (split_timeout_cycles (update_split_timeout u c)) =
    min 24000 (max 800 (unat (split_hi c) * 8000 + unat (split_lo c) div 2 ^ 19))"
proof -
  have lo: "unat (drop_bit 19 (split_lo c)) = unat (split_lo c) div 2 ^ 19"
    by (simp add: drop_bit_eq_div unat_div)
  have "unat (split_lo c) < 2 ^ LENGTH(32)" by (rule unsigned_less)
  then have small: "unat (split_lo c) div 2 ^ 19 < 2 ^ 13" by (intro less_mult_imp_div_less) simp
  have hi: "unat (split_hi c * 8000) = unat (split_hi c) * 8000"
    using assms by (simp add: unat_word_ariths)
  have sum: "unat (split_hi c * 8000 + drop_bit 19 (split_lo c)) =
      unat (split_hi c) * 8000 + unat (split_lo c) div 2 ^ 19"
    using assms small hi lo by (simp add: unat_word_ariths)
  then show ?thesis
    by (auto simp: update_split_timeout_def Let_def word_less_nat_alt min_def max_def)
qed

lemma length_be32_bytes [simp]: "length (be32_bytes v) = 4"
  by (simp add: be32_bytes_def)

lemma be32_load_bytes [simp]: "be32_load (be32_bytes v @ rest) = v"
proof (rule bit_word_eqI)
  fix n assume "n < LENGTH(32)"
  then consider "n < 8" | "8 \<le> n" "n < 16" | "16 \<le> n" "n < 24" | "24 \<le> n" "n < 32" by fastforce
  then show "bit (be32_load (be32_bytes v @ rest)) n = bit v n"
    by cases (auto simp: be32_load_def be32_bytes_def bit_simps)
qed

lemma fw_send_response_csr:
  "fw_send_response c r rcode = Some c' \<Longrightarrow> csr_state_ok c' = csr_state_ok c"
  by (auto simp: fw_send_response_def csr_state_ok_def fw_request_put_def fw_request_get_def rq_upd_def rq_emit_def
      Let_def split: if_splits)

lemma or_and_absorb: "(((v :: u32) AND a) OR b) OR a = b OR a"
  by (rule bit_word_eqI) (auto simp: bit_simps)

lemma broadcast_channel_form:
  "(((v :: u32) AND BROADCAST_CHANNEL_VALID) OR BROADCAST_CHANNEL_INITIAL) OR BROADCAST_CHANNEL_VALID =
    BROADCAST_CHANNEL_INITIAL OR BROADCAST_CHANNEL_VALID"
  by (rule or_and_absorb)

lemma and_7_less: "unat ((v :: u32) AND 7) < 8"
proof -
  have "v AND 7 = take_bit 3 v" by (simp add: take_bit_eq_mask mask_eq_exp_minus_1)
  then show ?thesis by (simp add: unsigned_take_bit_eq take_bit_nat_less_exp [of 3, simplified])
qed

lemma csr_access_state:
  assumes "csr_state_ok c" "csr_access u2j read_csr c r tcode reg = Some (c', rcode)" "4 \<le> length (rq_data (requests c ! r))"
  shows "csr_state_ok c'"
proof -
  have hi: "csr_state_ok (update_split_timeout u2j (c\<lparr>split_hi := v AND 7\<rparr>))" for v
    using assms(1) update_split_timeout_cycles [of "c\<lparr>split_hi := v AND 7\<rparr>" u2j] and_7_less [of v]
    by (simp add: csr_state_ok_def) (simp add: update_split_timeout_def Let_def)
  have lo: "csr_state_ok (update_split_timeout u2j (c\<lparr>split_lo := v\<rparr>))" for v
    using assms(1) update_split_timeout_cycles [of "c\<lparr>split_lo := v\<rparr>" u2j]
    by (simp add: csr_state_ok_def) (simp add: update_split_timeout_def Let_def)
  have bc: "csr_state_ok (c\<lparr>broadcast_channel := (v AND BROADCAST_CHANNEL_VALID) OR BROADCAST_CHANNEL_INITIAL\<rparr>)" for v
    using assms(1) broadcast_channel_form [of v] by (simp add: csr_state_ok_def)
  have mu: "csr_state_ok (c\<lparr>maint_utility_register := take 4 (rq_data (requests c ! r))\<rparr>)"
    using assms(1,3) by (simp add: csr_state_ok_def)
  have st: "csr_state_ok (rq_store c r bs)" "csr_state_ok (rq_emit c ev)" for bs ev
    using assms(1) by (simp_all add: csr_state_ok_def rq_store_def rq_upd_def rq_emit_def)
  show ?thesis
    using assms(1,2) hi lo bc mu st
    by (auto simp: csr_access_def csr_plain_access_def Let_def split: if_splits)
qed

text \<open>Whatever is written to the registers, the split timeout stays between 800 and 24000 cycles and
  equal to what the two registers say within these bounds, and the broadcast channel register keeps
  its implemented bit and channel 31.\<close>

lemma handle_registers_keeps_state:
  assumes "csr_state_ok c" "handle_registers u2j read_csr c r tcode offset = Some c'"
    "4 \<le> length (rq_data (requests c ! r))"
  shows "csr_state_ok c'"
  using assms csr_access_state fw_send_response_csr
  by (fastforce simp: handle_registers_def split: option.splits)

definition example_write :: "bytes \<Rightarrow> fw_request" where
  "example_write bs = \<lparr>rq_kref = 1, rq_response = t_packet idle_transaction, rq_header = p_header example_request_packet,
     rq_ack = ACK_COMPLETE, rq_timestamp = 0, rq_length = 4, rq_data = bs\<rparr>"

text \<open>A quadlet written to a register is what a later read returns, up to the bits that the register
  does not have.\<close>

lemma csr_write_read:
  assumes "rq_data (requests c ! r) = be32_bytes v @ rest" "r' < length (requests c)"
    "(reg, stored) \<in> {(CSR_MAINT_UTILITY, v), (CSR_SPLIT_TIMEOUT_HI, v AND 7), (CSR_SPLIT_TIMEOUT_LO, v AND 0xfff80000),
      (CSR_BROADCAST_CHANNEL, (v AND BROADCAST_CHANNEL_VALID) OR BROADCAST_CHANNEL_INITIAL)}"
  shows "\<exists>c1 c2. csr_access u2j read_csr c r TCODE_WRITE_QUADLET_REQUEST reg = Some (c1, RCODE_COMPLETE) \<and>
    csr_access u2j read_csr c1 r' TCODE_READ_QUADLET_REQUEST reg = Some (c2, RCODE_COMPLETE) \<and>
    take 4 (rq_data (requests c2 ! r')) = be32_bytes stored"
  using assms
  by (auto simp: csr_access_def Let_def rq_store_def update_split_timeout_def)

section \<open>The topology map\<close>

lemma and_3_mod: "unat ((x :: u64) AND 3) = unat x mod 4"
proof -
  have "x AND 3 = take_bit 2 x" by (simp add: take_bit_eq_mask mask_eq_exp_minus_1)
  then show ?thesis by (simp add: take_bit_eq_mod unat_mod)
qed

lemma take_bytes: "take (4 * k) (concat (map be32_bytes qs)) = concat (map be32_bytes (take k qs))"
proof (induction qs arbitrary: k)
  case (Cons q qs)
  then show ?case by (cases k) auto
qed simp

text \<open>An aligned read inside the topology map region returns exactly the quadlets of the map at that
  place; nothing beyond the map is read.\<close>

lemma handle_topology_map_reads:
  assumes "tcode_is_read_request tcode" "k + m \<le> 256" "length (rq_topology_map c) = 256"
  shows "handle_topology_map c r tcode (region_start topology_map_region + of_nat (4 * k)) (4 * m) =
      fw_send_response (rq_store c r (concat (map be32_bytes (take m (drop k (rq_topology_map c)))))) r RCODE_COMPLETE \<and>
    length (concat (map be32_bytes (take m (drop k (rq_topology_map c))))) = 4 * m"
proof -
  let ?base = "0xfffff0001000 :: u64"
  have base: "region_start topology_map_region = ?base" by (simp add: topology_map_region_def)
  have k: "unat (of_nat (4 * k) :: u64) = 4 * k" unfolding unat_of_nat using assms(2) by simp
  have sum: "unat (?base + of_nat (4 * k)) = 0xfffff0001000 + 4 * k"
    using assms(2) k by (subst unat_plus_small) simp_all
  have "unat ((?base + of_nat (4 * k)) AND 3) = unat (?base + of_nat (4 * k)) mod 4"
    by (simp add: and_3_mod)
  also have "\<dots> = 0" unfolding sum by simp
  finally have al: "(?base + of_nat (4 * k)) AND 3 = 0" by (simp add: unat_eq_0)
  have "unat (of_nat (4 * k) div 4 :: u64) = k" unfolding unat_div k by simp
  then have start: "unat ((?base + of_nat (4 * k) - ?base) div 4) = k" by simp
  have len: "length (concat (map be32_bytes qs)) = 4 * length qs" for qs by (induction qs) simp_all
  show ?thesis
    using assms al start by (simp add: handle_topology_map_def base take_bytes len)
qed

section \<open>Dispatch\<close>

text \<open>In a well-formed registry a request outside the FCP registers is given to the one handler
  whose range encloses it, or answered with an address error when there is none.\<close>

lemma exclusive_request_dispatch:
  assumes "registry_ok (rq_handlers c)" "request_range_ok offset (of_nat (rq_length (requests c ! r)))"
    "\<not> is_in_fcp_region offset (of_nat (rq_length (requests c ! r)))"
  shows "(\<forall>h \<in> set (rq_handlers c). is_enclosing_handler h offset (of_nat (rq_length (requests c ! r))) \<longrightarrow>
      handle_exclusive_region_request e c p r offset =
        map_option (\<lambda>c. handler_upd put_address_handler c h)
          (run_address_callback e (h_callback h) (handler_upd get_address_handler c h) r
            \<lparr>i_tcode = (if async_header_get_tcode (p_header p) = TCODE_LOCK_REQUEST
                        then 0x10 + async_header_get_extended_tcode (p_header p) else async_header_get_tcode (p_header p)),
             i_destination = async_header_get_destination (p_header p),
             i_source = async_header_get_source (p_header p), i_generation = p_generation p,
             i_offset = offset, i_length = rq_length (requests c ! r)\<rparr>)) \<and>
    ((\<forall>h \<in> set (rq_handlers c). \<not> is_enclosing_handler h offset (of_nat (rq_length (requests c ! r)))) \<longrightarrow>
      handle_exclusive_region_request e c p r offset = fw_send_response c r RCODE_ADDRESS_ERROR)"
proof -
  let ?look = "lookup_enclosing_address_handler (rq_handlers c) offset (of_nat (rq_length (requests c ! r)))"
  have found: "?look = Some h" if "h \<in> set (rq_handlers c)"
    "is_enclosing_handler h offset (of_nat (rq_length (requests c ! r)))" for h
    using handlers.lookup_iff [OF assms] that by blast
  have none: "?look = None"
    if "\<forall>h \<in> set (rq_handlers c). \<not> is_enclosing_handler h offset (of_nat (rq_length (requests c ! r)))"
    using handlers.lookup_sound that by (cases ?look) blast+
  show ?thesis
    using found none by (auto simp: handle_exclusive_region_request_def Let_def)
qed

text \<open>A write to an FCP register reaches the handlers that enclose it in the order of their
  registration: all of them if there is memory, and never fewer than four because of a lack of it.\<close>

lemma fcp_collect_correct:
  "\<exists>k. fcp_collect krealloc offset len hs 4 [] = take k (filter (\<lambda>h. is_enclosing_handler h offset len) hs) \<and>
    4 \<le> k \<and> ((\<forall>n. krealloc n) \<longrightarrow> length (filter (\<lambda>h. is_enclosing_handler h offset len) hs) \<le> k)"
proof -
  have "\<exists>k. fcp_collect krealloc offset len hs n acc =
      acc @ take k (filter (\<lambda>h. is_enclosing_handler h offset len) hs) \<and> n \<le> length acc + k \<and>
      ((\<forall>n. krealloc n) \<longrightarrow> length (filter (\<lambda>h. is_enclosing_handler h offset len) hs) \<le> k)" for n acc
  proof (induction krealloc offset len hs n acc rule: fcp_collect.induct)
    case (1 k offset len n acc)
    show ?case by (rule exI [of _ n]) simp
  next
    case (2 krealloc offset len h hs n acc)
    show ?case
    proof (cases "is_enclosing_handler h offset len")
      case False
      with 2 show ?thesis by simp
    next
      case enc: True
      show ?thesis
      proof (cases "n \<le> length acc \<and> \<not> krealloc (n * 2)")
        case True
        with enc show ?thesis by (intro exI [of _ 0]) auto
      next
        case False
        define m where "m = (if n \<le> length acc then n * 2 else n)"
        have step: "fcp_collect krealloc offset len (h # hs) n acc = fcp_collect krealloc offset len hs m (acc @ [h])"
          using False enc by (simp add: m_def)
        obtain k where "fcp_collect krealloc offset len hs m (acc @ [h]) =
            (acc @ [h]) @ take k (filter (\<lambda>h. is_enclosing_handler h offset len) hs)" "m \<le> length (acc @ [h]) + k"
          "(\<forall>n. krealloc n) \<longrightarrow> length (filter (\<lambda>h. is_enclosing_handler h offset len) hs) \<le> k"
          using "2.IH"(1,2) [OF enc] False unfolding m_def by (cases "n \<le> length acc") auto
        moreover have "n \<le> m" by (simp add: m_def)
        ultimately show ?thesis
          using enc step by (intro exI [of _ "Suc k"]) simp
      qed
    qed
  qed
  from this [of 4 "[]"] show ?thesis by simp
qed

section \<open>Time stamps\<close>

lemma low_13_bits: "unat ((x :: u32) AND 0x1fff) = unat x mod 8192"
proof -
  have "x AND 0x1fff = take_bit 13 x" by (simp add: take_bit_eq_mask mask_eq_exp_minus_1)
  then show ?thesis by (simp add: take_bit_eq_mod unat_mod)
qed

lemma high_19_bits: "(x :: u32) AND NOT 0x1fff = push_bit 13 (drop_bit 13 x)"
proof -
  have "x AND NOT (mask 13) = push_bit 13 (drop_bit 13 x)"
    by (rule bit_word_eqI) (auto simp: bit_simps)
  then show ?thesis by (simp add: mask_eq_exp_minus_1)
qed

lemma unat_high_low:
  assumes "unat hi < 2 ^ 19" "unat lo < 2 ^ 13"
  shows "unat (push_bit 13 (hi :: u32) OR lo) = unat hi * 8192 + unat lo"
proof -
  have lo: "take_bit 13 lo = lo" using assms(2) by (rule take_bit_small)
  have "push_bit 13 hi AND lo = 0"
    by (subst lo [symmetric], rule bit_word_eqI) (auto simp: bit_simps)
  then have "push_bit 13 hi OR lo = push_bit 13 hi + lo" by (simp add: disjunctive_add_eq_or)
  moreover have "unat (push_bit 13 hi) = unat hi * 8192"
    using assms(1) by (simp add: push_bit_eq_mult unat_word_ariths)
  ultimately show ?thesis using assms by (simp add: unat_word_ariths)
qed

text \<open>The time stamp at which a split transaction times out is the time stamp of the request, seconds
  above and 8000 cycles per second below, advanced by the split timeout with the carry into the
  seconds.\<close>

lemma split_timeout_timestamp_correct:
  assumes "unat cycles \<le> 24000" "unat ts < 2 ^ 31"
  shows "unat (compute_split_timeout_timestamp cycles ts) =
    8192 * (unat ts div 8192 + (unat ts mod 8192 + unat cycles) div 8000) + (unat ts mod 8192 + unat cycles) mod 8000"
proof -
  let ?c = "cycles + (ts AND 0x1fff)"
  have c: "unat ?c = unat ts mod 8192 + unat cycles"
    using assms(1) by (simp add: unat_word_ariths low_13_bits)
  have d: "unat (drop_bit 13 ts) = unat ts div 8192" by (simp add: drop_bit_eq_div unat_div)
  have q: "unat (?c div 8000) = (unat ts mod 8192 + unat cycles) div 8000"
    and r: "unat (?c mod 8000) = (unat ts mod 8192 + unat cycles) mod 8000"
    using c by (simp_all add: unat_div unat_mod)
  have hi: "unat (drop_bit 13 ts + ?c div 8000) = unat ts div 8192 + (unat ts mod 8192 + unat cycles) div 8000"
    using assms d q by (simp add: unat_word_ariths)
  have "unat ts div 8192 + (unat ts mod 8192 + unat cycles) div 8000 < 2 ^ 19" using assms by simp
  moreover have "(unat ts mod 8192 + unat cycles) mod 8000 < 2 ^ 13"
    by (rule less_trans [OF mod_less_divisor]) simp_all
  ultimately show ?thesis
    unfolding compute_split_timeout_timestamp_def Let_def high_19_bits push_bit_add [symmetric]
    using unat_high_low [of "drop_bit 13 ts + ?c div 8000" "?c mod 8000"] hi r by simp
qed

end
