(* ===== verification/Iso_Resource.thy ===== *)
theory Iso_Resource
  imports Packet_Header
begin

text \<open>
  Isochronous resources, after \<^verbatim>\<open>drivers/firewire/core-iso.c\<close>: allocation of channels and bandwidth by
  compare-and-swap transactions with the isochronous resource manager (IRM), and the page buffers of
  isochronous contexts.  The IRM, other nodes that change its registers and the bus are one
  parameter: what a lock transaction answers, given all lock transactions so far.
\<close>

section \<open>Lock transactions with the IRM\<close>

abbreviation (input) IRM_BANDWIDTH_AVAILABLE :: u64 where "IRM_BANDWIDTH_AVAILABLE \<equiv> 0xfffff0000220"
abbreviation (input) IRM_CHANNELS_AVAILABLE_HI :: u64 where "IRM_CHANNELS_AVAILABLE_HI \<equiv> 0xfffff0000224"
abbreviation (input) IRM_CHANNELS_AVAILABLE_LO :: u64 where "IRM_CHANNELS_AVAILABLE_LO \<equiv> 0xfffff0000228"
abbreviation (input) BANDWIDTH_AVAILABLE_INITIAL :: int where "BANDWIDTH_AVAILABLE_INITIAL \<equiv> 4915"

text \<open>A compare-and-swap: the register, the expected value, the new value, the response code and the
  value that the response carries.  Values are in host byte order.\<close>

record lock_entry =
  l_offset :: u64
  l_old :: u32
  l_new :: u32
  l_rcode :: u32
  l_data :: u32

type_synonym lock_log = "lock_entry list"
type_synonym irm = "lock_log \<Rightarrow> u64 \<Rightarrow> u32 \<Rightarrow> u32 \<Rightarrow> u32 \<times> u32"

definition run_lock :: "irm \<Rightarrow> lock_log \<Rightarrow> u64 \<Rightarrow> u32 \<Rightarrow> u32 \<Rightarrow> u32 \<times> u32 \<times> lock_log" where
  "run_lock irm h offset old new =
    (let (rcode, dat) = irm h offset old new
     in (rcode, dat, h @ [\<lparr>l_offset = offset, l_old = old, l_new = new, l_rcode = rcode, l_data = dat\<rparr>]))"

text \<open>The swap took place.\<close>

definition swapped :: "lock_entry \<Rightarrow> bool" where
  "swapped e \<longleftrightarrow> l_rcode e = RCODE_COMPLETE \<and> l_data e = l_old e"

section \<open>Bandwidth\<close>

fun manage_bandwidth_loop :: "nat \<Rightarrow> irm \<Rightarrow> lock_log \<Rightarrow> int \<Rightarrow> bool \<Rightarrow> int \<Rightarrow> (errno + int) \<times> lock_log" where
  "manage_bandwidth_loop 0 irm h bandwidth allocate old = (Inl EIO, h)"
| "manage_bandwidth_loop (Suc tries) irm h bandwidth allocate old =
    (let new = (if allocate then old - bandwidth else old + bandwidth) in
     if new < 0 \<or> new > BANDWIDTH_AVAILABLE_INITIAL then (Inl EBUSY, h)
     else
       let (rcode, dat, h) = run_lock irm h IRM_BANDWIDTH_AVAILABLE (of_int old) (of_int new) in
       if rcode = RCODE_GENERATION then (if allocate then Inl EAGAIN else Inr bandwidth, h)
       else if rcode = RCODE_COMPLETE then
         if sint dat = old then (Inr bandwidth, h)
         else manage_bandwidth_loop tries irm h bandwidth allocate (sint dat)
       else manage_bandwidth_loop tries irm h bandwidth allocate old)"

definition manage_bandwidth :: "irm \<Rightarrow> lock_log \<Rightarrow> int \<Rightarrow> bool \<Rightarrow> (errno + int) \<times> lock_log" where
  "manage_bandwidth irm h bandwidth allocate =
    manage_bandwidth_loop 5 irm h bandwidth allocate (if allocate then BANDWIDTH_AVAILABLE_INITIAL else 0)"

section \<open>Channels\<close>

text \<open>The loop over the channels with what it carries: the value last seen, the remaining retries and
  the result so far.\<close>

function manage_channel_loop ::
  "irm \<Rightarrow> lock_log \<Rightarrow> u32 \<Rightarrow> u64 \<Rightarrow> bool \<Rightarrow> nat \<Rightarrow> u32 \<Rightarrow> nat \<Rightarrow> errno \<Rightarrow> (errno + nat) \<times> lock_log" where
  "manage_channel_loop irm h channels_mask offset allocate channel old retry ret =
    (if channel \<ge> 32 then (Inl ret, h)
     else if \<not> bit channels_mask channel then
       manage_channel_loop irm h channels_mask offset allocate (channel + 1) old retry ret
     else
       let all = (if allocate then NOT 0 else 0) :: u32;
           b = push_bit (31 - channel) 1 :: u32 in
       if old AND b \<noteq> all AND b then
         manage_channel_loop irm h channels_mask offset allocate (channel + 1) old retry EBUSY
       else
         let (rcode, dat, h) = run_lock irm h offset old (old XOR b) in
         if rcode = RCODE_GENERATION then (if allocate then Inl EAGAIN else Inr channel, h)
         else if rcode = RCODE_COMPLETE \<and> dat = old then (Inr channel, h)
         else if rcode = RCODE_COMPLETE \<and> dat AND b = (old XOR b) AND b then
           manage_channel_loop irm h channels_mask offset allocate (channel + 1) dat retry EBUSY
         else
           let old = (if rcode = RCODE_COMPLETE then dat else old) in
           if retry > 0 then manage_channel_loop irm h channels_mask offset allocate channel old (retry - 1) EBUSY
           else manage_channel_loop irm h channels_mask offset allocate (channel + 1) old retry EIO)"
  by pat_completeness auto
termination
  by (relation "measures [\<lambda>(irm, h, m, offset, a, channel, old, retry, ret). retry,
      \<lambda>(irm, h, m, offset, a, channel, old, retry, ret). 32 - channel]") auto

declare manage_channel_loop.simps [simp del]

definition manage_channel :: "irm \<Rightarrow> lock_log \<Rightarrow> u32 \<Rightarrow> u64 \<Rightarrow> bool \<Rightarrow> (errno + nat) \<times> lock_log" where
  "manage_channel irm h channels_mask offset allocate =
    manage_channel_loop irm h channels_mask offset allocate 0 (if allocate then NOT 0 else 0) 5 EIO"

definition deallocate_channel :: "irm \<Rightarrow> lock_log \<Rightarrow> nat \<Rightarrow> lock_log" where
  "deallocate_channel irm h channel =
    (let m = (if channel < 32 then push_bit channel 1 else push_bit (channel - 32) 1) :: u32;
         offset = (if channel < 32 then IRM_CHANNELS_AVAILABLE_HI else IRM_CHANNELS_AVAILABLE_LO)
     in snd (manage_channel irm h m offset False))"

text \<open>The channels 0 to 31 are tried first, then, without success, the channels 32 to 63.\<close>

definition manage_any_channel :: "irm \<Rightarrow> lock_log \<Rightarrow> u64 \<Rightarrow> bool \<Rightarrow> (errno + nat) \<times> lock_log" where
  "manage_any_channel irm h channels_mask allocate =
    (let channels_hi = ucast channels_mask :: u32;
         channels_lo = ucast (drop_bit 32 channels_mask) :: u32;
         (c, h) = (if channels_hi \<noteq> 0 then manage_channel irm h channels_hi IRM_CHANNELS_AVAILABLE_HI allocate
                   else (Inl EINVAL, h))
     in if channels_lo \<noteq> 0 \<and> isl c then
          let (c, h) = manage_channel irm h channels_lo IRM_CHANNELS_AVAILABLE_LO allocate
          in (map_sum id (\<lambda>c. c + 32) c, h)
        else (c, h))"

text \<open>The results are what the function stores through its two pointers, and the log.\<close>

definition fw_iso_resource_manage ::
  "irm \<Rightarrow> lock_log \<Rightarrow> u64 \<Rightarrow> int \<Rightarrow> bool \<Rightarrow> (errno + nat) \<times> int \<times> lock_log" where
  "fw_iso_resource_manage irm h channels_mask bandwidth allocate =
    (let (c, h) = manage_any_channel irm h channels_mask allocate;
         bandwidth = (if allocate \<and> channels_mask \<noteq> 0 \<and> isl c then 0 else bandwidth) in
     if bandwidth = 0 then (c, bandwidth, h)
     else
       (case manage_bandwidth irm h bandwidth allocate of
          (Inr _, h) \<Rightarrow> (c, bandwidth, h)
        | (Inl err, h) \<Rightarrow>
            if allocate then
              (Inl err, 0, case c of Inr ch \<Rightarrow> deallocate_channel irm h ch | Inl _ \<Rightarrow> h)
            else (c, 0, h)))"

section \<open>Buffers\<close>

abbreviation (input) PAGE_SIZE :: int where "PAGE_SIZE \<equiv> 4096"

datatype dma_data_direction = DMA_BIDIRECTIONAL | DMA_TO_DEVICE | DMA_FROM_DEVICE

text \<open>The packet that is queued to an isochronous context, with its header in quadlets.\<close>

record fw_iso_packet =
  payload_length :: nat
  pk_interrupt :: bool
  pk_skip :: bool
  pk_tag :: nat
  pk_sy :: nat
  header_length :: nat
  pk_header :: "u32 list"

text \<open>\<open>None\<close> is a null array.  A page is known by its number.\<close>

record fw_iso_buffer =
  direction :: dma_data_direction
  pages :: "nat list option"
  dma_addrs :: "u64 list option"
  page_count :: nat

text \<open>The calls to the page allocator and the DMA layer.\<close>

datatype dma_event = Map_page nat dma_data_direction u64 | Unmap_page u64 dma_data_direction
  | Release_pages "nat list"

text \<open>\<open>arr\<close> says whether the array can be allocated, \<open>bulk\<close> which pages the allocator delivers.\<close>

definition fw_iso_buffer_alloc ::
  "bool \<Rightarrow> (nat \<Rightarrow> nat list) \<Rightarrow> fw_iso_buffer \<Rightarrow> nat \<Rightarrow> errno option \<times> fw_iso_buffer \<times> dma_event list" where
  "fw_iso_buffer_alloc arr bulk buffer count =
    (if \<not> arr then (Some ENOMEM, buffer, [])
     else
       let ps = bulk count in
       if length ps \<noteq> count then (Some ENOMEM, buffer, [Release_pages ps])
       else (None, buffer\<lparr>page_count := count, pages := Some ps\<rparr>, []))"

text \<open>The mapping loop: the addresses so far and the events.\<close>

fun map_pages :: "(nat \<Rightarrow> u64 option) \<Rightarrow> dma_data_direction \<Rightarrow> nat list \<Rightarrow> bool \<times> u64 list" where
  "map_pages dma_map dir [] = (True, [])"
| "map_pages dma_map dir (p # ps) =
    (case dma_map p of
       None \<Rightarrow> (False, [])
     | Some a \<Rightarrow> let (ok, as) = map_pages dma_map dir ps in (ok, a # as))"

definition fw_iso_buffer_map_dma ::
  "bool \<Rightarrow> (nat \<Rightarrow> u64 option) \<Rightarrow> fw_iso_buffer \<Rightarrow> dma_data_direction \<Rightarrow>
    errno option \<times> fw_iso_buffer \<times> dma_event list" where
  "fw_iso_buffer_map_dma arr dma_map buffer dir =
    (if \<not> arr then (Some ENOMEM, buffer, [])
     else
       let ps = take (page_count buffer) (the (pages buffer));
           (ok, as) = map_pages dma_map dir ps;
           maps = map (\<lambda>(p, a). Map_page p dir a) (zip ps as) in
       if \<not> ok then (Some ENOMEM, buffer, maps @ map (\<lambda>a. Unmap_page a (direction buffer)) (rev as))
       else (None, buffer\<lparr>direction := dir, dma_addrs := Some as\<rparr>, maps))"

definition fw_iso_buffer_destroy :: "fw_iso_buffer \<Rightarrow> fw_iso_buffer \<times> dma_event list" where
  "fw_iso_buffer_destroy buffer =
    (let unmaps = (case dma_addrs buffer of
                     None \<Rightarrow> []
                   | Some as \<Rightarrow> map (\<lambda>i. Unmap_page (as ! i) (direction buffer)) [0..<page_count buffer]);
         rel = (case pages buffer of
                  None \<Rightarrow> []
                | Some ps \<Rightarrow> [Release_pages (take (page_count buffer) ps)])
     in (buffer\<lparr>dma_addrs := None, pages := None, page_count := 0\<rparr>, unmaps @ rel))"

definition fw_iso_buffer_init ::
  "bool \<Rightarrow> (nat \<Rightarrow> nat list) \<Rightarrow> bool \<Rightarrow> (nat \<Rightarrow> u64 option) \<Rightarrow> fw_iso_buffer \<Rightarrow> nat \<Rightarrow> dma_data_direction \<Rightarrow>
    errno option \<times> fw_iso_buffer \<times> dma_event list" where
  "fw_iso_buffer_init arr bulk arr2 dma_map buffer count dir =
    (case fw_iso_buffer_alloc arr bulk buffer count of
       (Some err, buffer, ev) \<Rightarrow> (Some err, buffer, ev)
     | (None, buffer, ev) \<Rightarrow>
         (case fw_iso_buffer_map_dma arr2 dma_map buffer dir of
            (None, buffer, ev2) \<Rightarrow> (None, buffer, ev @ ev2)
          | (Some err, buffer, ev2) \<Rightarrow>
              let (buffer, ev3) = fw_iso_buffer_destroy buffer in (Some err, buffer, ev @ ev2 @ ev3)))"

text \<open>The DMA addresses are compared as signed 64-bit numbers.\<close>

fun buffer_lookup_from :: "u64 list \<Rightarrow> u64 \<Rightarrow> nat \<Rightarrow> nat" where
  "buffer_lookup_from [] completed i = 0"
| "buffer_lookup_from (dma_addr # as) completed i =
    (let offset = sint (completed - dma_addr) in
     if offset > 0 \<and> offset \<le> PAGE_SIZE then i * 4096 + nat offset
     else buffer_lookup_from as completed (i + 1))"

definition fw_iso_buffer_lookup :: "fw_iso_buffer \<Rightarrow> u64 \<Rightarrow> nat" where
  "fw_iso_buffer_lookup buffer completed =
    buffer_lookup_from (take (page_count buffer) (the (dma_addrs buffer))) completed 0"

section \<open>What the loops do\<close>

text \<open>The lock transactions a call adds to the log.\<close>

definition added :: "lock_log \<Rightarrow> lock_log \<Rightarrow> lock_log" where
  "added h h' = drop (length h) h'"

definition extends :: "lock_log \<Rightarrow> lock_log \<Rightarrow> bool" where
  "extends h h' \<longleftrightarrow> take (length h) h' = h"

lemma extends_refl [simp]: "extends h h" "added h h = []"
  by (simp_all add: extends_def added_def)

lemma extends_snoc: "extends (h @ [e]) h' \<Longrightarrow> extends h h' \<and> added h h' = e # added (h @ [e]) h'"
proof -
  assume "extends (h @ [e]) h'"
  then have "h' = (h @ [e]) @ drop (length (h @ [e])) h'"
    unfolding extends_def by (metis append_take_drop_id)
  then obtain t where "h' = h @ e # t" by (metis append.assoc append_Cons append_Nil)
  then show ?thesis by (simp add: extends_def added_def)
qed

text \<open>The swap a successful call has made: the last transaction, and no other.\<close>

definition only_last :: "lock_log \<Rightarrow> (lock_entry \<Rightarrow> bool) \<Rightarrow> bool" where
  "only_last new P \<longleftrightarrow> new \<noteq> [] \<and> swapped (last new) \<and> P (last new) \<and> (\<forall>e \<in> set (butlast new). \<not> swapped e)"

definition no_swap :: "lock_log \<Rightarrow> bool" where
  "no_swap new \<longleftrightarrow> (\<forall>e \<in> set new. \<not> swapped e)"

lemma only_last_Cons: "\<not> swapped e \<Longrightarrow> only_last new P \<Longrightarrow> only_last (e # new) P"
  by (auto simp: only_last_def)

lemma no_swap_simps [simp]: "no_swap []" "no_swap (e # new) \<longleftrightarrow> \<not> swapped e \<and> no_swap new"
  by (auto simp: no_swap_def)

definition bandwidth_swap :: "int \<Rightarrow> bool \<Rightarrow> lock_entry \<Rightarrow> bool" where
  "bandwidth_swap bandwidth allocate e \<longleftrightarrow> l_offset e = IRM_BANDWIDTH_AVAILABLE \<and>
     sint (l_new e) = (if allocate then sint (l_old e) - bandwidth else sint (l_old e) + bandwidth) \<and>
     0 \<le> sint (l_new e) \<and> sint (l_new e) \<le> BANDWIDTH_AVAILABLE_INITIAL"

lemma sint_of_int_small: "- (2 ^ 31) \<le> k \<Longrightarrow> k < 2 ^ 31 \<Longrightarrow> sint (of_int k :: u32) = k"
  by (simp add: signed_of_int signed_take_bit_int_eq_self)

lemma manage_bandwidth_loop_result:
  assumes "manage_bandwidth_loop tries irm h bandwidth allocate old = (res, h')"
    and "- (2 ^ 31) \<le> old" "old < 2 ^ 31"
  shows "extends h h' \<and> length (added h h') \<le> tries \<and>
    (case res of
       Inl err \<Rightarrow> no_swap (added h h') \<and> err \<in> {EIO, EBUSY, EAGAIN}
     | Inr b \<Rightarrow> b = bandwidth \<and> (only_last (added h h') (bandwidth_swap bandwidth allocate) \<or>
                 \<not> allocate \<and> no_swap (added h h') \<and> added h h' \<noteq> [] \<and>
                 l_rcode (last (added h h')) = RCODE_GENERATION))"
  using assms
proof (induction tries arbitrary: h old)
  case 0
  then show ?case by auto
next
  case (Suc tries)
  let ?new = "if allocate then old - bandwidth else old + bandwidth"
  obtain rcode dat where r: "irm h IRM_BANDWIDTH_AVAILABLE (of_int old) (of_int ?new) = (rcode, dat)" by fastforce
  define e where "e = \<lparr>l_offset = IRM_BANDWIDTH_AVAILABLE, l_old = of_int old :: u32, l_new = of_int ?new :: u32,
    l_rcode = rcode, l_data = dat\<rparr>"
  have run: "run_lock irm h IRM_BANDWIDTH_AVAILABLE (of_int old) (of_int ?new) = (rcode, dat, h @ [e])"
    by (simp add: run_lock_def r e_def)
  have old: "sint (l_old e) = old" using Suc.prems by (simp add: e_def sint_of_int_small)
  show ?case
  proof (cases "?new < 0 \<or> ?new > BANDWIDTH_AVAILABLE_INITIAL")
    case True
    with Suc.prems show ?thesis by (auto simp: Let_def)
  next
    case False
    then have new: "sint (l_new e) = ?new" unfolding e_def by (simp add: sint_of_int_small)
    have dat: "- (2 ^ 31) \<le> sint dat" "sint dat < 2 ^ 31"
      using sint_range_size [of dat] by (simp_all add: word_size)
    have snoc: "extends h (h @ [e]) \<and> added h (h @ [e]) = [e]" by (simp add: extends_def added_def)
    consider (gen) "rcode = RCODE_GENERATION" | (fin) "rcode = RCODE_COMPLETE" "sint dat = old"
      | (again) k where "rcode \<noteq> RCODE_GENERATION" "\<not> swapped e" "- (2 ^ 31) \<le> k" "k < 2 ^ 31"
          "manage_bandwidth_loop tries irm (h @ [e]) bandwidth allocate k = (res, h')"
          "k = (if rcode = RCODE_COMPLETE then sint dat else old)"
      using Suc.prems False run dat old by (auto simp: Let_def swapped_def e_def split: if_splits)
    then show ?thesis
    proof cases
      case gen
      then have "(res, h') = (if allocate then Inl EAGAIN else Inr bandwidth, h @ [e])"
        using Suc.prems(1) False run by (simp add: Let_def)
      with gen show ?thesis using snoc by (auto simp: e_def swapped_def)
    next
      case fin
      then have "(res, h') = (Inr bandwidth, h @ [e])"
        using Suc.prems(1) False run by (simp add: Let_def)
      moreover have "swapped e" using fin by (auto simp: swapped_def e_def)
      moreover have "bandwidth_swap bandwidth allocate e"
        using False new old by (simp add: bandwidth_swap_def) (simp add: e_def)
      ultimately show ?thesis using snoc by (auto simp: only_last_def)
    next
      case (again k)
      have ext: "extends h h'" "added h h' = e # added (h @ [e]) h'"
        using Suc.IH [OF again(5,3,4)] extends_snoc by blast+
      show ?thesis
        using Suc.IH [OF again(5,3,4)] again(2) unfolding ext(2)
        by (auto simp: ext(1) only_last_Cons split: sum.splits)
    qed
  qed
qed

text \<open>A successful swap of a channel flips exactly the bit of that channel, which said that the channel
  was available (or, on release, taken).\<close>

definition channel_swap :: "u64 \<Rightarrow> u32 \<Rightarrow> bool \<Rightarrow> nat \<Rightarrow> lock_entry \<Rightarrow> bool" where
  "channel_swap offset channels_mask allocate channel e \<longleftrightarrow> l_offset e = offset \<and> channel < 32 \<and>
     bit channels_mask channel \<and> bit (l_old e) (31 - channel) = allocate \<and>
     l_new e = l_old e XOR push_bit (31 - channel) 1"

lemma channel_available:
  "old AND push_bit n 1 = (if allocate then NOT 0 else 0 :: u32) AND push_bit n 1 \<longleftrightarrow> bit old n = allocate"
  if "n < 32" for n
proof -
  have "old AND push_bit n 1 = (if bit old n then push_bit n 1 else 0)"
    by (rule bit_word_eqI) (auto simp: bit_simps)
  moreover have "push_bit n 1 \<noteq> (0 :: u32)" using that by (simp add: push_bit_eq_mult)
  ultimately show ?thesis by simp
qed

text \<open>One round for a channel of the mask: on to the next channel without a transaction, or one lock
  transaction that ends the loop or does not swap.\<close>

lemma manage_channel_round:
  assumes "channel < 32" "bit m channel"
    and res: "manage_channel_loop irm h m offset allocate channel old retry ret = (res, h')"
  obtains (skip) "manage_channel_loop irm h m offset allocate (channel + 1) old retry EBUSY = (res, h')"
    | (gen) e where "res = (if allocate then Inl EAGAIN else Inr channel)" "h' = h @ [e]" "\<not> swapped e"
    | (fin) e where "res = Inr channel" "h' = h @ [e]" "swapped e" "channel_swap offset m allocate channel e"
    | (again) e ch old' re ret' where "\<not> swapped e" "re * 33 + (32 - ch) < retry * 33 + (32 - channel)"
        "ret' \<in> {EBUSY, EIO}" "manage_channel_loop irm (h @ [e]) m offset allocate ch old' re ret' = (res, h')"
proof -
  have inside: "(32 \<le> channel) = False" "(\<not> bit m channel) = False" using assms by simp_all
  define b where "b = (push_bit (31 - channel) 1 :: u32)"
  obtain rcode dat where r: "irm h offset old (old XOR b) = (rcode, dat)" by fastforce
  define e where "e = \<lparr>l_offset = offset, l_old = old, l_new = old XOR b, l_rcode = rcode, l_data = dat\<rparr>"
  have run: "run_lock irm h offset old (old XOR b) = (rcode, dat, h @ [e])"
    by (simp add: run_lock_def r e_def)
  have avail: "old AND b = (if allocate then NOT 0 else 0) AND b \<longleftrightarrow> bit old (31 - channel) = allocate"
    unfolding b_def by (rule channel_available) simp
  note body = res [symmetric, unfolded manage_channel_loop.simps [of irm h m offset allocate channel old retry ret]
    Let_def b_def [symmetric] run prod.case inside avail if_False]
  let ?old = "if rcode = RCODE_COMPLETE then dat else old"
  have up: "retry * 33 + (32 - (channel + 1)) < retry * 33 + (32 - channel)"
    using assms(1) by (intro add_strict_left_mono diff_less_mono2) simp_all
  have down: "(retry - 1) * 33 + (32 - channel) < retry * 33 + (32 - channel)" if "retry > 0"
    using that by (cases retry) simp_all
  consider (taken) "bit old (31 - channel) \<noteq> allocate"
    | (ends) "bit old (31 - channel) = allocate" "rcode = RCODE_GENERATION \<or> rcode = RCODE_COMPLETE \<and> dat = old"
    | (fails) "bit old (31 - channel) = allocate" "rcode \<noteq> RCODE_GENERATION" "\<not> (rcode = RCODE_COMPLETE \<and> dat = old)"
    by blast
  then show thesis
  proof cases
    case taken
    with body skip show thesis by simp
  next
    case ends
    have "channel_swap offset m allocate channel e"
      using assms ends(1) by (simp add: channel_swap_def e_def b_def)
    with body ends gen [of e] fin [of e] show thesis by (auto simp: swapped_def e_def)
  next
    case fails
    then have ns: "\<not> swapped e" by (auto simp: swapped_def e_def)
    show thesis
    proof (cases "rcode = RCODE_COMPLETE \<and> dat AND b = (old XOR b) AND b")
      case True
      show thesis by (rule again [OF ns up, of EBUSY dat]) (use body fails True in simp_all)
    next
      case older: False
      show thesis
      proof (cases "retry > 0")
        case True
        show thesis by (rule again [OF ns down [OF True], of EBUSY ?old]) (use body fails older True in simp_all)
      next
        case False
        show thesis by (rule again [OF ns up, of EIO ?old]) (use body fails older False in simp_all)
      qed
    qed
  qed
qed

lemma manage_channel_loop_result:
  assumes "manage_channel_loop irm h m offset allocate channel old retry ret = (res, h')"
  shows "extends h h' \<and>
    (case res of
       Inl err \<Rightarrow> no_swap (added h h') \<and> err \<in> {ret, EIO, EBUSY, EAGAIN}
     | Inr c \<Rightarrow> (only_last (added h h') (channel_swap offset m allocate c) \<or>
                 \<not> allocate \<and> no_swap (added h h')) \<and> c < 32 \<and> bit m c)"
  using assms
proof (induction "retry * 33 + (32 - channel)" arbitrary: h channel old retry ret rule: less_induct)
  case less
  note IH = less.hyps
  have snoc: "extends h (h @ [e]) \<and> added h (h @ [e]) = [e]" for e by (simp add: extends_def added_def)
  show ?case
  proof (cases "channel < 32 \<and> bit m channel")
    case False
    then show ?thesis
      using less.prems IH [of retry "channel + 1" h old ret]
      by (auto simp: manage_channel_loop.simps [of irm h m offset allocate channel] split: if_splits)
  next
    case True
    then have "channel < 32" "bit m channel" by simp_all
    then show ?thesis
      using less.prems
    proof (cases rule: manage_channel_round)
      case skip
      show ?thesis using IH [OF _ skip] True by (auto split: sum.splits)
    next
      case (gen e)
      then show ?thesis using snoc [of e] True by auto
    next
      case (fin e)
      then show ?thesis using snoc [of e] True by (simp add: only_last_def)
    next
      case (again e ch old' re ret')
      have ext: "extends h h'" "added h h' = e # added (h @ [e]) h'"
        using IH [OF again(2,4)] extends_snoc by blast+
      show ?thesis
        using IH [OF again(2,4)] again(1,3) unfolding ext(2)
        by (auto simp: ext(1) only_last_Cons split: sum.splits)
    qed
  qed
qed

section \<open>Guarantees\<close>

text \<open>The swaps that took place during a call.\<close>

definition swaps :: "lock_log \<Rightarrow> lock_log \<Rightarrow> lock_log" where
  "swaps h h' = filter swapped (added h h')"

lemma swaps_trans:
  assumes "extends h h1" "extends h1 h2"
  shows "extends h h2 \<and> swaps h h2 = swaps h h1 @ swaps h1 h2"
proof -
  obtain x y where "h1 = h @ x" "h2 = h1 @ y"
    using assms unfolding extends_def by (metis append_take_drop_id)
  then show ?thesis by (simp add: extends_def swaps_def added_def)
qed

lemma swaps_only_last: "only_last (added h h') P \<Longrightarrow> \<exists>e. swaps h h' = [e] \<and> P e"
proof -
  assume o: "only_last (added h h') P"
  then have "added h h' = butlast (added h h') @ [last (added h h')]" by (simp add: only_last_def)
  then have "swaps h h' = filter swapped (butlast (added h h')) @ filter swapped [last (added h h')]"
    unfolding swaps_def by (metis filter_append)
  with o show ?thesis by (simp add: only_last_def)
qed

lemma swaps_none: "no_swap (added h h') \<Longrightarrow> swaps h h' = []"
  by (simp add: no_swap_def swaps_def)

lemma manage_channel_swaps:
  assumes "manage_channel irm h m offset allocate = (res, h')"
  shows "extends h h' \<and>
    (case res of
       Inl err \<Rightarrow> swaps h h' = []
     | Inr c \<Rightarrow> c < 32 \<and> bit m c \<and> ((\<exists>e. swaps h h' = [e] \<and> channel_swap offset m allocate c e) \<or>
                 \<not> allocate \<and> swaps h h' = []))"
  using manage_channel_loop_result [OF assms [unfolded manage_channel_def]]
  by (auto split: sum.splits dest: swaps_none swaps_only_last)

lemma manage_bandwidth_swaps:
  assumes "manage_bandwidth irm h bandwidth allocate = (res, h')"
  shows "extends h h' \<and> length (added h h') \<le> 5 \<and>
    (case res of
       Inl err \<Rightarrow> swaps h h' = []
     | Inr b \<Rightarrow> b = bandwidth \<and> ((\<exists>e. swaps h h' = [e] \<and> bandwidth_swap bandwidth allocate e) \<or>
                 \<not> allocate \<and> swaps h h' = []))"
proof -
  have "- (2 ^ 31) \<le> (if allocate then BANDWIDTH_AVAILABLE_INITIAL else 0)"
    "(if allocate then BANDWIDTH_AVAILABLE_INITIAL else 0) < 2 ^ 31" by simp_all
  from manage_bandwidth_loop_result [OF assms [unfolded manage_bandwidth_def] this] show ?thesis
    by (auto split: sum.splits dest: swaps_none swaps_only_last)
qed

text \<open>The swap that takes (or releases) one of the 64 channels.\<close>

definition channel_entry :: "bool \<Rightarrow> nat \<Rightarrow> lock_entry \<Rightarrow> bool" where
  "channel_entry allocate ch e \<longleftrightarrow> ch < 64 \<and>
     l_offset e = (if ch < 32 then IRM_CHANNELS_AVAILABLE_HI else IRM_CHANNELS_AVAILABLE_LO) \<and>
     bit (l_old e) (31 - ch mod 32) = allocate \<and> l_new e = l_old e XOR push_bit (31 - ch mod 32) 1"

lemma channel_swap_entry:
  "channel_swap IRM_CHANNELS_AVAILABLE_HI m allocate c e \<Longrightarrow> channel_entry allocate c e"
  "channel_swap IRM_CHANNELS_AVAILABLE_LO m allocate c e \<Longrightarrow> channel_entry allocate (c + 32) e"
  by (auto simp: channel_swap_def channel_entry_def)

lemma manage_any_channel_swaps:
  assumes "manage_any_channel irm h m allocate = (res, h')"
  shows "extends h h' \<and>
    (case res of
       Inl err \<Rightarrow> swaps h h' = []
     | Inr c \<Rightarrow> bit m c \<and> ((\<exists>e. swaps h h' = [e] \<and> channel_entry allocate c e) \<or> \<not> allocate \<and> swaps h h' = []))"
proof -
  let ?hi = "ucast m :: u32" and ?lo = "ucast (drop_bit 32 m) :: u32"
  obtain c1 h1 where c1: "(if ?hi \<noteq> 0 then manage_channel irm h ?hi IRM_CHANNELS_AVAILABLE_HI allocate
      else (Inl EINVAL, h)) = (c1, h1)" by fastforce
  then have first: "extends h h1 \<and> (case c1 of Inl err \<Rightarrow> swaps h h1 = []
      | Inr c \<Rightarrow> bit m c \<and> ((\<exists>e. swaps h h1 = [e] \<and> channel_entry allocate c e) \<or> \<not> allocate \<and> swaps h h1 = []))"
    using manage_channel_swaps [of irm h ?hi IRM_CHANNELS_AVAILABLE_HI allocate c1 h1]
    by (auto simp: swaps_def bit_simps split: if_splits sum.splits dest: channel_swap_entry(1))
  show ?thesis
  proof (cases "?lo \<noteq> 0 \<and> isl c1")
    case False
    then have "(if ?lo \<noteq> 0 \<and> isl c1 then x else (c1, h1)) = (c1, h1)" for x by (rule if_not_P)
    then have "(c1, h1) = (res, h')" using assms c1 by (simp add: manage_any_channel_def Let_def)
    then have "c1 = res" "h1 = h'" by simp_all
    with first show ?thesis by (simp only:)
  next
    case True
    obtain c2 h2 where c2: "manage_channel irm h1 ?lo IRM_CHANNELS_AVAILABLE_LO allocate = (c2, h2)" by fastforce
    then have res: "res = map_sum id (\<lambda>c. c + 32) c2" "h' = h2"
      using assms c1 True by (simp_all add: manage_any_channel_def Let_def)
    have none: "swaps h h1 = []" using first True by (cases c1) auto
    show ?thesis
      using manage_channel_swaps [OF c2] swaps_trans [of h h1 h2] first none
      by (auto simp: res bit_simps ac_simps split: sum.splits dest: channel_swap_entry(2))
  qed
qed

lemma deallocate_channel_swaps:
  assumes "ch < 64"
  shows "extends h (deallocate_channel irm h ch) \<and>
    (swaps h (deallocate_channel irm h ch) = [] \<or>
     (\<exists>e. swaps h (deallocate_channel irm h ch) = [e] \<and> channel_entry False ch e))"
proof -
  let ?m = "push_bit (ch mod 32) 1 :: u32"
  let ?offset = "if ch < 32 then IRM_CHANNELS_AVAILABLE_HI else IRM_CHANNELS_AVAILABLE_LO"
  obtain res h' where r: "manage_channel irm h ?m ?offset False = (res, h')" by fastforce
  have "(if ch < 32 then push_bit ch 1 else push_bit (ch - 32) 1) = ?m"
    using assms by (cases "ch < 32") (simp_all add: mod_if)
  then have eq: "deallocate_channel irm h ch = h'" using r by (simp add: deallocate_channel_def Let_def)
  have one: "c = ch mod 32" if "bit ?m c" for c using that by (simp add: bit_simps)
  show ?thesis
    using manage_channel_swaps [OF r] one assms unfolding eq
    by (auto simp: channel_swap_def channel_entry_def split: sum.splits if_splits)
qed

lemma manage_allocates:
  assumes "fw_iso_resource_manage irm h m bandwidth True = (c, bw, h')" "m \<noteq> 0"
  shows "extends h h' \<and>
    (case c of
       Inr ch \<Rightarrow> bit m ch \<and> bw = bandwidth \<and> (\<exists>e rest. swaps h h' = e # rest \<and> channel_entry True ch e \<and>
         (if bandwidth = 0 then rest = [] else \<exists>b. rest = [b] \<and> bandwidth_swap bandwidth True b))
     | Inl err \<Rightarrow> bw = 0 \<and> (swaps h h' = [] \<or> (\<exists>ch e rest. swaps h h' = e # rest \<and> bit m ch \<and> channel_entry True ch e \<and>
         (rest = [] \<or> (\<exists>d. rest = [d] \<and> channel_entry False ch d)))))"
proof -
  obtain c1 h1 where c1: "manage_any_channel irm h m True = (c1, h1)" by fastforce
  note chan = manage_any_channel_swaps [OF c1]
  show ?thesis
  proof (cases c1)
    case (Inl err)
    then show ?thesis using assms c1 chan by (auto simp: fw_iso_resource_manage_def)
  next
    case (Inr ch)
    obtain e where e: "extends h h1" "swaps h h1 = [e]" "channel_entry True ch e" "bit m ch"
      using chan Inr by auto
    show ?thesis
    proof (cases "bandwidth = 0")
      case True
      then show ?thesis using assms c1 Inr e by (auto simp: fw_iso_resource_manage_def)
    next
      case False
      obtain r h2 where r: "manage_bandwidth irm h1 bandwidth True = (r, h2)" by fastforce
      note bws = manage_bandwidth_swaps [OF r]
      show ?thesis
      proof (cases r)
        case (Inr b)
        then have "c = Inr ch" "bw = bandwidth" "h' = h2"
          using assms c1 r False \<open>c1 = Inr ch\<close> by (auto simp: fw_iso_resource_manage_def)
        then show ?thesis using e bws Inr False swaps_trans [OF e(1), of h2] by auto
      next
        case (Inl err)
        then have c: "c = Inl err" "bw = 0" "h' = deallocate_channel irm h2 ch"
          using assms c1 r False \<open>c1 = Inr ch\<close> by (auto simp: fw_iso_resource_manage_def)
        have "ch < 64" using e(3) by (simp add: channel_entry_def)
        from deallocate_channel_swaps [OF this, of h2 irm] show ?thesis
          unfolding c using e bws Inl swaps_trans [OF e(1), of h2] swaps_trans [of h h2 "deallocate_channel irm h2 ch"]
          by auto
      qed
    qed
  qed
qed


text \<open>An IRM that has everything to give.\<close>

definition free_irm :: irm where
  "free_irm h offset old new = (RCODE_COMPLETE, old)"


section \<open>Buffers keep their pages and mappings in balance\<close>

lemma map_pages_result:
  "map_pages dma_map dir ps = (ok, as) \<Longrightarrow> length as \<le> length ps \<and> (ok \<longrightarrow> map dma_map ps = map Some as)"
  by (induction ps arbitrary: ok as) (fastforce split: option.splits prod.splits)+

text \<open>Initializing a buffer either maps every page and keeps it, or fails and leaves nothing behind:
  the buffer is empty again, every page that was obtained has been released and every address that was
  mapped has been unmapped, in reverse order; but the unmapping names the direction the buffer object
  had before, not the direction of the mapping.\<close>

lemma fw_iso_buffer_init_balanced:
  assumes "pages b = None" "dma_addrs b = None" "fw_iso_buffer_init arr bulk arr2 dma_map b n dir = (err, b', ev)"
  shows "(err = None \<and> pages b' = Some (bulk n) \<and> page_count b' = n \<and> direction b' = dir \<and>
      (\<exists>as. dma_addrs b' = Some as \<and> map dma_map (bulk n) = map Some as \<and>
         ev = map (\<lambda>(p, a). Map_page p dir a) (zip (bulk n) as))) \<or>
    (err = Some ENOMEM \<and> pages b' = None \<and> dma_addrs b' = None \<and>
      (\<exists>ps as rel. ev = map (\<lambda>(p, a). Map_page p dir a) (zip ps as) @ map (\<lambda>a. Unmap_page a (direction b)) (rev as) @ rel \<and>
        length as \<le> length ps \<and> rel \<in> {[], [Release_pages (bulk n)]}))"
proof (cases "arr \<and> length (bulk n) = n")
  case False
  then have "ev = [] \<or> ev = [Release_pages (bulk n)]" "err = Some ENOMEM" "b' = b"
    using assms by (auto simp: fw_iso_buffer_init_def fw_iso_buffer_alloc_def Let_def split: if_splits)
  then have "length ([] :: u64 list) \<le> length ([] :: nat list)" "ev = map (\<lambda>(p, a). Map_page p dir a) (zip [] []) @
      map (\<lambda>a. Unmap_page a (direction b)) (rev []) @ ev" "ev \<in> {[], [Release_pages (bulk n)]}"
    by auto
  with \<open>err = Some ENOMEM\<close> \<open>b' = b\<close> assms(1,2) show ?thesis by blast
next
  case True
  define b1 where "b1 = b\<lparr>page_count := n, pages := Some (bulk n)\<rparr>"
  have init: "fw_iso_buffer_init arr bulk arr2 dma_map b n dir =
      (case fw_iso_buffer_map_dma arr2 dma_map b1 dir of
         (None, buffer, ev2) \<Rightarrow> (None, buffer, ev2)
       | (Some err, buffer, ev2) \<Rightarrow> let (buffer, ev3) = fw_iso_buffer_destroy buffer in (Some err, buffer, ev2 @ ev3))"
    using True by (auto simp: fw_iso_buffer_init_def fw_iso_buffer_alloc_def Let_def b1_def split: prod.splits option.splits)
  obtain ok as where mp: "map_pages dma_map dir (bulk n) = (ok, as)" by fastforce
  note as = map_pages_result [OF mp]
  have destroy: "fw_iso_buffer_destroy b1 = (b\<lparr>page_count := 0, pages := None\<rparr>, [Release_pages (bulk n)])"
    using True assms(2) by (simp add: fw_iso_buffer_destroy_def b1_def)
  show ?thesis
  proof (cases "arr2 \<and> ok")
    case succ: True
    then show ?thesis
      using assms True mp as unfolding init by (auto simp: fw_iso_buffer_map_dma_def b1_def Let_def)
  next
    case fail: False
    define as' where "as' = (if arr2 then as else [])"
    have "fw_iso_buffer_map_dma arr2 dma_map b1 dir =
        (Some ENOMEM, b1, map (\<lambda>(p, a). Map_page p dir a) (zip (bulk n) as') @ map (\<lambda>a. Unmap_page a (direction b)) (rev as'))"
      using fail True mp by (auto simp: fw_iso_buffer_map_dma_def b1_def as'_def Let_def)
    then have "err = Some ENOMEM" "b' = b\<lparr>page_count := 0, pages := None\<rparr>" and
      "ev = map (\<lambda>(p, a). Map_page p dir a) (zip (bulk n) as') @ map (\<lambda>a. Unmap_page a (direction b)) (rev as') @
         [Release_pages (bulk n)]"
      using assms(3) destroy unfolding init by auto
    moreover have "length as' \<le> length (bulk n)" using as by (simp add: as'_def)
    ultimately show ?thesis using assms(2) by auto
  qed
qed

text \<open>Looking up where a context has stopped: when page \<open>i\<close> is the only page of the buffer whose
  mapping encloses the completed address, the result is the byte position in the buffer.\<close>

lemma fw_iso_buffer_lookup_correct:
  assumes "dma_addrs b = Some as" "length as = page_count b" "i < page_count b" "0 < off" "off \<le> 4096"
    and "\<And>j. j < i \<Longrightarrow> \<not> (0 < sint (as ! i + of_nat off - as ! j) \<and> sint (as ! i + of_nat off - as ! j) \<le> PAGE_SIZE)"
  shows "fw_iso_buffer_lookup b (as ! i + of_nat off) = i * 4096 + off"
proof -
  have off: "sint (of_nat off :: u64) = int off"
    using assms(5) by (simp add: signed_of_nat signed_take_bit_int_eq_self)
  have "i < length as \<Longrightarrow> (\<And>j. j < i \<Longrightarrow> \<not> (0 < sint (as ! i + of_nat off - as ! j) \<and> sint (as ! i + of_nat off - as ! j) \<le> PAGE_SIZE)) \<Longrightarrow>
      buffer_lookup_from as (as ! i + of_nat off) k = (k + i) * 4096 + off" for k
  proof (induction as arbitrary: i k)
    case (Cons a as)
    show ?case
    proof (cases i)
      case 0
      then show ?thesis using off assms(4,5) by (simp add: Let_def)
    next
      case (Suc j)
      have "buffer_lookup_from as (as ! j + of_nat off) (k + 1) = (k + 1 + j) * 4096 + off"
        using Cons.prems(1) Cons.prems(2) [of "Suc _"] Suc by (intro Cons.IH) auto
      with Cons.prems(2) [of 0] Suc show ?thesis by (auto simp: Let_def)
    qed
  qed simp
  from this [of 0] assms show ?thesis by (simp add: fw_iso_buffer_lookup_def)
qed

end
