(* ===== verification/Bus_Manager.thy ===== *)
theory Bus_Manager
  imports Topology_Proofs Transaction_Proofs Iso_Resource "HOL-Library.Monad_Syntax"
begin

text \<open>
  Bus resets and bus management, after \<^verbatim>\<open>drivers/firewire/core-card.c\<close>: scheduling and executing bus
  resets, contending for the bus manager role, checking the root node, choosing the gap count, and
  allocating the broadcast channel.  The card combines the states of the topology, the transactions
  and the lock transactions with the IRM.  Where the code drops its lock, a parameter says what other
  code has done to the card meanwhile.
\<close>

section \<open>The card\<close>

abbreviation (input) BUS_MANAGER_ID_NOT_REGISTERED :: u32 where "BUS_MANAGER_ID_NOT_REGISTERED \<equiv> 0x3f"
abbreviation (input) GAP_COUNT_MISMATCHED :: u32 where "GAP_COUNT_MISMATCHED \<equiv> 0"
abbreviation (input) PHY_BUS_RESET :: u32 where "PHY_BUS_RESET \<equiv> 0x40"
abbreviation (input) PHY_BUS_SHORT_RESET :: u32 where "PHY_BUS_SHORT_RESET \<equiv> 0x40"

text \<open>The fields of a device that bus management reads.\<close>

record bm_device =
  bd_quirks :: u32
  bd_running :: bool
  bd_cmc :: bool

datatype bm_action =
    Bm_update_phy_reg nat u32 u32          \<comment> \<open>register, bits to clear, bits to set\<close>
  | Bm_tx tx_event
  | Bm_lock u32 u32 u32 u32                \<comment> \<open>destination, generation, old and new value of BUS_MANAGER_ID\<close>
  | Bm_set_cmstr u32 u32                   \<comment> \<open>destination, generation\<close>
  | Bm_set_broadcast_channels u32          \<comment> \<open>generation\<close>

text \<open>\<open>users\<close> of the card hold its other references.\<close>

record bm_card =
  b_topo :: topo_card
  b_tx :: tx_card
  b_phy_packet :: async_header
  b_locks :: lock_log
  b_devices :: "node_ptr \<Rightarrow> bm_device option"
  bm_generation :: u32
  br_short :: bool
  br_queued :: bool
  bm_queued :: bool
  c_kref :: nat
  c_log :: "bm_action list"

text \<open>What the drivers, the bus and the clock do during one call.  \<open>be_lock\<close> and \<open>be_write\<close> give the response code and
  the data of a transaction, \<open>be_meanwhile\<close> what has changed on the card at each of the two points where the
  lock is dropped and taken again.\<close>

record bm_env =
  be_jiffies :: u64
  be_msecs_to_jiffies :: "nat \<Rightarrow> u64"
  be_secs_to_jiffies :: "nat \<Rightarrow> u64"
  be_phy_reg :: "errno + u32"
  be_lock :: "u32 \<Rightarrow> u32 \<Rightarrow> u32 \<Rightarrow> u32 \<Rightarrow> u32 \<times> u32"
  be_write :: "u32 \<Rightarrow> u32 \<Rightarrow> u32"
  be_irm :: irm
  be_meanwhile :: "nat \<Rightarrow> bm_card \<Rightarrow> bm_card"

definition bm_emit :: "bm_card \<Rightarrow> bm_action \<Rightarrow> bm_card" where
  "bm_emit c a = c\<lparr>c_log := c_log c @ [a]\<rparr>"

definition fw_card_get :: "bm_card \<Rightarrow> bm_card" where
  "fw_card_get c = c\<lparr>c_kref := c_kref c + 1\<rparr>"

definition fw_card_put :: "bm_card \<Rightarrow> bm_card" where
  "fw_card_put c = c\<lparr>c_kref := c_kref c - 1\<rparr>"

text \<open>\<open>time_is_before_jiffies64\<close> and \<open>time_is_after_jiffies64\<close>.\<close>

definition time_is_before_jiffies64 :: "u64 \<Rightarrow> u64 \<Rightarrow> bool" where
  "time_is_before_jiffies64 now a \<longleftrightarrow> sint (a - now) < 0"

definition time_is_after_jiffies64 :: "u64 \<Rightarrow> u64 \<Rightarrow> bool" where
  "time_is_after_jiffies64 now a \<longleftrightarrow> sint (now - a) < 0"

section \<open>Bus resets\<close>

definition reset_bus :: "bm_card \<Rightarrow> bool \<Rightarrow> bm_card" where
  "reset_bus c short_reset =
    (let reg = (if short_reset then 5 else 1);
         bit = (if short_reset then PHY_BUS_SHORT_RESET else PHY_BUS_RESET)
     in bm_emit c (Bm_update_phy_reg reg 0 bit))"

text \<open>Queueing a work item that is already queued changes nothing and answers false.\<close>

definition fw_schedule_bus_reset :: "bm_card \<Rightarrow> bool \<Rightarrow> bm_card" where
  "fw_schedule_bus_reset c short_reset =
    (let c = fw_card_get (c\<lparr>br_short := short_reset\<rparr>) in
     if br_queued c then fw_card_put c else c\<lparr>br_queued := True\<rparr>)"

definition bm_send_phy_config :: "bm_env \<Rightarrow> bm_card \<Rightarrow> u32 option \<Rightarrow> u32 \<Rightarrow> u32 option \<Rightarrow> bm_card" where
  "bm_send_phy_config env c nid generation gap =
    (let (h, tx) = fw_send_phy_config (be_phy_reg env) (b_phy_packet c) (b_tx c) nid generation gap
     in c\<lparr>b_phy_packet := h, b_tx := tx,
          c_log := c_log c @ map Bm_tx (drop (length (tx_log (b_tx c))) (tx_log tx))\<rparr>)"

text \<open>The work item leaves the queue when it starts to run.\<close>

definition br_work :: "bm_env \<Rightarrow> bm_card \<Rightarrow> bm_card" where
  "br_work env c =
    (let c = c\<lparr>br_queued := False\<rparr>;
         t = b_topo c in
     if reset_jiffies t \<noteq> 0 \<and> time_is_after_jiffies64 (be_jiffies env) (reset_jiffies t + be_secs_to_jiffies env 2) then
       if br_queued c then fw_card_put c else c\<lparr>br_queued := True\<rparr>
     else
       let c = bm_send_phy_config env c None (c_generation t) None;
           c = reset_bus c (br_short c)
       in fw_card_put c)"

section \<open>Contending for the bus manager role\<close>

definition allocate_broadcast_channel :: "bm_env \<Rightarrow> bm_card \<Rightarrow> u32 \<Rightarrow> bm_card" where
  "allocate_broadcast_channel env c generation =
    (if broadcast_channel_allocated (b_topo c) then bm_emit c (Bm_set_broadcast_channels generation)
     else
       let (channel, _, locks) = fw_iso_resource_manage (be_irm env) (b_locks c) (push_bit 31 1) 0 True;
           c = c\<lparr>b_locks := locks\<rparr> in
       if channel \<noteq> Inr 31 then c
       else bm_emit (c\<lparr>b_topo := (b_topo c)\<lparr>broadcast_channel_allocated := True\<rparr>\<rparr>) (Bm_set_broadcast_channels generation))"

definition fw_schedule_bm_work :: "bm_card \<Rightarrow> bm_card" where
  "fw_schedule_bm_work c =
    (let c = fw_card_get c in
     if bm_queued c then fw_card_put c else c\<lparr>bm_queued := True\<rparr>)"

datatype bm_contention_outcome =
    WITHIN_WINDOW | IRM_HAS_LINK_OFF | IRM_COMPLIES_1394_1995_ONLY | AT_NEW_GENERATION
  | LOCAL_PROBLEM_AT_TRANSACTION | IRM_IS_NOT_CAPABLE_FOR_IRM | IRM_HOLDS_ANOTHER_NODE_AS_BM
  | IRM_HOLDS_LOCAL_NODE_AS_BM

text \<open>The nodes are those the caller has found.\<close>

definition contend_for_bm :: "bm_env \<Rightarrow> bm_card \<Rightarrow> node_ptr \<Rightarrow> fw_node \<Rightarrow> fw_node \<Rightarrow> bm_contention_outcome \<times> bm_card" where
  "contend_for_bm env c irm_ptr irm local =
    (let t = b_topo c;
         generation = c_generation t;
         local_id = ucast (node_id local) :: u32;
         grace = time_is_before_jiffies64 (be_jiffies env) (reset_jiffies t + be_msecs_to_jiffies env 125) in
     if \<not> grace \<and> (\<not> is_next_generation generation (bm_generation c) \<or> bm_abdicate t) then (WITHIN_WINDOW, c)
     else if \<not> link_on irm then (IRM_HAS_LINK_OFF, c)
     else
       let quirks = (case b_devices c irm_ptr of None \<Rightarrow> 0 | Some d \<Rightarrow> bd_quirks d) in
       if bit quirks 0 \<and> \<not> bit quirks 1 then (IRM_COMPLIES_1394_1995_ONLY, c)
       else
         let irm_node_id = ucast (node_id irm);
             (rcode, bm_id) = be_lock env irm_node_id generation BUS_MANAGER_ID_NOT_REGISTERED local_id;
             c = be_meanwhile env 0 (bm_emit c (Bm_lock irm_node_id generation BUS_MANAGER_ID_NOT_REGISTERED local_id)) in
         if rcode = RCODE_GENERATION then (AT_NEW_GENERATION, c)
         else if rcode = RCODE_SEND_ERROR then (LOCAL_PROBLEM_AT_TRANSACTION, c)
         else if rcode = RCODE_COMPLETE then
           if bm_id \<noteq> BUS_MANAGER_ID_NOT_REGISTERED
           then (IRM_HOLDS_ANOTHER_NODE_AS_BM, c\<lparr>b_topo := (b_topo c)\<lparr>bm_node_id := 0xffc0 AND bm_id\<rparr>\<rparr>)
           else (IRM_HOLDS_LOCAL_NODE_AS_BM, c\<lparr>b_topo := (b_topo c)\<lparr>bm_node_id := local_id\<rparr>\<rparr>)
         else if \<not> bit quirks 1 then (IRM_COMPLIES_1394_1995_ONLY, c)
         else (IRM_IS_NOT_CAPABLE_FOR_IRM, c))"

section \<open>The bus manager's work\<close>

definition gap_count_table :: "nat list" where
  "gap_count_table = [63, 5, 7, 8, 10, 13, 16, 18, 21, 24, 26, 29, 32, 35, 37, 40]"

text \<open>A stage of the work ends it or hands over whether the local node is to become root.\<close>

datatype bm_next = Bm_return bm_card | Bm_continue bm_card bool

definition bm_contend :: "bm_env \<Rightarrow> bm_card \<Rightarrow> node_ptr \<Rightarrow> fw_node \<Rightarrow> fw_node \<Rightarrow> bm_next" where
  "bm_contend env c irm_ptr irm local =
    (let generation = c_generation (b_topo c) in
     if bm_generation c = generation then Bm_continue c False
     else
       let (result, c) = contend_for_bm env c irm_ptr irm local in
       (case result of
          WITHIN_WINDOW \<Rightarrow> Bm_return (fw_schedule_bm_work c)
        | IRM_HAS_LINK_OFF \<Rightarrow> Bm_continue c True
        | IRM_COMPLIES_1394_1995_ONLY \<Rightarrow> Bm_continue c True
        | AT_NEW_GENERATION \<Rightarrow> Bm_return c
        | LOCAL_PROBLEM_AT_TRANSACTION \<Rightarrow> Bm_return (fw_schedule_bm_work c)
        | IRM_IS_NOT_CAPABLE_FOR_IRM \<Rightarrow> Bm_continue c True
        | IRM_HOLDS_ANOTHER_NODE_AS_BM \<Rightarrow>
            let c = (if node_id local = node_id irm then be_meanwhile env 1 (allocate_broadcast_channel env c generation) else c)
            in Bm_continue (c\<lparr>bm_generation := generation\<rparr>) False
        | IRM_HOLDS_LOCAL_NODE_AS_BM \<Rightarrow> Bm_continue (c\<lparr>bm_generation := generation\<rparr>) False))"

definition bm_check_root :: "bm_card \<Rightarrow> node_ptr \<Rightarrow> bm_next" where
  "bm_check_root c root_ptr =
    (if gap_count (b_topo c) = GAP_COUNT_MISMATCHED then
       Bm_continue (c\<lparr>b_topo := (b_topo c)\<lparr>bm_retries := 0\<rparr>\<rparr>) True
     else
       (case b_devices c root_ptr of
          None \<Rightarrow> Bm_continue c True
        | Some root_device \<Rightarrow>
            if \<not> bd_running root_device then Bm_return c
            else Bm_continue c (\<not> bd_cmc root_device)))"

definition bm_expected_gap_count :: "topo_card \<Rightarrow> nat \<Rightarrow> nat" where
  "bm_expected_gap_count t hops =
    (if \<not> beta_repeaters_present t \<and> hops < length gap_count_table then gap_count_table ! hops else 63)"

definition bm_finish :: "bm_env \<Rightarrow> bm_card \<Rightarrow> node_ptr \<Rightarrow> u32 \<Rightarrow> u32 \<Rightarrow> u32 \<Rightarrow> u32 \<Rightarrow> bool \<Rightarrow> bm_card" where
  "bm_finish env c root_ptr root_id irm_id local_id generation stand_for_root =
    (let new_root_id = (if stand_for_root then local_id else root_id);
         hops = (case node_at (b_topo c) root_ptr of Some n \<Rightarrow> max_hops n | None \<Rightarrow> 0);
         expected = bm_expected_gap_count (b_topo c) hops;
         retries = bm_retries (b_topo c);
         gap = gap_count (b_topo c);
         c = c\<lparr>b_topo := (b_topo c)\<lparr>bm_retries := retries + 1\<rparr>\<rparr> in
     if retries < 5 \<and> (gap \<noteq> of_nat expected \<or> new_root_id \<noteq> root_id) then
       let c = bm_send_phy_config env c (Some new_root_id) generation (Some (of_nat expected))
       in reset_bus c (gap \<noteq> 0)
     else
       let cmc = (case b_devices c root_ptr of None \<Rightarrow> False | Some d \<Rightarrow> bd_cmc d);
           c' = (if cmc then bm_emit c (Bm_set_cmstr root_id generation) else c) in
       if cmc \<and> be_write env root_id generation = RCODE_GENERATION then c'
       else if local_id = irm_id then allocate_broadcast_channel env c' generation
       else c')"

definition bm_body :: "bm_env \<Rightarrow> bm_card \<Rightarrow> node_ptr \<Rightarrow> fw_node \<Rightarrow> node_ptr \<Rightarrow> fw_node \<Rightarrow> fw_node \<Rightarrow> bm_card" where
  "bm_body env c root_ptr root irm_ptr irm local =
    (let generation = c_generation (b_topo c);
         root_id = ucast (node_id root);
         irm_id = ucast (node_id irm);
         local_id = ucast (node_id local) in
     case bm_contend env c irm_ptr irm local of
       Bm_return c \<Rightarrow> c
     | Bm_continue c stand_for_root \<Rightarrow>
         (case (if stand_for_root then Bm_continue c True else bm_check_root c root_ptr) of
            Bm_return c \<Rightarrow> c
          | Bm_continue c stand_for_root \<Rightarrow>
              bm_finish env c root_ptr root_id irm_id local_id generation stand_for_root))"

text \<open>\<open>None\<close> is a read through a null or dangling pointer.  The references to the card and to the root node
  are released on every way out.\<close>

definition bm_work :: "bm_env \<Rightarrow> bm_card \<Rightarrow> bm_card option" where
  "bm_work env c =
    (let c = c\<lparr>bm_queued := False\<rparr>;
         t = b_topo c in
     if local_node t = None then Some (fw_card_put c)
     else do {
       root_ptr \<leftarrow> root_node t;
       root \<leftarrow> node_at t root_ptr;
       irm_ptr \<leftarrow> irm_node t;
       irm \<leftarrow> node_at t irm_ptr;
       local_ptr \<leftarrow> local_node t;
       local \<leftarrow> node_at t local_ptr;
       let c = bm_body env (c\<lparr>b_topo := fw_node_get t root_ptr\<rparr>) root_ptr root irm_ptr irm local;
       Some (fw_card_put (c\<lparr>b_topo := fw_node_put (b_topo c) root_ptr\<rparr>))
     })"

section \<open>References to the card\<close>

text \<open>The users' references and one for each queued work item.\<close>

definition card_refs :: "nat \<Rightarrow> bm_card \<Rightarrow> bool" where
  "card_refs users c \<longleftrightarrow> c_kref c = users + of_bool (br_queued c) + of_bool (bm_queued c)"

text \<open>Other code keeps the account, whoever the users are.\<close>

definition keeps_refs :: "bm_env \<Rightarrow> bool" where
  "keeps_refs env \<longleftrightarrow> (\<forall>users i c. card_refs users c \<longrightarrow> card_refs users (be_meanwhile env i c))"

named_theorems bm_frame \<open>fields that an operation leaves alone\<close>

lemma bm_emit_frame [bm_frame]:
  "c_kref (bm_emit c a) = c_kref c" "br_queued (bm_emit c a) = br_queued c" "bm_queued (bm_emit c a) = bm_queued c"
  "b_topo (bm_emit c a) = b_topo c" "bm_generation (bm_emit c a) = bm_generation c" "b_devices (bm_emit c a) = b_devices c"
  "c_log (bm_emit c a) = c_log c @ [a]"
  by (simp_all add: bm_emit_def)

lemma bm_send_phy_config_frame [bm_frame]:
  "c_kref (bm_send_phy_config env c n g gap) = c_kref c" "br_queued (bm_send_phy_config env c n g gap) = br_queued c"
  "bm_queued (bm_send_phy_config env c n g gap) = bm_queued c" "b_topo (bm_send_phy_config env c n g gap) = b_topo c"
  "bm_generation (bm_send_phy_config env c n g gap) = bm_generation c" "br_short (bm_send_phy_config env c n g gap) = br_short c"
  by (simp_all add: bm_send_phy_config_def split: prod.splits)

lemma reset_bus_frame [bm_frame]:
  "c_kref (reset_bus c s) = c_kref c" "br_queued (reset_bus c s) = br_queued c"
  "bm_queued (reset_bus c s) = bm_queued c" "b_topo (reset_bus c s) = b_topo c" "bm_generation (reset_bus c s) = bm_generation c"
  by (simp_all add: reset_bus_def Let_def bm_frame)

lemma allocate_broadcast_channel_frame [bm_frame]:
  "c_kref (allocate_broadcast_channel env c g) = c_kref c" "br_queued (allocate_broadcast_channel env c g) = br_queued c"
  "bm_queued (allocate_broadcast_channel env c g) = bm_queued c"
  "bm_retries (b_topo (allocate_broadcast_channel env c g)) = bm_retries (b_topo c)"
  "gap_count (b_topo (allocate_broadcast_channel env c g)) = gap_count (b_topo c)"
  by (simp_all add: allocate_broadcast_channel_def Let_def bm_frame split: prod.splits)

lemma fw_schedule_bm_work_refs: "card_refs u c \<Longrightarrow> card_refs u (fw_schedule_bm_work c)"
  by (auto simp: card_refs_def fw_schedule_bm_work_def fw_card_get_def fw_card_put_def Let_def)

lemma card_refs_cong:
  "c_kref c' = c_kref c \<Longrightarrow> br_queued c' = br_queued c \<Longrightarrow> bm_queued c' = bm_queued c \<Longrightarrow> card_refs u c' = card_refs u c"
  by (simp add: card_refs_def)

lemma card_refs_meanwhile: "keeps_refs env \<Longrightarrow> card_refs u c \<Longrightarrow> card_refs u (be_meanwhile env i c)"
  by (simp add: keeps_refs_def)

lemma contend_for_bm_refs:
  assumes "keeps_refs env" "card_refs u c" "contend_for_bm env c p irm loc = (r, c')"
  shows "card_refs u c'"
proof -
  have "card_refs u (be_meanwhile env 0 (bm_emit c a))" for a
    using assms(1,2) by (intro card_refs_meanwhile) (simp_all add: card_refs_def bm_frame)
  then have "card_refs u (be_meanwhile env 0 (bm_emit c a)\<lparr>b_topo := t\<rparr>)" for a t
    by (simp add: card_refs_def)
  with \<open>\<And>a. card_refs u (be_meanwhile env 0 (bm_emit c a))\<close> assms(2,3) show ?thesis
    unfolding contend_for_bm_def Let_def by (auto split: if_splits prod.splits)
qed

fun next_card :: "bm_next \<Rightarrow> bm_card" where
  "next_card (Bm_return c) = c"
| "next_card (Bm_continue c s) = c"

lemma bm_contend_refs:
  assumes "keeps_refs env" "card_refs u c"
  shows "card_refs u (next_card (bm_contend env c p irm loc))"
proof (cases "contend_for_bm env c p irm loc")
  case (Pair r c1)
  have c1: "card_refs u c1" using contend_for_bm_refs [OF assms Pair] .
  then have "card_refs u (be_meanwhile env 1 (allocate_broadcast_channel env c1 g))" for g
    using assms(1) by (intro card_refs_meanwhile) (simp_all add: card_refs_def bm_frame)
  then have "card_refs u ((be_meanwhile env 1 (allocate_broadcast_channel env c1 g))\<lparr>bm_generation := g\<rparr>)" for g
    by (simp add: card_refs_def)
  moreover have "card_refs u (c1\<lparr>bm_generation := g\<rparr>)" for g using c1 by (simp add: card_refs_def)
  ultimately show ?thesis
    using assms(2) c1 fw_schedule_bm_work_refs [OF c1]
    by (auto simp: bm_contend_def Pair Let_def split: bm_contention_outcome.splits)
qed

lemma bm_check_root_refs: "card_refs u (next_card (bm_check_root c p)) = card_refs u c"
  by (auto simp: bm_check_root_def card_refs_def split: option.splits)

lemma bm_finish_refs: "card_refs u (bm_finish env c rp r i l g s) = card_refs u c"
  by (simp add: bm_finish_def Let_def card_refs_def bm_frame)

lemma bm_body_refs:
  assumes "keeps_refs env" "card_refs u c"
  shows "card_refs u (bm_body env c rp root ip irm loc)"
proof -
  note c1 = bm_contend_refs [OF assms, of ip irm loc]
  show ?thesis
    using c1 by (auto simp: bm_body_def Let_def bm_finish_refs split: bm_next.split)
      (metis bm_check_root_refs next_card.simps)+
qed

text \<open>C11.  The account of the card's references: scheduling a bus reset or bus management and running either work
  item keeps one reference per queued work item beside the users' references, so that neither a reference is
  leaked nor the card is released while a work item is queued or running.\<close>

theorem card_references_balanced:
  assumes "card_refs users c" "keeps_refs env"
  shows "card_refs users (fw_schedule_bus_reset c short_reset) \<and> card_refs users (fw_schedule_bm_work c) \<and>
    (br_queued c \<longrightarrow> card_refs users (br_work env c)) \<and>
    (bm_queued c \<longrightarrow> bm_work env c = Some c' \<longrightarrow> card_refs users c')"
proof (intro conjI impI)
  show "card_refs users (fw_schedule_bus_reset c short_reset)"
    using assms(1) by (auto simp: card_refs_def fw_schedule_bus_reset_def fw_card_get_def fw_card_put_def Let_def)
  show "card_refs users (fw_schedule_bm_work c)" using assms(1) by (rule fw_schedule_bm_work_refs)
  show "card_refs users (br_work env c)" if "br_queued c"
    using assms(1) that by (auto simp: card_refs_def br_work_def fw_card_put_def Let_def bm_frame)
  show "card_refs users c'" if "bm_queued c" "bm_work env c = Some c'"
  proof -
    have run: "card_refs (users + 1) (c\<lparr>bm_queued := False\<rparr>)" using assms(1) that(1) by (simp add: card_refs_def)
    have "card_refs (users + 1) (bm_body env (c\<lparr>bm_queued := False, b_topo := t\<rparr>) rp root ip irm loc)" for t rp root ip irm loc
      using run by (intro bm_body_refs assms(2)) (simp add: card_refs_def)
    then have "card_refs users (fw_card_put (bm_body env (c\<lparr>bm_queued := False, b_topo := t\<rparr>) rp root ip irm loc\<lparr>b_topo := t'\<rparr>))"
      for t rp root ip irm loc t' by (simp add: card_refs_def fw_card_put_def)
    moreover have "card_refs users (fw_card_put (c\<lparr>bm_queued := False\<rparr>))"
      using run by (simp add: card_refs_def fw_card_put_def)
    ultimately show ?thesis
      using that(2) by (auto simp: bm_work_def Let_def split: if_splits option.splits Option.bind_splits)
  qed
qed

text \<open>A bus of one node, which is root and IRM; its device is running and cycle master capable.\<close>

definition lone_node :: fw_node where
  "lone_node = \<lparr>node_id = 0xffc0, color = 0, link_on = True, initiated_reset = False, b_path = False, phy_speed = 2,
     max_speed = 2, max_depth = 0, max_hops = 0, kref = 1, ports = []\<rparr>"

definition lone_card :: bm_card where
  "lone_card = \<lparr>b_topo = fresh_card\<lparr>nodes := [lone_node], local_node := Some 0, root_node := Some 0, irm_node := Some 0,
       c_generation := 4, gap_count := 63, broadcast_channel_allocated := True\<rparr>,
     b_tx = idle_tx_card, b_phy_packet = \<lparr>q0 = 0, q1 = 0, q2 = 0, q3 = 0\<rparr>, b_locks = [],
     b_devices = (\<lambda>p. Some \<lparr>bd_quirks = 0, bd_running = True, bd_cmc = True\<rparr>), bm_generation = 4, br_short = False,
     br_queued = False, bm_queued = True, c_kref = 2, c_log = []\<rparr>"

definition quiet_env :: bm_env where
  "quiet_env = \<lparr>be_jiffies = 1000, be_msecs_to_jiffies = (\<lambda>ms. of_nat (ms div 4)), be_secs_to_jiffies = (\<lambda>s. of_nat (s * 250)),
     be_phy_reg = Inr 63, be_lock = (\<lambda>_ _ old _. (RCODE_COMPLETE, old)), be_write = (\<lambda>_ _. RCODE_COMPLETE),
     be_irm = free_irm, be_meanwhile = (\<lambda>_ c. c)\<rparr>"

lemmas lone_defs = lone_card_def lone_node_def quiet_env_def fresh_card_def

lemmas bm_work_defs = bm_work_def bm_body_def bm_contend_def bm_check_root_def bm_finish_def bm_expected_gap_count_def
  allocate_broadcast_channel_def gap_count_table_def node_at_def fw_node_get_def fw_node_put_def node_upd_def
  bm_emit_def fw_card_put_def

theorem card_references_balanced_witness:
  "\<exists>c'. bm_work quiet_env lone_card = Some c' \<and> card_refs 1 c' \<and> \<not> bm_queued c' \<and> c_kref c' = 1"
proof -
  have "card_refs 1 lone_card" "bm_queued lone_card" "keeps_refs quiet_env"
    by (simp_all add: card_refs_def keeps_refs_def lone_defs)
  moreover obtain c' where "bm_work quiet_env lone_card = Some c'" "\<not> bm_queued c'" "\<not> br_queued c'"
    by (simp add: bm_work_defs lone_defs)
  ultimately show ?thesis using card_references_balanced [of 1 lone_card quiet_env _ c'] by (simp add: card_refs_def)
qed

section \<open>How often the bus is reset\<close>

definition is_reset :: "bm_action \<Rightarrow> bool" where
  "is_reset a = (case a of Bm_update_phy_reg _ _ _ \<Rightarrow> True | _ \<Rightarrow> False)"

definition resets :: "bm_card \<Rightarrow> nat" where
  "resets c = length (filter is_reset (c_log c))"

text \<open>Changes to the card that are not bus management's: a bus reset with the same number of nodes, devices
  that come and go.  The retries are not cleared and the gap counts agree.\<close>

definition no_new_topology :: "(bm_card \<Rightarrow> bm_card) \<Rightarrow> bool" where
  "no_new_topology f \<longleftrightarrow> (\<forall>c. bm_retries (b_topo (f c)) = bm_retries (b_topo c) \<and> resets (f c) = resets c \<and>
     (gap_count (b_topo c) \<noteq> GAP_COUNT_MISMATCHED \<longrightarrow> gap_count (b_topo (f c)) \<noteq> GAP_COUNT_MISMATCHED))"

text \<open>What bus management may still do.\<close>

definition reset_budget :: "bm_card \<Rightarrow> nat" where
  "reset_budget c = resets c + (5 - bm_retries (b_topo c))"

definition gaps_agree :: "bm_card \<Rightarrow> bool" where
  "gaps_agree c \<longleftrightarrow> gap_count (b_topo c) \<noteq> GAP_COUNT_MISMATCHED"

lemma resets_emit: "resets (bm_emit c a) = resets c + of_bool (is_reset a)"
  by (simp add: resets_def bm_emit_def)

lemma resets_phy_config: "resets (bm_send_phy_config env c n g gap) = resets c"
proof -
  have "filter is_reset (map Bm_tx xs) = []" for xs by (auto simp: filter_empty_conv is_reset_def)
  then show ?thesis by (simp add: resets_def bm_send_phy_config_def split: prod.splits)
qed

lemma resets_broadcast: "resets (allocate_broadcast_channel env c g) = resets c"
  by (simp add: allocate_broadcast_channel_def Let_def resets_def bm_emit_def is_reset_def split: prod.splits)

lemma resets_update [simp]:
  "resets (c\<lparr>b_topo := t\<rparr>) = resets c" "resets (c\<lparr>bm_generation := g\<rparr>) = resets c" "resets (c\<lparr>bm_queued := q\<rparr>) = resets c"
  "resets (c\<lparr>c_kref := k\<rparr>) = resets c"
  by (simp_all add: resets_def)

text \<open>A stage that changes neither the retries nor the number of resets.\<close>

definition same_budget :: "bm_card \<Rightarrow> bm_card \<Rightarrow> bool" where
  "same_budget c c' \<longleftrightarrow> bm_retries (b_topo c') = bm_retries (b_topo c) \<and> resets c' = resets c \<and> gaps_agree c'"

lemma contend_for_bm_budget:
  assumes "no_new_topology (be_meanwhile env 0)" "gaps_agree c" "contend_for_bm env c p irm loc = (r, c')"
  shows "same_budget c c'"
proof -
  have *: "same_budget c (be_meanwhile env 0 (bm_emit c (Bm_lock a b d e)))" for a b d e
    using assms(1,2) by (simp add: no_new_topology_def same_budget_def gaps_agree_def resets_emit bm_frame is_reset_def)
  then have "same_budget c ((be_meanwhile env 0 (bm_emit c (Bm_lock a b d e)))\<lparr>b_topo :=
      b_topo (be_meanwhile env 0 (bm_emit c (Bm_lock a b d e)))\<lparr>bm_node_id := v\<rparr>\<rparr>)" for a b d e v
    by (simp add: same_budget_def gaps_agree_def)
  moreover have "same_budget c c" using assms(2) by (simp add: same_budget_def)
  ultimately show ?thesis
    using assms(3) * unfolding contend_for_bm_def Let_def by (auto split: if_splits prod.splits)
qed

lemma bm_contend_budget:
  assumes "\<And>i. no_new_topology (be_meanwhile env i)" "gaps_agree c"
  shows "same_budget c (next_card (bm_contend env c p irm loc))"
proof (cases "contend_for_bm env c p irm loc")
  case (Pair r c1)
  have c1: "same_budget c c1" using contend_for_bm_budget [OF assms Pair] .
  then have "same_budget c (be_meanwhile env 1 (allocate_broadcast_channel env c1 g)\<lparr>bm_generation := h\<rparr>)" for g h
    using assms(1) [of 1] by (simp add: no_new_topology_def same_budget_def gaps_agree_def resets_broadcast bm_frame)
  moreover have "same_budget c (c1\<lparr>bm_generation := h\<rparr>)" "same_budget c (fw_schedule_bm_work c1)" "same_budget c c" for h
    using c1 assms(2) by (simp_all add: same_budget_def gaps_agree_def fw_schedule_bm_work_def fw_card_get_def fw_card_put_def Let_def)
  ultimately show ?thesis
    using c1 by (auto simp: bm_contend_def Pair Let_def split: bm_contention_outcome.splits)
qed

lemma bm_check_root_budget: "gaps_agree c \<Longrightarrow> next_card (bm_check_root c p) = c"
  by (auto simp: bm_check_root_def gaps_agree_def split: option.splits)

lemma bm_finish_budget:
  "reset_budget (bm_finish env c rp r i l g s) \<le> reset_budget c"
  "gaps_agree (bm_finish env c rp r i l g s) = gaps_agree c"
  by (auto simp: bm_finish_def Let_def reset_budget_def gaps_agree_def reset_bus_def resets_emit resets_phy_config
      resets_broadcast bm_frame is_reset_def)

lemma bm_body_budget:
  assumes "\<And>i. no_new_topology (be_meanwhile env i)" "gaps_agree c"
  shows "reset_budget (bm_body env c rp root ip irm loc) \<le> reset_budget c \<and> gaps_agree (bm_body env c rp root ip irm loc)"
proof -
  let ?n = "bm_contend env c ip irm loc"
  have n: "reset_budget (next_card ?n) = reset_budget c" "gaps_agree (next_card ?n)"
    using bm_contend_budget [OF assms, of ip irm loc] by (simp_all add: same_budget_def reset_budget_def)
  show ?thesis
  proof (cases ?n)
    case (Bm_continue c1 s)
    with n bm_check_root_budget [of c1 rp] have "next_card (if s then Bm_continue c1 True else bm_check_root c1 rp) = c1" by simp
    then show ?thesis
      using n Bm_continue bm_finish_budget [of env c1]
      by (cases "if s then Bm_continue c1 True else bm_check_root c1 rp") (auto simp: bm_body_def Let_def)
  qed (use n in \<open>simp add: bm_body_def Let_def\<close>)
qed

lemma bm_work_budget:
  assumes "\<And>i. no_new_topology (be_meanwhile env i)" "gaps_agree c" "bm_work env c = Some c'"
  shows "reset_budget c' \<le> reset_budget c \<and> gaps_agree c'"
proof -
  have put: "reset_budget (fw_card_put d) = reset_budget d" "gaps_agree (fw_card_put d) = gaps_agree d" for d
    by (simp_all add: reset_budget_def gaps_agree_def fw_card_put_def)
  have node: "reset_budget (d\<lparr>b_topo := fw_node_put (b_topo d) r\<rparr>) = reset_budget d" "gaps_agree (d\<lparr>b_topo := fw_node_put (b_topo d) r\<rparr>) = gaps_agree d"
    for d r by (simp_all add: reset_budget_def gaps_agree_def fw_node_put_def node_upd_def)
  have start: "reset_budget (c\<lparr>bm_queued := False, b_topo := fw_node_get (b_topo c) r\<rparr>) = reset_budget c"
    "gaps_agree (c\<lparr>bm_queued := False, b_topo := fw_node_get (b_topo c) r\<rparr>)"
    "reset_budget (c\<lparr>bm_queued := False\<rparr>) = reset_budget c" "gaps_agree (c\<lparr>bm_queued := False\<rparr>)" for r
    using assms(2) by (simp_all add: reset_budget_def gaps_agree_def fw_node_get_def node_upd_def)
  show ?thesis
    using assms(3) start(1,3,4) bm_body_budget [OF assms(1) start(2)]
    by (auto simp: bm_work_def Let_def put node split: if_splits Option.bind_splits)
qed

text \<open>A run: changes by others and bus management in turn.\<close>

fun bm_runs :: "((bm_card \<Rightarrow> bm_card) \<times> bm_env) list \<Rightarrow> bm_card \<Rightarrow> bm_card option" where
  "bm_runs [] c = Some c"
| "bm_runs ((f, env) # steps) c = bm_work env (f c) \<bind> bm_runs steps"



section \<open>Disagreeing gap counts\<close>

lemma config_flags_independent [field_laws]:
  "phy_packet_phy_config_get_root_id (phy_packet_phy_config_set_force_root_node q b) = phy_packet_phy_config_get_root_id q"
  "phy_packet_phy_config_get_root_id (phy_packet_phy_config_set_gap_count_optimization q b) = phy_packet_phy_config_get_root_id q"
  "phy_packet_phy_config_get_gap_count (phy_packet_phy_config_set_gap_count_optimization q b) = phy_packet_phy_config_get_gap_count q"
  "phy_packet_phy_config_get_force_root_node (phy_packet_phy_config_set_gap_count q v) = phy_packet_phy_config_get_force_root_node q"
  unfolding field_defs phy_masks by (simp_all add: field_get_flag_set flag_get_field_set)

lemma config_force_root_optimization [field_laws]:
  "phy_packet_phy_config_get_force_root_node (phy_packet_phy_config_set_gap_count_optimization q b) = phy_packet_phy_config_get_force_root_node q"
  unfolding field_defs phy_masks by (simp add: flag_get_bit bit_flag_set)

lemma bm_send_phy_config_packet:
  obtains h where "c_log (bm_send_phy_config env c (Some n) g (Some gap)) = c_log c @ [Bm_tx (Tx_send_phy h g)]"
    and "phy_packet_phy_config_get_force_root_node (q1 h)" "phy_packet_phy_config_get_root_id (q1 h) = take_bit 6 n"
    and "phy_packet_phy_config_get_gap_count_optimization (q1 h)" "phy_packet_phy_config_get_gap_count (q1 h) = take_bit 6 gap"
    and "q2 h = NOT (q1 h)"
proof -
  obtain h tx where r: "fw_send_phy_config (be_phy_reg env) (b_phy_packet c) (b_tx c) (Some n) g (Some gap) = (h, tx)" by fastforce
  then have "tx_log tx = tx_log (b_tx c) @ [Tx_send_phy h g]" "q2 h = NOT (q1 h)"
    and q1: "q1 h = phy_packet_phy_config_set_gap_count_optimization (phy_packet_phy_config_set_gap_count
      (phy_packet_phy_config_set_force_root_node (phy_packet_phy_config_set_root_id
        (phy_packet_set_packet_identifier 0 PHY_PACKET_PACKET_IDENTIFIER_PHY_CONFIG) n) True) gap) True"
    by (auto simp: fw_send_phy_config_def tx_emit_def Let_def)
  then show ?thesis
    using that [of h] r
    by (simp add: bm_send_phy_config_def field_laws pp_c_root_id.get_set pp_c_gap_count.get_set
        pp_c_force_root_node.get_set pp_c_gap_count_optimization.get_set)
qed

lemma gap_count_table_range: "0 < bm_expected_gap_count t n" "bm_expected_gap_count t n < 64"
proof -
  have "x \<in> set gap_count_table \<Longrightarrow> 0 < x \<and> x < 64" for x by (auto simp: gap_count_table_def)
  then show "0 < bm_expected_gap_count t n" "bm_expected_gap_count t n < 64"
    by (auto simp: bm_expected_gap_count_def)
qed

lemma gap_count_word:
  "(of_nat (bm_expected_gap_count t n) :: u32) \<noteq> 0" "take_bit 6 (of_nat (bm_expected_gap_count t n) :: u32) = of_nat (bm_expected_gap_count t n)"
proof -
  have "unat (of_nat (bm_expected_gap_count t n) :: u32) = bm_expected_gap_count t n"
    using gap_count_table_range [of t n] unfolding unat_of_nat by (simp add: take_bit_nat_eq_self)
  then show "(of_nat (bm_expected_gap_count t n) :: u32) \<noteq> 0"
    "take_bit 6 (of_nat (bm_expected_gap_count t n) :: u32) = of_nat (bm_expected_gap_count t n)"
    using gap_count_table_range [of t n]
    by (auto simp: unsigned_take_bit_eq take_bit_nat_eq_self word_unat_eq_iff)
qed

text \<open>When the nodes disagree about the gap count, bus management always acts, however many resets there
  were before: it sends a PHY configuration packet that makes the local node root and announces the gap count for the hops
  of the tree, and then it performs a long bus reset, in this order.\<close>

lemma gap_count_mismatch_resets:
  assumes "root_node (b_topo c) = Some rp" "node_at (b_topo c) rp = Some root"
    and "irm_node (b_topo c) = Some ip" "node_at (b_topo c) ip = Some irm"
    and "local_node (b_topo c) = Some lp" "node_at (b_topo c) lp = Some loc"
    and "bm_generation c = c_generation (b_topo c)" "gap_count (b_topo c) = GAP_COUNT_MISMATCHED"
  shows "\<exists>c' h. bm_work env c = Some c' \<and> bm_retries (b_topo c') = 1 \<and>
    c_log c' = c_log c @ [Bm_tx (Tx_send_phy h (c_generation (b_topo c))), Bm_update_phy_reg 1 0 PHY_BUS_RESET] \<and>
    phy_packet_phy_config_get_force_root_node (q1 h) \<and>
    phy_packet_phy_config_get_root_id (q1 h) = take_bit 6 (ucast (node_id loc)) \<and>
    phy_packet_phy_config_get_gap_count_optimization (q1 h) \<and>
    phy_packet_phy_config_get_gap_count (q1 h) =
      of_nat (if beta_repeaters_present (b_topo c) \<or> max_hops root > 15 then 63 else gap_count_table ! max_hops root)"
proof -
  define g where "g = c_generation (b_topo c)"
  define c1 where "c1 = c\<lparr>bm_queued := False, b_topo := fw_node_get (b_topo c) rp\<rparr>"
  define e where "e = bm_expected_gap_count (b_topo c) (max_hops root)"
  define c2 where "c2 = c1\<lparr>b_topo := (b_topo c1)\<lparr>bm_retries := 1\<rparr>\<rparr>"
  have hops: "(case node_at (b_topo c1) rp of Some n \<Rightarrow> max_hops n | None \<Rightarrow> 0) = max_hops root"
    using assms(2) by (auto simp: c1_def fw_node_get_def node_upd_def node_at_def split: if_splits)
  have e: "bm_expected_gap_count (b_topo c1) (max_hops root) = e"
    by (simp add: e_def c1_def bm_expected_gap_count_def fw_node_get_def node_upd_def)
  let ?c3 = "bm_send_phy_config env c2 (Some (ucast (node_id loc))) g (Some (of_nat e))"
  have "bm_body env c1 rp root ip irm loc = reset_bus ?c3 False"
    using assms(7,8) hops e gap_count_word(1) [of "b_topo c" "max_hops root"]
    by (simp add: bm_body_def bm_contend_def bm_check_root_def bm_finish_def Let_def c1_def c2_def g_def e_def
        fw_node_get_def node_upd_def node_at_def bm_expected_gap_count_def cong: if_cong)
  then have w: "bm_work env c = Some (fw_card_put ((reset_bus ?c3 False)\<lparr>b_topo := fw_node_put (b_topo ?c3) rp\<rparr>))"
    using assms by (simp add: bm_work_def Let_def c1_def bm_frame)
  obtain h where h: "c_log ?c3 = c_log c2 @ [Bm_tx (Tx_send_phy h g)]"
    "phy_packet_phy_config_get_force_root_node (q1 h)" "phy_packet_phy_config_get_root_id (q1 h) = take_bit 6 (ucast (node_id loc))"
    "phy_packet_phy_config_get_gap_count_optimization (q1 h)" "phy_packet_phy_config_get_gap_count (q1 h) = take_bit 6 (of_nat e)"
    using bm_send_phy_config_packet [of env c2 "ucast (node_id loc)" g "of_nat e"] by metis
  have e': "e = (if beta_repeaters_present (b_topo c) \<or> max_hops root > 15 then 63 else gap_count_table ! max_hops root)"
    by (auto simp: e_def bm_expected_gap_count_def gap_count_table_def)
  have t3: "bm_retries (b_topo ?c3) = 1" by (simp add: bm_frame c2_def)
  let ?c' = "fw_card_put ((reset_bus ?c3 False)\<lparr>b_topo := fw_node_put (b_topo ?c3) rp\<rparr>)"
  have "bm_retries (b_topo ?c') = 1" "c_log ?c' = c_log ?c3 @ [Bm_update_phy_reg 1 0 PHY_BUS_RESET]"
    using t3 by (simp_all add: fw_card_put_def fw_node_put_def node_upd_def reset_bus_def bm_emit_def)
  then show ?thesis
    using w h gap_count_word(2) [of "b_topo c" "max_hops root"] unfolding e_def [symmetric] e' [symmetric]
    by (intro exI [of _ ?c'] exI [of _ h]) (simp add: c2_def c1_def g_def)
qed

lemma low_bits_and: "(bm_id :: u32) < 0x3f \<Longrightarrow> 0xffc0 AND bm_id = 0"
proof -
  assume "bm_id < 0x3f"
  then have "unat bm_id < 2 ^ 6" by (simp add: word_less_nat_alt)
  then have "take_bit 6 bm_id = bm_id" by (simp add: word_unat_eq_iff unsigned_take_bit_eq take_bit_nat_eq_self)
  moreover have "0xffc0 AND take_bit 6 bm_id = 0"
    by (intro bit_word_eqI) (auto simp: bit_simps less_Suc_eq eval_nat_numeral)
  ultimately show ?thesis by simp
qed

lemma ucast_id_eq: "(ucast (x :: u16) :: u32) = ucast y \<longleftrightarrow> x = y"
proof -
  have "(ucast (ucast z :: u32) :: u16) = z" for z :: u16
    by (intro bit_word_eqI) (auto simp: bit_simps dest: bit_imp_le_length)
  then show ?thesis by metis
qed

section \<open>A bus in order\<close>

text \<open>A bus that needs nothing is left alone: when the work has already been done for this generation, the
  root device is running and cycle master capable and the gap count is the one for the hops of the tree, bus
  management neither sends a PHY packet nor resets the bus; it makes the root send cycle starts, and
  as IRM it sees to the broadcast channel unless there was another bus reset.\<close>

lemma settled_bus_not_reset:
  assumes "root_node (b_topo c) = Some rp" "node_at (b_topo c) rp = Some root"
    and "irm_node (b_topo c) = Some ip" "node_at (b_topo c) ip = Some irm"
    and "local_node (b_topo c) = Some lp" "node_at (b_topo c) lp = Some loc"
    and "bm_generation c = c_generation (b_topo c)"
    and "gap_count (b_topo c) = of_nat (bm_expected_gap_count (b_topo c) (max_hops root))"
    and "b_devices c rp = Some d" "bd_running d" "bd_cmc d"
    and "broadcast_channel_allocated (b_topo c)"
  shows "\<exists>c'. bm_work env c = Some c' \<and>
    c_log c' = c_log c @ Bm_set_cmstr (ucast (node_id root)) (c_generation (b_topo c)) #
      (if node_id loc = node_id irm \<and> be_write env (ucast (node_id root)) (c_generation (b_topo c)) \<noteq> RCODE_GENERATION
       then [Bm_set_broadcast_channels (c_generation (b_topo c))] else [])"
proof -
  have hops: "(case node_at (fw_node_get (b_topo c) rp) rp of Some n \<Rightarrow> max_hops n | None \<Rightarrow> 0) = max_hops root"
    "bm_expected_gap_count (fw_node_get (b_topo c) rp) n = bm_expected_gap_count (b_topo c) n" for n
    using assms(2) by (auto simp: fw_node_get_def node_upd_def node_at_def bm_expected_gap_count_def split: if_splits)
  have t: "gap_count (fw_node_get (b_topo c) rp) = gap_count (b_topo c)" "c_generation (fw_node_get (b_topo c) rp) = c_generation (b_topo c)"
    "broadcast_channel_allocated (fw_node_get (b_topo c) rp) = broadcast_channel_allocated (b_topo c)"
    by (simp_all add: fw_node_get_def node_upd_def)
  have id: "(ucast (node_id loc) :: u32) = ucast (node_id irm) \<longleftrightarrow> node_id loc = node_id irm"
    by (rule ucast_id_eq)
  show ?thesis
    using assms gap_count_word(1) [of "b_topo c" "max_hops root"]
    by (simp add: bm_work_def bm_body_def bm_contend_def bm_check_root_def bm_finish_def Let_def hops t id
        allocate_broadcast_channel_def fw_card_put_def bm_emit_def)
qed

section \<open>Another bus manager\<close>

definition set_bm_node :: "u32 \<Rightarrow> bm_card \<Rightarrow> bm_card" where
  "set_bm_node v c = c\<lparr>b_topo := (b_topo c)\<lparr>bm_node_id := v\<rparr>\<rparr>"

lemma set_bm_node_simps [simp]:
  "c_log (set_bm_node v c) = c_log c" "b_devices (set_bm_node v c) = b_devices c" "b_locks (set_bm_node v c) = b_locks c"
  "gap_count (b_topo (set_bm_node v c)) = gap_count (b_topo c)" "bm_retries (b_topo (set_bm_node v c)) = bm_retries (b_topo c)"
  "node_at (b_topo (set_bm_node v c)) p = node_at (b_topo c) p"
  "bm_expected_gap_count (b_topo (set_bm_node v c)) n = bm_expected_gap_count (b_topo c) n"
  "broadcast_channel_allocated (b_topo (set_bm_node v c)) = broadcast_channel_allocated (b_topo c)"
  "(set_bm_node v c)\<lparr>bm_generation := g\<rparr> = set_bm_node v (c\<lparr>bm_generation := g\<rparr>)"
  "bm_node_id (b_topo (set_bm_node v c)) = v"
  by (simp_all add: set_bm_node_def node_at_def bm_expected_gap_count_def)

lemma set_bm_node_emit: "bm_emit (set_bm_node v c) a = set_bm_node v (bm_emit c a)"
  by (simp add: bm_emit_def set_bm_node_def)

lemma set_bm_node_finish:
  "bm_finish env (set_bm_node v c) rp r i l g s = set_bm_node v (bm_finish env c rp r i l g s)"
proof -
  have retries: "(set_bm_node v c)\<lparr>b_topo := (b_topo (set_bm_node v c))\<lparr>bm_retries := n\<rparr>\<rparr> = set_bm_node v (c\<lparr>b_topo := (b_topo c)\<lparr>bm_retries := n\<rparr>\<rparr>)"
    for n by (simp add: set_bm_node_def)
  have phy: "bm_send_phy_config env (set_bm_node v d) n g gap = set_bm_node v (bm_send_phy_config env d n g gap)" for d n gap
    by (simp add: bm_send_phy_config_def set_bm_node_def split: prod.splits)
  have chan: "allocate_broadcast_channel env (set_bm_node v d) g = set_bm_node v (allocate_broadcast_channel env d g)" for d
    by (simp add: allocate_broadcast_channel_def set_bm_node_def bm_emit_def Let_def split: prod.splits)
  have chan_if: "allocate_broadcast_channel env (if P then set_bm_node v d else set_bm_node v e) g =
      set_bm_node v (allocate_broadcast_channel env (if P then d else e) g)" for P d e
    by (simp add: chan)
  show ?thesis
    by (simp add: bm_finish_def Let_def retries phy chan reset_bus_def set_bm_node_emit if_distrib [of "set_bm_node v"] chan_if
        split del: if_split cong: if_cong)
qed

lemma lock_irrelevant:
  "bm_send_phy_config (env\<lparr>be_lock := f\<rparr>) c n g gap = bm_send_phy_config env c n g gap"
  "allocate_broadcast_channel (env\<lparr>be_lock := f\<rparr>) c g = allocate_broadcast_channel env c g"
  by (simp_all add: bm_send_phy_config_def allocate_broadcast_channel_def)

lemma set_bm_node_check_root:
  "bm_check_root (set_bm_node v c) rp =
    (case bm_check_root c rp of Bm_return c \<Rightarrow> Bm_return (set_bm_node v c) | Bm_continue c s \<Rightarrow> Bm_continue (set_bm_node v c) s)"
  by (simp add: bm_check_root_def set_bm_node_def split: option.splits)

text \<open>When the IRM answers that another node is bus manager, this node goes on as if it were bus manager
  itself: it sends the same PHY packets, resets the bus and sets the same registers as when it has won the role, unless
  it is IRM; and the identifier it records for the bus manager is 0 for every node of the bus.\<close>

lemma other_bus_manager_ignored:
  assumes "root_node (b_topo c) = Some rp" "node_at (b_topo c) rp = Some root"
    and "irm_node (b_topo c) = Some ip" "node_at (b_topo c) ip = Some irm"
    and "local_node (b_topo c) = Some lp" "node_at (b_topo c) lp = Some loc"
    and "node_id loc \<noteq> node_id irm" "link_on irm" "b_devices c ip = None" "be_meanwhile env 0 = (\<lambda>c. c)"
    and "bm_generation c \<noteq> c_generation (b_topo c)" "bm_abdicate (b_topo c) = False"
    and "is_next_generation (c_generation (b_topo c)) (bm_generation c)"
    and "be_lock env = (\<lambda>_ _ _ _. (RCODE_COMPLETE, bm_id))" "bm_id < 0x3f"
    and "bm_work env c = Some c'" "bm_work (env\<lparr>be_lock := (\<lambda>_ _ _ _. (RCODE_COMPLETE, BUS_MANAGER_ID_NOT_REGISTERED))\<rparr>) c = Some won"
  shows "c_log c' = c_log won \<and> bm_node_id (b_topo c') = 0"
proof -
  let ?env' = "env\<lparr>be_lock := (\<lambda>_ _ _ _. (RCODE_COMPLETE, BUS_MANAGER_ID_NOT_REGISTERED))\<rparr>"
  define c1 where "c1 = c\<lparr>bm_queued := False, b_topo := fw_node_get (b_topo c) rp\<rparr>"
  define c2 where "c2 = (bm_emit c1 (Bm_lock (ucast (node_id irm)) (c_generation (b_topo c)) BUS_MANAGER_ID_NOT_REGISTERED (ucast (node_id loc))))
    \<lparr>bm_generation := c_generation (b_topo c)\<rparr>"
  have t: "c_generation (b_topo c1) = c_generation (b_topo c)" "bm_generation c1 = bm_generation c" "bm_abdicate (b_topo c1) = False"
    "b_devices c1 ip = None"
    using assms(9,12) by (simp_all add: c1_def fw_node_get_def node_upd_def)
  have zero: "0xffc0 AND bm_id = 0"
    using assms(15) by (rule low_bits_and)
  have contend: "bm_contend env c1 ip irm loc = Bm_continue (set_bm_node 0 c2) False"
    "bm_contend ?env' c1 ip irm loc = Bm_continue (set_bm_node (ucast (node_id loc)) c2) False"
    using assms(7,8,10,11,13,14,15) t zero
    by (auto simp: bm_contend_def contend_for_bm_def Let_def c2_def set_bm_node_def)
  have finish: "bm_finish ?env' d rp r i l g s = bm_finish env d rp r i l g s" for d r i l g s
    by (simp add: bm_finish_def Let_def lock_irrelevant split del: if_split cong: if_cong)
  obtain d where d: "bm_body env c1 rp root ip irm loc = set_bm_node 0 d"
    "bm_body ?env' c1 rp root ip irm loc = set_bm_node (ucast (node_id loc)) d"
    using that by (cases "bm_check_root c2 rp")
      (auto simp: bm_body_def Let_def contend t finish set_bm_node_check_root set_bm_node_finish)
  have "bm_work env c = Some (fw_card_put ((set_bm_node 0 d)\<lparr>b_topo := fw_node_put (b_topo (set_bm_node 0 d)) rp\<rparr>))"
    "bm_work ?env' c = Some (fw_card_put ((set_bm_node (ucast (node_id loc)) d)\<lparr>b_topo := fw_node_put (b_topo (set_bm_node (ucast (node_id loc)) d)) rp\<rparr>))"
    using assms(1-6) d by (simp_all add: bm_work_def Let_def c1_def)
  then show ?thesis
    using assms(16,17) by (auto simp: fw_card_put_def fw_node_put_def node_upd_def)
qed

text \<open>Two nodes: the local node with identifier 1 is root, the other one is IRM.\<close>

definition pair_card :: bm_card where
  "pair_card = lone_card\<lparr>b_topo := (b_topo lone_card)\<lparr>nodes := [lone_node, lone_node\<lparr>node_id := 0xffc1, max_hops := 1\<rparr>],
       local_node := Some 1, root_node := Some 1, c_generation := 5\<rparr>, b_devices := (\<lambda>p. None)\<rparr>"

end
