(* ===== verification/Net_Receive.thy ===== *)
theory Net_Receive
  imports Request_Proofs
begin

text \<open>
  IP over IEEE 1394 (RFC 2734), the receive side of \<^verbatim>\<open>drivers/firewire/net.c\<close>: the encapsulation headers,
  the lists of received fragments, partial datagrams and peers, and the way of an incoming packet to the network
  layer.  A byte of a datagram buffer that has not been written is \<open>None\<close>, as is an ether type that has not been
  set.  The memory allocators and \<open>netif_rx\<close> are parameters.
\<close>

section \<open>Encapsulation headers\<close>

abbreviation (input) FWNET_MAX_FRAGMENTS :: nat where "FWNET_MAX_FRAGMENTS \<equiv> 30"
abbreviation (input) IEEE1394_ALL_NODES :: u32 where "IEEE1394_ALL_NODES \<equiv> 0xffff"
abbreviation (input) IEEE1394_GASP_HDR_SIZE :: nat where "IEEE1394_GASP_HDR_SIZE \<equiv> 8"
abbreviation (input) RFC2374_UNFRAG_HDR_SIZE :: nat where "RFC2374_UNFRAG_HDR_SIZE \<equiv> 4"
abbreviation (input) RFC2374_FRAG_HDR_SIZE :: nat where "RFC2374_FRAG_HDR_SIZE \<equiv> 8"
abbreviation (input) RFC2374_FRAG_OVERHEAD :: nat where "RFC2374_FRAG_OVERHEAD \<equiv> 4"
abbreviation (input) RFC2374_HDR_UNFRAG :: u32 where "RFC2374_HDR_UNFRAG \<equiv> 0"
abbreviation (input) RFC2374_HDR_FIRSTFRAG :: u32 where "RFC2374_HDR_FIRSTFRAG \<equiv> 1"
abbreviation (input) RFC2374_HDR_LASTFRAG :: u32 where "RFC2374_HDR_LASTFRAG \<equiv> 2"
abbreviation (input) RFC2374_HDR_INTFRAG :: u32 where "RFC2374_HDR_INTFRAG \<equiv> 3"
abbreviation (input) ETH_P_IP :: nat where "ETH_P_IP \<equiv> 0x0800"
abbreviation (input) ETH_P_ARP :: nat where "ETH_P_ARP \<equiv> 0x0806"
abbreviation (input) ETH_P_IPV6 :: nat where "ETH_P_IPV6 \<equiv> 0x86dd"

record rfc2734_header =
  w0 :: u32
  w1 :: u32

definition fwnet_get_hdr_lf :: "rfc2734_header \<Rightarrow> u32" where
  "fwnet_get_hdr_lf h = field_get 0xc0000000 30 (w0 h)"

definition fwnet_get_hdr_ether_type :: "rfc2734_header \<Rightarrow> nat" where
  "fwnet_get_hdr_ether_type h = unat (w0 h AND 0x0000ffff)"

definition fwnet_get_hdr_dg_size :: "rfc2734_header \<Rightarrow> nat" where
  "fwnet_get_hdr_dg_size h = unat (field_get 0x0fff0000 16 (w0 h)) + 1"

definition fwnet_get_hdr_fg_off :: "rfc2734_header \<Rightarrow> nat" where
  "fwnet_get_hdr_fg_off h = unat (w0 h AND 0x00000fff)"

definition fwnet_get_hdr_dgl :: "rfc2734_header \<Rightarrow> nat" where
  "fwnet_get_hdr_dgl h = unat (field_get 0xffff0000 16 (w1 h))"

definition fwnet_make_uf_hdr :: "rfc2734_header \<Rightarrow> nat \<Rightarrow> rfc2734_header" where
  "fwnet_make_uf_hdr hdr ether_type = hdr\<lparr>w0 := push_bit 30 RFC2374_HDR_UNFRAG OR of_nat ether_type\<rparr>"

definition fwnet_make_ff_hdr :: "rfc2734_header \<Rightarrow> nat \<Rightarrow> nat \<Rightarrow> nat \<Rightarrow> rfc2734_header" where
  "fwnet_make_ff_hdr hdr ether_type dg_size dgl =
    hdr\<lparr>w0 := push_bit 30 RFC2374_HDR_FIRSTFRAG OR push_bit 16 (of_nat dg_size - 1) OR of_nat ether_type,
        w1 := push_bit 16 (of_nat dgl)\<rparr>"

definition fwnet_make_sf_hdr :: "rfc2734_header \<Rightarrow> u32 \<Rightarrow> nat \<Rightarrow> nat \<Rightarrow> nat \<Rightarrow> rfc2734_header" where
  "fwnet_make_sf_hdr hdr lf dg_size fg_off dgl =
    hdr\<lparr>w0 := push_bit 30 lf OR push_bit 16 (of_nat dg_size - 1) OR of_nat fg_off,
        w1 := push_bit 16 (of_nat dgl)\<rparr>"

section \<open>Fragments\<close>

text \<open>Both fields are 16 bits wide.\<close>

record fwnet_fragment_info =
  fi_offset :: nat
  fi_len :: nat

abbreviation fi_end :: "fwnet_fragment_info \<Rightarrow> nat" where
  "fi_end fi \<equiv> fi_offset fi + fi_len fi"

record fwnet_partial_datagram =
  fi_list :: "fwnet_fragment_info list"
  pbuf :: "u8 option list"
  datagram_label :: nat
  pd_ether_type :: "nat option"
  datagram_size :: nat

definition fwnet_frag_overlap :: "fwnet_partial_datagram \<Rightarrow> nat \<Rightarrow> nat \<Rightarrow> bool" where
  "fwnet_frag_overlap pd offset len \<longleftrightarrow>
    list_ex (\<lambda>fi. offset < fi_end fi \<and> offset + len > fi_offset fi) (fi_list pd)"

definition new_fi :: "nat \<Rightarrow> nat \<Rightarrow> fwnet_fragment_info" where
  "new_fi offset len = \<lparr>fi_offset = offset mod 2 ^ 16, fi_len = len mod 2 ^ 16\<rparr>"

definition fi_grow :: "fwnet_fragment_info \<Rightarrow> nat \<Rightarrow> fwnet_fragment_info" where
  "fi_grow fi n = fi\<lparr>fi_len := (fi_len fi + n) mod 2 ^ 16\<rparr>"

text \<open>The loop over the list: the entries it has passed, in reverse, and those to come.  \<open>alloc\<close> says
  whether there is memory for a new entry; \<open>None\<close> is a null result.  A loop that ends without
  a break adds the entry at the head of the list.\<close>

fun frag_new_loop :: "bool \<Rightarrow> fwnet_fragment_info list \<Rightarrow> fwnet_fragment_info list \<Rightarrow> nat \<Rightarrow> nat \<Rightarrow>
    fwnet_fragment_info list option" where
  "frag_new_loop alloc pre [] offset len = (if alloc then Some (new_fi offset len # rev pre) else None)"
| "frag_new_loop alloc pre (fi # rest) offset len =
    (if fi_end fi = offset then
       (case rest of
          fi2 # rest' \<Rightarrow>
            if offset + len = fi_offset fi2 then Some (rev pre @ fi_grow fi (len + fi_len fi2) # rest')
            else Some (rev pre @ fi_grow fi len # rest)
        | [] \<Rightarrow> Some (rev pre @ [fi_grow fi len]))
     else if offset + len = fi_offset fi then
       (case pre of
          fi2 # pre' \<Rightarrow>
            if fi_end fi2 = offset then Some (rev pre' @ fi_grow fi2 (fi_len fi + len) # rest)
            else Some (rev pre @ (fi_grow fi len)\<lparr>fi_offset := offset mod 2 ^ 16\<rparr> # rest)
        | [] \<Rightarrow> Some ((fi_grow fi len)\<lparr>fi_offset := offset mod 2 ^ 16\<rparr> # rest))
     else if offset > fi_end fi then
       if alloc then Some (rev pre @ fi # new_fi offset len # rest) else None
     else if offset + len < fi_offset fi then
       if alloc then Some (rev pre @ new_fi offset len # fi # rest) else None
     else frag_new_loop alloc (fi # pre) rest offset len)"

definition fwnet_frag_new :: "bool \<Rightarrow> fwnet_partial_datagram \<Rightarrow> nat \<Rightarrow> nat \<Rightarrow> fwnet_partial_datagram option" where
  "fwnet_frag_new alloc pd offset len =
    map_option (\<lambda>l. pd\<lparr>fi_list := l\<rparr>) (frag_new_loop alloc [] (fi_list pd) offset len)"

section \<open>Partial datagrams\<close>

text \<open>\<open>memcpy\<close> into the buffer.\<close>

definition buf_write :: "u8 option list \<Rightarrow> nat \<Rightarrow> bytes \<Rightarrow> u8 option list" where
  "buf_write buf off bs = take off buf @ map Some bs @ drop (off + length bs) buf"

record fwnet_peer =
  pr_guid :: u64
  pd_list :: "fwnet_partial_datagram list"
  pdg_size :: nat
  pr_datagram_label :: nat
  pr_max_payload :: nat
  pr_node_id :: u32
  pr_generation :: u32
  pr_speed :: u32

text \<open>\<open>alloc\<close> answers the allocations of the datagram, its first fragment entry and its buffer.\<close>

definition fwnet_pd_new :: "(nat \<Rightarrow> bool) \<Rightarrow> fwnet_peer \<Rightarrow> nat \<Rightarrow> nat \<Rightarrow> bytes \<Rightarrow> nat \<Rightarrow>
    fwnet_partial_datagram option" where
  "fwnet_pd_new alloc peer label dg_size frag_buf frag_off =
    (if \<not> alloc 0 then None
     else
       case fwnet_frag_new (alloc 1) \<lparr>fi_list = [], pbuf = [], datagram_label = label, pd_ether_type = None,
              datagram_size = dg_size mod 2 ^ 16\<rparr> frag_off (length frag_buf) of
         None \<Rightarrow> None
       | Some new \<Rightarrow>
           if \<not> alloc 2 then None
           else Some (new\<lparr>pbuf := buf_write (replicate dg_size None) frag_off frag_buf\<rparr>))"

definition fwnet_pd_find :: "fwnet_peer \<Rightarrow> nat \<Rightarrow> fwnet_partial_datagram option" where
  "fwnet_pd_find peer label = find (\<lambda>pd. datagram_label pd = label) (pd_list peer)"

text \<open>Deleting the datagram that \<open>fwnet_pd_find\<close> has found.\<close>

fun pd_remove :: "nat \<Rightarrow> fwnet_partial_datagram list \<Rightarrow> fwnet_partial_datagram list" where
  "pd_remove label [] = []"
| "pd_remove label (pd # pds) = (if datagram_label pd = label then pds else pd # pd_remove label pds)"

definition fwnet_pd_delete :: "fwnet_peer \<Rightarrow> nat \<Rightarrow> fwnet_peer" where
  "fwnet_pd_delete peer label = peer\<lparr>pd_list := pd_remove label (pd_list peer)\<rparr>"

definition fwnet_pd_update :: "bool \<Rightarrow> fwnet_peer \<Rightarrow> fwnet_partial_datagram \<Rightarrow> bytes \<Rightarrow> nat \<Rightarrow>
    (fwnet_peer \<times> fwnet_partial_datagram) option" where
  "fwnet_pd_update alloc peer pd frag_buf frag_off =
    (case fwnet_frag_new alloc pd frag_off (length frag_buf) of
       None \<Rightarrow> None
     | Some pd' \<Rightarrow>
         let pd' = pd'\<lparr>pbuf := buf_write (pbuf pd') frag_off frag_buf\<rparr>
         in Some (peer\<lparr>pd_list := pd_remove (datagram_label pd) (pd_list peer) @ [pd']\<rparr>, pd'))"

definition fwnet_pd_is_complete :: "fwnet_partial_datagram \<Rightarrow> bool" where
  "fwnet_pd_is_complete pd \<longleftrightarrow> fi_list pd \<noteq> [] \<and> fi_len (hd (fi_list pd)) = datagram_size pd"

text \<open>Removing the oldest partial datagrams while there are too many; \<open>None\<close> is the first entry of an empty list.\<close>

fun pd_evict :: "fwnet_partial_datagram list \<Rightarrow> nat \<Rightarrow> (fwnet_partial_datagram list \<times> nat) option" where
  "pd_evict pds n =
    (if n < FWNET_MAX_FRAGMENTS then Some (pds, n)
     else case pds of [] \<Rightarrow> None | pd # pds \<Rightarrow> pd_evict pds (n - 1))"

declare pd_evict.simps [simp del]

section \<open>The device\<close>

datatype pkt_type = PACKET_HOST | PACKET_BROADCAST | PACKET_OTHERHOST

text \<open>A socket buffer handed to the network layer.\<close>

record rx_skb =
  s_data :: "u8 option list"
  s_ether_type :: "nat option"
  s_pkt_type :: pkt_type

record fwnet_device =
  peer_list :: "fwnet_peer list"
  peer_count :: nat
  dev_addr :: bytes
  rx_errors :: nat
  rx_dropped :: nat
  rx_packets :: nat
  rx_bytes :: nat
  rx_log :: "rx_skb list"

record rx_env =
  rx_alloc :: "nat \<Rightarrow> bool"
  netif_rx :: "rx_skb \<Rightarrow> bool"     \<comment> \<open>false: \<open>NET_RX_DROP\<close>\<close>
  ipv6_enabled :: bool
  rx_uninit :: nat                 \<comment> \<open>what is found in memory that was never written\<close>

definition fwnet_peer_find_by_guid :: "fwnet_device \<Rightarrow> u64 \<Rightarrow> fwnet_peer option" where
  "fwnet_peer_find_by_guid dev g = find (\<lambda>peer. pr_guid peer = g) (peer_list dev)"

definition fwnet_peer_find_by_node_id :: "fwnet_device \<Rightarrow> u32 \<Rightarrow> u32 \<Rightarrow> fwnet_peer option" where
  "fwnet_peer_find_by_node_id dev nid generation =
    find (\<lambda>peer. pr_node_id peer = nid \<and> pr_generation peer = generation) (peer_list dev)"

text \<open>Storing back the peer that \<open>fwnet_peer_find_by_node_id\<close> has found.\<close>

fun peer_store :: "u32 \<Rightarrow> u32 \<Rightarrow> fwnet_peer \<Rightarrow> fwnet_peer list \<Rightarrow> fwnet_peer list" where
  "peer_store nid generation new [] = []"
| "peer_store nid generation new (peer # peers) =
    (if pr_node_id peer = nid \<and> pr_generation peer = generation then new # peers
     else peer # peer_store nid generation new peers)"

definition fwnet_hwaddr_is_multicast :: "bytes \<Rightarrow> bool" where
  "fwnet_hwaddr_is_multicast ha \<longleftrightarrow> bit (ha ! 0) 0"

text \<open>The pseudo header has the ether type and the broadcast or the device's own address; the ether types
  that pass the first check are not lengths.\<close>

definition accepted_ether_type :: "rx_env \<Rightarrow> nat \<Rightarrow> bool" where
  "accepted_ether_type env t \<longleftrightarrow> t = ETH_P_ARP \<or> t = ETH_P_IP \<or> (t = ETH_P_IPV6 \<and> ipv6_enabled env)"

definition fwnet_finish_incoming_packet :: "rx_env \<Rightarrow> fwnet_device \<Rightarrow> u8 option list \<Rightarrow> bool \<Rightarrow> nat option \<Rightarrow>
    errno option \<times> fwnet_device" where
  "fwnet_finish_incoming_packet env dev dat is_broadcast ether_type =
    (if accepted_ether_type env (case ether_type of Some t \<Rightarrow> t | None \<Rightarrow> rx_uninit env) then
       let broadcast = replicate 16 0xff;
           h_dest = (if is_broadcast then broadcast else dev_addr dev);
           pkt = (if fwnet_hwaddr_is_multicast h_dest then if h_dest = broadcast then PACKET_BROADCAST else PACKET_HOST
                  else if h_dest \<noteq> dev_addr dev then PACKET_OTHERHOST else PACKET_HOST);
           skb = \<lparr>s_data = dat, s_ether_type = ether_type, s_pkt_type = pkt\<rparr>;
           dev = dev\<lparr>rx_log := rx_log dev @ [skb]\<rparr>
       in (None, if \<not> netif_rx env skb then dev\<lparr>rx_errors := rx_errors dev + 1, rx_dropped := rx_dropped dev + 1\<rparr>
                 else dev\<lparr>rx_packets := rx_packets dev + 1, rx_bytes := rx_bytes dev + length dat\<rparr>)
     else (Some ENOENT, dev\<lparr>rx_errors := rx_errors dev + 1, rx_dropped := rx_dropped dev + 1\<rparr>))"

text \<open>The part of an incoming packet's handling that has found the peer: the new state of the peer and, if the datagram is
  complete, its buffer and ether type.  \<open>None\<close> is the first entry of an empty list.\<close>

definition pd_attach :: "u32 \<Rightarrow> nat \<Rightarrow> fwnet_peer \<Rightarrow> fwnet_partial_datagram \<Rightarrow>
    fwnet_peer \<times> (u8 option list \<times> nat option) option" where
  "pd_attach lf ether_type peer pd =
    (let pd = (if lf = RFC2374_HDR_FIRSTFRAG then pd\<lparr>pd_ether_type := Some ether_type\<rparr> else pd) in
     if fwnet_pd_is_complete pd
     then (peer\<lparr>pdg_size := pdg_size peer - 1, pd_list := butlast (pd_list peer)\<rparr>, Some (pbuf pd, pd_ether_type pd))
     else (peer\<lparr>pd_list := butlast (pd_list peer) @ [pd]\<rparr>, None))"

definition fwnet_incoming_fragment :: "(nat \<Rightarrow> bool) \<Rightarrow> fwnet_peer \<Rightarrow> u32 \<Rightarrow> nat \<Rightarrow> nat \<Rightarrow> nat \<Rightarrow> nat \<Rightarrow> bytes \<Rightarrow>
    (errno option \<times> fwnet_peer \<times> (u8 option list \<times> nat option) option) option" where
  "fwnet_incoming_fragment alloc peer lf ether_type fg_off label dg_size buf =
    (case fwnet_pd_find peer label of
       None \<Rightarrow>
         (case pd_evict (pd_list peer) (pdg_size peer) of
            None \<Rightarrow> None
          | Some (pds, n) \<Rightarrow>
              let peer = peer\<lparr>pd_list := pds, pdg_size := n\<rparr> in
              (case fwnet_pd_new alloc peer label dg_size buf fg_off of
                 None \<Rightarrow> Some (Some ENOMEM, peer, None)
               | Some pd \<Rightarrow>
                   let peer = peer\<lparr>pd_list := pd_list peer @ [pd], pdg_size := pdg_size peer + 1\<rparr>
                   in Some (None, pd_attach lf ether_type peer pd)))
     | Some pd \<Rightarrow>
         if fwnet_frag_overlap pd fg_off (length buf) \<or> datagram_size pd \<noteq> dg_size then
           let peer = fwnet_pd_delete peer label in
           (case fwnet_pd_new alloc peer label dg_size buf fg_off of
              None \<Rightarrow> Some (Some ENOMEM, peer\<lparr>pdg_size := pdg_size peer - 1\<rparr>, None)
            | Some pd \<Rightarrow> Some (None, pd_attach lf ether_type (peer\<lparr>pd_list := pd_list peer @ [pd]\<rparr>) pd))
         else
           (case fwnet_pd_update (alloc 1) peer pd buf fg_off of
              None \<Rightarrow> Some (Some ENOMEM, (fwnet_pd_delete peer label)\<lparr>pdg_size := pdg_size peer - 1\<rparr>, None)
            | Some (peer, pd) \<Rightarrow> Some (None, pd_attach lf ether_type peer pd)))"

definition fwnet_incoming_packet :: "rx_env \<Rightarrow> fwnet_device \<Rightarrow> bytes \<Rightarrow> u32 \<Rightarrow> u32 \<Rightarrow> bool \<Rightarrow>
    (errno option \<times> fwnet_device) option" where
  "fwnet_incoming_packet env dev buf source_node_id generation is_broadcast =
    (if length buf \<le> RFC2374_UNFRAG_HDR_SIZE then Some (None, dev)
     else
       let hdr = \<lparr>w0 = be32_load buf, w1 = 0\<rparr>;
           lf = fwnet_get_hdr_lf hdr in
       if lf = RFC2374_HDR_UNFRAG then
         if \<not> rx_alloc env 0 then Some (Some ENOMEM, dev\<lparr>rx_dropped := rx_dropped dev + 1\<rparr>)
         else Some (fwnet_finish_incoming_packet env dev (map Some (drop RFC2374_UNFRAG_HDR_SIZE buf)) is_broadcast
                      (Some (fwnet_get_hdr_ether_type hdr)))
       else if length buf \<le> RFC2374_FRAG_HDR_SIZE then Some (None, dev)
       else
         let hdr = hdr\<lparr>w1 := be32_load (drop 4 buf)\<rparr>;
             buf = drop RFC2374_FRAG_HDR_SIZE buf;
             ether_type = (if lf = RFC2374_HDR_FIRSTFRAG then fwnet_get_hdr_ether_type hdr else 0);
             fg_off = (if lf = RFC2374_HDR_FIRSTFRAG then 0 else fwnet_get_hdr_fg_off hdr);
             label = fwnet_get_hdr_dgl hdr;
             dg_size = fwnet_get_hdr_dg_size hdr in
         if fg_off + length buf > dg_size then Some (None, dev)
         else
           case fwnet_peer_find_by_node_id dev source_node_id generation of
             None \<Rightarrow> Some (Some ENOENT, dev)
           | Some peer \<Rightarrow>
               (case fwnet_incoming_fragment (rx_alloc env) peer lf ether_type fg_off label dg_size buf of
                  None \<Rightarrow> None
                | Some (err, peer, complete) \<Rightarrow>
                    let dev = dev\<lparr>peer_list := peer_store source_node_id generation peer (peer_list dev)\<rparr> in
                    (case complete of
                       None \<Rightarrow> Some (err, dev)
                     | Some (dat, et) \<Rightarrow> Some (fwnet_finish_incoming_packet env dev dat False et))))"

text \<open>The address handler's callback: the response code with which the request is answered.\<close>

definition fwnet_receive_packet :: "rx_env \<Rightarrow> fwnet_device \<Rightarrow> u64 \<Rightarrow> u32 \<Rightarrow> u32 \<Rightarrow> u32 \<Rightarrow> u32 \<Rightarrow> u64 \<Rightarrow> bytes \<Rightarrow>
    (u32 \<times> fwnet_device) option" where
  "fwnet_receive_packet env dev handler_offset tcode destination source generation offset payload =
    (if destination = IEEE1394_ALL_NODES then Some (RCODE_COMPLETE, dev)
     else if offset \<noteq> handler_offset then Some (RCODE_ADDRESS_ERROR, dev)
     else if tcode \<noteq> TCODE_WRITE_BLOCK_REQUEST then Some (RCODE_TYPE_ERROR, dev)
     else case fwnet_incoming_packet env dev payload source generation False of
            None \<Rightarrow> None
          | Some (err, dev) \<Rightarrow> Some (if err \<noteq> None then RCODE_CONFLICT_ERROR else RCODE_COMPLETE, dev))"

definition gasp_source_id :: "bytes \<Rightarrow> u32" where
  "gasp_source_id p = drop_bit 16 (be32_load p)"

definition gasp_specifier_id :: "bytes \<Rightarrow> u32" where
  "gasp_specifier_id p = push_bit 8 (be32_load p AND 0xffff) OR drop_bit 24 (be32_load (drop 4 p) AND 0xff000000)"

definition gasp_version :: "bytes \<Rightarrow> u32" where
  "gasp_version p = be32_load (drop 4 p) AND 0xffffff"

text \<open>A broadcast packet; its buffer is queued again afterwards.\<close>

definition fwnet_receive_broadcast :: "rx_env \<Rightarrow> fwnet_device \<Rightarrow> bytes \<Rightarrow> u32 \<Rightarrow> fwnet_device option" where
  "fwnet_receive_broadcast env dev buf generation =
    (if length buf > IEEE1394_GASP_HDR_SIZE \<and> gasp_specifier_id buf = 0x5e \<and>
        (gasp_version buf = 1 \<or> (gasp_version buf = 2 \<and> ipv6_enabled env))
     then map_option snd (fwnet_incoming_packet env dev (drop IEEE1394_GASP_HDR_SIZE buf) (gasp_source_id buf) generation True)
     else Some dev)"

end
