(* ===== verification/Net_Receive_Proofs.thy ===== *)
theory Net_Receive_Proofs
  imports Net_Receive
begin

text \<open>
  What the receive side of IP over IEEE 1394 guarantees: the fragment lists stay disjoint and describe exactly
  the bytes that have been written, a datagram is delivered only when each of its bytes has been received, peers
  keep a bounded number of partial datagrams; and where reassembly falls short of its purpose.
\<close>

section \<open>Fragment lists\<close>

definition apart :: "fwnet_fragment_info \<Rightarrow> fwnet_fragment_info \<Rightarrow> bool" where
  "apart a b \<longleftrightarrow> fi_end a \<le> fi_offset b \<or> fi_end b \<le> fi_offset a"

definition frags_ok :: "nat \<Rightarrow> fwnet_fragment_info list \<Rightarrow> bool" where
  "frags_ok n fis \<longleftrightarrow> sorted_wrt apart fis \<and> (\<forall>fi \<in> set fis. 0 < fi_len fi \<and> fi_end fi \<le> n)"

definition covered :: "fwnet_fragment_info list \<Rightarrow> nat \<Rightarrow> bool" where
  "covered fis i \<longleftrightarrow> (\<exists>fi \<in> set fis. fi_offset fi \<le> i \<and> i < fi_end fi)"

text \<open>The fragment as an entry of the list.\<close>

abbreviation frag :: "nat \<Rightarrow> nat \<Rightarrow> fwnet_fragment_info" where
  "frag off len \<equiv> \<lparr>fi_offset = off, fi_len = len\<rparr>"

lemma covered_simps [simp]:
  "covered [] i = False" "covered (fi # fis) i \<longleftrightarrow> (fi_offset fi \<le> i \<and> i < fi_end fi) \<or> covered fis i"
  "covered (xs @ ys) i \<longleftrightarrow> covered xs i \<or> covered ys i"
  by (auto simp: covered_def)

lemma covered_rev [simp]: "covered (rev xs) i = covered xs i"
  by (simp add: covered_def)

lemma apart_sym: "apart a b \<Longrightarrow> apart b a"
  by (auto simp: apart_def)

lemma frags_ok_insert:
  "frags_ok n (xs @ fi # ys) \<longleftrightarrow> frags_ok n (xs @ ys) \<and> 0 < fi_len fi \<and> fi_end fi \<le> n \<and> (\<forall>x \<in> set (xs @ ys). apart fi x)"
  by (auto simp: frags_ok_def sorted_wrt_append apart_sym)

text \<open>An entry whose bytes are those of two others can take their place.\<close>

lemma apart_union:
  assumes "apart a x" "apart b x" "fi_end a = fi_offset b" "fi_offset c = fi_offset a" "fi_end c = fi_end b" "0 < fi_len a" "0 < fi_len b" "0 < fi_len x"
  shows "apart c x"
  using assms by (auto simp: apart_def)

lemma small_mod: "n \<le> 4096 \<Longrightarrow> k \<le> n \<Longrightarrow> k mod 65536 = (k :: nat)"
  by simp

lemma frag_join:
  assumes "frags_ok n (xs @ ys)" "\<forall>x \<in> set (xs @ ys). apart a x \<and> apart b x" "fi_end a = fi_offset b" "0 < fi_len a" "0 < fi_len b"
    "fi_offset c = fi_offset a" "fi_end c = fi_end b" "fi_end b \<le> n"
  shows "frags_ok n (xs @ c # ys)" "covered (xs @ c # ys) i \<longleftrightarrow> covered (xs @ ys) i \<or> (fi_offset a \<le> i \<and> i < fi_end a) \<or> (fi_offset b \<le> i \<and> i < fi_end b)"
proof -
  have "0 < fi_len x" if "x \<in> set (xs @ ys)" for x using that assms(1) by (auto simp: frags_ok_def)
  then have "\<forall>x \<in> set (xs @ ys). apart c x" using apart_union [OF _ _ assms(3,6,7,4,5)] assms(2) by blast
  then show "frags_ok n (xs @ c # ys)" unfolding frags_ok_insert using assms by auto
  show "covered (xs @ c # ys) i \<longleftrightarrow> covered (xs @ ys) i \<or> (fi_offset a \<le> i \<and> i < fi_end a) \<or> (fi_offset b \<le> i \<and> i < fi_end b)"
    using assms(3-8) by auto
qed

text \<open>What adding a fragment promises.\<close>

definition frag_added :: "nat \<Rightarrow> fwnet_fragment_info list \<Rightarrow> nat \<Rightarrow> nat \<Rightarrow> fwnet_fragment_info list \<Rightarrow> bool" where
  "frag_added n fis off len fis' \<longleftrightarrow> frags_ok n fis' \<and> fis' \<noteq> [] \<and>
    (\<forall>i. covered fis' i \<longleftrightarrow> covered fis i \<or> (off \<le> i \<and> i < off + len))"

lemma frag_new_insert:
  assumes "frags_ok n (xs @ ys)" "n \<le> 4096" "off + len \<le> n" "0 < len" "\<forall>x \<in> set (xs @ ys). apart (frag off len) x"
  shows "frag_added n (xs @ ys) off len (xs @ new_fi off len # ys)"
  using assms by (auto simp: frag_added_def frags_ok_insert new_fi_def small_mod)

lemma frag_grow_end:
  assumes "frags_ok n (xs @ fi # ys)" "n \<le> 4096" "off + len \<le> n" "0 < len" "\<forall>x \<in> set (xs @ fi # ys). apart (frag off len) x" "fi_end fi = off"
  shows "frag_added n (xs @ fi # ys) off len (xs @ fi_grow fi len # ys)"
  unfolding frag_added_def
  using frag_join [of n xs ys fi "frag off len" "fi_grow fi len"] assms
  by (auto simp: frags_ok_insert fi_grow_def small_mod)

lemma frag_grow_begin:
  assumes "frags_ok n (xs @ fi # ys)" "n \<le> 4096" "off + len \<le> n" "0 < len" "\<forall>x \<in> set (xs @ fi # ys). apart (frag off len) x" "off + len = fi_offset fi"
  shows "frag_added n (xs @ fi # ys) off len (xs @ (fi_grow fi len)\<lparr>fi_offset := off mod 2 ^ 16\<rparr> # ys)"
  unfolding frag_added_def
  using frag_join [of n xs ys "frag off len" fi "(fi_grow fi len)\<lparr>fi_offset := off mod 2 ^ 16\<rparr>"] assms
  by (auto simp: frags_ok_insert fi_grow_def small_mod)

lemma frag_plug:
  assumes "frags_ok n (xs @ f1 # f2 # ys)" "n \<le> 4096" "off + len \<le> n" "0 < len" "\<forall>x \<in> set (xs @ f1 # f2 # ys). apart (frag off len) x"
    "fi_end f1 = off" "off + len = fi_offset f2"
  shows "frag_added n (xs @ f1 # f2 # ys) off len (xs @ fi_grow f1 (len + fi_len f2) # ys)"
proof -
  let ?g = "frag (fi_offset f1) (fi_len f1 + len)" and ?c = "fi_grow f1 (len + fi_len f2)"
  have f2: "frags_ok n (xs @ ys)" "\<forall>x \<in> set (xs @ ys). apart f1 x \<and> apart f2 x" "0 < fi_len f1" "0 < fi_len f2" "fi_end f2 \<le> n"
    using assms(1) frags_ok_insert [of n xs f1 "f2 # ys"] frags_ok_insert [of n xs f2 ys] by auto
  have pos: "0 < fi_len x" if "x \<in> set (xs @ ys)" for x using that f2(1) by (auto simp: frags_ok_def)
  have "\<forall>x \<in> set (xs @ ys). apart ?g x \<and> apart f2 x"
    using f2(2) assms(4,5,6) f2(3) pos apart_union [of f1 _ "frag off len" ?g] by auto
  then show ?thesis
    unfolding frag_added_def
    using frag_join [of n xs ys ?g f2 ?c] f2 assms(2,3,4,6,7)
    by (auto simp: fi_grow_def small_mod)
qed

lemma frag_new_loop_added:
  assumes "frag_new_loop alloc pre rest off len = Some fis'" "frags_ok n (rev pre @ rest)" "n \<le> 4096" "off + len \<le> n" "0 < len"
    "\<forall>x \<in> set (rev pre @ rest). apart (frag off len) x"
  shows "frag_added n (rev pre @ rest) off len fis'"
  using assms
proof (induction alloc pre rest off len rule: frag_new_loop.induct)
  case (1 alloc pre off len)
  then show ?case using frag_new_insert [of n "[]" "rev pre" off len] by (auto split: if_splits)
next
  case (2 alloc pre fi rest off len)
  note p = "2.prems"
  consider (append) "fi_end fi = off" | (prepend) "fi_end fi \<noteq> off" "off + len = fi_offset fi"
    | (after) "fi_end fi \<noteq> off" "off + len \<noteq> fi_offset fi" "off > fi_end fi"
    | (before) "fi_end fi \<noteq> off" "off + len \<noteq> fi_offset fi" "\<not> off > fi_end fi" "off + len < fi_offset fi"
    | (skip) "fi_end fi \<noteq> off" "off + len \<noteq> fi_offset fi" "\<not> off > fi_end fi" "\<not> off + len < fi_offset fi"
    by blast
  then show ?case
  proof cases
    case append
    then show ?thesis
      using p frag_grow_end [of n "rev pre" fi rest off len] frag_plug [of n "rev pre" fi "hd rest" "tl rest" off len]
      by (cases rest) (auto split: if_splits)
  next
    case prepend
    then show ?thesis
      using p frag_grow_begin [of n "rev pre" fi rest off len] frag_plug [of n "rev (tl pre)" "hd pre" fi rest off len]
      by (cases pre) (auto split: if_splits simp: add.commute)
  next
    case after
    then show ?thesis
      using p frag_new_insert [of n "rev pre @ [fi]" rest off len] by (auto split: if_splits)
  next
    case before
    then show ?thesis
      using p frag_new_insert [of n "rev pre" "fi # rest" off len] by (auto split: if_splits)
  next
    case skip
    then show ?thesis using p "2.IH" by simp
  qed
qed

section \<open>Partial datagrams\<close>

text \<open>What a packet says as a fragment: label and size of its datagram, offset and bytes.\<close>

type_synonym fragment = "nat \<times> nat \<times> nat \<times> bytes"

definition packet_fragment :: "bytes \<Rightarrow> fragment option" where
  "packet_fragment buf =
    (let hdr = \<lparr>w0 = be32_load buf, w1 = be32_load (drop 4 buf)\<rparr>;
         off = (if fwnet_get_hdr_lf hdr = RFC2374_HDR_FIRSTFRAG then 0 else fwnet_get_hdr_fg_off hdr) in
     if length buf > 8 \<and> fwnet_get_hdr_lf hdr \<noteq> RFC2374_HDR_UNFRAG \<and>
       off + length (drop 8 buf) \<le> fwnet_get_hdr_dg_size hdr
     then Some (fwnet_get_hdr_dgl hdr, fwnet_get_hdr_dg_size hdr, off, drop 8 buf) else None)"

text \<open>Byte \<open>i\<close> of a datagram of \<open>n\<close> bytes was received in one of the fragments \<open>F\<close> with its label.\<close>

definition received :: "fragment set \<Rightarrow> nat \<Rightarrow> nat \<Rightarrow> nat \<Rightarrow> u8 \<Rightarrow> bool" where
  "received F label n i b \<longleftrightarrow>
    (\<exists>off bs. (label, n, off, bs) \<in> F \<and> off \<le> i \<and> i < off + length bs \<and> bs ! (i - off) = b)"

definition pd_ok :: "fragment set \<Rightarrow> fwnet_partial_datagram \<Rightarrow> bool" where
  "pd_ok F pd \<longleftrightarrow> datagram_size pd \<le> 4096 \<and> length (pbuf pd) = datagram_size pd \<and> fi_list pd \<noteq> [] \<and>
    frags_ok (datagram_size pd) (fi_list pd) \<and>
    (\<forall>i < datagram_size pd. case pbuf pd ! i of
        None \<Rightarrow> \<not> covered (fi_list pd) i
      | Some b \<Rightarrow> covered (fi_list pd) i \<and> received F (datagram_label pd) (datagram_size pd) i b)"

lemma received_mono: "received F l s i b \<Longrightarrow> F \<subseteq> G \<Longrightarrow> received G l s i b"
  unfolding received_def by blast

lemma pd_ok_mono: "pd_ok F pd \<Longrightarrow> F \<subseteq> G \<Longrightarrow> pd_ok G pd"
  unfolding pd_ok_def by (auto split: option.splits intro: received_mono)

lemma length_buf_write: "off + length bs \<le> length buf \<Longrightarrow> length (buf_write buf off bs) = length buf"
  by (simp add: buf_write_def)

lemma nth_buf_write:
  "off + length bs \<le> length buf \<Longrightarrow> i < length buf \<Longrightarrow>
    buf_write buf off bs ! i = (if off \<le> i \<and> i < off + length bs then Some (bs ! (i - off)) else buf ! i)"
  by (auto simp: buf_write_def nth_append)

text \<open>Writing a new fragment keeps list and buffer in step.\<close>

lemma pd_ok_write:
  assumes "frag_added n fis off (length bs) fis'" "n \<le> 4096" "length buf = n" "off + length bs \<le> n"
    and "\<And>i. i < n \<Longrightarrow> (case buf ! i of None \<Rightarrow> \<not> covered fis i | Some b \<Rightarrow> covered fis i \<and> received F label n i b)"
    and "(label, n, off, bs) \<in> F"
  shows "pd_ok F \<lparr>fi_list = fis', pbuf = buf_write buf off bs, datagram_label = label, pd_ether_type = et, datagram_size = n\<rparr>"
proof -
  have "case buf_write buf off bs ! i of None \<Rightarrow> \<not> covered fis' i | Some b \<Rightarrow> covered fis' i \<and> received F label n i b"
    if "i < n" for i
  proof (cases "off \<le> i \<and> i < off + length bs")
    case True
    then have "received F label n i (bs ! (i - off))" using assms(6) by (auto simp: received_def)
    with True that show ?thesis using assms(1,3,4) by (simp add: nth_buf_write frag_added_def)
  next
    case False
    then show ?thesis
      using that assms(1,3,4) assms(5) [OF that] by (auto simp: nth_buf_write frag_added_def split: option.splits)
  qed
  then show ?thesis
    using assms(1-4) by (simp add: pd_ok_def frag_added_def length_buf_write cong: option.case_cong)
qed

lemma pd_ok_new:
  assumes "fwnet_pd_new alloc peer label n bs off = Some pd" "n \<le> 4096" "off + length bs \<le> n" "bs \<noteq> []"
  shows "pd_ok (insert (label, n, off, bs) F) pd \<and> datagram_label pd = label \<and> datagram_size pd = n"
proof -
  have "frag_added n [] off (length bs) [new_fi off (length bs)]"
    using frag_new_insert [of n "[]" "[]" off "length bs"] assms by (simp add: frags_ok_def)
  note ok = pd_ok_write [OF this assms(2), of "replicate n None" "insert (label, n, off, bs) F" label None]
  have "pd = \<lparr>fi_list = [new_fi off (length bs)], pbuf = buf_write (replicate n None) off bs, datagram_label = label,
      pd_ether_type = None, datagram_size = n\<rparr>"
    using assms by (auto simp: fwnet_pd_new_def fwnet_frag_new_def split: if_splits)
  then show ?thesis using ok assms by simp
qed

lemma pd_ok_update:
  assumes "fwnet_pd_update alloc peer pd bs off = Some (peer', pd')" "pd_ok F pd" "off + length bs \<le> datagram_size pd" "bs \<noteq> []"
    "\<not> fwnet_frag_overlap pd off (length bs)"
  shows "pd_ok (insert (datagram_label pd, datagram_size pd, off, bs) F) pd'" "datagram_label pd' = datagram_label pd"
    "peer' = peer\<lparr>pd_list := pd_remove (datagram_label pd) (pd_list peer) @ [pd']\<rparr>" "datagram_size pd' = datagram_size pd"
proof -
  let ?n = "datagram_size pd" and ?F = "insert (datagram_label pd, datagram_size pd, off, bs) F"
  obtain fis where fis: "frag_new_loop alloc [] (fi_list pd) off (length bs) = Some fis"
    and pd': "pd' = pd\<lparr>fi_list := fis, pbuf := buf_write (pbuf pd) off bs\<rparr>"
    and peer': "peer' = peer\<lparr>pd_list := pd_remove (datagram_label pd) (pd_list peer) @ [pd']\<rparr>"
    using assms(1) by (auto simp: fwnet_pd_update_def fwnet_frag_new_def Let_def split: option.splits)
  have ok: "pd_ok ?F pd" using assms(2) by (rule pd_ok_mono) blast
  have "\<forall>x \<in> set (fi_list pd). apart (frag off (length bs)) x"
    using assms(5) by (auto simp: fwnet_frag_overlap_def apart_def list_ex_iff not_less)
  then have "frag_added ?n (fi_list pd) off (length bs) fis"
    using frag_new_loop_added [OF fis, of ?n] ok assms(3,4) by (simp add: pd_ok_def)
  from pd_ok_write [OF this, of "pbuf pd" ?F "datagram_label pd" "pd_ether_type pd"]
  have "pd_ok ?F \<lparr>fi_list = fis, pbuf = buf_write (pbuf pd) off bs, datagram_label = datagram_label pd,
      pd_ether_type = pd_ether_type pd, datagram_size = ?n\<rparr>"
    using ok assms(3) by (simp add: pd_ok_def)
  then show "pd_ok ?F pd'" by (simp add: pd' pd_ok_def cong: option.case_cong)
  show "datagram_label pd' = datagram_label pd" "datagram_size pd' = datagram_size pd" by (simp_all add: pd')
  show "peer' = peer\<lparr>pd_list := pd_remove (datagram_label pd) (pd_list peer) @ [pd']\<rparr>" by (rule peer')
qed

text \<open>A datagram as delivered: every byte was received.\<close>

definition assembled :: "fragment set \<Rightarrow> u8 option list \<Rightarrow> bool" where
  "assembled F dat \<longleftrightarrow> (\<exists>label. \<forall>i < length dat. \<exists>b. dat ! i = Some b \<and> received F label (length dat) i b)"

lemma pd_complete_assembled:
  assumes "pd_ok F pd" "fwnet_pd_is_complete pd"
  shows "assembled F (pbuf pd)"
proof -
  obtain fi fis where fi: "fi_list pd = fi # fis" "fi_len fi = datagram_size pd"
    using assms(2) by (cases "fi_list pd") (auto simp: fwnet_pd_is_complete_def)
  then have "fi_offset fi = 0" using assms(1) by (auto simp: pd_ok_def frags_ok_def)
  then have "\<And>i. i < datagram_size pd \<Longrightarrow> covered (fi_list pd) i" using fi by simp
  then have "\<exists>b. pbuf pd ! i = Some b \<and> received F (datagram_label pd) (length (pbuf pd)) i b" if "i < length (pbuf pd)" for i
    using assms(1) that unfolding pd_ok_def by (cases "pbuf pd ! i") (auto split: option.splits)
  then show ?thesis unfolding assembled_def by blast
qed

section \<open>Peers\<close>

definition peer_ok :: "fragment set \<Rightarrow> fwnet_peer \<Rightarrow> bool" where
  "peer_ok F peer \<longleftrightarrow> pdg_size peer = length (pd_list peer) \<and> pdg_size peer \<le> FWNET_MAX_FRAGMENTS \<and>
    distinct (map datagram_label (pd_list peer)) \<and> (\<forall>pd \<in> set (pd_list peer). pd_ok F pd)"

lemma peer_ok_mono: "peer_ok F peer \<Longrightarrow> F \<subseteq> G \<Longrightarrow> peer_ok G peer"
  unfolding peer_ok_def using pd_ok_mono by blast

lemma pd_remove_filter: "distinct (map datagram_label pds) \<Longrightarrow> pd_remove l pds = filter (\<lambda>pd. datagram_label pd \<noteq> l) pds"
proof (induction pds)
  case (Cons pd pds)
  then have "filter (\<lambda>x. datagram_label x \<noteq> datagram_label pd) pds = pds"
    by (intro filter_True ballI) (auto simp: image_iff)
  with Cons show ?case by auto
qed simp

lemma length_pd_remove:
  "pd \<in> set pds \<Longrightarrow> datagram_label pd = l \<Longrightarrow> length (pd_remove l pds) = length pds - 1"
proof (induction pds)
  case (Cons a pds)
  then show ?case by (cases pds) auto
qed simp

lemma distinct_map_filter_label: "distinct (map f xs) \<Longrightarrow> distinct (map f (filter P xs))"
  by (rule distinct_map_filter)

lemma pd_evict_result:
  "n = length pds \<Longrightarrow> n \<le> FWNET_MAX_FRAGMENTS \<Longrightarrow>
    \<exists>pds'. pd_evict pds n = Some (pds', length pds') \<and> length pds' < FWNET_MAX_FRAGMENTS \<and> (\<exists>k. pds' = drop k pds)"
proof (cases "n < FWNET_MAX_FRAGMENTS")
  case True
  assume "n = length pds"
  then show ?thesis using True by (subst pd_evict.simps) (auto intro: exI [of _ 0])
next
  case False
  assume n: "n = length pds" "n \<le> FWNET_MAX_FRAGMENTS"
  then obtain pd pds' where pds: "pds = pd # pds'" using False by (cases pds) auto
  then show ?thesis using n False
    by (subst pd_evict.simps, simp, subst pd_evict.simps) (auto intro!: exI [of _ "Suc 0"])
qed

text \<open>The last step: the datagram is delivered or stays at the end of the list.\<close>

lemma pd_attach_ok:
  assumes "pd_attach lf et (peer\<lparr>pd_list := pds @ [pd], pdg_size := Suc (length pds)\<rparr>) pd = (peer', complete)"
    and "length pds < FWNET_MAX_FRAGMENTS" "distinct (map datagram_label pds)" "datagram_label pd \<notin> datagram_label ` set pds"
    and "\<forall>p \<in> set pds. pd_ok F p" "pd_ok F pd"
  shows "peer_ok F peer' \<and> (\<forall>dat t. complete = Some (dat, t) \<longrightarrow> assembled F dat \<and> length dat = datagram_size pd)"
proof -
  let ?pd = "if lf = RFC2374_HDR_FIRSTFRAG then pd\<lparr>pd_ether_type := Some et\<rparr> else pd"
  have ok: "pd_ok F ?pd" "pbuf ?pd = pbuf pd" "datagram_label ?pd = datagram_label pd"
    "fwnet_pd_is_complete ?pd = fwnet_pd_is_complete pd"
    using assms(6) by (auto simp: pd_ok_def fwnet_pd_is_complete_def cong: option.case_cong)
  show ?thesis
  proof (cases "fwnet_pd_is_complete pd")
    case True
    then have "peer' = peer\<lparr>pdg_size := length pds, pd_list := pds\<rparr>" "complete = Some (pbuf pd, pd_ether_type ?pd)"
      using assms(1) ok(2,4) by (auto simp: pd_attach_def Let_def)
    then show ?thesis
      using assms(2-6) pd_complete_assembled [OF assms(6) True] by (auto simp: peer_ok_def pd_ok_def)
  next
    case False
    then have "peer' = peer\<lparr>pdg_size := Suc (length pds), pd_list := pds @ [?pd]\<rparr>" "complete = None"
      using assms(1) ok(4) by (auto simp: pd_attach_def Let_def)
    then show ?thesis using assms(2-5) ok(1,3) by (auto simp: peer_ok_def)
  qed
qed

text \<open>What handling a fragment promises.\<close>

definition handled :: "fragment set \<Rightarrow> (errno option \<times> fwnet_peer \<times> (u8 option list \<times> nat option) option) option \<Rightarrow> bool" where
  "handled F r \<longleftrightarrow> (\<exists>err peer complete. r = Some (err, peer, complete) \<and> peer_ok F peer \<and>
     (\<forall>dat t. complete = Some (dat, t) \<longrightarrow> assembled F dat))"

lemma handled_attach:
  assumes "length pds < FWNET_MAX_FRAGMENTS" "distinct (map datagram_label pds)" "datagram_label pd \<notin> datagram_label ` set pds"
    and "\<forall>p \<in> set pds. pd_ok F p" "pd_ok F pd"
  shows "handled F (Some (None, pd_attach lf et (peer\<lparr>pd_list := pds @ [pd], pdg_size := Suc (length pds)\<rparr>) pd))"
proof -
  obtain peer' c where "pd_attach lf et (peer\<lparr>pd_list := pds @ [pd], pdg_size := Suc (length pds)\<rparr>) pd = (peer', c)" by fastforce
  with pd_attach_ok [OF this assms] show ?thesis by (auto simp: handled_def)
qed

lemma handled_new_label:
  assumes "peer_ok F peer" "bs \<noteq> []" "off + length bs \<le> n" "n \<le> 4096" "(label, n, off, bs) \<in> F"
    and find: "fwnet_pd_find peer label = None"
  shows "handled F (fwnet_incoming_fragment alloc peer lf et off label n bs)"
proof -
  note pok = assms(1) [unfolded peer_ok_def]
  have new: "label \<notin> datagram_label ` set (pd_list peer)"
    using find by (auto simp: fwnet_pd_find_def find_None_iff)
  obtain pds where ev: "pd_evict (pd_list peer) (pdg_size peer) = Some (pds, length pds)" "length pds < FWNET_MAX_FRAGMENTS"
    and k: "\<exists>k. pds = drop k (pd_list peer)"
    using pd_evict_result [of "pdg_size peer" "pd_list peer"] pok by auto
  have pds: "\<forall>p \<in> set pds. pd_ok F p" "distinct (map datagram_label pds)" "label \<notin> datagram_label ` set pds"
    using k pok new by (auto simp: drop_map [symmetric] dest: in_set_dropD)
  show ?thesis
  proof (cases "fwnet_pd_new alloc (peer\<lparr>pd_list := pds, pdg_size := length pds\<rparr>) label n bs off")
    case None
    then show ?thesis
      using ev pds find by (simp add: fwnet_incoming_fragment_def handled_def peer_ok_def)
  next
    case (Some pd)
    have pd: "pd_ok F pd" "datagram_label pd = label"
      using pd_ok_new [OF Some assms(4,3,2), of F] assms(5) by (simp_all add: insert_absorb)
    with pds handled_attach [OF ev(2) pds(2) _ pds(1) pd(1), of lf et peer] show ?thesis
      using ev Some find by (simp add: fwnet_incoming_fragment_def)
  qed
qed

lemma handled_known_label:
  assumes "peer_ok F peer" "bs \<noteq> []" "off + length bs \<le> n" "n \<le> 4096" "(label, n, off, bs) \<in> F"
    and find: "fwnet_pd_find peer label = Some pd"
  shows "handled F (fwnet_incoming_fragment alloc peer lf et off label n bs)"
proof -
  note pok = assms(1) [unfolded peer_ok_def]
  have pd: "pd \<in> set (pd_list peer)" "datagram_label pd = label" "pd_ok F pd"
    using find pok by (auto simp: fwnet_pd_find_def find_Some_iff)
  let ?pds = "pd_remove label (pd_list peer)"
  have pds: "\<forall>p \<in> set ?pds. pd_ok F p" "distinct (map datagram_label ?pds)" "label \<notin> datagram_label ` set ?pds"
    "Suc (length ?pds) = pdg_size peer" "length ?pds < FWNET_MAX_FRAGMENTS"
    using pok pd length_pd_remove [OF pd(1,2)] length_pos_if_in_set [OF pd(1)]
    by (auto simp: pd_remove_filter intro: distinct_map_filter)
  have shape: "peer\<lparr>pd_list := ?pds @ [q]\<rparr> = peer\<lparr>pd_list := ?pds @ [q], pdg_size := Suc (length ?pds)\<rparr>" for q
    using pds(4) by simp
  have drop: "handled F (Some (Some ENOMEM, (fwnet_pd_delete peer label)\<lparr>pdg_size := pdg_size peer - 1\<rparr>, None))"
    using pds pok by (simp add: handled_def peer_ok_def fwnet_pd_delete_def) linarith
  have keep: "handled F (Some (None, pd_attach lf et (peer\<lparr>pd_list := ?pds @ [q]\<rparr>) q))" if "pd_ok F q" "datagram_label q = label" for q
    by (subst shape, rule handled_attach) (use pds that in auto)
  show ?thesis
  proof (cases "fwnet_frag_overlap pd off (length bs) \<or> datagram_size pd \<noteq> n")
    case True
    then show ?thesis
      using pd_ok_new [of alloc "fwnet_pd_delete peer label" label n bs off _ F] find drop keep assms(2-5)
      by (auto simp: fwnet_incoming_fragment_def fwnet_pd_delete_def insert_absorb Let_def split: option.split)
  next
    case False
    then show ?thesis
      using pd_ok_update [of "alloc 1" peer pd bs off _ _ F] find drop keep assms(2,3,5) pd
      by (auto simp: fwnet_incoming_fragment_def insert_absorb split: option.split)
  qed
qed

lemma incoming_fragment_handled:
  assumes "peer_ok F peer" "bs \<noteq> []" "off + length bs \<le> n" "n \<le> 4096"
  shows "handled (insert (label, n, off, bs) F) (fwnet_incoming_fragment alloc peer lf et off label n bs)"
proof -
  have "peer_ok (insert (label, n, off, bs) F) peer" using assms(1) by (rule peer_ok_mono) blast
  from handled_new_label [OF this assms(2-4)] handled_known_label [OF this assms(2-4)] show ?thesis
    by (cases "fwnet_pd_find peer label") auto
qed

section \<open>The device\<close>

type_synonym rx_packets = "(u32 \<times> u32 \<times> bytes) set"

text \<open>The fragments that arrived from a node in a generation.\<close>

definition frags_from :: "rx_packets \<Rightarrow> u32 \<Rightarrow> u32 \<Rightarrow> fragment set" where
  "frags_from P src gen = {f. \<exists>buf. (src, gen, buf) \<in> P \<and> packet_fragment buf = Some f}"

text \<open>A datagram comes from one packet or has been put together from the fragments of one node.\<close>

definition datagram_of :: "rx_packets \<Rightarrow> u8 option list \<Rightarrow> bool" where
  "datagram_of P dat \<longleftrightarrow> (\<exists>src gen buf. (src, gen, buf) \<in> P \<and> dat = map Some (drop 4 buf)) \<or>
    (\<exists>src gen. assembled (frags_from P src gen) dat)"

definition dev_ok :: "rx_packets \<Rightarrow> fwnet_device \<Rightarrow> bool" where
  "dev_ok P dev \<longleftrightarrow>
    (\<forall>peer \<in> set (peer_list dev). peer_ok (frags_from P (pr_node_id peer) (pr_generation peer)) peer) \<and>
    (\<forall>skb \<in> set (rx_log dev). datagram_of P (s_data skb))"

lemma frags_from_mono: "frags_from P src gen \<subseteq> frags_from (insert p P) src gen"
  by (auto simp: frags_from_def)

lemma assembled_mono: "assembled F dat \<Longrightarrow> F \<subseteq> G \<Longrightarrow> assembled G dat"
  unfolding assembled_def using received_mono by meson

lemma datagram_of_mono: "datagram_of P dat \<Longrightarrow> datagram_of (insert p P) dat"
  unfolding datagram_of_def using assembled_mono [OF _ frags_from_mono] by blast

lemma dev_ok_insert: "dev_ok P dev \<Longrightarrow> dev_ok (insert p P) dev"
  unfolding dev_ok_def using peer_ok_mono [OF _ frags_from_mono] datagram_of_mono by blast

lemma dg_size_bound: "0 < fwnet_get_hdr_dg_size h" "fwnet_get_hdr_dg_size h \<le> 4096"
proof -
  have m: "(0x0fff0000 :: u32) = field_mask 16 12" by (simp add: field_mask_def mask_eq_exp_minus_1)
  show "0 < fwnet_get_hdr_dg_size h" "fwnet_get_hdr_dg_size h \<le> 4096"
    using field_get_less_mask [of 16 12 "w0 h"] by (simp_all add: fwnet_get_hdr_dg_size_def m)
qed

text \<open>Handling a fragment leaves the identity of the peer alone.\<close>

lemma incoming_fragment_peer:
  "fwnet_incoming_fragment alloc peer lf et off label n bs = Some (err, peer', c) \<Longrightarrow>
    pr_node_id peer' = pr_node_id peer \<and> pr_generation peer' = pr_generation peer"
  by (auto simp: fwnet_incoming_fragment_def pd_attach_def fwnet_pd_delete_def fwnet_pd_update_def Let_def
      split: option.splits if_splits prod.splits)

lemma set_peer_store:
  "p \<in> set (peer_store nid gen new ps) \<Longrightarrow> p \<in> set ps \<or> p = new"
  by (induction ps) (auto split: if_splits)

lemma finish_keeps_peers:
  "fwnet_finish_incoming_packet env dev dat b et = (err, dev') \<Longrightarrow> peer_list dev' = peer_list dev \<and>
    (\<forall>skb \<in> set (rx_log dev'). skb \<in> set (rx_log dev) \<or> s_data skb = dat)"
  by (auto simp: fwnet_finish_incoming_packet_def Let_def split: if_splits)

lemma finish_dev_ok:
  assumes "dev_ok P dev" "datagram_of P dat" "fwnet_finish_incoming_packet env dev dat b et = (err, dev')"
  shows "dev_ok P dev'"
  using finish_keeps_peers [OF assms(3)] assms(1,2) by (auto simp: dev_ok_def)

lemma incoming_packet_cases:
  obtains (ignored) err dev' where "fwnet_incoming_packet env dev buf src gen b = Some (err, dev')"
      "peer_list dev' = peer_list dev" "rx_log dev' = rx_log dev"
  | (whole) et where "fwnet_incoming_packet env dev buf src gen b = Some (fwnet_finish_incoming_packet env dev (map Some (drop 4 buf)) b et)"
  | (fragment) peer lf et label n off bs where "packet_fragment buf = Some (label, n, off, bs)" "bs \<noteq> []" "off + length bs \<le> n" "n \<le> 4096"
      "fwnet_peer_find_by_node_id dev src gen = Some peer"
      "fwnet_incoming_packet env dev buf src gen b =
        (case fwnet_incoming_fragment (rx_alloc env) peer lf et off label n bs of
           None \<Rightarrow> None
         | Some (err, peer, complete) \<Rightarrow>
             let dev = dev\<lparr>peer_list := peer_store src gen peer (peer_list dev)\<rparr> in
             (case complete of None \<Rightarrow> Some (err, dev)
              | Some (dat, et) \<Rightarrow> Some (fwnet_finish_incoming_packet env dev dat False et)))"
proof -
  let ?hw = "\<lparr>w0 = be32_load buf, w1 = 0\<rparr>" and ?h = "\<lparr>w0 = be32_load buf, w1 = be32_load (drop 4 buf)\<rparr>"
  have h: "fwnet_get_hdr_lf ?hw = fwnet_get_hdr_lf ?h" "?hw\<lparr>w1 := be32_load (drop 4 buf)\<rparr> = ?h" by (simp_all add: fwnet_get_hdr_lf_def)
  define off where "off = (if fwnet_get_hdr_lf ?h = RFC2374_HDR_FIRSTFRAG then 0 else fwnet_get_hdr_fg_off ?h)"
  define n where "n = fwnet_get_hdr_dg_size ?h"
  define bad where "bad \<longleftrightarrow> length buf \<le> 8 \<or> off + length (drop 8 buf) > n \<or> fwnet_peer_find_by_node_id dev src gen = None"
  have found: "\<not> bad \<Longrightarrow> \<exists>peer. fwnet_peer_find_by_node_id dev src gen = Some peer" by (auto simp: bad_def)
  consider "length buf \<le> 4" | "\<not> length buf \<le> 4" "fwnet_get_hdr_lf ?h = RFC2374_HDR_UNFRAG"
    | "\<not> length buf \<le> 4" "fwnet_get_hdr_lf ?h \<noteq> RFC2374_HDR_UNFRAG" bad
    | peer where "\<not> length buf \<le> 4" "fwnet_get_hdr_lf ?h \<noteq> RFC2374_HDR_UNFRAG" "\<not> bad"
        "fwnet_peer_find_by_node_id dev src gen = Some peer"
    using found by blast
  then show ?thesis
  proof cases
    case 1
    then show ?thesis by (intro ignored [of None dev]) (simp_all add: fwnet_incoming_packet_def)
  next
    case 2
    have lf: "fwnet_get_hdr_lf ?hw = RFC2374_HDR_UNFRAG" by (rule trans [OF h(1) 2(2)])
    with 2(1) have eq: "fwnet_incoming_packet env dev buf src gen b =
        (if \<not> rx_alloc env 0 then Some (Some ENOMEM, dev\<lparr>rx_dropped := rx_dropped dev + 1\<rparr>)
         else Some (fwnet_finish_incoming_packet env dev (map Some (drop 4 buf)) b (Some (fwnet_get_hdr_ether_type ?hw))))"
      using lf by (simp add: fwnet_incoming_packet_def Let_def del: drop_map split del: if_split)
    show ?thesis
    proof (cases "rx_alloc env 0")
      case True
      then show ?thesis using eq by (intro whole) simp
    next
      case False
      then show ?thesis using eq by (intro ignored [of "Some ENOMEM" "dev\<lparr>rx_dropped := rx_dropped dev + 1\<rparr>"]) simp_all
    qed
  next
    case 3
    then have "\<exists>err. fwnet_incoming_packet env dev buf src gen b = Some (err, dev)"
      unfolding bad_def fwnet_incoming_packet_def Let_def h off_def [symmetric] n_def [symmetric] by auto
    then show ?thesis using ignored by blast
  next
    case (4 peer)
    then have ok: "8 < length buf" "\<not> off + length (drop 8 buf) > n" by (auto simp: bad_def simp del: length_drop)
    then have "packet_fragment buf = Some (fwnet_get_hdr_dgl ?h, n, off, drop 8 buf)"
      using 4(2) unfolding packet_fragment_def Let_def off_def [symmetric] n_def [symmetric] by simp
    moreover have "fwnet_incoming_packet env dev buf src gen b =
        (case fwnet_incoming_fragment (rx_alloc env) peer (fwnet_get_hdr_lf ?h)
            (if fwnet_get_hdr_lf ?h = RFC2374_HDR_FIRSTFRAG then fwnet_get_hdr_ether_type ?h else 0) off (fwnet_get_hdr_dgl ?h) n (drop 8 buf) of
           None \<Rightarrow> None
         | Some (err, peer, complete) \<Rightarrow>
             let dev = dev\<lparr>peer_list := peer_store src gen peer (peer_list dev)\<rparr> in
             (case complete of None \<Rightarrow> Some (err, dev)
              | Some (dat, et) \<Rightarrow> Some (fwnet_finish_incoming_packet env dev dat False et)))"
      using 4 ok unfolding fwnet_incoming_packet_def Let_def h off_def [symmetric] n_def [symmetric]
      by (simp only: if_False option.case linorder_not_le [THEN iffD2])
    ultimately show ?thesis
      using ok 4(4) dg_size_bound(2) [of ?h] unfolding n_def [symmetric] by (intro fragment) simp_all
  qed
qed

lemma incoming_packet_ok:
  assumes "dev_ok P dev"
  shows "\<exists>err dev'. fwnet_incoming_packet env dev buf src gen b = Some (err, dev') \<and> dev_ok (insert (src, gen, buf) P) dev'"
proof -
  let ?P = "insert (src, gen, buf) P"
  note ok = dev_ok_insert [OF assms, of "(src, gen, buf)"]
  show ?thesis
  proof (cases rule: incoming_packet_cases [of env dev buf src gen b])
    case (ignored err dev')
    then show ?thesis using ok by (auto simp: dev_ok_def)
  next
    case (whole et)
    obtain err dev' where r: "fwnet_finish_incoming_packet env dev (map Some (drop 4 buf)) b et = (err, dev')" by fastforce
    have "datagram_of ?P (map Some (drop 4 buf))" unfolding datagram_of_def by blast
    with finish_dev_ok [OF ok _ r] whole r show ?thesis by simp
  next
    case (fragment peer lf et label n off bs)
    let ?F = "frags_from P src gen" and ?F' = "frags_from ?P src gen"
    have peer: "peer \<in> set (peer_list dev)" "pr_node_id peer = src" "pr_generation peer = gen"
      using fragment(5) by (auto simp: fwnet_peer_find_by_node_id_def find_Some_iff)
    have F: "insert (label, n, off, bs) ?F' = ?F'" using fragment(1) by (auto simp: frags_from_def)
    have "peer_ok ?F' peer" using ok peer by (auto simp: dev_ok_def)
    from incoming_fragment_handled [OF this fragment(2-4), of label "rx_alloc env" lf et]
    obtain err peer' c where r: "fwnet_incoming_fragment (rx_alloc env) peer lf et off label n bs = Some (err, peer', c)"
      "peer_ok ?F' peer'" "\<And>dat t. c = Some (dat, t) \<Longrightarrow> assembled ?F' dat"
      unfolding F handled_def by blast
    let ?dev = "dev\<lparr>peer_list := peer_store src gen peer' (peer_list dev)\<rparr>"
    have dev: "dev_ok ?P ?dev"
      using ok r(2) peer incoming_fragment_peer [OF r(1)] by (auto simp: dev_ok_def dest!: set_peer_store)
    have whole: "datagram_of ?P dat" if "c = Some (dat, t)" for dat t
      using r(3) [OF that] unfolding datagram_of_def by blast
    show ?thesis
    proof (cases c)
      case None
      then show ?thesis using dev fragment(6) r(1) by (simp add: Let_def)
    next
      case (Some p)
      obtain dat t where p: "p = (dat, t)" by fastforce
      obtain err' dev' where f: "fwnet_finish_incoming_packet env ?dev dat False t = (err', dev')" by fastforce
      have "dev_ok ?P dev'" using finish_dev_ok [OF dev whole f] Some p by simp
      then show ?thesis using fragment(6) r(1) f Some p by (simp add: Let_def)
    qed
  qed
qed

text \<open>Runs of the receive side from a state without partial datagrams: the packets that have arrived.\<close>

inductive rx_run :: "fwnet_device \<Rightarrow> rx_packets \<Rightarrow> bool" where
  rx_start: "\<forall>peer \<in> set (peer_list dev). pd_list peer = [] \<and> pdg_size peer = 0 \<Longrightarrow> rx_log dev = [] \<Longrightarrow> rx_run dev {}"
| rx_packet: "rx_run dev P \<Longrightarrow> fwnet_incoming_packet env dev buf src gen b = Some (err, dev') \<Longrightarrow>
    rx_run dev' (insert (src, gen, buf) P)"

lemma rx_run_ok: "rx_run dev P \<Longrightarrow> dev_ok P dev"
proof (induction rule: rx_run.induct)
  case (rx_start dev)
  then show ?case by (simp add: dev_ok_def peer_ok_def)
next
  case (rx_packet dev P env buf src gen b err dev')
  then show ?case using incoming_packet_ok [of P dev env buf src gen b] by auto
qed


text \<open>C18.  The lists of partial datagrams stay in order: in every run each peer counts its partial datagrams
  correctly and has at most thirty, with different labels; the next packet is handled without reading the first entry
  of an empty list.\<close>

theorem partial_datagrams_bounded:
  assumes "rx_run dev P"
  shows "(\<forall>peer \<in> set (peer_list dev). pdg_size peer = length (pd_list peer) \<and> pdg_size peer \<le> FWNET_MAX_FRAGMENTS \<and>
      distinct (map datagram_label (pd_list peer))) \<and>
    (\<exists>err dev'. fwnet_incoming_packet env dev buf src gen b = Some (err, dev'))"
  using rx_run_ok [OF assms] incoming_packet_ok [OF rx_run_ok [OF assms], of env buf src gen b]
  by (auto simp: dev_ok_def peer_ok_def)

section \<open>Examples\<close>

definition example_peer :: fwnet_peer where
  "example_peer = \<lparr>pr_guid = 1, pd_list = [], pdg_size = 0, pr_datagram_label = 0, pr_max_payload = 504, pr_node_id = 0xffc1,
     pr_generation = 3, pr_speed = 2\<rparr>"

definition example_net :: fwnet_device where
  "example_net = \<lparr>peer_list = [example_peer], peer_count = 1, dev_addr = replicate 16 0, rx_errors = 0, rx_dropped = 0,
     rx_packets = 0, rx_bytes = 0, rx_log = []\<rparr>"

definition example_rx_env :: rx_env where
  "example_rx_env = \<lparr>rx_alloc = (\<lambda>_. True), netif_rx = (\<lambda>_. True), ipv6_enabled = True, rx_uninit = ETH_P_IP\<rparr>"

lemmas example_net_defs = example_peer_def example_net_def example_rx_env_def

text \<open>An unfragmented IP packet of three bytes.\<close>

abbreviation example_packet :: bytes where
  "example_packet \<equiv> [0, 0, 8, 0, 1, 2, 3]"

lemma example_received:
  obtains err dev where "fwnet_incoming_packet example_rx_env example_net example_packet 0xffc1 3 False = Some (err, dev)"
    "map s_data (rx_log dev) = [map Some [1, 2, 3]]"
  by (simp add: fwnet_incoming_packet_def fwnet_finish_incoming_packet_def example_net_defs be32_load_def fwnet_get_hdr_lf_def
      fwnet_get_hdr_ether_type_def field_get_def accepted_ether_type_def fwnet_hwaddr_is_multicast_def Let_def)

lemma example_rx_start: "rx_run example_net {}"
  by (rule rx_start) (simp_all add: example_net_defs)


theorem partial_datagrams_bounded_witness:
  "pdg_size example_peer = 0 \<and> (\<exists>err dev'. fwnet_incoming_packet example_rx_env example_net example_packet 0xffc1 3 False = Some (err, dev'))"
  using partial_datagrams_bounded [OF example_rx_start, of example_rx_env example_packet "0xffc1" 3 False]
  by (simp add: example_net_def example_peer_def)

section \<open>Where reassembly falls short\<close>

text \<open>Adding a list of fragments, each given by offset and length.\<close>

fun add_fragments :: "fwnet_fragment_info list \<Rightarrow> (nat \<times> nat) list \<Rightarrow> fwnet_fragment_info list option" where
  "add_fragments fis [] = Some fis"
| "add_fragments fis ((off, len) # fs) =
    (case frag_new_loop True [] fis off len of None \<Rightarrow> None | Some fis \<Rightarrow> add_fragments fis fs)"

text \<open>Fragments out of order can get stuck: when a datagram of four equal fragments arrives in the order first, third,
  fourth, second, then the search for the place of the fourth fragment stops at the first list entry, the list is no
  longer sorted, and the fragments are never joined: every byte has been received, the datagram is not
  complete, and since any further fragment overlaps, it never will be.\<close>

lemma reordered_fragments_stall:
  assumes "0 < k" "4 * k \<le> 4096" "fi_list pd = [frag 0 k]" "datagram_size pd = 4 * k"
  shows "\<exists>fis. add_fragments (fi_list pd) [(2 * k, k), (3 * k, k), (k, k)] = Some fis \<and>
    (\<forall>i < 4 * k. covered fis i) \<and> \<not> fwnet_pd_is_complete (pd\<lparr>fi_list := fis\<rparr>) \<and>
    (\<forall>off len. 0 < len \<longrightarrow> off + len \<le> 4 * k \<longrightarrow> fwnet_frag_overlap (pd\<lparr>fi_list := fis\<rparr>) off len)"
proof -
  have r: "add_fragments (fi_list pd) [(2 * k, k), (3 * k, k), (k, k)] = Some [frag 0 (2 * k), frag (3 * k) k, frag (2 * k) k]"
    using assms by (simp add: new_fi_def fi_grow_def small_mod)
  then show ?thesis
    using assms by (intro exI [of _ "[frag 0 (2 * k), frag (3 * k) k, frag (2 * k) k]"])
      (auto simp: fwnet_pd_is_complete_def fwnet_frag_overlap_def)
qed

text \<open>The ether type of a datagram is not always set: a last or interior fragment that starts at offset 0 and holds
  the whole datagram completes it at once, and the datagram is delivered under the ether type that happens to be in the
  freshly allocated memory.\<close>

lemma ether_type_uninitialized:
  assumes "lf \<noteq> RFC2374_HDR_FIRSTFRAG" "pd_list peer = []" "pdg_size peer = 0" "bs \<noteq> []" "length bs \<le> 4096"
  shows "fwnet_incoming_fragment (\<lambda>_. True) peer lf et 0 label (length bs) bs = Some (None, peer, Some (map Some bs, None))"
proof -
  have "pd_evict [] 0 = Some ([], 0)" by (simp add: pd_evict.simps)
  then show ?thesis
    using assms by (simp add: fwnet_incoming_fragment_def fwnet_pd_find_def fwnet_pd_new_def fwnet_frag_new_def pd_attach_def
        fwnet_pd_is_complete_def new_fi_def buf_write_def)
qed

end
