(* ===== verification/Net_Transmit.thy ===== *)
theory Net_Transmit
  imports Net_Receive_Proofs
begin

text \<open>
  IP over IEEE 1394, the transmit side of \<^verbatim>\<open>drivers/firewire/net.c\<close>: choosing between one packet and
  fragments, sending the fragments one after another, and the accounting of packet tasks.  A packet
  is sent in two halves, the submission of the request and the rest of \<open>fwnet_send_packet\<close>, because the completion
  callback can run between them.
\<close>

section \<open>Packet tasks\<close>

abbreviation (input) FWNET_MAX_QUEUED_DATAGRAMS :: int where "FWNET_MAX_QUEUED_DATAGRAMS \<equiv> 20"
abbreviation (input) FWNET_MIN_QUEUED_DATAGRAMS :: int where "FWNET_MIN_QUEUED_DATAGRAMS \<equiv> 10"
abbreviation (input) FWNET_NO_FIFO_ADDR :: u64 where "FWNET_NO_FIFO_ADDR \<equiv> 0xffffffffffffffff"

text \<open>\<open>pt_skb\<close> holds the bytes from \<open>skb->data\<close> on: pushing a header prepends, pulling drops.\<close>

record fwnet_packet_task =
  pt_hdr :: rfc2734_header
  pt_skb :: bytes
  pt_proto :: nat
  outstanding_pkts :: int
  pt_fifo_addr :: u64
  pt_dest_node :: u32
  pt_max_payload :: nat
  pt_generation :: u8
  pt_speed :: u8
  enqueued :: bool

text \<open>A request given to the core: transaction code, destination, generation, speed, offset and payload.\<close>

record tx_request =
  q_tcode :: u32
  q_destination :: u32
  q_generation :: u32
  q_speed :: u32
  q_offset :: u64
  q_payload :: bytes

record tx_dev =
  xd_peers :: "fwnet_peer list"
  xd_card_generation :: u32
  xd_card_node_id :: u32
  broadcast_xmt_max_payload :: nat
  broadcast_xmt_datagramlabel :: nat
  queued_datagrams :: int
  queue_stopped :: bool
  tx_packets :: nat
  tx_bytes :: nat
  tx_dropped :: nat
  tx_errors :: nat
  xd_log :: "tx_request list"

text \<open>See IEEE 1394-2008 table 6-4, table 8-8, table 16-18.\<close>

definition fwnet_max_payload :: "nat \<Rightarrow> nat \<Rightarrow> nat" where
  "fwnet_max_payload max_rec speed =
    (let max_rec = min max_rec (speed + 8);
         max_rec = max 8 (min max_rec 11)
     in 2 ^ (max_rec + 1) - RFC2374_FRAG_HDR_SIZE)"

definition dec_queued_datagrams :: "tx_dev \<Rightarrow> tx_dev" where
  "dec_queued_datagrams dev =
    (let dev = dev\<lparr>queued_datagrams := queued_datagrams dev - 1\<rparr>
     in if queued_datagrams dev = FWNET_MIN_QUEUED_DATAGRAMS then dev\<lparr>queue_stopped := False\<rparr> else dev)"

definition fw_stream_packet_destination_id :: "u32 \<Rightarrow> u32 \<Rightarrow> u32 \<Rightarrow> u32" where
  "fw_stream_packet_destination_id tag channel sy = push_bit 14 tag OR push_bit 8 channel OR sy"

section \<open>Sending a packet\<close>

definition push_encapsulation :: "fwnet_packet_task \<Rightarrow> bytes option" where
  "push_encapsulation ptask =
    (let lf = fwnet_get_hdr_lf (pt_hdr ptask) in
     if lf = RFC2374_HDR_UNFRAG then Some (be32_bytes (w0 (pt_hdr ptask)) @ pt_skb ptask)
     else if lf \<in> {RFC2374_HDR_FIRSTFRAG, RFC2374_HDR_INTFRAG, RFC2374_HDR_LASTFRAG}
     then Some (be32_bytes (w0 (pt_hdr ptask)) @ be32_bytes (w1 (pt_hdr ptask)) @ pt_skb ptask)
     else None)"

text \<open>The first half; \<open>None\<close> is \<open>BUG\<close>.\<close>

definition fwnet_send_submit :: "bool \<Rightarrow> tx_dev \<Rightarrow> fwnet_packet_task \<Rightarrow> (tx_dev \<times> fwnet_packet_task) option" where
  "fwnet_send_submit ipv6 dev ptask =
    (case push_encapsulation ptask of
       None \<Rightarrow> None
     | Some skb \<Rightarrow>
         let tx_len = pt_max_payload ptask in
         if pt_dest_node ptask = IEEE1394_ALL_NODES then
           let sw_version = (if ipv6 \<and> pt_proto ptask = ETH_P_IPV6 then 2 else 1) :: u32;
               skb = be32_bytes (push_bit 16 (xd_card_node_id dev) OR drop_bit 8 0x5e) @
                     be32_bytes (push_bit 24 (0x5e AND 0xff) OR sw_version) @ skb;
               request = \<lparr>q_tcode = TCODE_STREAM_DATA, q_destination = fw_stream_packet_destination_id 3 31 0,
                          q_generation = xd_card_generation dev, q_speed = SCODE_100, q_offset = 0,
                          q_payload = take (tx_len + 8) skb\<rparr>
           in Some (dev\<lparr>xd_log := xd_log dev @ [request]\<rparr>, ptask\<lparr>pt_skb := skb\<rparr>)
         else
           let request = \<lparr>q_tcode = TCODE_WRITE_BLOCK_REQUEST, q_destination = pt_dest_node ptask,
                          q_generation = ucast (pt_generation ptask), q_speed = ucast (pt_speed ptask),
                          q_offset = pt_fifo_addr ptask, q_payload = take tx_len skb\<rparr>
           in Some (dev\<lparr>xd_log := xd_log dev @ [request]\<rparr>, ptask\<lparr>pt_skb := skb\<rparr>))"

text \<open>The second half: whether the packet task is freed.\<close>

definition fwnet_send_tail :: "tx_dev \<Rightarrow> fwnet_packet_task \<Rightarrow> bool \<times> tx_dev \<times> fwnet_packet_task" where
  "fwnet_send_tail dev ptask =
    (let free = (outstanding_pkts ptask = 0 \<and> \<not> enqueued ptask)
     in if \<not> free then (False, dev, ptask\<lparr>enqueued := True\<rparr>) else (True, dec_queued_datagrams dev, ptask))"

section \<open>Completion of a packet\<close>

text \<open>The next fragment's header and the rest of the datagram; \<open>None\<close> is \<open>BUG\<close>.\<close>

definition next_fragment :: "fwnet_packet_task \<Rightarrow> fwnet_packet_task option" where
  "next_fragment ptask =
    (let hdr = pt_hdr ptask;
         lf = fwnet_get_hdr_lf hdr in
     if lf \<noteq> RFC2374_HDR_FIRSTFRAG \<and> lf \<noteq> RFC2374_HDR_INTFRAG then None
     else
       let dg_size = fwnet_get_hdr_dg_size hdr mod 2 ^ 16;
           fg_off = ((if lf = RFC2374_HDR_FIRSTFRAG then 0 else fwnet_get_hdr_fg_off hdr)
                     + pt_max_payload ptask - RFC2374_FRAG_HDR_SIZE) mod 2 ^ 16;
           label = fwnet_get_hdr_dgl hdr;
           skb = drop (if pt_dest_node ptask = IEEE1394_ALL_NODES then pt_max_payload ptask + IEEE1394_GASP_HDR_SIZE
                       else pt_max_payload ptask) (pt_skb ptask) in
       if outstanding_pkts ptask > 1
       then Some (ptask\<lparr>pt_skb := skb, pt_hdr := fwnet_make_sf_hdr hdr RFC2374_HDR_INTFRAG dg_size fg_off label\<rparr>)
       else Some (ptask\<lparr>pt_skb := skb, pt_hdr := fwnet_make_sf_hdr hdr RFC2374_HDR_LASTFRAG dg_size fg_off label,
                        pt_max_payload := (length skb + RFC2374_FRAG_HDR_SIZE) mod 2 ^ 16\<rparr>))"

text \<open>What is left to do after the accounting: nothing, free the task, or send the next fragment.\<close>

datatype done_next = Done_nothing | Done_free | Done_send fwnet_packet_task

definition fwnet_transmit_packet_done :: "tx_dev \<Rightarrow> fwnet_packet_task \<Rightarrow> (tx_dev \<times> fwnet_packet_task \<times> done_next) option" where
  "fwnet_transmit_packet_done dev ptask =
    (let ptask = ptask\<lparr>outstanding_pkts := outstanding_pkts ptask - 1\<rparr>;
         free = (outstanding_pkts ptask = 0 \<and> enqueued ptask);
         dev = (if free then dec_queued_datagrams dev else dev);
         dev = (if outstanding_pkts ptask = 0
                then dev\<lparr>tx_packets := tx_packets dev + 1, tx_bytes := tx_bytes dev + length (pt_skb ptask)\<rparr> else dev) in
     if outstanding_pkts ptask > 0 then map_option (\<lambda>next. (dev, ptask, Done_send next)) (next_fragment ptask)
     else Some (dev, ptask, if free then Done_free else Done_nothing))"

definition fwnet_transmit_packet_failed :: "tx_dev \<Rightarrow> fwnet_packet_task \<Rightarrow> bool \<times> tx_dev \<times> fwnet_packet_task" where
  "fwnet_transmit_packet_failed dev ptask =
    (let ptask = ptask\<lparr>outstanding_pkts := 0\<rparr>;
         free = enqueued ptask;
         dev = (if free then dec_queued_datagrams dev else dev)
     in (free, dev\<lparr>tx_dropped := tx_dropped dev + 1, tx_errors := tx_errors dev + 1\<rparr>, ptask))"

section \<open>A datagram from the network layer\<close>

text \<open>The pseudo header in front of a datagram: the sixteen bytes of the destination and the protocol.\<close>

definition be64_load :: "bytes \<Rightarrow> u64" where
  "be64_load bs = push_bit 32 (ucast (be32_load bs)) OR ucast (be32_load (drop 4 bs))"

definition be48_load :: "bytes \<Rightarrow> u64" where
  "be48_load bs = push_bit 32 (push_bit 8 (ucast (bs ! 0)) OR ucast (bs ! 1)) OR ucast (be32_load (drop 2 bs))"

fun peer_set_label :: "u64 \<Rightarrow> nat \<Rightarrow> fwnet_peer list \<Rightarrow> fwnet_peer list" where
  "peer_set_label g l [] = []"
| "peer_set_label g l (peer # peers) =
    (if pr_guid peer = g then peer\<lparr>pr_datagram_label := l\<rparr> # peers else peer # peer_set_label g l peers)"

datatype tx_result = Tx_busy | Tx_dropped tx_dev | Tx_task tx_dev fwnet_packet_task

text \<open>The common end of \<open>fwnet_tx\<close>: one packet or the first of several fragments.  \<open>set_label\<close> stores the
  incremented datagram label of the peer or of the device.\<close>

definition start_task :: "tx_dev \<Rightarrow> bytes \<Rightarrow> nat \<Rightarrow> nat \<Rightarrow> nat \<Rightarrow> nat \<Rightarrow> (tx_dev \<Rightarrow> nat \<Rightarrow> tx_dev) \<Rightarrow> u64 \<Rightarrow> u8 \<Rightarrow> u32 \<Rightarrow> u8 \<Rightarrow> tx_result" where
  "start_task dev skb proto dg_size max_payload label set_label fifo gen dest speed =
    (let single = (dg_size \<le> max_payload);
         hdr = \<lparr>w0 = 0, w1 = 0\<rparr>;
         data_size = max_payload - RFC2374_FRAG_OVERHEAD;
         ptask = \<lparr>pt_hdr = (if single then fwnet_make_uf_hdr hdr proto else fwnet_make_ff_hdr hdr proto dg_size label),
                  pt_skb = skb, pt_proto = proto,
                  outstanding_pkts = (if single then 1 else int ((dg_size + data_size - 1) div data_size)),
                  pt_fifo_addr = fifo, pt_dest_node = dest,
                  pt_max_payload = (if single then dg_size + RFC2374_UNFRAG_HDR_SIZE
                                    else data_size + RFC2374_FRAG_HDR_SIZE) mod 2 ^ 16,
                  pt_generation = gen, pt_speed = speed, enqueued = False\<rparr>;
         dev = (if single then dev else set_label dev ((label + 1) mod 2 ^ 16));
         dev = dev\<lparr>queued_datagrams := queued_datagrams dev + 1\<rparr>;
         dev = (if queued_datagrams dev = FWNET_MAX_QUEUED_DATAGRAMS then dev\<lparr>queue_stopped := True\<rparr> else dev)
     in Tx_task dev ptask)"

text \<open>\<open>skb\<close> is the datagram behind the pseudo header.  \<open>alloc\<close> says whether there is memory for the task and an unshared buffer; the task is then sent.\<close>

definition fwnet_tx :: "bool \<Rightarrow> bool \<Rightarrow> tx_dev \<Rightarrow> nat \<Rightarrow> bytes \<Rightarrow> bytes \<Rightarrow> tx_result" where
  "fwnet_tx ipv6 alloc dev proto h_dest skb =
    (let drop = Tx_dropped (dev\<lparr>tx_dropped := tx_dropped dev + 1, tx_errors := tx_errors dev + 1\<rparr>) in
     if queue_stopped dev then Tx_busy
     else if \<not> alloc then drop
     else if \<not> (proto = ETH_P_ARP \<or> proto = ETH_P_IP \<or> (ipv6 \<and> proto = ETH_P_IPV6)) then drop
     else
       let dg_size = length skb mod 2 ^ 16;
           multicast = fwnet_hwaddr_is_multicast h_dest;
           g = be64_load h_dest in
       case (if multicast then None else find (\<lambda>peer. pr_guid peer = g) (xd_peers dev)) of
         None \<Rightarrow> if \<not> multicast then drop else
           start_task dev skb proto dg_size (broadcast_xmt_max_payload dev) (broadcast_xmt_datagramlabel dev)
             (\<lambda>dev l. dev\<lparr>broadcast_xmt_datagramlabel := l\<rparr>) FWNET_NO_FIFO_ADDR 0 IEEE1394_ALL_NODES (ucast SCODE_100)
       | Some peer \<Rightarrow>
           start_task dev skb proto dg_size (pr_max_payload peer) (pr_datagram_label peer)
             (\<lambda>dev l. dev\<lparr>xd_peers := peer_set_label g l (xd_peers dev)\<rparr>) (be48_load (List.drop 10 h_dest))
             (ucast (pr_generation peer)) (ucast (ucast (pr_node_id peer) :: u16)) (ucast (pr_speed peer)))"

section \<open>All fragments of a datagram\<close>

text \<open>The life of a packet task when every packet is acknowledged: submit, finish the call, complete, and so on.  The
  fuel bounds the number of packets.\<close>

fun transmit_all :: "nat \<Rightarrow> bool \<Rightarrow> tx_dev \<Rightarrow> fwnet_packet_task \<Rightarrow> tx_dev option" where
  "transmit_all 0 ipv6 dev ptask = None"
| "transmit_all (Suc fuel) ipv6 dev ptask =
    (case fwnet_send_submit ipv6 dev ptask of
       None \<Rightarrow> None
     | Some (dev, ptask) \<Rightarrow>
         let (_, dev, ptask) = fwnet_send_tail dev ptask in
         (case fwnet_transmit_packet_done dev ptask of
            None \<Rightarrow> None
          | Some (dev, ptask, Done_send next) \<Rightarrow> transmit_all fuel ipv6 dev next
          | Some (dev, ptask, _) \<Rightarrow> Some dev))"

text \<open>The packets as they should be: the encapsulation of a datagram by RFC 2734.\<close>

definition fragment_packet :: "u32 \<Rightarrow> nat \<Rightarrow> nat \<Rightarrow> nat \<Rightarrow> bytes \<Rightarrow> bytes" where
  "fragment_packet lf x dg_size label bs =
    be32_bytes (push_bit 30 lf OR push_bit 16 (of_nat dg_size - 1) OR of_nat x) @ be32_bytes (push_bit 16 (of_nat label)) @ bs"

text \<open>The fragments from offset \<open>off\<close> on.\<close>

function later_fragments :: "nat \<Rightarrow> nat \<Rightarrow> nat \<Rightarrow> nat \<Rightarrow> bytes \<Rightarrow> bytes list" where
  "later_fragments k dg_size label off bs =
    (if k = 0 \<or> length bs \<le> k then [fragment_packet RFC2374_HDR_LASTFRAG off dg_size label bs]
     else fragment_packet RFC2374_HDR_INTFRAG off dg_size label (take k bs) # later_fragments k dg_size label (off + k) (drop k bs))"
  by pat_completeness auto
termination by (relation "measure (\<lambda>(k, n, l, off, bs). length bs)") auto

declare later_fragments.simps [simp del]

definition datagram_packets :: "nat \<Rightarrow> nat \<Rightarrow> nat \<Rightarrow> bytes \<Rightarrow> bytes list" where
  "datagram_packets max_payload proto label bs =
    (if length bs \<le> max_payload then [be32_bytes (of_nat proto) @ bs]
     else let k = max_payload - RFC2374_FRAG_OVERHEAD
          in fragment_packet RFC2374_HDR_FIRSTFRAG proto (length bs) label (take k bs) #
             later_fragments k (length bs) label k (drop k bs))"

end
