(* ===== verification/Net_Proofs.thy ===== *)
theory Net_Proofs
  imports Net_Transmit
begin

text \<open>
  IP over IEEE 1394 from end to end: the transmit side produces the encapsulation of RFC 2734, and a datagram that is
  sent in fragments and received in order arrives unchanged.  The second part follows the life of a packet task under
  all interleavings of its completion callbacks with the call that sends it.
\<close>

section \<open>Headers\<close>

lemma bits_of_small_nat: "n < 2 ^ k \<Longrightarrow> bit n i \<Longrightarrow> i < k" for n :: nat
  by (metis bit_take_bit_iff take_bit_nat_eq_self)

lemma bits_of_small: "n < 2 ^ k \<Longrightarrow> bit (of_nat n :: u32) i \<Longrightarrow> i < k"
  using bits_of_small_nat [of n k i] by (simp add: bit_simps)

lemma hdr_word_fields:
  fixes lf a x :: u32
  assumes "\<And>i. bit lf i \<Longrightarrow> i < 2" "\<And>i. bit a i \<Longrightarrow> i < 12" "\<And>i. bit x i \<Longrightarrow> i < 16"
  shows "field_get 0xc0000000 30 (push_bit 30 lf OR push_bit 16 a OR x) = lf"
    "field_get 0x0fff0000 16 (push_bit 30 lf OR push_bit 16 a OR x) = a"
    "(push_bit 30 lf OR push_bit 16 a OR x) AND 0x0000ffff = x"
proof -
  have m: "(0xc0000000 :: u32) = field_mask 30 2" "(0x0fff0000 :: u32) = field_mask 16 12" "(0x0000ffff :: u32) = field_mask 0 16"
    by (simp_all add: field_mask_def mask_eq_exp_minus_1)
  show "field_get 0xc0000000 30 (push_bit 30 lf OR push_bit 16 a OR x) = lf"
    "field_get 0x0fff0000 16 (push_bit 30 lf OR push_bit 16 a OR x) = a"
    "(push_bit 30 lf OR push_bit 16 a OR x) AND 0x0000ffff = x"
    unfolding m field_get_def
    by (intro bit_word_eqI; force simp: bit_simps dest: assms)+
qed

lemma fg_off_field:
  fixes lf a x :: u32
  assumes "\<And>i. bit x i \<Longrightarrow> i < 12"
  shows "(push_bit 30 lf OR push_bit 16 a OR x) AND 0x00000fff = x"
proof -
  have m: "(0x00000fff :: u32) = field_mask 0 12" by (simp add: field_mask_def mask_eq_exp_minus_1)
  show ?thesis unfolding m by (intro bit_word_eqI) (auto simp: bit_simps dest: assms)
qed

lemma unat_small: "n < 2 ^ 32 \<Longrightarrow> unat (of_nat n :: u32) = n"
  unfolding unat_of_nat by (simp add: take_bit_nat_eq_self)

text \<open>A header word as the sender builds it, read back by the receiver.\<close>

lemma hdr_read_back:
  assumes "lf \<in> {0, 1, 2, 3}" "0 < n" "n \<le> 4096" "x < 2 ^ 16" "label < 2 ^ 16"
    and h: "w0 h = push_bit 30 lf OR push_bit 16 (of_nat n - 1) OR of_nat x" "w1 h = push_bit 16 (of_nat label)"
  shows "fwnet_get_hdr_lf h = lf" "fwnet_get_hdr_dg_size h = n" "fwnet_get_hdr_ether_type h = x" "fwnet_get_hdr_dgl h = label"
    "x < 4096 \<Longrightarrow> fwnet_get_hdr_fg_off h = x"
proof -
  have a: "(of_nat n - 1 :: u32) = of_nat (n - 1)" using assms(2) by (simp add: of_nat_diff)
  have lf: "\<And>i. bit lf i \<Longrightarrow> i < 2"
    using assms(1) bits_of_small [of 1 2] bits_of_small [of 2 2] bits_of_small [of 3 2] by auto
  have "n - 1 < 2 ^ 12" using assms(2,3) by simp
  then have bits: "\<And>i. bit (of_nat (n - 1) :: u32) i \<Longrightarrow> i < 12" "\<And>i. bit (of_nat x :: u32) i \<Longrightarrow> i < 16"
    using bits_of_small assms(4) by blast+
  have "field_get 0xc0000000 30 (w0 h) = lf" "field_get 0x0fff0000 16 (w0 h) = of_nat (n - 1)" "w0 h AND 0x0000ffff = of_nat x"
    unfolding h a by (rule hdr_word_fields; use lf bits in blast)+
  then show "fwnet_get_hdr_lf h = lf" "fwnet_get_hdr_dg_size h = n" "fwnet_get_hdr_ether_type h = x"
    unfolding fwnet_get_hdr_lf_def fwnet_get_hdr_dg_size_def fwnet_get_hdr_ether_type_def
    using assms(2,3,4) unat_small [of "n - 1"] unat_small [of x] by simp_all
  show "fwnet_get_hdr_fg_off h = x" if "x < 4096"
  proof -
    have "\<And>i. bit (of_nat x :: u32) i \<Longrightarrow> i < 12" using bits_of_small [of x 12] that by simp
    from fg_off_field [OF this] show ?thesis
      unfolding fwnet_get_hdr_fg_off_def h using assms(4) unat_small [of x] by simp
  qed
  have m: "(0xffff0000 :: u32) = field_mask 16 16" by (simp add: field_mask_def mask_eq_exp_minus_1)
  have "field_get 0xffff0000 16 (push_bit 16 (of_nat label :: u32)) = of_nat label"
    unfolding m field_get_def by (intro bit_word_eqI) (auto simp: bit_simps dest: bits_of_small_nat [OF assms(5)])
  then show "fwnet_get_hdr_dgl h = label"
    unfolding fwnet_get_hdr_dgl_def h using assms(5) unat_small [of label] by simp
qed

section \<open>The packets of a datagram\<close>

lemma ceil_div:
  assumes "0 < (k :: nat)" "k < m"
  shows "(m + k - 1) div k = Suc ((m - k + k - 1) div k)" "1 < (m + k - 1) div k"
proof -
  have e: "m + k - 1 = (m - 1) + k" "m - k + k - 1 = m - 1" using assms by auto
  show s: "(m + k - 1) div k = Suc ((m - k + k - 1) div k)" unfolding e using assms(1) div_add_self2 [of k "m - 1"] by simp
  have "0 < (m - 1) div k" using assms by (simp add: div_greater_zero_iff)
  then show "1 < (m + k - 1) div k" unfolding s unfolding e by simp
qed

lemma ceil_div_one:
  assumes "0 < (k :: nat)" "0 < m" "m \<le> k"
  shows "(m + k - 1) div k = 1"
proof -
  have e: "m + k - 1 = (m - 1) + k" "m - 1 < k" using assms by auto
  show ?thesis unfolding e(1) using assms(1) e(2) div_add_self2 [of k "m - 1"] by simp
qed

text \<open>The request in which a packet of the task goes out.\<close>

definition task_request :: "fwnet_packet_task \<Rightarrow> bytes \<Rightarrow> tx_request" where
  "task_request ptask bs = \<lparr>q_tcode = TCODE_WRITE_BLOCK_REQUEST, q_destination = pt_dest_node ptask,
     q_generation = ucast (pt_generation ptask), q_speed = ucast (pt_speed ptask), q_offset = pt_fifo_addr ptask, q_payload = bs\<rparr>"

definition same_target :: "fwnet_packet_task \<Rightarrow> fwnet_packet_task \<Rightarrow> bool" where
  "same_target p q \<longleftrightarrow> pt_dest_node p = pt_dest_node q \<and> pt_generation p = pt_generation q \<and> pt_speed p = pt_speed q \<and>
     pt_fifo_addr p = pt_fifo_addr q"

lemma same_target_request: "same_target p q \<Longrightarrow> task_request p = task_request q"
  by (rule ext) (simp add: same_target_def task_request_def)

text \<open>A task about to send a fragment of type \<open>lf\<close> whose header holds \<open>x\<close>, with the bytes \<open>bs\<close> left and
  room for \<open>k\<close> bytes per packet.\<close>

definition at_fragment :: "nat \<Rightarrow> nat \<Rightarrow> nat \<Rightarrow> u32 \<Rightarrow> nat \<Rightarrow> bytes \<Rightarrow> fwnet_packet_task \<Rightarrow> bool" where
  "at_fragment k n label lf x bs p \<longleftrightarrow> pt_dest_node p \<noteq> IEEE1394_ALL_NODES \<and> pt_skb p = bs \<and>
     w0 (pt_hdr p) = push_bit 30 lf OR push_bit 16 (of_nat n - 1) OR of_nat x \<and> w1 (pt_hdr p) = push_bit 16 (of_nat label) \<and>
     outstanding_pkts p = int ((length bs + k - 1) div k) \<and>
     pt_max_payload p = (if lf = RFC2374_HDR_LASTFRAG then length bs else k) + RFC2374_FRAG_HDR_SIZE"

lemma submit_fragment:
  assumes "at_fragment k n label lf x bs p" "lf \<in> {1, 2, 3}" "0 < n" "n \<le> 4096" "x < 2 ^ 16" "label < 2 ^ 16"
  shows "\<exists>p'. fwnet_send_submit ipv6 dev p =
      Some (dev\<lparr>xd_log := xd_log dev @ [task_request p (fragment_packet lf x n label (if lf = RFC2374_HDR_LASTFRAG then bs else take k bs))]\<rparr>, p') \<and>
    p' = p\<lparr>pt_skb := be32_bytes (w0 (pt_hdr p)) @ be32_bytes (w1 (pt_hdr p)) @ bs\<rparr>"
proof -
  have lf: "fwnet_get_hdr_lf (pt_hdr p) = lf"
    using hdr_read_back(1) [OF _ assms(3-6)] assms(1,2) unfolding at_fragment_def by blast
  show ?thesis
    using assms(1,2) lf
    by (auto simp: fwnet_send_submit_def push_encapsulation_def at_fragment_def task_request_def fragment_packet_def)
qed

text \<open>Completion of a packet that is not the last leads to the next fragment.\<close>

lemma next_after_fragment:
  assumes "at_fragment k n label lf x bs p" "lf \<in> {1, 3}" "0 < k" "k < length bs" "off + length bs = n" "n \<le> 4096" "x < 2 ^ 16" "label < 2 ^ 16"
    and off: "lf = RFC2374_HDR_FIRSTFRAG \<Longrightarrow> off = 0" "lf = RFC2374_HDR_INTFRAG \<Longrightarrow> x = off"
  defines "lf' \<equiv> (if length bs - k \<le> k then RFC2374_HDR_LASTFRAG else RFC2374_HDR_INTFRAG)"
  shows "\<exists>dev' p1 p'. fwnet_transmit_packet_done dev
      (p\<lparr>pt_skb := be32_bytes (w0 (pt_hdr p)) @ be32_bytes (w1 (pt_hdr p)) @ bs, enqueued := e\<rparr>) = Some (dev', p1, Done_send p') \<and>
    xd_log dev' = xd_log dev \<and> same_target p' p \<and> at_fragment k n label lf' (off + k) (drop k bs) p'"
proof -
  note p = assms(1) [unfolded at_fragment_def]
  have n: "0 < n" "x < 4096 \<or> lf = 1" using assms(2,4,5,6) off(2) by auto
  have "w0 (pt_hdr p) = push_bit 30 lf OR push_bit 16 (of_nat n - 1) OR of_nat x" "w1 (pt_hdr p) = push_bit 16 (of_nat label)"
    using p by blast+
  note h = hdr_read_back [OF _ n(1) assms(6,7,8) this]
  have lf: "fwnet_get_hdr_lf (pt_hdr p) = lf" "fwnet_get_hdr_dg_size (pt_hdr p) = n" "fwnet_get_hdr_dgl (pt_hdr p) = label"
    "lf = 3 \<Longrightarrow> fwnet_get_hdr_fg_off (pt_hdr p) = off"
    using h assms(2) n(2) off(2) by auto
  have out: "outstanding_pkts p - 1 = int ((length (drop k bs) + k - 1) div k)"
    using p ceil_div(1) [OF assms(3,4)] by simp
  have pos: "0 < (length (drop k bs) + k - 1) div k" using assms(3,4) by (simp add: div_greater_zero_iff)
  have one: "1 < (length (drop k bs) + k - 1) div k \<longleftrightarrow> lf' = RFC2374_HDR_INTFRAG"
  proof (cases "length bs - k \<le> k")
    case True
    then show ?thesis using ceil_div_one [OF assms(3), of "length bs - k"] assms(4) by (simp add: lf'_def)
  next
    case False
    then show ?thesis using ceil_div(2) [OF assms(3), of "length bs - k"] by (simp add: lf'_def)
  qed
  have mp: "pt_max_payload p = k + 8" using p assms(2) by auto
  have lf'2: "lf' = RFC2374_HDR_LASTFRAG \<or> lf' = RFC2374_HDR_INTFRAG" by (simp add: lf'_def)
  show ?thesis
    using assms(2,4,5,6) off p lf out pos one mp lf'2
    by (auto simp: fwnet_transmit_packet_done_def next_fragment_def Let_def at_fragment_def same_target_def fwnet_make_sf_hdr_def small_mod)
qed

text \<open>One round of the transmission.\<close>

lemma transmit_round:
  assumes "at_fragment k n label lf x bs p" "lf \<in> {1, 3}" "0 < k" "k < length bs" "off + length bs = n" "n \<le> 4096" "x < 2 ^ 16" "label < 2 ^ 16"
    and "lf = RFC2374_HDR_FIRSTFRAG \<Longrightarrow> off = 0" "lf = RFC2374_HDR_INTFRAG \<Longrightarrow> x = off"
  shows "\<exists>dev' p'. transmit_all (Suc fuel) ipv6 dev p = transmit_all fuel ipv6 dev' p' \<and>
    xd_log dev' = xd_log dev @ [task_request p (fragment_packet lf x n label (take k bs))] \<and> same_target p' p \<and>
    at_fragment k n label (if length bs - k \<le> k then RFC2374_HDR_LASTFRAG else RFC2374_HDR_INTFRAG) (off + k) (drop k bs) p'"
proof -
  define dev1 where "dev1 = dev\<lparr>xd_log := xd_log dev @ [task_request p (fragment_packet lf x n label (take k bs))]\<rparr>"
  define p1 where "p1 = p\<lparr>pt_skb := be32_bytes (w0 (pt_hdr p)) @ be32_bytes (w1 (pt_hdr p)) @ bs\<rparr>"
  have lf: "lf \<in> {1, 2, 3}" "lf \<noteq> RFC2374_HDR_LASTFRAG" "0 < n" using assms(2,4,5) by auto
  have sub: "fwnet_send_submit ipv6 dev p = Some (dev1, p1)"
    using submit_fragment [OF assms(1) lf(1,3) assms(6-8), of ipv6 dev] lf(2) by (simp add: dev1_def p1_def)
  have "outstanding_pkts p \<noteq> 0"
    using assms(1) ceil_div(2) [OF assms(3,4)] by (auto simp: at_fragment_def)
  then have tail: "fwnet_send_tail dev1 p1 = (False, dev1, p1\<lparr>enqueued := True\<rparr>)"
    by (simp add: fwnet_send_tail_def p1_def)
  obtain dev' p2 p' where d: "fwnet_transmit_packet_done dev1 (p1\<lparr>enqueued := True\<rparr>) = Some (dev', p2, Done_send p')"
    "xd_log dev' = xd_log dev1" "same_target p' p"
    "at_fragment k n label (if length bs - k \<le> k then RFC2374_HDR_LASTFRAG else RFC2374_HDR_INTFRAG) (off + k) (drop k bs) p'"
    using next_after_fragment [OF assms(1-10), of dev1 True] unfolding p1_def by blast
  then show ?thesis
    using sub tail by (intro exI [of _ dev'] exI [of _ p']) (simp add: dev1_def)
qed

lemma transmit_last:
  assumes "at_fragment k n label RFC2374_HDR_LASTFRAG off bs p" "0 < k" "length bs \<le> k" "bs \<noteq> []" "n \<le> 4096" "0 < n" "off < 2 ^ 16" "label < 2 ^ 16"
  shows "\<exists>dev'. transmit_all (Suc fuel) ipv6 dev p = Some dev' \<and>
    xd_log dev' = xd_log dev @ [task_request p (fragment_packet RFC2374_HDR_LASTFRAG off n label bs)]"
proof -
  obtain p1 where p1: "fwnet_send_submit ipv6 dev p =
      Some (dev\<lparr>xd_log := xd_log dev @ [task_request p (fragment_packet RFC2374_HDR_LASTFRAG off n label bs)]\<rparr>, p1)"
    "outstanding_pkts p1 = outstanding_pkts p"
    using submit_fragment [OF assms(1) _ assms(6,5,7,8), of ipv6 dev] by auto
  have "outstanding_pkts p = 1"
    using assms(1) ceil_div_one [OF assms(2) _ assms(3)] assms(4) by (simp add: at_fragment_def)
  with p1 show ?thesis
    by (auto simp: fwnet_send_tail_def fwnet_transmit_packet_done_def dec_queued_datagrams_def Let_def)
qed

lemma transmit_later:
  assumes "at_fragment k n label (if length bs \<le> k then RFC2374_HDR_LASTFRAG else RFC2374_HDR_INTFRAG) off bs p"
    "0 < k" "bs \<noteq> []" "off + length bs = n" "n \<le> 4096" "label < 2 ^ 16" "length bs \<le> fuel"
  shows "\<exists>dev'. transmit_all fuel ipv6 dev p = Some dev' \<and>
    xd_log dev' = xd_log dev @ map (task_request p) (later_fragments k n label off bs)"
  using assms
proof (induction fuel arbitrary: bs off p dev)
  case (Suc fuel)
  have off: "off < 2 ^ 16" "0 < n" using Suc.prems(3,4,5) by (cases bs; simp)+
  show ?case
  proof (cases "length bs \<le> k")
    case True
    then show ?thesis
      using transmit_last [OF _ Suc.prems(2) True Suc.prems(3,5) off(2,1) Suc.prems(6), of p fuel ipv6 dev] Suc.prems(1)
      by (simp add: later_fragments.simps)
  next
    case False
    then have lf: "at_fragment k n label RFC2374_HDR_INTFRAG off bs p" "k < length bs" using Suc.prems(1) by auto
    obtain dev1 p1 where r: "transmit_all (Suc fuel) ipv6 dev p = transmit_all fuel ipv6 dev1 p1"
      "xd_log dev1 = xd_log dev @ [task_request p (fragment_packet RFC2374_HDR_INTFRAG off n label (take k bs))]" "same_target p1 p"
      "at_fragment k n label (if length bs - k \<le> k then RFC2374_HDR_LASTFRAG else RFC2374_HDR_INTFRAG) (off + k) (drop k bs) p1"
      using transmit_round [OF lf(1) _ Suc.prems(2) lf(2) Suc.prems(4,5) off(1) Suc.prems(6), of fuel ipv6 dev] by auto
    have "length bs - k \<le> fuel" using Suc.prems(2,7) by linarith
    then obtain dev' where "transmit_all fuel ipv6 dev1 p1 = Some dev'"
      "xd_log dev' = xd_log dev1 @ map (task_request p1) (later_fragments k n label (off + k) (drop k bs))"
      using Suc.IH [of "drop k bs" "off + k" p1 dev1] r(4) Suc.prems lf(2) by auto
    then show ?thesis
      using r False Suc.prems(2) same_target_request [OF r(3)] by (simp add: later_fragments.simps [of k n label off bs])
  qed
qed simp

section \<open>Receiving in order\<close>

fun receive_all :: "rx_env \<Rightarrow> u32 \<Rightarrow> u32 \<Rightarrow> fwnet_device \<Rightarrow> bytes list \<Rightarrow> fwnet_device option" where
  "receive_all env src gen dev [] = Some dev"
| "receive_all env src gen dev (buf # bufs) =
    (case fwnet_incoming_packet env dev buf src gen False of
       None \<Rightarrow> None
     | Some (_, dev) \<Rightarrow> receive_all env src gen dev bufs)"

lemma incoming_fragment_packet:
  assumes "lf \<in> {1, 2, 3}" "bs \<noteq> []" "(if lf = 1 then 0 else x) + length bs \<le> n" "n \<le> 4096" "x < 2 ^ 16" "label < 2 ^ 16"
    and find: "fwnet_peer_find_by_node_id dev src gen = Some peer"
  shows "fwnet_incoming_packet env dev (fragment_packet lf x n label bs) src gen b =
    (case fwnet_incoming_fragment (rx_alloc env) peer lf (if lf = 1 then x else 0) (if lf = 1 then 0 else x) label n bs of
       None \<Rightarrow> None
     | Some (err, peer, complete) \<Rightarrow>
         let dev = dev\<lparr>peer_list := peer_store src gen peer (peer_list dev)\<rparr> in
         (case complete of None \<Rightarrow> Some (err, dev)
          | Some (dat, et) \<Rightarrow> Some (fwnet_finish_incoming_packet env dev dat False et)))"
proof -
  define v0 v1 :: u32 where "v0 = push_bit 30 lf OR push_bit 16 (of_nat n - 1) OR of_nat x" and "v1 = push_bit 16 (of_nat label)"
  have pkt: "fragment_packet lf x n label bs = be32_bytes v0 @ be32_bytes v1 @ bs" by (simp add: fragment_packet_def v0_def v1_def)
  have n: "0 < n" using assms(2,3) by (cases bs) auto
  have lf: "lf \<in> {0, 1, 2, 3}" using assms(1) by auto
  note h = hdr_read_back [OF lf n assms(4,5,6), of "\<lparr>w0 = v0, w1 = v1\<rparr>"]
  have x: "lf \<noteq> 1 \<Longrightarrow> x < 4096" using assms(2,3,4) by (cases bs) auto
  have hdr: "fwnet_get_hdr_lf \<lparr>w0 = v0, w1 = w\<rparr> = lf" "fwnet_get_hdr_dg_size \<lparr>w0 = v0, w1 = v1\<rparr> = n"
    "fwnet_get_hdr_ether_type \<lparr>w0 = v0, w1 = v1\<rparr> = x" "fwnet_get_hdr_dgl \<lparr>w0 = v0, w1 = v1\<rparr> = label"
    "lf \<noteq> 1 \<Longrightarrow> fwnet_get_hdr_fg_off \<lparr>w0 = v0, w1 = v1\<rparr> = x" for w
    using h x by (simp_all add: v0_def v1_def fwnet_get_hdr_lf_def)
  have be: "be32_load (be32_bytes v0 @ be32_bytes v1 @ bs) = v0" "be32_load (drop 4 (be32_bytes v0 @ be32_bytes v1 @ bs)) = v1"
    "drop 8 (be32_bytes v0 @ be32_bytes v1 @ bs) = bs" "length (be32_bytes v0 @ be32_bytes v1 @ bs) = 8 + length bs" by simp_all
  have "lf \<noteq> 0" "\<not> 8 + length bs \<le> 8" "\<not> 8 + length bs \<le> 4" "\<not> (if lf = 1 then 0 else x) + length bs > n"
    "(if lf = 1 then 0 else fwnet_get_hdr_fg_off \<lparr>w0 = v0, w1 = v1\<rparr>) = (if lf = 1 then 0 else x)"
    using assms(1,2,3) hdr(5) by (auto simp: Suc_le_eq)
  then show ?thesis
    unfolding pkt fwnet_incoming_packet_def Let_def be rfc2734_header.update_convs hdr(1-4) find
    by (simp only: if_False option.case)
qed

lemma find_peer_store:
  "find (\<lambda>p. pr_node_id p = src \<and> pr_generation p = gen) ps = Some peer \<Longrightarrow> pr_node_id new = src \<Longrightarrow> pr_generation new = gen \<Longrightarrow>
    find (\<lambda>p. pr_node_id p = src \<and> pr_generation p = gen) (peer_store src gen new ps) = Some new"
  by (induction ps) (auto split: if_splits)

text \<open>A peer that has received the first \<open>off\<close> bytes of the datagram \<open>bs\<close>.\<close>

definition receiving :: "nat \<Rightarrow> nat \<Rightarrow> bytes \<Rightarrow> nat \<Rightarrow> fwnet_peer \<Rightarrow> bool" where
  "receiving label proto bs off peer \<longleftrightarrow> (\<exists>pds. label \<notin> datagram_label ` set pds \<and>
     pd_list peer = pds @ [\<lparr>fi_list = [frag 0 off], pbuf = map Some (take off bs) @ replicate (length bs - off) None,
       datagram_label = label, pd_ether_type = Some proto, datagram_size = length bs\<rparr>])"

lemma find_append_new: "label \<notin> datagram_label ` set pds \<Longrightarrow> datagram_label pd = label \<Longrightarrow>
    find (\<lambda>pd. datagram_label pd = label) (pds @ [pd]) = Some pd \<and> pd_remove label (pds @ [pd]) = pds"
  by (induction pds) auto

lemma write_prefix:
  assumes "off + m \<le> length bs"
  shows "buf_write (map Some (take off bs) @ replicate (length bs - off) None) off (take m (drop off bs)) =
    map Some (take (off + m) bs) @ replicate (length bs - (off + m)) None"
  using assms by (simp add: buf_write_def take_add min_def)

lemma receive_next:
  assumes "receiving label proto bs off peer" "0 < off" "0 < m" "off + m \<le> length bs" "length bs \<le> 4096" "lf \<in> {2, 3}"
  shows "\<exists>peer'. pr_node_id peer' = pr_node_id peer \<and> pr_generation peer' = pr_generation peer \<and>
    fwnet_incoming_fragment alloc peer lf 0 off label (length bs) (take m (drop off bs)) =
      Some (None, peer', if off + m = length bs then Some (map Some bs, Some proto) else None) \<and>
    (off + m < length bs \<longrightarrow> receiving label proto bs (off + m) peer')"
proof -
  obtain pds where new: "label \<notin> datagram_label ` set pds" and pds: "pd_list peer = pds @ [\<lparr>fi_list = [frag 0 off],
      pbuf = map Some (take off bs) @ replicate (length bs - off) None, datagram_label = label, pd_ether_type = Some proto,
      datagram_size = length bs\<rparr>]"
    using assms(1) by (auto simp: receiving_def)
  let ?pd = "\<lparr>fi_list = [frag 0 off], pbuf = map Some (take off bs) @ replicate (length bs - off) None,
      datagram_label = label, pd_ether_type = Some proto, datagram_size = length bs\<rparr>"
  let ?pd' = "\<lparr>fi_list = [frag 0 (off + m)], pbuf = map Some (take (off + m) bs) @ replicate (length bs - (off + m)) None,
      datagram_label = label, pd_ether_type = Some proto, datagram_size = length bs\<rparr>"
  have f: "fwnet_pd_find peer label = Some ?pd" "pd_remove label (pd_list peer) = pds"
    using find_append_new [OF new, of ?pd] by (simp_all add: fwnet_pd_find_def pds)
  have len: "length (take m (drop off bs)) = m" using assms(4) by simp
  have u: "fwnet_pd_update (alloc 1) peer ?pd (take m (drop off bs)) off = Some (peer\<lparr>pd_list := pds @ [?pd']\<rparr>, ?pd')"
    using f(2) assms(4,5) write_prefix [OF assms(4)]
    by (simp add: fwnet_pd_update_def fwnet_frag_new_def fi_grow_def Let_def len)
  have o: "\<not> fwnet_frag_overlap ?pd off m" by (simp add: fwnet_frag_overlap_def)
  have r: "fwnet_incoming_fragment alloc peer lf 0 off label (length bs) (take m (drop off bs)) =
      Some (None, pd_attach lf 0 (peer\<lparr>pd_list := pds @ [?pd']\<rparr>) ?pd')"
    using f(1) u o len by (simp add: fwnet_incoming_fragment_def)
  show ?thesis
    unfolding r using assms(4,6) new by (auto simp: pd_attach_def fwnet_pd_is_complete_def receiving_def)
qed

lemma receive_first:
  assumes "peer_ok F peer" "fwnet_pd_find peer label = None" "0 < k" "k < length bs" "length bs \<le> 4096" "\<And>i. alloc i"
  shows "\<exists>peer'. pr_node_id peer' = pr_node_id peer \<and> pr_generation peer' = pr_generation peer \<and>
    fwnet_incoming_fragment alloc peer 1 proto 0 label (length bs) (take k bs) = Some (None, peer', None) \<and>
    receiving label proto bs k peer'"
proof -
  have new: "label \<notin> datagram_label ` set (pd_list peer)"
    using assms(2) by (auto simp: fwnet_pd_find_def find_None_iff)
  obtain pds where ev: "pd_evict (pd_list peer) (pdg_size peer) = Some (pds, length pds)" and k: "\<exists>k. pds = drop k (pd_list peer)"
    using pd_evict_result [of "pdg_size peer" "pd_list peer"] assms(1) by (auto simp: peer_ok_def)
  let ?pd = "\<lparr>fi_list = [frag 0 k], pbuf = map Some (take k bs) @ replicate (length bs - k) None,
      datagram_label = label, pd_ether_type = None, datagram_size = length bs\<rparr>"
  have "fwnet_pd_new alloc p label (length bs) (take k bs) 0 = Some ?pd" for p
    using assms(3-6) by (simp add: fwnet_pd_new_def fwnet_frag_new_def new_fi_def buf_write_def min_def)
  then have r: "fwnet_incoming_fragment alloc peer 1 proto 0 label (length bs) (take k bs) =
      Some (None, pd_attach 1 proto (peer\<lparr>pd_list := pds @ [?pd], pdg_size := Suc (length pds)\<rparr>) ?pd)"
    using assms(2) ev by (simp add: fwnet_incoming_fragment_def)
  have "label \<notin> datagram_label ` set pds" using new k by (auto dest: in_set_dropD)
  then show ?thesis
    unfolding r using assms(4) by (auto simp: pd_attach_def fwnet_pd_is_complete_def receiving_def)
qed

text \<open>A complete datagram that is accepted.\<close>

definition delivers :: "fwnet_device \<Rightarrow> fwnet_device \<Rightarrow> bytes \<Rightarrow> nat \<Rightarrow> bool" where
  "delivers dev dev' bs proto \<longleftrightarrow>
    (\<exists>skb. rx_log dev' = rx_log dev @ [skb] \<and> s_data skb = map Some bs \<and> s_ether_type skb = Some proto)"

lemma finish_delivers:
  assumes "accepted_ether_type env proto" "fwnet_finish_incoming_packet env dev (map Some bs) b (Some proto) = (err, dev')"
  shows "delivers dev dev' bs proto"
  using assms by (auto simp: fwnet_finish_incoming_packet_def Let_def delivers_def split: if_splits)

text \<open>Receiving the last fragment and an interior one.\<close>

lemma receive_last_packet:
  assumes "fwnet_peer_find_by_node_id dev src gen = Some peer" "receiving label proto bs off peer" "0 < off" "off < length bs" "length bs \<le> 4096"
    "label < 2 ^ 16" "accepted_ether_type env proto"
  shows "\<exists>err dev'. fwnet_incoming_packet env dev (fragment_packet 2 off (length bs) label (drop off bs)) src gen False = Some (err, dev') \<and>
    delivers dev dev' bs proto"
proof -
  have tk: "take (length bs - off) (drop off bs) = drop off bs" by simp
  obtain peer' where r: "fwnet_incoming_fragment (rx_alloc env) peer 2 0 off label (length bs) (drop off bs) = Some (None, peer', Some (map Some bs, Some proto))"
    using receive_next [OF assms(2,3), of "length bs - off" 2 "rx_alloc env"] assms(4,5) tk by auto
  let ?dev = "dev\<lparr>peer_list := peer_store src gen peer' (peer_list dev)\<rparr>"
  obtain err dev' where f: "fwnet_finish_incoming_packet env ?dev (map Some bs) False (Some proto) = (err, dev')" by fastforce
  have "delivers dev dev' bs proto" using finish_delivers [OF assms(7) f] by (simp add: delivers_def)
  then show ?thesis
    using incoming_fragment_packet [of 2 "drop off bs" off "length bs" label dev src gen peer env False] assms(1,4,5,6) r f by (simp add: Let_def)
qed

lemma receive_interior_packet:
  assumes "fwnet_peer_find_by_node_id dev src gen = Some peer" "receiving label proto bs off peer" "0 < off" "0 < k" "off + k < length bs" "length bs \<le> 4096"
    "label < 2 ^ 16"
  shows "\<exists>err dev' peer'. fwnet_incoming_packet env dev (fragment_packet 3 off (length bs) label (take k (drop off bs))) src gen False = Some (err, dev') \<and>
    rx_log dev' = rx_log dev \<and> fwnet_peer_find_by_node_id dev' src gen = Some peer' \<and> receiving label proto bs (off + k) peer'"
proof -
  obtain peer' where r: "pr_node_id peer' = pr_node_id peer" "pr_generation peer' = pr_generation peer"
    "fwnet_incoming_fragment (rx_alloc env) peer 3 0 off label (length bs) (take k (drop off bs)) = Some (None, peer', None)"
    "receiving label proto bs (off + k) peer'"
    using receive_next [OF assms(2,3,4), of 3 "rx_alloc env"] assms(5,6) by auto
  let ?dev = "dev\<lparr>peer_list := peer_store src gen peer' (peer_list dev)\<rparr>"
  have "pr_node_id peer = src" "pr_generation peer = gen"
    using assms(1) by (auto simp: fwnet_peer_find_by_node_id_def find_Some_iff)
  then have find: "fwnet_peer_find_by_node_id ?dev src gen = Some peer'"
    using assms(1) r(1,2) find_peer_store by (simp add: fwnet_peer_find_by_node_id_def)
  have "fwnet_incoming_packet env dev (fragment_packet 3 off (length bs) label (take k (drop off bs))) src gen False = Some (None, ?dev)"
    using incoming_fragment_packet [of 3 "take k (drop off bs)" off "length bs" label dev src gen peer env False] assms(1,4-7) r(3)
    by (simp add: Let_def)
  then show ?thesis using find r(4) by auto
qed

lemma receive_later:
  assumes "fwnet_peer_find_by_node_id dev src gen = Some peer" "receiving label proto bs off peer" "0 < off" "off < length bs" "length bs \<le> 4096"
    "0 < k" "label < 2 ^ 16" "accepted_ether_type env proto"
  shows "\<exists>dev'. receive_all env src gen dev (later_fragments k (length bs) label off (drop off bs)) = Some dev' \<and> delivers dev dev' bs proto"
  using assms
proof (induction "length bs - off" arbitrary: off dev peer rule: less_induct)
  case less
  note p = less.prems
  show ?case
  proof (cases "length (drop off bs) \<le> k")
    case True
    then have "later_fragments k (length bs) label off (drop off bs) = [fragment_packet 2 off (length bs) label (drop off bs)]"
      by (subst later_fragments.simps) simp
    then show ?thesis using receive_last_packet [OF p(1-5,7,8)] by auto
  next
    case False
    then have lt: "off + k < length bs" "length bs - (off + k) < length bs - off" using p(6) by auto
    obtain err dev1 peer1 where r: "fwnet_incoming_packet env dev (fragment_packet 3 off (length bs) label (take k (drop off bs))) src gen False = Some (err, dev1)"
      "rx_log dev1 = rx_log dev" "fwnet_peer_find_by_node_id dev1 src gen = Some peer1" "receiving label proto bs (off + k) peer1"
      using receive_interior_packet [OF p(1-3,6) lt(1) p(5,7), of env] by blast
    obtain dev' where "receive_all env src gen dev1 (later_fragments k (length bs) label (off + k) (drop (off + k) bs)) = Some dev'" "delivers dev1 dev' bs proto"
      using less.hyps [OF lt(2) r(3,4)] p(3-8) lt by auto
    moreover have "later_fragments k (length bs) label off (drop off bs) =
        fragment_packet 3 off (length bs) label (take k (drop off bs)) # later_fragments k (length bs) label (off + k) (drop (off + k) bs)"
      using False p(6) by (subst later_fragments.simps) (simp add: add.commute)
    ultimately show ?thesis using r(1,2) by (auto simp: delivers_def)
  qed
qed

section \<open>From sender to receiver\<close>

lemma task_single:
  assumes "start_task dev bs proto (length bs) m label f fifo gen dest speed = Tx_task dev1 p" "length bs \<le> m" "length bs \<le> 4096" "proto < 2 ^ 16"
    "dest \<noteq> IEEE1394_ALL_NODES"
  shows "\<exists>dev2. transmit_all (Suc fuel) ipv6 dev1 p = Some dev2 \<and> xd_log dev2 = xd_log dev1 @ [task_request p (be32_bytes (of_nat proto) @ bs)]"
proof -
  have p: "p = \<lparr>pt_hdr = \<lparr>w0 = of_nat proto, w1 = 0\<rparr>, pt_skb = bs, pt_proto = proto, outstanding_pkts = 1, pt_fifo_addr = fifo, pt_dest_node = dest,
      pt_max_payload = length bs + 4, pt_generation = gen, pt_speed = speed, enqueued = False\<rparr>"
    using assms(1-3) by (auto simp: start_task_def Let_def fwnet_make_uf_hdr_def)
  have "\<And>i. bit (of_nat proto :: u32) i \<Longrightarrow> i < 16" using bits_of_small [OF assms(4)] by blast
  then have lf: "fwnet_get_hdr_lf \<lparr>w0 = of_nat proto, w1 = 0\<rparr> = 0"
    using hdr_word_fields(1) [of 0 0 "of_nat proto"] by (simp add: fwnet_get_hdr_lf_def)
  show ?thesis
    using assms(5) lf by (simp add: p fwnet_send_submit_def push_encapsulation_def fwnet_send_tail_def fwnet_transmit_packet_done_def
        task_request_def Let_def dec_queued_datagrams_def)
qed

lemma task_fragments:
  assumes "start_task dev bs proto (length bs) m label f fifo gen dest speed = Tx_task dev1 p" "m < length bs" "4 < m" "length bs \<le> 4096" "proto < 2 ^ 16"
    "label < 2 ^ 16" "dest \<noteq> IEEE1394_ALL_NODES" "length bs \<le> Suc fuel"
  shows "\<exists>dev2. transmit_all (Suc fuel) ipv6 dev1 p = Some dev2 \<and>
    xd_log dev2 = xd_log dev1 @ map (task_request p) (fragment_packet 1 proto (length bs) label (take (m - 4) bs) #
      later_fragments (m - 4) (length bs) label (m - 4) (drop (m - 4) bs))"
proof -
  let ?k = "m - 4" and ?n = "length bs"
  have k: "0 < ?k" "?k < ?n" using assms(2,3) by auto
  have "at_fragment ?k ?n label 1 proto bs p"
    using assms(1-4,7) by (auto simp: start_task_def Let_def fwnet_make_ff_hdr_def at_fragment_def small_mod)
  from transmit_round [OF this _ k _ assms(4,5,6), of 0 fuel ipv6 dev1]
  obtain dev2 p2 where r: "transmit_all (Suc fuel) ipv6 dev1 p = transmit_all fuel ipv6 dev2 p2"
    "xd_log dev2 = xd_log dev1 @ [task_request p (fragment_packet 1 proto ?n label (take ?k bs))]" "same_target p2 p"
    "at_fragment ?k ?n label (if length (drop ?k bs) \<le> ?k then RFC2374_HDR_LASTFRAG else RFC2374_HDR_INTFRAG) ?k (drop ?k bs) p2"
    by auto
  have "length (drop ?k bs) \<le> fuel" "drop ?k bs \<noteq> []" "?k + length (drop ?k bs) = ?n" using k assms(8) by auto
  with transmit_later [OF r(4) k(1) _ _ assms(4,6)] r(1,2) same_target_request [OF r(3)] show ?thesis
    by (metis (no_types, lifting) append.assoc append_Cons append_Nil list.simps(9))
qed

lemma receive_single:
  assumes "accepted_ether_type env proto" "bs \<noteq> []" "rx_alloc env 0" "proto < 2 ^ 16"
  shows "\<exists>dev'. receive_all env src gen dev [be32_bytes (of_nat proto) @ bs] = Some dev' \<and> delivers dev dev' bs proto"
proof -
  obtain err dev' where f: "fwnet_finish_incoming_packet env dev (map Some bs) False (Some proto) = (err, dev')" by fastforce
  have b: "\<And>i. bit (of_nat proto :: u32) i \<Longrightarrow> i < 16" using bits_of_small [OF assms(4)] by blast
  have "fwnet_get_hdr_lf \<lparr>w0 = of_nat proto, w1 = 0\<rparr> = 0" "fwnet_get_hdr_ether_type \<lparr>w0 = of_nat proto, w1 = 0\<rparr> = proto"
    using hdr_word_fields(1,3) [of 0 0 "of_nat proto"] b unat_small [of proto] assms(4)
    by (simp_all add: fwnet_get_hdr_lf_def fwnet_get_hdr_ether_type_def)
  then have "fwnet_incoming_packet env dev (be32_bytes (of_nat proto) @ bs) src gen False = Some (err, dev')"
    using assms(2,3) f by (simp add: fwnet_incoming_packet_def)
  with finish_delivers [OF assms(1) f] show ?thesis by simp
qed

lemma receive_fragments:
  assumes "accepted_ether_type env proto" "4 < m" "m < length bs" "length bs \<le> 4096" "proto < 2 ^ 16" "label < 2 ^ 16" "\<And>i. rx_alloc env i"
    and peer: "fwnet_peer_find_by_node_id dev src gen = Some peer" "peer_ok F peer" "fwnet_pd_find peer label = None"
  shows "\<exists>dev'. receive_all env src gen dev (fragment_packet 1 proto (length bs) label (take (m - 4) bs) #
      later_fragments (m - 4) (length bs) label (m - 4) (drop (m - 4) bs)) = Some dev' \<and> delivers dev dev' bs proto"
proof -
  let ?k = "m - 4"
  have k: "0 < ?k" "?k < length bs" "bs \<noteq> []" using assms(2,3) by auto
  obtain peer' where r: "pr_node_id peer' = pr_node_id peer" "pr_generation peer' = pr_generation peer"
    "fwnet_incoming_fragment (rx_alloc env) peer 1 proto 0 label (length bs) (take ?k bs) = Some (None, peer', None)" "receiving label proto bs ?k peer'"
    using receive_first [OF peer(2,3) k(1,2) assms(4), of "rx_alloc env" proto] assms(7) by blast
  let ?dev = "dev\<lparr>peer_list := peer_store src gen peer' (peer_list dev)\<rparr>"
  have "pr_node_id peer = src" "pr_generation peer = gen"
    using peer(1) by (auto simp: fwnet_peer_find_by_node_id_def find_Some_iff)
  then have find: "fwnet_peer_find_by_node_id ?dev src gen = Some peer'"
    using peer(1) r(1,2) find_peer_store by (simp add: fwnet_peer_find_by_node_id_def)
  have "fwnet_incoming_packet env dev (fragment_packet 1 proto (length bs) label (take ?k bs)) src gen False = Some (None, ?dev)"
    using incoming_fragment_packet [of 1 "take ?k bs" proto "length bs" label dev src gen peer env False] k assms(4,5,6) peer(1) r(3)
    by (auto simp: Let_def)
  with receive_later [OF find r(4) k(1,2) assms(4) k(1) assms(6,1)] show ?thesis by (auto simp: delivers_def)
qed

text \<open>C5.  A datagram survives the trip: a datagram of up to 4096 bytes that the network layer hands to \<open>fwnet_tx\<close> for a known peer
  goes out in one packet or in fragments; when the packets are acknowledged and reach the other node in the order sent, and
  that node has memory and no partial datagram with the same label, then it delivers exactly one datagram, with
  the same bytes and the same ether type.\<close>

theorem datagram_roundtrip:
  assumes "fwnet_tx ipv6 True tdev proto h_dest bs = Tx_task tdev1 ptask" "\<not> fwnet_hwaddr_is_multicast h_dest"
    and "find (\<lambda>peer. pr_guid peer = be64_load h_dest) (xd_peers tdev) = Some tpeer"
    and "bs \<noteq> []" "length bs \<le> 4096" "4 < pr_max_payload tpeer" "pr_datagram_label tpeer < 2 ^ 16"
    and "(ucast (ucast (pr_node_id tpeer) :: u16) :: u32) \<noteq> IEEE1394_ALL_NODES"
    and "fwnet_peer_find_by_node_id rdev src gen = Some rpeer" "peer_ok F rpeer" "fwnet_pd_find rpeer (pr_datagram_label tpeer) = None"
    and "\<And>i. rx_alloc env i" "ipv6_enabled env = ipv6"
  shows "\<exists>tdev2 rdev'. transmit_all (length bs) ipv6 tdev1 ptask = Some tdev2 \<and>
    receive_all env src gen rdev (map q_payload (drop (length (xd_log tdev1)) (xd_log tdev2))) = Some rdev' \<and>
    delivers rdev rdev' bs proto"
proof -
  have acc: "accepted_ether_type env proto" using assms(1,13)
    by (auto simp: fwnet_tx_def accepted_ether_type_def Let_def split: if_splits)
  then have proto: "proto < 2 ^ 16" by (auto simp: accepted_ether_type_def)
  obtain fuel where fuel: "length bs = Suc fuel" using assms(4) by (cases bs) auto
  have "length bs mod 2 ^ 16 = length bs" using assms(5) by simp
  then obtain f fifo g speed where t: "start_task tdev bs proto (length bs) (pr_max_payload tpeer) (pr_datagram_label tpeer) f fifo g
      (ucast (ucast (pr_node_id tpeer) :: u16)) speed = Tx_task tdev1 ptask"
    using assms(1,2,3) by (auto simp: fwnet_tx_def Let_def split: if_splits)
  have pay: "map q_payload (map (task_request ptask) xs) = xs" for xs by (simp add: task_request_def comp_def)
  show ?thesis
  proof (cases "length bs \<le> pr_max_payload tpeer")
    case True
    from task_single [OF t True assms(5) proto assms(8), of fuel ipv6] receive_single [OF acc assms(4) assms(12) proto, of src gen rdev] fuel show ?thesis
      by (auto simp: task_request_def)
  next
    case False
    then have m: "pr_max_payload tpeer < length bs" by simp
    let ?frames = "fragment_packet 1 proto (length bs) (pr_datagram_label tpeer) (take (pr_max_payload tpeer - 4) bs) #
      later_fragments (pr_max_payload tpeer - 4) (length bs) (pr_datagram_label tpeer) (pr_max_payload tpeer - 4) (drop (pr_max_payload tpeer - 4) bs)"
    from task_fragments [OF t m assms(6,5) proto assms(7,8), of fuel ipv6] fuel
    obtain tdev2 where sent: "transmit_all (length bs) ipv6 tdev1 ptask = Some tdev2" "xd_log tdev2 = xd_log tdev1 @ map (task_request ptask) ?frames"
      by auto
    then have "drop (length (xd_log tdev1)) (xd_log tdev2) = map (task_request ptask) ?frames" by simp
    then have "map q_payload (drop (length (xd_log tdev1)) (xd_log tdev2)) = ?frames" by (simp only: pay)
    with receive_fragments [OF acc assms(6) m assms(5) proto assms(7) _ assms(9-11)] assms(12) sent(1) show ?thesis by simp
  qed
qed

text \<open>A sender with room for four bytes per fragment.\<close>

definition example_tx_dev :: tx_dev where
  "example_tx_dev = \<lparr>xd_peers = [example_peer\<lparr>pr_guid := 0, pr_max_payload := 8\<rparr>], xd_card_generation = 3, xd_card_node_id = 0xffc0,
     broadcast_xmt_max_payload = 500, broadcast_xmt_datagramlabel = 0, queued_datagrams = 0, queue_stopped = False, tx_packets = 0,
     tx_bytes = 0, tx_dropped = 0, tx_errors = 0, xd_log = []\<rparr>"

lemma example_peer_ok: "peer_ok {} example_peer"
  by (simp add: peer_ok_def example_peer_def)

lemma example_guid: "be64_load (replicate 16 0) = 0"
  by (simp add: be64_load_def be32_load_def)

theorem datagram_roundtrip_witness:
  "\<exists>tdev1 ptask tdev2 rdev'. fwnet_tx True True example_tx_dev ETH_P_IP (replicate 16 0) [1, 2, 3, 4, 5, 6, 7, 8, 9, 10] = Tx_task tdev1 ptask \<and>
     transmit_all 10 True tdev1 ptask = Some tdev2 \<and>
     receive_all example_rx_env 0xffc1 3 example_net (map q_payload (drop (length (xd_log tdev1)) (xd_log tdev2))) = Some rdev' \<and>
     delivers example_net rdev' [1, 2, 3, 4, 5, 6, 7, 8, 9, 10] ETH_P_IP"
proof -
  let ?tpeer = "example_peer\<lparr>pr_guid := 0, pr_max_payload := 8\<rparr>"
  have m: "\<not> fwnet_hwaddr_is_multicast (replicate 16 0)" by (simp add: fwnet_hwaddr_is_multicast_def)
  obtain tdev1 ptask where t: "fwnet_tx True True example_tx_dev ETH_P_IP (replicate 16 0) [1, 2, 3, 4, 5, 6, 7, 8, 9, 10] = Tx_task tdev1 ptask"
    using m example_guid by (simp add: fwnet_tx_def example_tx_dev_def start_task_def Let_def)
  have "\<exists>tdev2 rdev'. transmit_all (length [1, 2, 3, 4, 5, 6, 7, 8, 9, 10 :: u8]) True tdev1 ptask = Some tdev2 \<and>
     receive_all example_rx_env 0xffc1 3 example_net (map q_payload (drop (length (xd_log tdev1)) (xd_log tdev2))) = Some rdev' \<and>
     delivers example_net rdev' [1, 2, 3, 4, 5, 6, 7, 8, 9, 10] ETH_P_IP"
    by (rule datagram_roundtrip [OF t m, where tpeer = ?tpeer and rpeer = example_peer, OF _ _ _ _ _ _ _ example_peer_ok])
      (simp_all add: example_tx_dev_def example_guid example_peer_def example_net_def example_rx_env_def
        fwnet_peer_find_by_node_id_def fwnet_pd_find_def)
  moreover have "length [1, 2, 3, 4, 5, 6, 7, 8, 9, 10 :: u8] = 10" by simp
  ultimately show ?thesis using t by metis
qed

section \<open>The life of a packet task\<close>

text \<open>The task between the submission of a packet, the rest of the call that has submitted it (\<open>tails\<close> of them are still to run) and
  the completion callback of the packet in flight.  Every step reads the task, so that a step after the task has been
  freed is a use after free.\<close>

record tx_life =
  l_dev :: tx_dev
  l_task :: fwnet_packet_task
  in_flight :: bool
  tails :: nat
  freed :: nat
  used_after_free :: bool

definition touch :: "tx_life \<Rightarrow> tx_life" where
  "touch s = s\<lparr>used_after_free := used_after_free s \<or> freed s > 0\<rparr>"

inductive life_step :: "tx_life \<Rightarrow> tx_life \<Rightarrow> bool" where
  step_tail: "0 < tails s \<Longrightarrow> fwnet_send_tail (l_dev s) (l_task s) = (free, dev, task) \<Longrightarrow>
    life_step s ((touch s)\<lparr>l_dev := dev, l_task := task, tails := tails s - 1, freed := freed s + of_bool free\<rparr>)"
| step_done: "in_flight s \<Longrightarrow> fwnet_transmit_packet_done (l_dev s) (l_task s) = Some (dev, task, Done_nothing) \<Longrightarrow>
    life_step s ((touch s)\<lparr>l_dev := dev, l_task := task, in_flight := False\<rparr>)"
| step_done_free: "in_flight s \<Longrightarrow> fwnet_transmit_packet_done (l_dev s) (l_task s) = Some (dev, task, Done_free) \<Longrightarrow>
    life_step s ((touch s)\<lparr>l_dev := dev, l_task := task, in_flight := False, freed := freed s + 1\<rparr>)"
| step_done_send: "in_flight s \<Longrightarrow> fwnet_transmit_packet_done (l_dev s) (l_task s) = Some (dev, task, Done_send next) \<Longrightarrow>
    fwnet_send_submit ipv6 dev next = Some (dev', task') \<Longrightarrow>
    life_step s ((touch s)\<lparr>l_dev := dev', l_task := task', tails := tails s + 1\<rparr>)"
| step_failed: "in_flight s \<Longrightarrow> fwnet_transmit_packet_failed (l_dev s) (l_task s) = (free, dev, task) \<Longrightarrow>
    life_step s ((touch s)\<lparr>l_dev := dev, l_task := task, in_flight := False, freed := freed s + of_bool free\<rparr>)"

text \<open>The state after \<open>fwnet_tx\<close> has submitted the first packet.\<close>

abbreviation life :: "tx_dev \<Rightarrow> fwnet_packet_task \<Rightarrow> bool \<Rightarrow> nat \<Rightarrow> nat \<Rightarrow> tx_life" where
  "life dev task fl n f \<equiv> \<lparr>l_dev = dev, l_task = task, in_flight = fl, tails = n, freed = f, used_after_free = False\<rparr>"

definition life_init :: "tx_dev \<Rightarrow> fwnet_packet_task \<Rightarrow> tx_life" where
  "life_init dev task = \<lparr>l_dev = dev, l_task = task, in_flight = True, tails = 1, freed = 0, used_after_free = False\<rparr>"

text \<open>The states of a task with one packet.\<close>

definition single_inv :: "int \<Rightarrow> tx_life \<Rightarrow> bool" where
  "single_inv q s \<longleftrightarrow> \<not> used_after_free s \<and> queued_datagrams (l_dev s) = q - int (freed s) \<and>
    (in_flight s \<and> tails s = 1 \<and> freed s = 0 \<and> outstanding_pkts (l_task s) = 1 \<and> \<not> enqueued (l_task s) \<or>
     in_flight s \<and> tails s = 0 \<and> freed s = 0 \<and> outstanding_pkts (l_task s) = 1 \<and> enqueued (l_task s) \<or>
     \<not> in_flight s \<and> tails s = 1 \<and> freed s = 0 \<and> outstanding_pkts (l_task s) = 0 \<and> \<not> enqueued (l_task s) \<or>
     \<not> in_flight s \<and> tails s = 0 \<and> freed s = 1)"

lemma queued_dec: "queued_datagrams (dec_queued_datagrams dev) = queued_datagrams dev - 1"
  by (simp add: dec_queued_datagrams_def Let_def)

lemma single_inv_step: "single_inv q s \<Longrightarrow> life_step s s' \<Longrightarrow> single_inv q s'"
  by (erule life_step.cases)
    (auto simp: single_inv_def touch_def fwnet_send_tail_def fwnet_transmit_packet_done_def fwnet_transmit_packet_failed_def
      queued_dec Let_def split: if_splits)


text \<open>C20.  With more than one packet there is a race: when a datagram of two fragments is sent, and both completion callbacks run before
  the call that has submitted the first fragment goes on, then the second callback frees the task and the call
  goes on to read and write it.\<close>

theorem fragment_task_used_after_free:
  assumes "at_fragment k n label 1 x bs p" "0 < k" "k < length bs" "length bs \<le> 2 * k" "length bs = n" "n \<le> 4096" "x < 2 ^ 16" "label < 2 ^ 16"
    and "\<not> enqueued p" "fwnet_send_submit ipv6 dev p = Some (dev1, task)"
  shows "\<exists>s. life_step\<^sup>*\<^sup>* (life_init dev1 task) s \<and> used_after_free s"
proof -
  have sub: "task = p\<lparr>pt_skb := be32_bytes (w0 (pt_hdr p)) @ be32_bytes (w1 (pt_hdr p)) @ bs, enqueued := False\<rparr>"
    using submit_fragment [OF assms(1) _ _ assms(6-8), of ipv6 dev] assms(3,5,9,10) by auto
  have half: "length bs - k \<le> k" using assms(4) by simp
  obtain dev2 t2 nx where d: "fwnet_transmit_packet_done dev1 task = Some (dev2, t2, Done_send nx)"
    "at_fragment k n label 2 k (drop k bs) nx"
    using next_after_fragment [OF assms(1) _ assms(2,3) _ assms(6-8), of 0 dev1 False] half assms(5) unfolding sub by auto
  have one: "outstanding_pkts nx = 1"
    using d(2) ceil_div_one [OF assms(2), of "length bs - k"] assms(3,4) by (simp add: at_fragment_def)
  obtain t3 where s2: "fwnet_send_submit ipv6 dev2 nx = Some (dev2\<lparr>xd_log := xd_log dev2 @ [task_request nx (fragment_packet 2 k n label (drop k bs))]\<rparr>, t3)"
    "outstanding_pkts t3 = 1"
    using submit_fragment [OF d(2) _ _ assms(6) _ assms(8), of ipv6 dev2] one assms(3,5,6) by auto
  define dev3 where "dev3 = dev2\<lparr>xd_log := xd_log dev2 @ [task_request nx (fragment_packet 2 k n label (drop k bs))]\<rparr>"
  have "life_step (life_init dev1 task) ((touch (life_init dev1 task))\<lparr>l_dev := dev3, l_task := t3, tails := 2\<rparr>)"
    using step_done_send [of "life_init dev1 task" dev2 t2 nx ipv6 dev3 t3] d(1) s2(1)
    by (simp add: life_init_def dev3_def numeral_2_eq_2)
  then have a: "life_step (life_init dev1 task) (life dev3 t3 True 2 0)"
    by (simp add: life_init_def touch_def)
  have b: "life_step (life dev3 t3 True 2 0)
      (life dev3 (t3\<lparr>enqueued := True\<rparr>) True 1 0)"
    using step_tail [of "life dev3 t3 True 2 0" False dev3 "t3\<lparr>enqueued := True\<rparr>"] s2(2)
    by (simp add: fwnet_send_tail_def touch_def)
  obtain dev4 t4 where c: "life_step (life dev3 (t3\<lparr>enqueued := True\<rparr>) True 1 0)
      (life dev4 t4 False 1 1)"
    using step_done_free [of "life dev3 (t3\<lparr>enqueued := True\<rparr>) True 1 0"] s2(2)
    by (simp add: fwnet_transmit_packet_done_def touch_def Let_def)
  have "\<exists>s. life_step (life dev4 t4 False 1 1) s \<and> used_after_free s"
    using step_tail [of "life dev4 t4 False 1 1"]
    by (cases "fwnet_send_tail dev4 t4") (fastforce simp: touch_def)
  then show ?thesis using a b c by (meson converse_rtranclp_into_rtranclp rtranclp.rtrancl_refl)
qed

definition example_task :: fwnet_packet_task where
  "example_task = \<lparr>pt_hdr = fwnet_make_ff_hdr \<lparr>w0 = 0, w1 = 0\<rparr> ETH_P_IP 6 0, pt_skb = [1, 2, 3, 4, 5, 6], pt_proto = ETH_P_IP,
     outstanding_pkts = 2, pt_fifo_addr = 0, pt_dest_node = 0xffc1, pt_max_payload = 12, pt_generation = 3, pt_speed = 2, enqueued = False\<rparr>"

theorem fragment_task_used_after_free_witness:
  "\<exists>dev1 task s. fwnet_send_submit True example_tx_dev example_task = Some (dev1, task) \<and>
     life_step\<^sup>*\<^sup>* (life_init dev1 task) s \<and> used_after_free s"
proof -
  have at: "at_fragment 4 6 0 1 ETH_P_IP [1, 2, 3, 4, 5, 6] example_task"
    by (simp add: at_fragment_def example_task_def fwnet_make_ff_hdr_def)
  obtain dev1 task where sub: "fwnet_send_submit True example_tx_dev example_task = Some (dev1, task)"
    using submit_fragment [OF at, of True example_tx_dev] by auto
  have "\<exists>s. life_step\<^sup>*\<^sup>* (life_init dev1 task) s \<and> used_after_free s"
    by (rule fragment_task_used_after_free [OF at _ _ _ _ _ _ _ _ sub]) (simp_all add: example_task_def)
  with sub show ?thesis by blast
qed


end
