(* ===== verification/Snd_Fcp.thy ===== *)
theory Snd_Fcp
  imports Transaction "HOL-Library.Monad_Syntax"
begin

text \<open>
  Transactions of the sound drivers: \<open>snd_fw_transaction\<close> of \<^verbatim>\<open>sound/firewire/lib.c\<close> with its retries, and
  the function control protocol of \<^verbatim>\<open>sound/firewire/fcp.c\<close>: a command is written to the
  target and the response comes in as a write to the FCP response register, matched by some of its bytes.  A loop that need
  not end is a partial function whose value \<open>None\<close> means that it does not return.
\<close>

section \<open>Requests with retries\<close>

definition rcode_is_permanent_error :: "u32 \<Rightarrow> bool" where
  "rcode_is_permanent_error rcode \<longleftrightarrow> rcode = RCODE_TYPE_ERROR \<or> rcode = RCODE_ADDRESS_ERROR"

text \<open>\<open>run k\<close> is what the \<open>k\<close>-th \<open>fw_run_transaction\<close> gives: response code and buffer.  The counter is
  \<open>tries\<close>.\<close>

function snd_fw_tries :: "bool \<Rightarrow> (nat \<Rightarrow> u32 \<times> 'b) \<Rightarrow> nat \<Rightarrow> errno + 'b" where
  "snd_fw_tries fixed_generation run tries =
    (let (rcode, buffer) = run tries in
     if rcode = RCODE_COMPLETE then Inr buffer
     else if rcode = RCODE_GENERATION \<and> fixed_generation then Inl EAGAIN
     else if rcode_is_permanent_error rcode \<or> tries + 1 \<ge> 3 then Inl EIO
     else snd_fw_tries fixed_generation run (tries + 1))"
  by pat_completeness auto
termination by (relation "measure (\<lambda>(f, run, tries). 3 - tries)") auto

declare snd_fw_tries.simps [simp del]

definition snd_fw_transaction :: "bool \<Rightarrow> (nat \<Rightarrow> u32 \<times> 'b) \<Rightarrow> errno + 'b" where
  "snd_fw_transaction fixed_generation run = snd_fw_tries fixed_generation run 0"

section \<open>FCP transactions\<close>

abbreviation (input) ERROR_RETRIES :: nat where "ERROR_RETRIES \<equiv> 3"

datatype fcp_state = STATE_PENDING | STATE_BUS_RESET | STATE_COMPLETE | STATE_DEFERRED

text \<open>The device of a unit, as far as a response is compared with it.\<close>

record fw_parent =
  p_card :: nat
  p_generation :: nat
  p_node_id :: u16

record fcp_transaction =
  t_unit :: nat
  response_buffer :: bytes
  response_size :: nat
  response_match_bytes :: u32
  f_state :: fcp_state
  deferrable :: bool

text \<open>The comparison loop over the bytes: position, remaining mask and remaining length.  It is entered with at least
  one byte.\<close>

function match_loop :: "bytes \<Rightarrow> bytes \<Rightarrow> u32 \<Rightarrow> nat \<Rightarrow> nat \<Rightarrow> bool" where
  "match_loop p1 p2 m i len =
    (if bit m 0 \<and> p1 ! i \<noteq> p2 ! i then False
     else let m = drop_bit 1 m in
       if m = 0 then True
       else if len - 1 = 0 then False
       else match_loop p1 p2 m (i + 1) (len - 1))"
  by pat_completeness auto
termination by (relation "measure (\<lambda>(p1, p2, m, i, len). len)") auto

declare match_loop.simps [simp del]

definition is_matching_response :: "fcp_transaction \<Rightarrow> bytes \<Rightarrow> bool" where
  "is_matching_response t response =
    match_loop response (response_buffer t) (response_match_bytes t) 0 (length response)"

text \<open>A response frame for one transaction of the list, and for the list.  \<open>parent\<close> gives the device of a unit at that
  time.\<close>

definition fcp_response_one :: "(nat \<Rightarrow> fw_parent) \<Rightarrow> nat \<Rightarrow> u16 \<Rightarrow> nat \<Rightarrow> bytes \<Rightarrow> fcp_transaction \<Rightarrow> fcp_transaction" where
  "fcp_response_one parent crd source generation dat t =
    (let device = parent (t_unit t) in
     if p_card device \<noteq> crd \<or> p_generation device \<noteq> generation then t
     else if p_node_id device \<noteq> source then t
     else if f_state t = STATE_PENDING \<and> is_matching_response t dat then
       if deferrable t \<and> dat ! 0 = 0x0f then t\<lparr>f_state := STATE_DEFERRED\<rparr>
       else
         let n = min (length dat) (response_size t)
         in t\<lparr>f_state := STATE_COMPLETE, response_size := n,
              response_buffer := take n dat @ drop n (response_buffer t)\<rparr>
     else t)"

definition fcp_response ::
  "(nat \<Rightarrow> fw_parent) \<Rightarrow> nat \<Rightarrow> u16 \<Rightarrow> nat \<Rightarrow> bytes \<Rightarrow> fcp_transaction list \<Rightarrow> fcp_transaction list" where
  "fcp_response parent crd source generation dat transactions =
    (if length dat < 1 \<or> (dat ! 0) AND 0xf0 \<noteq> 0x00 then transactions
     else map (fcp_response_one parent crd source generation dat) transactions)"

definition fcp_bus_reset :: "nat \<Rightarrow> fcp_transaction list \<Rightarrow> fcp_transaction list" where
  "fcp_bus_reset u transactions =
    map (\<lambda>t. if t_unit t = u \<and> (f_state t = STATE_PENDING \<or> f_state t = STATE_DEFERRED)
             then t\<lparr>f_state := STATE_BUS_RESET\<rparr> else t) transactions"

text \<open>What happens to the transactions while a caller sends or waits.\<close>

datatype fcp_event =
    Fcp_response "nat \<Rightarrow> fw_parent" nat u16 nat bytes
  | Fcp_bus_reset nat

fun fcp_apply :: "fcp_event \<Rightarrow> fcp_transaction list \<Rightarrow> fcp_transaction list" where
  "fcp_apply (Fcp_response parent crd source generation dat) ts = fcp_response parent crd source generation dat ts"
| "fcp_apply (Fcp_bus_reset u) ts = fcp_bus_reset u ts"

text \<open>The environment of one caller: the response codes for each sending of the command and what happened meanwhile, and
  what happened until each wait was over.\<close>

record fcp_env =
  e_run :: "nat \<Rightarrow> nat \<Rightarrow> u32 \<times> unit"
  e_sent :: "nat \<Rightarrow> fcp_event list"
  e_wait :: "nat \<Rightarrow> fcp_event list"

text \<open>The transaction of the caller is the last one of the list, where \<open>list_add_tail\<close> put it.  Events change every
  element of the list on its own, so the others are not followed here.\<close>

definition fcp_events :: "fcp_event list \<Rightarrow> fcp_transaction \<Rightarrow> fcp_transaction" where
  "fcp_events ev t = last (fold fcp_apply ev [t])"

text \<open>One round of the loop: \<open>resend\<close> is false after the jump to the label \<open>deferred\<close>; \<open>i\<close> and \<open>j\<close> count the
  sends and the waits.\<close>

datatype fcp_next = Fcp_return "errno + nat" fcp_transaction | Fcp_again bool nat nat nat fcp_transaction

definition fcp_wait :: "fcp_env \<Rightarrow> nat \<Rightarrow> nat \<Rightarrow> nat \<Rightarrow> fcp_transaction \<Rightarrow> fcp_next" where
  "fcp_wait env i j tries t0 =
    (let t = fcp_events (e_wait env j) t0 in
     case f_state t of
       STATE_DEFERRED \<Rightarrow> Fcp_again False i (j + 1) tries (t\<lparr>f_state := STATE_PENDING\<rparr>)
     | STATE_COMPLETE \<Rightarrow> Fcp_return (Inr (response_size t)) t
     | STATE_BUS_RESET \<Rightarrow> Fcp_again True i (j + 1) tries t
     | STATE_PENDING \<Rightarrow> if tries + 1 \<ge> ERROR_RETRIES then Fcp_return (Inl EIO) t
                        else Fcp_again True i (j + 1) (tries + 1) t)"

definition fcp_round :: "fcp_env \<Rightarrow> bool \<Rightarrow> nat \<Rightarrow> nat \<Rightarrow> nat \<Rightarrow> fcp_transaction \<Rightarrow> fcp_next" where
  "fcp_round env resend i j tries t0 =
    (if resend then
       let t = fcp_events (e_sent env i) t0 in
       (case snd_fw_transaction False (e_run env i) of
          Inl err \<Rightarrow> Fcp_return (Inl err) t
        | Inr _ \<Rightarrow> fcp_wait env (i + 1) j tries t)
     else fcp_wait env i j tries t0)"

partial_function (option) fcp_loop ::
  "fcp_env \<Rightarrow> bool \<Rightarrow> nat \<Rightarrow> nat \<Rightarrow> nat \<Rightarrow> fcp_transaction \<Rightarrow> ((errno + nat) \<times> fcp_transaction) option" where
  "fcp_loop env resend i j tries t =
    (case fcp_round env resend i j tries t of
       Fcp_return ret t \<Rightarrow> Some (ret, t)
     | Fcp_again resend i j tries t \<Rightarrow> fcp_loop env resend i j tries t)"

definition fcp_start :: "nat \<Rightarrow> bytes \<Rightarrow> bytes \<Rightarrow> u32 \<Rightarrow> fcp_transaction" where
  "fcp_start u command response match_bytes =
    \<lparr>t_unit = u, response_buffer = response, response_size = length response, response_match_bytes = match_bytes,
     f_state = STATE_PENDING, deferrable = (command ! 0 = 0x00 \<or> command ! 0 = 0x03)\<rparr>"

text \<open>The size of the response or an error, and the response buffer.\<close>

definition fcp_avc_transaction :: "fcp_env \<Rightarrow> nat \<Rightarrow> bytes \<Rightarrow> bytes \<Rightarrow> u32 \<Rightarrow> ((errno + nat) \<times> bytes) option" where
  "fcp_avc_transaction env u command response match_bytes =
    map_option (\<lambda>(ret, t). (ret, response_buffer t)) (fcp_loop env True 0 0 0 (fcp_start u command response match_bytes))"

section \<open>AV/C general commands\<close>

datatype avc_general_plug_dir = AVC_GENERAL_PLUG_DIR_IN | AVC_GENERAL_PLUG_DIR_OUT

definition amdtp_rate_table :: "nat list" where
  "amdtp_rate_table = [32000, 44100, 48000, 88200, 96000, 176400, 192000]"

text \<open>The common checks on a response; some commands know the answer \<open>IN TRANSITION\<close>.\<close>

definition avc_check :: "bool \<Rightarrow> (errno + nat) \<times> bytes \<Rightarrow> errno + bytes" where
  "avc_check transition r =
    (case r of
       (Inl err, buf) \<Rightarrow> Inl err
     | (Inr n, buf) \<Rightarrow>
         if n < 8 then Inl EIO
         else if buf ! 0 = 0x08 then Inl ENOSYS
         else if buf ! 0 = 0x0a then Inl EINVAL
         else if transition \<and> buf ! 0 = 0x0b then Inl EAGAIN
         else Inr buf)"

definition plug_signal_format :: "avc_general_plug_dir \<Rightarrow> u8" where
  "plug_signal_format dir = (if dir = AVC_GENERAL_PLUG_DIR_IN then 0x19 else 0x18)"

definition avc_general_set_sig_fmt :: "fcp_env \<Rightarrow> nat \<Rightarrow> bool \<Rightarrow> nat \<Rightarrow> avc_general_plug_dir \<Rightarrow> u16 \<Rightarrow> errno option option" where
  "avc_general_set_sig_fmt env u alloc rate dir pid =
    (case List.find (\<lambda>sfc. amdtp_rate_table ! sfc = rate) [0..<length amdtp_rate_table] of
       None \<Rightarrow> Some (Some EINVAL)
     | Some sfc \<Rightarrow>
         if \<not> alloc then Some (Some ENOMEM)
         else
           let buf = [0x00, 0xff, plug_signal_format dir, ucast pid, 0x90, 0x07 AND of_nat sfc, 0xff, 0xff]
           in map_option (\<lambda>r. case avc_check False r of Inl err \<Rightarrow> Some err | Inr _ \<Rightarrow> None)
                (fcp_avc_transaction env u buf buf 0x3e))"

definition avc_general_get_sig_fmt :: "fcp_env \<Rightarrow> nat \<Rightarrow> bool \<Rightarrow> avc_general_plug_dir \<Rightarrow> u16 \<Rightarrow> (errno + nat) option" where
  "avc_general_get_sig_fmt env u alloc dir pid =
    (if \<not> alloc then Some (Inl ENOMEM)
     else
       let buf = [0x01, 0xff, plug_signal_format dir, ucast pid, 0x90, 0xff, 0xff, 0xff]
       in map_option (\<lambda>r. case avc_check True r of
                            Inl err \<Rightarrow> Inl err
                          | Inr buf \<Rightarrow>
                              let sfc = unat (0x07 AND buf ! 5)
                              in if sfc \<ge> length amdtp_rate_table then Inl EAGAIN else Inr (amdtp_rate_table ! sfc))
            (fcp_avc_transaction env u buf buf 0x1e))"

definition avc_general_get_plug_info :: "fcp_env \<Rightarrow> nat \<Rightarrow> bool \<Rightarrow> nat \<Rightarrow> nat \<Rightarrow> nat \<Rightarrow> (errno + bytes) option" where
  "avc_general_get_plug_info env u alloc subunit_type subunit_id subfunction =
    (if subunit_type = 0x1e \<or> subunit_id = 5 then Some (Inl EINVAL)
     else if \<not> alloc then Some (Inl ENOMEM)
     else
       let buf = [0x01, push_bit 3 (of_nat subunit_type AND 0x1f) OR (of_nat subunit_id AND 0x7), 0x02, of_nat subfunction, 0, 0, 0, 0]
       in map_option (\<lambda>r. map_sum id (\<lambda>buf. take 4 (drop 4 buf)) (avc_check True r)) (fcp_avc_transaction env u buf buf 0x06))"

section \<open>Matching\<close>

lemma word_eq_0_iff_bits: "m = 0 \<longleftrightarrow> (\<forall>k. \<not> bit m k)" for m :: "'a::len word"
  by (auto intro: bit_word_eqI)

lemma match_spec_step:
  fixes m :: u32
  assumes "0 < len"
  shows "(\<forall>k. bit m k \<longrightarrow> k < len \<and> p1 ! (i + k) = p2 ! (i + k)) \<longleftrightarrow>
    (bit m 0 \<longrightarrow> p1 ! i = p2 ! i) \<and> (\<forall>k. bit (drop_bit 1 m) k \<longrightarrow> k < len - 1 \<and> p1 ! (i + 1 + k) = p2 ! (i + 1 + k))"
    (is "?L \<longleftrightarrow> ?A \<and> ?B")
proof
  assume L: ?L
  show "?A \<and> ?B"
  proof (intro conjI impI allI)
    show "p1 ! i = p2 ! i" if "bit m 0" using L that by force
    fix k assume "bit (drop_bit 1 m) k"
    then have "bit m (Suc k)" by (simp add: bit_drop_bit_eq)
    with L have "Suc k < len \<and> p1 ! (i + Suc k) = p2 ! (i + Suc k)" by blast
    then show "k < len - 1" "p1 ! (i + 1 + k) = p2 ! (i + 1 + k)" by auto
  qed
next
  assume R: "?A \<and> ?B"
  show ?L
  proof (intro allI impI)
    fix k assume "bit m k"
    with R assms show "k < len \<and> p1 ! (i + k) = p2 ! (i + k)"
      by (cases k) (auto simp: bit_drop_bit_eq)
  qed
qed

lemma match_loop_correct:
  "0 < len \<Longrightarrow> match_loop p1 p2 m i len \<longleftrightarrow> (\<forall>k. bit m k \<longrightarrow> k < len \<and> p1 ! (i + k) = p2 ! (i + k))"
proof (induction p1 p2 m i len rule: match_loop.induct)
  case (1 p1 p2 m i len)
  note all = match_spec_step [OF 1(2), of m p1 i p2]
  have step: "match_loop p1 p2 m i len \<longleftrightarrow>
      (bit m 0 \<longrightarrow> p1 ! i = p2 ! i) \<and>
      (drop_bit 1 m = 0 \<or> len - 1 \<noteq> 0 \<and> match_loop p1 p2 (drop_bit 1 m) (i + 1) (len - 1))"
    by (subst match_loop.simps) (simp only: Let_def split: if_splits, blast)
  show ?case
  proof (cases "(bit m 0 \<and> p1 ! i \<noteq> p2 ! i) \<or> drop_bit 1 m = 0 \<or> len - 1 = 0")
    case True
    then show ?thesis unfolding step all by (metis less_nat_zero_code word_eq_0_iff_bits)
  next
    case False
    then have "match_loop p1 p2 (drop_bit 1 m) (i + 1) (len - 1) \<longleftrightarrow>
      (\<forall>k. bit (drop_bit 1 m) k \<longrightarrow> k < len - 1 \<and> p1 ! (i + 1 + k) = p2 ! (i + 1 + k))"
      using 1(1) by (metis not_gr_zero)
    with False show ?thesis unfolding step all by blast
  qed
qed

text \<open>For a response of at least one byte, the loop over the shrinking mask accepts exactly when every byte selected by
  the mask exists in the response and agrees with the expected byte.\<close>

lemma is_matching_response_correct:
  assumes "response \<noteq> []"
  shows "is_matching_response t response \<longleftrightarrow>
    (\<forall>k. bit (response_match_bytes t) k \<longrightarrow> k < length response \<and> response ! k = response_buffer t ! k)"
  using assms by (simp add: is_matching_response_def match_loop_correct)

section \<open>Progress of the transaction loop\<close>

text \<open>A response frame that only announces the final one.\<close>

fun fcp_interim :: "fcp_event \<Rightarrow> bool" where
  "fcp_interim (Fcp_response parent crd source generation dat) \<longleftrightarrow> dat \<noteq> [] \<and> dat ! 0 = 0x0f"
| "fcp_interim (Fcp_bus_reset u) \<longleftrightarrow> False"

lemma fcp_apply_single: "\<exists>t'. fcp_apply ev [t] = [t']"
  by (cases ev) (auto simp: fcp_response_def fcp_bus_reset_def)

lemma fcp_events_Nil [simp]: "fcp_events [] t = t"
  by (simp add: fcp_events_def)

lemma fcp_events_Cons [simp]: "fcp_events (ev # evs) t = fcp_events evs (hd (fcp_apply ev [t]))"
proof -
  obtain t' where "fcp_apply ev [t] = [t']" using fcp_apply_single by blast
  then show ?thesis by (simp add: fcp_events_def)
qed

lemma fcp_apply_keeps:
  assumes "ev \<noteq> Fcp_bus_reset (t_unit t)"
  shows "t_unit (hd (fcp_apply ev [t])) = t_unit t"
    and "f_state t \<noteq> STATE_BUS_RESET \<Longrightarrow> f_state (hd (fcp_apply ev [t])) \<noteq> STATE_BUS_RESET"
    and "f_state t \<noteq> STATE_DEFERRED \<Longrightarrow> \<not> fcp_interim ev \<Longrightarrow> f_state (hd (fcp_apply ev [t])) \<noteq> STATE_DEFERRED"
  using assms by (cases ev; auto simp: fcp_response_def fcp_response_one_def fcp_bus_reset_def Let_def)+

lemma fcp_events_keep:
  "Fcp_bus_reset (t_unit t) \<notin> set evs \<Longrightarrow> f_state t \<noteq> STATE_BUS_RESET \<Longrightarrow>
    t_unit (fcp_events evs t) = t_unit t \<and> f_state (fcp_events evs t) \<noteq> STATE_BUS_RESET"
  by (induction evs arbitrary: t) (auto simp: fcp_apply_keeps)

lemma fcp_events_not_deferred:
  "Fcp_bus_reset (t_unit t) \<notin> set evs \<Longrightarrow> f_state t \<noteq> STATE_DEFERRED \<Longrightarrow> \<forall>ev\<in>set evs. \<not> fcp_interim ev \<Longrightarrow>
    f_state (fcp_events evs t) \<noteq> STATE_DEFERRED"
  by (induction evs arbitrary: t) (auto simp: fcp_apply_keeps)

lemma fcp_round_progress:
  assumes no_reset: "\<forall>k. Fcp_bus_reset u \<notin> set (e_sent env k) \<and> Fcp_bus_reset u \<notin> set (e_wait env k)"
    and interim: "\<forall>k\<ge>N. \<forall>ev\<in>set (e_sent env k) \<union> set (e_wait env k). \<not> fcp_interim ev"
    and t: "f_state t = STATE_PENDING" "t_unit t = u" "tries < 3"
    and again: "fcp_round env resend i j tries t = Fcp_again resend' i' j' tries' t'"
  shows "f_state t' = STATE_PENDING \<and> t_unit t' = u \<and> tries' < 3 \<and>
    (N - i') + (N - j') + (3 - tries') < (N - i) + (N - j) + (3 - tries)"
proof -
  define s where "s = (if resend then fcp_events (e_sent env i) t else t)"
  define w where "w = fcp_events (e_wait env j) s"
  have s: "t_unit s = u" "f_state s \<noteq> STATE_BUS_RESET"
    using fcp_events_keep [of t "e_sent env i"] no_reset t by (auto simp: s_def)
  then have w: "t_unit w = u" "f_state w \<noteq> STATE_BUS_RESET"
    using fcp_events_keep [of s "e_wait env j"] no_reset by (auto simp: w_def)
  have early: "i < N \<and> resend \<or> j < N" if "f_state w = STATE_DEFERRED"
  proof (rule ccontr)
    assume late: "\<not> (i < N \<and> resend \<or> j < N)"
    then have "resend \<Longrightarrow> \<forall>ev\<in>set (e_sent env i). \<not> fcp_interim ev" "\<forall>ev\<in>set (e_wait env j). \<not> fcp_interim ev"
      using interim by (metis UnCI not_less)+
    note quiet = this
    then have "f_state s \<noteq> STATE_DEFERRED"
      using fcp_events_not_deferred [of t "e_sent env i"] no_reset t by (auto simp: s_def)
    then have "f_state w \<noteq> STATE_DEFERRED"
      using fcp_events_not_deferred [of s "e_wait env j"] no_reset quiet s by (auto simp: w_def)
    with that show False by blast
  qed
  have "fcp_wait env (if resend then i + 1 else i) j tries s = Fcp_again resend' i' j' tries' t'"
    using again by (auto simp: fcp_round_def s_def Let_def split: if_splits sum.splits)
  then show ?thesis
    using w early t(3) by (auto simp: fcp_wait_def w_def [symmetric] Let_def split: fcp_state.splits if_splits)
qed

lemma fcp_loop_returns:
  assumes no_reset: "\<forall>k. Fcp_bus_reset u \<notin> set (e_sent env k) \<and> Fcp_bus_reset u \<notin> set (e_wait env k)"
    and interim: "\<forall>k\<ge>N. \<forall>ev\<in>set (e_sent env k) \<union> set (e_wait env k). \<not> fcp_interim ev"
  shows "f_state t = STATE_PENDING \<Longrightarrow> t_unit t = u \<Longrightarrow> tries < 3 \<Longrightarrow> fcp_loop env resend i j tries t \<noteq> None"
proof (induction "(N - i) + (N - j) + (3 - tries)" arbitrary: resend i j tries t rule: less_induct)
  case less
  show ?case
  proof (cases "fcp_round env resend i j tries t")
    case (Fcp_return ret t')
    then show ?thesis by (subst fcp_loop.simps) simp
  next
    case (Fcp_again resend' i' j' tries' t')
    note p = fcp_round_progress [OF no_reset interim less.prems(1) less.prems(2) less.prems(3) Fcp_again]
    then have "fcp_loop env resend' i' j' tries' t' \<noteq> None" using less.hyps by blast
    with Fcp_again show ?thesis by (subst fcp_loop.simps) simp
  qed
qed

text \<open>C21. A transaction that sees no bus reset returns to its caller, provided that INTERIM responses stop at some
  point; otherwise whatever frames arrive, from whomever.\<close>

theorem fcp_avc_transaction_returns:
  assumes "\<forall>k. Fcp_bus_reset u \<notin> set (e_sent env k) \<and> Fcp_bus_reset u \<notin> set (e_wait env k)"
    and "\<forall>k\<ge>N. \<forall>ev\<in>set (e_sent env k) \<union> set (e_wait env k). \<not> fcp_interim ev"
  shows "\<exists>ret buf. fcp_avc_transaction env u command response match_bytes = Some (ret, buf)"
proof -
  have "fcp_loop env True 0 0 0 (fcp_start u command response match_bytes) \<noteq> None"
    by (rule fcp_loop_returns [OF assms]) (simp_all add: fcp_start_def)
  then show ?thesis by (auto simp: fcp_avc_transaction_def)
qed

theorem fcp_avc_transaction_returns_witness:
  "\<exists>ret buf. fcp_avc_transaction
     \<lparr>e_run = \<lambda>i k. (RCODE_COMPLETE, ()), e_sent = \<lambda>i. [],
      e_wait = \<lambda>j. if j = 0 then [Fcp_response (\<lambda>u. \<lparr>p_card = 0, p_generation = 1, p_node_id = 2\<rparr>) 0 2 1 [0x0f, 0xff]] else []\<rparr>
     7 [0x00, 0xff] [0x00, 0xff] 0x2 = Some (ret, buf)"
  by (rule fcp_avc_transaction_returns [where N = 1]) auto

lemma bus_reset_state_stays: "f_state t = STATE_BUS_RESET \<Longrightarrow> fcp_events evs t = t"
proof (induction evs)
  case (Cons ev evs)
  then have "hd (fcp_apply ev [t]) = t"
    by (cases ev) (auto simp: fcp_response_def fcp_response_one_def fcp_bus_reset_def Let_def)
  with Cons show ?case by simp
qed simp

lemma fcp_loop_stuck:
  assumes "fcp_loop env resend i j tries t = Some r"
  shows "\<not> (f_state t = STATE_BUS_RESET \<and> (\<forall>k. snd_fw_transaction False (e_run env k) = Inr ()))"
  using _ assms
proof (rule fcp_loop.raw_induct, goal_cases)
  case (1 loop env resend i j tries t r)
  show ?case
  proof
    assume h: "f_state t = STATE_BUS_RESET \<and> (\<forall>k. snd_fw_transaction False (e_run env k) = Inr ())"
    then have "fcp_round env resend i j tries t = Fcp_again True (if resend then i + 1 else i) (j + 1) tries t"
      by (simp add: fcp_round_def fcp_wait_def bus_reset_state_stays)
    with 1(2) have "loop env True (if resend then i + 1 else i) (j + 1) tries t = Some r" by simp
    from 1(1) [OF this] h show False by blast
  qed
qed

text \<open>C23. A transaction that a bus reset catches in its first wait never returns while the target accepts its command: the
  state stays at \<open>STATE_BUS_RESET\<close>, so that no response is taken any more, and the retries are not counted.\<close>

theorem fcp_bus_reset_never_returns:
  assumes "\<forall>k. snd_fw_transaction False (e_run env k) = Inr ()"
    and "e_sent env 0 = []" "e_wait env 0 = [Fcp_bus_reset u]"
  shows "fcp_avc_transaction env u command response match_bytes = None"
proof -
  define t where "t = (fcp_start u command response match_bytes)\<lparr>f_state := STATE_BUS_RESET\<rparr>"
  have "fcp_round env True 0 0 0 (fcp_start u command response match_bytes) = Fcp_again True 1 1 0 t"
    using assms by (simp add: fcp_round_def fcp_wait_def fcp_bus_reset_def fcp_start_def t_def)
  then have "fcp_loop env True 0 0 0 (fcp_start u command response match_bytes) = fcp_loop env True 1 1 0 t"
    by (subst fcp_loop.simps) simp
  also have "\<dots> = None"
    using fcp_loop_stuck [of env True 1 1 0 t] assms(1) by (cases "fcp_loop env True 1 1 0 t") (auto simp: t_def)
  finally show ?thesis by (simp add: fcp_avc_transaction_def)
qed

lemma snd_fw_transaction_first: "run 0 = (RCODE_COMPLETE, b) \<Longrightarrow> snd_fw_transaction fixed run = Inr b"
  by (simp add: snd_fw_transaction_def snd_fw_tries.simps)

theorem fcp_bus_reset_never_returns_witness:
  "fcp_avc_transaction
     \<lparr>e_run = \<lambda>i k. (RCODE_COMPLETE, ()), e_sent = \<lambda>i. [],
      e_wait = \<lambda>j. if j = 0 then [Fcp_bus_reset 7]
        else [Fcp_response (\<lambda>u. \<lparr>p_card = 0, p_generation = 1, p_node_id = 2\<rparr>) 0 2 1 [0x09, 0xff]]\<rparr>
     7 [0x00, 0xff] [0x00, 0xff] 0x2 = None"
  by (rule fcp_bus_reset_never_returns) (simp_all add: snd_fw_transaction_first)

text \<open>A final response is taken after any number of INTERIM ones.\<close>

lemma fcp_loop_deferred:
  assumes t: "f_state t = STATE_PENDING" "deferrable t" "p_card (parent (t_unit t)) = crd"
      "p_generation (parent (t_unit t)) = generation" "p_node_id (parent (t_unit t)) = source"
    and interim: "\<And>k. k < n \<Longrightarrow> \<exists>dat. e_wait env k = [Fcp_response parent crd source generation dat] \<and>
      dat \<noteq> [] \<and> dat ! 0 = 0x0f \<and> is_matching_response t dat"
    and final: "e_wait env n = [Fcp_response parent crd source generation dat]" "dat \<noteq> []" "(dat ! 0) AND 0xf0 = 0"
      "dat ! 0 \<noteq> 0x0f" "is_matching_response t dat"
  shows "j \<le> n \<Longrightarrow> fcp_loop env False i j tries t =
    Some (Inr (min (length dat) (response_size t)),
          t\<lparr>f_state := STATE_COMPLETE, response_size := min (length dat) (response_size t),
            response_buffer := take (min (length dat) (response_size t)) dat @
              drop (min (length dat) (response_size t)) (response_buffer t)\<rparr>)"
proof (induction "n - j" arbitrary: j)
  case 0
  then have "j = n" by simp
  then show ?case
    using t final
    by (subst fcp_loop.simps)
      (simp add: fcp_round_def fcp_wait_def fcp_response_def fcp_response_one_def Let_def)
next
  case (Suc d)
  then have "j < n" by simp
  then obtain dat' where d: "e_wait env j = [Fcp_response parent crd source generation dat']" "dat' \<noteq> []"
      "dat' ! 0 = 0x0f" "is_matching_response t dat'"
    using interim by blast
  have "fcp_round env False i j tries t = Fcp_again False i (j + 1) tries t"
    using t d by (simp add: fcp_round_def fcp_wait_def fcp_response_def fcp_response_one_def Let_def)
  moreover have "fcp_loop env False i (j + 1) tries t = fcp_loop env False i (Suc j) tries t" by simp
  ultimately show ?case
    using Suc(1) [of "Suc j"] Suc(2,3) by (subst fcp_loop.simps) simp
qed


lemma matching_12: "is_matching_response (fcp_start u command [0x00, 0xff] 0x2) [b, 0xff]"
  by (simp add: is_matching_response_def fcp_start_def match_loop.simps)


end
