(* ===== verification/Snd_Cmp.thy ===== *)
theory Snd_Cmp
  imports Iso_Resource Snd_Fcp
begin

text \<open>
  Connections of the sound drivers: the isochronous resources of a stream (\<^verbatim>\<open>sound/firewire/iso-resources.c\<close>) on
  top of the allocation of \<^verbatim>\<open>core-iso.c\<close>, and the connection management procedures
  (\<^verbatim>\<open>sound/firewire/cmp.c\<close>), which write the plug control registers of the target by compare-and-swap.  The card, its clock,
  the IRM and the target are an environment; the loops over bus resets are partial functions, where \<open>None\<close>
  means that the function does not return.
\<close>

section \<open>Resources of a stream\<close>

abbreviation (input) SCODE_400 :: nat where "SCODE_400 \<equiv> 2"
abbreviation (input) SCODE_800 :: nat where "SCODE_800 \<equiv> 3"

record fw_iso_resources =
  r_channels_mask :: u64
  r_unit :: "nat option"
  r_channel :: nat
  r_bandwidth :: u32
  r_bandwidth_overhead :: u32
  r_generation :: nat
  r_allocated :: bool

text \<open>A transaction with a plug control register: address, expected and new value, and what came back.\<close>

record pcr_entry =
  p_address :: u64
  p_old :: u32
  p_new :: u32
  p_result :: "errno + u32"

text \<open>What the functions leave behind: the number of readings of the card's state and the transactions with the IRM and with
  the plug control registers.\<close>

record iso_world =
  w_reads :: nat
  w_irm :: lock_log
  w_pcr :: "pcr_entry list"

text \<open>The environment: generation and gap count of the card at each reading; for each wait after it the reset time,
  the clock and the rest of the timeout, round by round; the IRM in a generation; the answers of the target's registers.\<close>

record iso_env =
  ie_card :: "nat \<Rightarrow> nat \<times> nat"
  ie_hz :: u64
  ie_clock :: "nat \<Rightarrow> nat \<Rightarrow> u64 \<times> u64 \<times> int"
  ie_irm :: "nat \<Rightarrow> irm"
  ie_max_speed :: nat
  ie_read :: "iso_world \<Rightarrow> u64 \<Rightarrow> nat \<Rightarrow> u32 \<times> u32"
  ie_plug :: "iso_world \<Rightarrow> nat \<Rightarrow> u64 \<Rightarrow> u32 \<Rightarrow> u32 \<Rightarrow> nat \<Rightarrow> u32 \<times> u32"

definition fw_iso_resources_init :: "fw_iso_resources \<Rightarrow> nat \<Rightarrow> fw_iso_resources" where
  "fw_iso_resources_init r u = r\<lparr>r_channels_mask := NOT 0, r_unit := Some u, r_allocated := False\<rparr>"

definition packet_bandwidth :: "u32 \<Rightarrow> nat \<Rightarrow> u32" where
  "packet_bandwidth max_payload_bytes speed =
    (let n = 3 * 4 + ((max_payload_bytes + 3) AND NOT 3) in
     if speed \<le> SCODE_400 then n * push_bit (SCODE_400 - speed) 1
     else (n + push_bit (speed - SCODE_400) 1 - 1) div push_bit (speed - SCODE_400) 1)"

definition current_bandwidth_overhead :: "nat \<Rightarrow> nat" where
  "current_bandwidth_overhead gap_count = (if gap_count < 63 then gap_count * 97 div 10 + 89 else 512)"

partial_function (option) wait_isoch_resource_delay_after_bus_reset ::
  "u64 \<Rightarrow> (nat \<Rightarrow> u64 \<times> u64 \<times> int) \<Rightarrow> nat \<Rightarrow> errno option option" where
  "wait_isoch_resource_delay_after_bus_reset hz clock m =
    (let (reset_jiffies, now, left) = clock m; delay = sint (reset_jiffies + hz - now) in
     if delay \<le> 0 then Some None
     else if left > 0 then Some (Some ERESTARTSYS)
     else wait_isoch_resource_delay_after_bus_reset hz clock (m + 1))"

definition read_card :: "iso_env \<Rightarrow> fw_iso_resources \<Rightarrow> iso_world \<Rightarrow> fw_iso_resources \<times> iso_world" where
  "read_card env r w =
    (let (generation, gap_count) = ie_card env (w_reads w)
     in (r\<lparr>r_generation := generation, r_bandwidth_overhead := of_nat (current_bandwidth_overhead gap_count)\<rparr>,
         w\<lparr>w_reads := w_reads w + 1\<rparr>))"

definition resources_bandwidth :: "fw_iso_resources \<Rightarrow> int" where
  "resources_bandwidth r = sint (r_bandwidth r + r_bandwidth_overhead r)"

partial_function (option) allocate_loop ::
  "iso_env \<Rightarrow> fw_iso_resources \<Rightarrow> iso_world \<Rightarrow> ((errno + nat) \<times> fw_iso_resources \<times> iso_world) option" where
  "allocate_loop env r w =
    (let clock = ie_clock env (w_reads w); (r, w) = read_card env r w in
     wait_isoch_resource_delay_after_bus_reset (ie_hz env) clock 0 \<bind>
     (\<lambda>err. case err of
        Some e \<Rightarrow> Some (Inl e, r, w)
      | None \<Rightarrow>
          let (channel, bandwidth, h) = fw_iso_resource_manage (ie_irm env (r_generation r)) (w_irm w) (r_channels_mask r)
                (resources_bandwidth r) True;
              w = w\<lparr>w_irm := h\<rparr>
          in if channel = Inl EAGAIN then allocate_loop env r w
             else case channel of
               Inr ch \<Rightarrow> Some (channel, r\<lparr>r_channel := ch, r_allocated := True\<rparr>, w)
             | Inl _ \<Rightarrow> Some (channel, r, w)))"

definition fw_iso_resources_allocate ::
  "iso_env \<Rightarrow> fw_iso_resources \<Rightarrow> u32 \<Rightarrow> nat \<Rightarrow> iso_world \<Rightarrow> ((errno + nat) \<times> fw_iso_resources \<times> iso_world) option" where
  "fw_iso_resources_allocate env r max_payload_bytes speed w =
    (if r_allocated r then Some (Inl EBADFD, r, w)
     else allocate_loop env (r\<lparr>r_bandwidth := packet_bandwidth max_payload_bytes speed\<rparr>) w)"

definition fw_iso_resources_update ::
  "iso_env \<Rightarrow> fw_iso_resources \<Rightarrow> iso_world \<Rightarrow> (errno + nat) \<times> fw_iso_resources \<times> iso_world" where
  "fw_iso_resources_update env r w =
    (if \<not> r_allocated r then (Inr 0, r, w)
     else
       let (r, w) = read_card env r w;
           (channel, bandwidth, h) = fw_iso_resource_manage (ie_irm env (r_generation r)) (w_irm w) (push_bit (r_channel r) 1)
             (resources_bandwidth r) True;
           r = (if isl channel \<and> channel \<noteq> Inl EAGAIN then r\<lparr>r_allocated := False\<rparr> else r)
       in (channel, r, w\<lparr>w_irm := h\<rparr>))"

definition fw_iso_resources_free :: "iso_env \<Rightarrow> fw_iso_resources \<Rightarrow> iso_world \<Rightarrow> fw_iso_resources \<times> iso_world" where
  "fw_iso_resources_free env r w =
    (if r_unit r = None then (r, w)
     else if r_allocated r then
       let (channel, bandwidth, h) = fw_iso_resource_manage (ie_irm env (r_generation r)) (w_irm w) (push_bit (r_channel r) 1)
             (resources_bandwidth r) False
       in (r\<lparr>r_allocated := False\<rparr>, w\<lparr>w_irm := h\<rparr>)
     else (r, w))"

section \<open>Connections\<close>

abbreviation (input) MPR_SPEED_MASK :: u32 where "MPR_SPEED_MASK \<equiv> 0xc0000000"
abbreviation (input) MPR_XSPEED_MASK :: u32 where "MPR_XSPEED_MASK \<equiv> 0x00000060"
abbreviation (input) MPR_PLUGS_MASK :: u32 where "MPR_PLUGS_MASK \<equiv> 0x0000001f"
abbreviation (input) PCR_ONLINE :: u32 where "PCR_ONLINE \<equiv> 0x80000000"
abbreviation (input) PCR_BCAST_CONN :: u32 where "PCR_BCAST_CONN \<equiv> 0x40000000"
abbreviation (input) PCR_P2P_CONN_MASK :: u32 where "PCR_P2P_CONN_MASK \<equiv> 0x3f000000"
abbreviation (input) PCR_CHANNEL_MASK :: u32 where "PCR_CHANNEL_MASK \<equiv> 0x003f0000"
abbreviation (input) OPCR_XSPEED_MASK :: u32 where "OPCR_XSPEED_MASK \<equiv> 0x00C00000"
abbreviation (input) OPCR_SPEED_MASK :: u32 where "OPCR_SPEED_MASK \<equiv> 0x0000C000"
abbreviation (input) OPCR_OVERHEAD_ID_MASK :: u32 where "OPCR_OVERHEAD_ID_MASK \<equiv> 0x00003C00"

datatype bus_reset_handling = ABORT_ON_BUS_RESET | SUCCEED_ON_BUS_RESET

datatype cmp_direction = CMP_INPUT | CMP_OUTPUT

text \<open>Register values are in host byte order.\<close>

record cmp_connection =
  c_speed :: nat
  connected :: bool
  resources :: fw_iso_resources
  last_pcr_value :: u32
  pcr_index :: nat
  c_max_speed :: nat
  c_direction :: cmp_direction

definition mpr_address :: "cmp_connection \<Rightarrow> u64" where
  "mpr_address c = (if c_direction c = CMP_INPUT then 0xfffff0000000 + 0x980 else 0xfffff0000000 + 0x900)"

definition pcr_address :: "cmp_connection \<Rightarrow> u64" where
  "pcr_address c = (if c_direction c = CMP_INPUT then 0xfffff0000000 + (0x984 + of_nat (pcr_index c) * 4)
    else 0xfffff0000000 + (0x904 + of_nat (pcr_index c) * 4))"

text \<open>The loop of \<open>pcr_modify\<close>; \<open>buf\<close> is the expected value.  A check that is a null pointer is \<open>None\<close>.\<close>

partial_function (option) pcr_modify_loop ::
  "iso_env \<Rightarrow> cmp_connection \<Rightarrow> (cmp_connection \<Rightarrow> u32 \<Rightarrow> u32) \<Rightarrow> (cmp_connection \<Rightarrow> u32 \<Rightarrow> errno option) option \<Rightarrow>
    bus_reset_handling \<Rightarrow> u32 \<Rightarrow> iso_world \<Rightarrow> (errno option \<times> cmp_connection \<times> iso_world) option" where
  "pcr_modify_loop env c modify check handling buf w =
    (let new = modify c buf;
         ret = snd_fw_transaction True (ie_plug env w (r_generation (resources c)) (pcr_address c) buf new);
         w = w\<lparr>w_pcr := w_pcr w @ [\<lparr>p_address = pcr_address c, p_old = buf, p_new = new, p_result = ret\<rparr>]\<rparr> in
     case ret of
       Inl err \<Rightarrow> Some (if err = EAGAIN \<and> handling = SUCCEED_ON_BUS_RESET then None else Some err, c, w)
     | Inr dat \<Rightarrow>
         if dat = buf then Some (None, c\<lparr>last_pcr_value := new\<rparr>, w)
         else case (case check of None \<Rightarrow> None | Some chk \<Rightarrow> chk c dat) of
           Some err \<Rightarrow> Some (Some err, c, w)
         | None \<Rightarrow> pcr_modify_loop env c modify check handling dat w)"

definition pcr_modify ::
  "iso_env \<Rightarrow> cmp_connection \<Rightarrow> (cmp_connection \<Rightarrow> u32 \<Rightarrow> u32) \<Rightarrow> (cmp_connection \<Rightarrow> u32 \<Rightarrow> errno option) option \<Rightarrow>
    bus_reset_handling \<Rightarrow> iso_world \<Rightarrow> (errno option \<times> cmp_connection \<times> iso_world) option" where
  "pcr_modify env c modify check handling w = pcr_modify_loop env c modify check handling (last_pcr_value c) w"

definition cmp_connection_init ::
  "iso_env \<Rightarrow> cmp_connection \<Rightarrow> nat \<Rightarrow> cmp_direction \<Rightarrow> nat \<Rightarrow> iso_world \<Rightarrow> errno option \<times> cmp_connection" where
  "cmp_connection_init env c u dir index w =
    (let c = c\<lparr>c_direction := dir\<rparr> in
     case snd_fw_transaction False (ie_read env w (mpr_address c)) of
       Inl err \<Rightarrow> (Some err, c)
     | Inr mpr \<Rightarrow>
         if index \<ge> unat (mpr AND MPR_PLUGS_MASK) then (Some EINVAL, c)
         else
           let max_speed = unat (drop_bit 30 (mpr AND MPR_SPEED_MASK));
               max_speed = (if max_speed = 3 then max_speed + unat (drop_bit 5 (mpr AND MPR_XSPEED_MASK)) else max_speed)
           in (None, c\<lparr>resources := fw_iso_resources_init (resources c) u, connected := False, last_pcr_value := 0x80000000,
                       pcr_index := index, c_max_speed := max_speed\<rparr>))"

definition cmp_connection_check_used :: "iso_env \<Rightarrow> cmp_connection \<Rightarrow> iso_world \<Rightarrow> errno + bool" where
  "cmp_connection_check_used env c w =
    map_sum id (\<lambda>pcr. pcr AND (PCR_BCAST_CONN OR PCR_P2P_CONN_MASK) \<noteq> 0)
      (snd_fw_transaction False (ie_read env w (pcr_address c)))"

definition cmp_connection_reserve ::
  "iso_env \<Rightarrow> cmp_connection \<Rightarrow> u32 \<Rightarrow> iso_world \<Rightarrow> ((errno + nat) \<times> cmp_connection \<times> iso_world) option" where
  "cmp_connection_reserve env c max_payload_bytes w =
    (if r_allocated (resources c) then Some (Inl EBUSY, c, w)
     else
       let c = c\<lparr>c_speed := min (c_max_speed c) (ie_max_speed env)\<rparr>
       in map_option (\<lambda>(ret, r, w). (ret, c\<lparr>resources := r\<rparr>, w))
            (fw_iso_resources_allocate env (resources c) max_payload_bytes (c_speed c) w))"

definition cmp_connection_release :: "iso_env \<Rightarrow> cmp_connection \<Rightarrow> iso_world \<Rightarrow> cmp_connection \<times> iso_world" where
  "cmp_connection_release env c w =
    (let (r, w) = fw_iso_resources_free env (resources c) w in (c\<lparr>resources := r\<rparr>, w))"

definition ipcr_set_modify :: "cmp_connection \<Rightarrow> u32 \<Rightarrow> u32" where
  "ipcr_set_modify c ipcr =
    (ipcr AND NOT (PCR_BCAST_CONN OR PCR_P2P_CONN_MASK OR PCR_CHANNEL_MASK))
    OR push_bit 24 1 OR push_bit 16 (of_nat (r_channel (resources c)))"

definition get_overhead_id :: "cmp_connection \<Rightarrow> nat" where
  "get_overhead_id c =
    (case List.find (\<lambda>i. unat (r_bandwidth_overhead (resources c)) < i * 2 ^ 5) [1..<16] of
       Some i \<Rightarrow> i
     | None \<Rightarrow> 0)"

definition opcr_set_modify :: "cmp_connection \<Rightarrow> u32 \<Rightarrow> u32" where
  "opcr_set_modify c opcr =
    (let (spd, xspd) = (if c_speed c > SCODE_400 then (SCODE_800, c_speed c - SCODE_800) else (c_speed c, 0)) in
     (opcr AND NOT (PCR_BCAST_CONN OR PCR_P2P_CONN_MASK OR OPCR_XSPEED_MASK OR PCR_CHANNEL_MASK OR
        OPCR_SPEED_MASK OR OPCR_OVERHEAD_ID_MASK))
     OR push_bit 24 1 OR push_bit 22 (of_nat xspd) OR push_bit 16 (of_nat (r_channel (resources c)))
     OR push_bit 14 (of_nat spd) OR push_bit 10 (of_nat (get_overhead_id c)))"

definition pcr_set_check :: "cmp_connection \<Rightarrow> u32 \<Rightarrow> errno option" where
  "pcr_set_check c pcr =
    (if pcr AND (PCR_BCAST_CONN OR PCR_P2P_CONN_MASK) \<noteq> 0 then Some EBUSY
     else if pcr AND PCR_ONLINE = 0 then Some ECONNREFUSED
     else None)"

definition pcr_set_modify :: "cmp_connection \<Rightarrow> u32 \<Rightarrow> u32" where
  "pcr_set_modify c = (if c_direction c = CMP_OUTPUT then opcr_set_modify c else ipcr_set_modify c)"

partial_function (option) establish_loop ::
  "iso_env \<Rightarrow> cmp_connection \<Rightarrow> iso_world \<Rightarrow> (errno option \<times> cmp_connection \<times> iso_world) option" where
  "establish_loop env c w =
    pcr_modify env c pcr_set_modify (Some pcr_set_check) ABORT_ON_BUS_RESET w \<bind>
    (\<lambda>(err, c, w).
       if err = Some EAGAIN then
         let (ret, r, w) = fw_iso_resources_update env (resources c) w; c = c\<lparr>resources := r\<rparr>
         in case ret of
              Inr _ \<Rightarrow> establish_loop env c w
            | Inl e \<Rightarrow> Some (Some e, c, w)
       else if err = None then Some (None, c\<lparr>connected := True\<rparr>, w)
       else Some (err, c, w))"

definition cmp_connection_establish ::
  "iso_env \<Rightarrow> cmp_connection \<Rightarrow> iso_world \<Rightarrow> (errno option \<times> cmp_connection \<times> iso_world) option" where
  "cmp_connection_establish env c w = (if connected c then Some (Some EISCONN, c, w) else establish_loop env c w)"

definition pcr_break_modify :: "cmp_connection \<Rightarrow> u32 \<Rightarrow> u32" where
  "pcr_break_modify c pcr = pcr AND NOT (PCR_BCAST_CONN OR PCR_P2P_CONN_MASK)"

definition cmp_connection_break ::
  "iso_env \<Rightarrow> cmp_connection \<Rightarrow> iso_world \<Rightarrow> (cmp_connection \<times> iso_world) option" where
  "cmp_connection_break env c w =
    (if \<not> connected c then Some (c, w)
     else map_option (\<lambda>(err, c, w). (c\<lparr>connected := False\<rparr>, w))
            (pcr_modify env c pcr_break_modify None SUCCEED_ON_BUS_RESET w))"

section \<open>Plug control registers\<close>

lemma pcr_masks:
  "PCR_ONLINE = field_mask 31 1" "PCR_BCAST_CONN = field_mask 30 1" "PCR_P2P_CONN_MASK = field_mask 24 6"
  "PCR_CHANNEL_MASK = field_mask 16 6" "OPCR_XSPEED_MASK = field_mask 22 2" "OPCR_SPEED_MASK = field_mask 14 2"
  "OPCR_OVERHEAD_ID_MASK = field_mask 10 4"
  by (simp_all add: field_mask_def mask_eq_exp_minus_1)

lemma get_overhead_id_less: "get_overhead_id c < 16"
proof (cases "List.find (\<lambda>i. unat (r_bandwidth_overhead (resources c)) < i * 2 ^ 5) [1..<16]")
  case (Some i)
  then have "i \<in> set [1..<16]" by (metis find_Some_iff nth_mem)
  with Some show ?thesis by (simp add: get_overhead_id_def)
qed (simp add: get_overhead_id_def)

lemma bit_p2p_one: "bit (16777216 :: int) k \<longleftrightarrow> k = 24"
proof -
  have "(16777216 :: int) = 2 ^ 24" by simp
  then show ?thesis by (auto simp only: bit_exp_iff) simp
qed

lemma bit_fields:
  fixes old x ch spd ov :: u32
  assumes "\<And>i. bit x i \<Longrightarrow> i < 2" "\<And>i. bit ch i \<Longrightarrow> i < 6" "\<And>i. bit spd i \<Longrightarrow> i < 2" "\<And>i. bit ov i \<Longrightarrow> i < 4"
  shows "bit ((old AND NOT (field_mask 30 1 OR field_mask 24 6 OR field_mask 22 2 OR field_mask 16 6 OR
        field_mask 14 2 OR field_mask 10 4))
     OR push_bit 24 1 OR push_bit 22 x OR push_bit 16 ch OR push_bit 14 spd OR push_bit 10 ov) k \<longleftrightarrow>
    (if k = 31 \<or> k < 10 then bit old k else if 24 \<le> k then k = 24 else if 22 \<le> k then bit x (k - 22)
     else if 16 \<le> k then bit ch (k - 16) else if 14 \<le> k then bit spd (k - 14) else bit ov (k - 10))"
  using assms(1) [of "k - 22"] assms(2) [of "k - 16"] assms(3) [of "k - 14"] assms(4) [of "k - 10"]
  by (auto simp: bit_simps bit_p2p_one dest: bit_imp_le_length)

lemma bit_fields_in:
  fixes old ch :: u32
  assumes "\<And>i. bit ch i \<Longrightarrow> i < 6"
  shows "bit ((old AND NOT (field_mask 30 1 OR field_mask 24 6 OR field_mask 16 6)) OR push_bit 24 1 OR push_bit 16 ch) k \<longleftrightarrow>
    (if k = 31 \<or> 22 \<le> k \<and> k < 24 \<or> k < 16 then bit old k else if 24 \<le> k then k = 24 else bit ch (k - 16))"
  using assms(1) [of "k - 16"]
  by (auto simp: bit_simps bit_p2p_one dest: bit_imp_le_length)

text \<open>What a plug control register is set to: the channel of the resources, one point-to-point connection and no
  broadcast connection, everything else of the status bits kept.\<close>

lemma bit_pcr_set_modify:
  assumes "r_channel (resources c) < 64" "c_speed c \<le> 6" "k = 31 \<or> 24 \<le> k \<or> 16 \<le> k \<and> k < 22"
  shows "bit (pcr_set_modify c old) k \<longleftrightarrow>
    (if k = 31 then bit old k else if 24 \<le> k then k = 24 else bit (of_nat (r_channel (resources c)) :: u32) (k - 16))"
proof (cases "c_direction c")
  case CMP_INPUT
  have lt: "r_channel (resources c) < 2 ^ 6" using assms by simp
  from CMP_INPUT show ?thesis
    using assms(3) unfolding pcr_set_modify_def ipcr_set_modify_def pcr_masks
    by (auto simp only: bit_fields_in [OF bit_of_nat_less [OF lt(1)]] cmp_direction.distinct split: if_splits)
next
  case CMP_OUTPUT
  have sp: "(case if c_speed c > SCODE_400 then (SCODE_800, c_speed c - SCODE_800) else (c_speed c, 0) of (spd, xspd) \<Rightarrow> f spd xspd) =
    f (if c_speed c > SCODE_400 then SCODE_800 else c_speed c) (if c_speed c > SCODE_400 then c_speed c - SCODE_800 else 0)"
    for f :: "nat \<Rightarrow> nat \<Rightarrow> u32" by simp
  have lt: "(if c_speed c > SCODE_400 then SCODE_800 else c_speed c) < 2 ^ 2"
    "(if c_speed c > SCODE_400 then c_speed c - SCODE_800 else 0) < 2 ^ 2" "r_channel (resources c) < 2 ^ 6"
    "get_overhead_id c < 2 ^ 4"
    using assms get_overhead_id_less [of c] by auto
  from CMP_OUTPUT assms(3) show ?thesis
    unfolding pcr_set_modify_def opcr_set_modify_def pcr_masks sp Let_def
    by (auto simp only: bit_fields [OF bit_of_nat_less [OF lt(2)] bit_of_nat_less [OF lt(3)] bit_of_nat_less [OF lt(1)]
        bit_of_nat_less [OF lt(4)]] split: if_splits)
qed

lemma pcr_set_modify_fields:
  assumes "r_channel (resources c) < 64" "c_speed c \<le> 6"
  shows "field_get PCR_P2P_CONN_MASK 24 (pcr_set_modify c old) = 1"
    and "pcr_set_modify c old AND PCR_BCAST_CONN = 0"
    and "field_get PCR_CHANNEL_MASK 16 (pcr_set_modify c old) = of_nat (r_channel (resources c))"
    and "pcr_set_modify c old AND PCR_ONLINE = old AND PCR_ONLINE"
proof -
  have ch: "i < 6" if "bit (of_nat (r_channel (resources c)) :: u32) i" for i
    using bit_of_nat_less [OF _ that, of 6] assms(1) by simp
  note b = bit_pcr_set_modify [OF assms] bit_and_iff bit_drop_bit_eq bit_1_iff
  show "field_get PCR_P2P_CONN_MASK 24 (pcr_set_modify c old) = 1"
    unfolding pcr_masks field_get_def by (rule bit_word_eqI) (auto simp: b)
  show "pcr_set_modify c old AND PCR_BCAST_CONN = 0"
    unfolding pcr_masks by (rule bit_word_eqI) (auto simp: b)
  show "field_get PCR_CHANNEL_MASK 16 (pcr_set_modify c old) = of_nat (r_channel (resources c))"
    unfolding pcr_masks field_get_def
  proof (rule bit_word_eqI)
    fix n assume "n < LENGTH(32)"
    show "bit (drop_bit 16 (pcr_set_modify c old AND field_mask 16 6)) n = bit (of_nat (r_channel (resources c)) :: u32) n"
      using ch [of n] by (cases "n < 6") (auto simp: b)
  qed
  show "pcr_set_modify c old AND PCR_ONLINE = old AND PCR_ONLINE"
    unfolding pcr_masks by (rule bit_word_eqI) (auto simp: b)
qed

section \<open>Changing a register\<close>

definition pcr_swapped :: "pcr_entry \<Rightarrow> bool" where
  "pcr_swapped e \<longleftrightarrow> p_result e = Inr (p_old e)"

text \<open>The transactions of one \<open>pcr_modify\<close>: all but the last one found another value.\<close>

definition pcr_modified ::
  "cmp_connection \<Rightarrow> (cmp_connection \<Rightarrow> u32 \<Rightarrow> u32) \<Rightarrow> (cmp_connection \<Rightarrow> u32 \<Rightarrow> errno option) option \<Rightarrow> bus_reset_handling \<Rightarrow>
    u32 \<Rightarrow> iso_world \<Rightarrow> errno option \<times> cmp_connection \<times> iso_world \<Rightarrow> bool" where
  "pcr_modified c modify check handling buf w res \<longleftrightarrow>
    (case res of (err, c', w') \<Rightarrow>
       \<exists>tries. (\<forall>e\<in>set tries. \<not> pcr_swapped e) \<and>
         (c' = c \<and> w' = w\<lparr>w_pcr := w_pcr w @ tries\<rparr> \<and> (err = None \<longrightarrow> handling = SUCCEED_ON_BUS_RESET) \<or>
          (\<exists>old. err = None \<and> c' = c\<lparr>last_pcr_value := modify c old\<rparr> \<and>
             (old = buf \<or> (\<forall>chk. check = Some chk \<longrightarrow> chk c old = None)) \<and>
             w' = w\<lparr>w_pcr := w_pcr w @ tries @
               [\<lparr>p_address = pcr_address c, p_old = old, p_new = modify c old, p_result = Inr old\<rparr>]\<rparr>)))"

lemma pcr_modified_step:
  assumes "pcr_modified c modify check handling dat (w\<lparr>w_pcr := w_pcr w @ [e]\<rparr>) res"
    and "(case check of None \<Rightarrow> None | Some chk \<Rightarrow> chk c dat) = None" "\<not> pcr_swapped e"
  shows "pcr_modified c modify check handling buf w res"
proof -
  obtain err c' w' where res: "res = (err, c', w')" by (cases res)
  obtain tries where t: "\<forall>e\<in>set tries. \<not> pcr_swapped e"
    "c' = c \<and> w' = w\<lparr>w_pcr := w_pcr w @ e # tries\<rparr> \<and> (err = None \<longrightarrow> handling = SUCCEED_ON_BUS_RESET) \<or>
      (\<exists>old. err = None \<and> c' = c\<lparr>last_pcr_value := modify c old\<rparr> \<and>
         (old = dat \<or> (\<forall>chk. check = Some chk \<longrightarrow> chk c old = None)) \<and>
         w' = w\<lparr>w_pcr := w_pcr w @ (e # tries) @
           [\<lparr>p_address = pcr_address c, p_old = old, p_new = modify c old, p_result = Inr old\<rparr>]\<rparr>)"
    using assms(1) unfolding pcr_modified_def res by auto
  then show ?thesis
    using assms(2,3) unfolding pcr_modified_def res by (auto intro!: exI [of _ "e # tries"] split: option.splits)
qed

lemma pcr_modify_loop_modified:
  assumes "pcr_modify_loop env c modify check handling buf w = Some res"
  shows "pcr_modified c modify check handling buf w res"
  using _ assms
proof (rule pcr_modify_loop.raw_induct, goal_cases)
  case (1 loop env c modify check handling buf w res)
  let ?ret = "snd_fw_transaction True (ie_plug env w (r_generation (resources c)) (pcr_address c) buf (modify c buf))"
  let ?e = "\<lparr>p_address = pcr_address c, p_old = buf, p_new = modify c buf, p_result = ?ret\<rparr>"
  show ?case
  proof (cases ?ret)
    case (Inl err)
    with 1(2) have "res = (if err = EAGAIN \<and> handling = SUCCEED_ON_BUS_RESET then None else Some err, c,
        w\<lparr>w_pcr := w_pcr w @ [?e]\<rparr>)" by (simp add: Let_def)
    then show ?thesis
      using Inl unfolding pcr_modified_def by (auto intro!: exI [of _ "[?e]"] simp: pcr_swapped_def)
  next
    case (Inr dat)
    show ?thesis
    proof (cases "dat = buf")
      case True
      with 1(2) Inr show ?thesis unfolding pcr_modified_def by (auto intro!: exI [of _ "[]"] simp: Let_def)
    next
      case False
      then have ns: "\<not> pcr_swapped ?e" using Inr by (simp add: pcr_swapped_def)
      show ?thesis
      proof (cases "case check of None \<Rightarrow> None | Some chk \<Rightarrow> chk c dat")
        case None
        with 1(2) Inr False have "loop env c modify check handling dat (w\<lparr>w_pcr := w_pcr w @ [?e]\<rparr>) = Some res"
          by (simp add: Let_def)
        from 1(1) [OF this] None ns show ?thesis
          by (rule pcr_modified_step)
      next
        case (Some err)
        with 1(2) Inr False have "res = (Some err, c, w\<lparr>w_pcr := w_pcr w @ [?e]\<rparr>)" by (simp add: Let_def)
        then show ?thesis using ns unfolding pcr_modified_def by (auto intro!: exI [of _ "[?e]"])
      qed
    qed
  qed
qed

section \<open>Establishing a connection\<close>

text \<open>A connection was made: the last transaction swapped the value \<open>old\<close>, none before it swapped anything.\<close>

definition connects :: "cmp_connection \<Rightarrow> pcr_entry list \<Rightarrow> cmp_connection \<Rightarrow> pcr_entry list \<Rightarrow> bool" where
  "connects c log c' log' \<longleftrightarrow>
    (\<exists>r old tries. c' = c\<lparr>resources := r, last_pcr_value := pcr_set_modify (c\<lparr>resources := r\<rparr>) old, connected := True\<rparr> \<and>
       (old = last_pcr_value c \<or> pcr_set_check c old = None) \<and> (\<forall>e\<in>set tries. \<not> pcr_swapped e) \<and>
       log' = log @ tries @ [\<lparr>p_address = pcr_address c, p_old = old, p_new = pcr_set_modify (c\<lparr>resources := r\<rparr>) old,
         p_result = Inr old\<rparr>])"

lemma pcr_set_check_resources [simp]: "pcr_set_check (c\<lparr>resources := r\<rparr>) old = pcr_set_check c old"
  by (simp add: pcr_set_check_def)

lemma pcr_address_resources [simp]: "pcr_address (c\<lparr>resources := r\<rparr>) = pcr_address c"
  by (simp add: pcr_address_def)

lemma connects_retry:
  assumes "connects (c\<lparr>resources := r\<rparr>) (log @ t) c' log'" "\<forall>e\<in>set t. \<not> pcr_swapped e"
  shows "connects c log c' log'"
proof -
  from assms(1) obtain r' old tries where *:
    "c' = c\<lparr>resources := r', last_pcr_value := pcr_set_modify (c\<lparr>resources := r'\<rparr>) old, connected := True\<rparr>"
    "old = last_pcr_value c \<or> pcr_set_check c old = None" "\<forall>e\<in>set tries. \<not> pcr_swapped e"
    "log' = log @ (t @ tries) @ [\<lparr>p_address = pcr_address c, p_old = old, p_new = pcr_set_modify (c\<lparr>resources := r'\<rparr>) old,
         p_result = Inr old\<rparr>]"
    by (auto simp: connects_def)
  have "\<forall>e\<in>set (t @ tries). \<not> pcr_swapped e" using assms(2) *(3) by auto
  with * show ?thesis unfolding connects_def by blast
qed

lemma fw_iso_resources_update_pcr:
  "fw_iso_resources_update env r w = (ret, r', w') \<Longrightarrow> w_pcr w' = w_pcr w"
  by (auto simp: fw_iso_resources_update_def read_card_def Let_def split: if_splits prod.splits)

lemma establish_loop_connects:
  assumes "establish_loop env c w = Some res"
  shows "fst res = None \<longrightarrow> connects c (w_pcr w) (fst (snd res)) (w_pcr (snd (snd res)))"
  using _ assms
proof (rule establish_loop.raw_induct, goal_cases)
  case (1 loop env c w res)
  obtain err c1 w1 where m: "pcr_modify env c pcr_set_modify (Some pcr_set_check) ABORT_ON_BUS_RESET w = Some (err, c1, w1)"
    using 1(2) by (auto split: bind_splits)
  from pcr_modify_loop_modified [OF this [unfolded pcr_modify_def]]
  have md: "pcr_modified c pcr_set_modify (Some pcr_set_check) ABORT_ON_BUS_RESET (last_pcr_value c) w (err, c1, w1)" .
  show ?case
  proof (cases "err = Some EAGAIN")
    case True
    then obtain t where t: "\<forall>e\<in>set t. \<not> pcr_swapped e" "c1 = c" "w_pcr w1 = w_pcr w @ t"
      using md by (auto simp: pcr_modified_def)
    obtain ret r w2 where u: "fw_iso_resources_update env (resources c) w1 = (ret, r, w2)"
      by (cases "fw_iso_resources_update env (resources c) w1")
    have w2: "w_pcr w2 = w_pcr w @ t" using fw_iso_resources_update_pcr [OF u] t by simp
    show ?thesis
    proof (cases ret)
      case (Inl e)
      with 1(2) m True t u show ?thesis by auto
    next
      case (Inr n)
      with 1(2) m True t u have "loop env (c\<lparr>resources := r\<rparr>) w2 = Some res" by simp
      from 1(1) [OF this] show ?thesis using connects_retry [OF _ t(1)] unfolding w2 by blast
    qed
  next
    case False
    with 1(2) m have res: "res = (err, if err = None then c1\<lparr>connected := True\<rparr> else c1, w1)" by (auto split: if_splits)
    show ?thesis
    proof (cases "err = None")
      case True
      then obtain t old where "\<forall>e\<in>set t. \<not> pcr_swapped e" "c1 = c\<lparr>last_pcr_value := pcr_set_modify c old\<rparr>"
        "old = last_pcr_value c \<or> pcr_set_check c old = None"
        "w_pcr w1 = w_pcr w @ t @ [\<lparr>p_address = pcr_address c, p_old = old, p_new = pcr_set_modify c old, p_result = Inr old\<rparr>]"
        using md by (auto simp: pcr_modified_def)
      then show ?thesis using True res unfolding connects_def
        by (auto intro!: exI [of _ "resources c"] exI [of _ old] exI [of _ t])
    next
      case False
      then show ?thesis using res by auto
    qed
  qed
qed


text \<open>A connection for an input plug, and a register that was off its remembered value once.\<close>

definition example_connection :: cmp_connection where
  "example_connection = \<lparr>c_speed = 2, connected = False,
     resources = \<lparr>r_channels_mask = NOT 0, r_unit = Some 0, r_channel = 5, r_bandwidth = 100, r_bandwidth_overhead = 100,
                  r_generation = 1, r_allocated = True\<rparr>,
     last_pcr_value = 0x80000000, pcr_index = 0, c_max_speed = 2, c_direction = CMP_INPUT\<rparr>"

definition example_env :: "u32 \<Rightarrow> iso_env" where
  "example_env v = \<lparr>ie_card = \<lambda>k. (1, 5), ie_hz = 1000, ie_clock = \<lambda>k m. (0, 1000, 0), ie_irm = \<lambda>g. free_irm, ie_max_speed = 2,
     ie_read = \<lambda>w a k. (RCODE_COMPLETE, v), ie_plug = \<lambda>w g a old new k. (RCODE_COMPLETE, v)\<rparr>"

abbreviation (input) empty_world :: iso_world where
  "empty_world \<equiv> \<lparr>w_reads = 0, w_irm = [], w_pcr = []\<rparr>"

lemma example_establish:
  "cmp_connection_establish (example_env 0x80050000) example_connection empty_world =
    Some (None, example_connection\<lparr>last_pcr_value := 0x81050000, connected := True\<rparr>,
      \<lparr>w_reads = 0, w_irm = [],
       w_pcr = [\<lparr>p_address = 0xfffff0000984, p_old = 0x80000000, p_new = 0x81050000, p_result = Inr 0x80050000\<rparr>,
                \<lparr>p_address = 0xfffff0000984, p_old = 0x80050000, p_new = 0x81050000, p_result = Inr 0x80050000\<rparr>]\<rparr>)"
  by (simp add: cmp_connection_establish_def establish_loop.simps pcr_modify_def pcr_modify_loop.simps example_connection_def
      example_env_def snd_fw_transaction_first pcr_set_modify_def ipcr_set_modify_def pcr_set_check_def pcr_address_def Let_def)


text \<open>When a bus reset hits the breaking of a connection, the connection still remembers the register value with its own
  connection in it.  Establishing it later, with whatever resources, succeeds at once if the register of the target has that
  value, also when this is the connection of another node by now: the check for a plug in use is left out.\<close>

lemma broken_connection_takes_used_plug:
  assumes "connected c" "last_pcr_value c AND (PCR_BCAST_CONN OR PCR_P2P_CONN_MASK) \<noteq> 0"
    and "snd_fw_transaction True (ie_plug env w (r_generation (resources c)) (pcr_address c) (last_pcr_value c)
      (pcr_break_modify c (last_pcr_value c))) = Inl EAGAIN"
    and "\<And>w g v. ie_plug env' w g (pcr_address c) (last_pcr_value c) v 0 = (RCODE_COMPLETE, last_pcr_value c)"
  shows "\<exists>c1 w1. cmp_connection_break env c w = Some (c1, w1) \<and> \<not> connected c1 \<and>
    (\<forall>r w2. \<exists>c2 w3 e. cmp_connection_establish env' (c1\<lparr>resources := r\<rparr>) w2 = Some (None, c2, w3) \<and> connected c2 \<and>
       w_pcr w3 = w_pcr w2 @ [e] \<and> pcr_swapped e \<and> pcr_set_check c1 (p_old e) = Some EBUSY)"
proof -
  obtain w1 where b: "cmp_connection_break env c w = Some (c\<lparr>connected := False\<rparr>, w1)"
    using assms(1,3) by (auto simp: cmp_connection_break_def pcr_modify_def pcr_modify_loop.simps)
  have "\<exists>c2 w3 e. cmp_connection_establish env' (c\<lparr>connected := False, resources := r\<rparr>) w2 = Some (None, c2, w3) \<and> connected c2 \<and>
       w_pcr w3 = w_pcr w2 @ [e] \<and> pcr_swapped e \<and> pcr_set_check c (p_old e) = Some EBUSY" for r w2
  proof -
    have "pcr_address (c\<lparr>connected := False, resources := r\<rparr>) = pcr_address c" by (simp add: pcr_address_def)
    then show ?thesis using assms(2,4)
      by (auto simp: cmp_connection_establish_def establish_loop.simps pcr_modify_def pcr_modify_loop.simps snd_fw_transaction_first
          pcr_set_check_def pcr_swapped_def Let_def)
  qed
  moreover have "pcr_set_check (c\<lparr>connected := False\<rparr>) v = pcr_set_check c v" for v by (simp add: pcr_set_check_def)
  ultimately show ?thesis using b by (intro exI [of _ "c\<lparr>connected := False\<rparr>"] exI [of _ w1]) simp
qed

lemma snd_fw_transaction_reset: "run 0 = (RCODE_GENERATION, b) \<Longrightarrow> snd_fw_transaction True run = Inl EAGAIN"
  by (simp add: snd_fw_transaction_def snd_fw_tries.simps)

section \<open>Resources are given back as they were taken\<close>

lemma fw_iso_resource_manage_frees:
  assumes "fw_iso_resource_manage irm h (push_bit ch 1) bandwidth False = (c, bw, h')" "ch < 64"
  shows "extends h h' \<and> (\<exists>es bs. swaps h h' = es @ bs \<and> (es = [] \<or> (\<exists>e. es = [e] \<and> channel_entry False ch e)) \<and>
    (bs = [] \<or> (\<exists>b. bs = [b] \<and> bandwidth_swap bandwidth False b)))"
proof -
  obtain c1 h1 where c1: "manage_any_channel irm h (push_bit ch 1) False = (c1, h1)" by fastforce
  have "bit (push_bit ch 1 :: u64) k \<longleftrightarrow> k = ch" for k using assms(2) by (auto simp: bit_simps)
  then have ch: "extends h h1 \<and> (swaps h h1 = [] \<or> (\<exists>e. swaps h h1 = [e] \<and> channel_entry False ch e))"
    using manage_any_channel_swaps [OF c1] by (auto split: sum.splits)
  show ?thesis
  proof (cases "bandwidth = 0")
    case True
    then show ?thesis using assms c1 ch by (auto simp: fw_iso_resource_manage_def)
  next
    case False
    obtain r h2 where r: "manage_bandwidth irm h1 bandwidth False = (r, h2)" by fastforce
    have bw: "extends h1 h2 \<and> (swaps h1 h2 = [] \<or> (\<exists>b. swaps h1 h2 = [b] \<and> bandwidth_swap bandwidth False b))"
      using manage_bandwidth_swaps [OF r] by (auto split: sum.splits)
    have "h' = h2" using assms c1 r False by (auto simp: fw_iso_resource_manage_def split: sum.splits)
    moreover have "extends h h2 \<and> swaps h h2 = swaps h h1 @ swaps h1 h2" using swaps_trans ch bw by blast
    ultimately show ?thesis using ch bw by blast
  qed
qed

text \<open>The result of the last attempt.\<close>

definition allocated_by :: "iso_env \<Rightarrow> fw_iso_resources \<Rightarrow> (errno + nat) \<times> fw_iso_resources \<times> iso_world \<Rightarrow> bool" where
  "allocated_by env r res \<longleftrightarrow>
    (case res of (Inr ch, r', w') \<Rightarrow> r_allocated r' \<and> r_channel r' = ch \<and> r_bandwidth r' = r_bandwidth r \<and> r_unit r' = r_unit r \<and>
       (\<exists>h bw. fw_iso_resource_manage (ie_irm env (r_generation r')) h (r_channels_mask r) (resources_bandwidth r') True =
          (Inr ch, bw, w_irm w'))
     | _ \<Rightarrow> True)"

lemma allocate_loop_allocates:
  assumes "allocate_loop env r w = Some res"
  shows "allocated_by env r res"
  using _ assms
proof (rule allocate_loop.raw_induct, goal_cases)
  case (1 loop env r w res)
  obtain r1 w1 where rc: "read_card env r w = (r1, w1)" by fastforce
  then have r1: "r_channels_mask r1 = r_channels_mask r" "r_bandwidth r1 = r_bandwidth r" "r_unit r1 = r_unit r"
    by (auto simp: read_card_def split: prod.splits)
  let ?wait = "wait_isoch_resource_delay_after_bus_reset (ie_hz env) (ie_clock env (w_reads w)) 0"
  obtain channel bw h where m: "fw_iso_resource_manage (ie_irm env (r_generation r1)) (w_irm w1) (r_channels_mask r1)
      (resources_bandwidth r1) True = (channel, bw, h)" by (metis prod_cases3)
  show ?case
  proof (cases "?wait = Some None \<and> channel = Inl EAGAIN")
    case True
    with 1(2) rc m have "loop env r1 (w1\<lparr>w_irm := h\<rparr>) = Some res" by (simp add: Let_def)
    from 1(1) [OF this] show ?thesis unfolding allocated_by_def r1 .
  next
    case False
    with 1(2) rc m have "(\<exists>e. res = (Inl e, r1, w1)) \<or> (\<exists>e. res = (Inl e, r1, w1\<lparr>w_irm := h\<rparr>)) \<or>
        (\<exists>ch. channel = Inr ch \<and> res = (channel, r1\<lparr>r_channel := ch, r_allocated := True\<rparr>, w1\<lparr>w_irm := h\<rparr>))"
      by (auto simp: Let_def split: bind_splits option.splits if_splits sum.splits)
    moreover have "resources_bandwidth (r1\<lparr>r_channel := ch, r_allocated := True\<rparr>) = resources_bandwidth r1" for ch
      by (simp add: resources_bandwidth_def)
    ultimately show ?thesis using m unfolding r1 allocated_by_def by (auto simp: r1 intro!: exI)
  qed
qed


lemma free_irm_manage:
  assumes "0 < b" "b \<le> 4915"
  shows "\<exists>h. fw_iso_resource_manage free_irm [] 1 b True = (Inr 0, b, h)"
proof -
  have five: "manage_bandwidth_loop 5 = manage_bandwidth_loop (Suc 4)" by simp
  have bw: "\<exists>h'. manage_bandwidth free_irm h b True = (Inr b, h')" for h
    unfolding manage_bandwidth_def five manage_bandwidth_loop.simps using assms by (simp add: run_lock_def free_irm_def Let_def)
  obtain h1 where h1: "manage_any_channel free_irm [] 1 True = (Inr 0, h1)"
    by (simp add: manage_any_channel_def manage_channel_def manage_channel_loop.simps run_lock_def free_irm_def Let_def)
  obtain h where "manage_bandwidth free_irm h1 b True = (Inr b, h)" using bw by blast
  with h1 assms show ?thesis by (simp add: fw_iso_resource_manage_def Let_def)
qed

definition example_resources :: fw_iso_resources where
  "example_resources = \<lparr>r_channels_mask = 1, r_unit = Some 0, r_channel = 0, r_bandwidth = 0, r_bandwidth_overhead = 0,
     r_generation = 0, r_allocated = False\<rparr>"


section \<open>Overhead identifiers\<close>

text \<open>The overhead identifier written to an output plug stands for an overhead, 32 units per step and 512 units for zero, that covers the
  overhead of the resources and exceeds it by at most 32 units, as long as the overhead is below 512 units.\<close>

lemma get_overhead_id_covers:
  assumes "unat (r_bandwidth_overhead (resources c)) < 512"
  shows "let units = (if get_overhead_id c = 0 then 512 else get_overhead_id c * 32)
    in unat (r_bandwidth_overhead (resources c)) < units \<and> units \<le> unat (r_bandwidth_overhead (resources c)) + 32"
proof -
  define n where "n = unat (r_bandwidth_overhead (resources c))"
  show ?thesis
  proof (cases "n < 480")
    case True
    then have "n div 32 < 15" by linarith
    have nth: "[1..<16] ! i = i + 1" if "i < 15" for i using that by (subst nth_upt) auto
    have "List.find (\<lambda>i. n < i * 2 ^ 5) [1..<16] = Some (n div 32 + 1)"
      unfolding find_Some_iff
    proof (intro exI [of _ "n div 32"] conjI allI impI)
      show "n < [1..<16] ! (n div 32) * 2 ^ 5" using nth [OF \<open>n div 32 < 15\<close>] by simp
      show "\<not> n < [1..<16] ! j * 2 ^ 5" if "j < n div 32" for j
      proof -
        have "j < 15" using that \<open>n div 32 < 15\<close> by simp
        then show ?thesis unfolding nth [OF \<open>j < 15\<close>] using that by simp
      qed
    qed (use \<open>n div 32 < 15\<close> nth in \<open>simp_all del: upt_rec_numeral\<close>)
    then have "get_overhead_id c = n div 32 + 1" by (simp add: get_overhead_id_def n_def)
    then show ?thesis unfolding n_def [symmetric] by (simp add: Let_def)
  next
    case False
    then have "List.find (\<lambda>i. n < i * 2 ^ 5) [1..<16] = None" by (auto simp: find_None_iff)
    then have "get_overhead_id c = 0" by (simp add: get_overhead_id_def n_def)
    then show ?thesis using assms False unfolding n_def [symmetric] by (simp add: Let_def)
  qed
qed

end
