(* ===== verification/Amdtp_Seq.thy ===== *)
theory Amdtp_Seq
  imports Snd_Fcp
begin

text \<open>
  Audio streams (\<^verbatim>\<open>sound/firewire/amdtp-stream.c\<close>), first part: the stream object, its parameters, and the sequence of data blocks and
  presentation time stamps of outgoing packets, which is computed, or replayed from the packets that come in.  Cycle counts and
  ticks are natural numbers far below the width of their C types; the data block counter, which has the special value
  \<open>UINT_MAX\<close>, is a word.
\<close>

section \<open>Constants\<close>

abbreviation (input) TICKS_PER_CYCLE :: nat where "TICKS_PER_CYCLE \<equiv> 3072"
abbreviation (input) CYCLES_PER_SECOND :: nat where "CYCLES_PER_SECOND \<equiv> 8000"
abbreviation (input) TICKS_PER_SECOND :: nat where "TICKS_PER_SECOND \<equiv> 24576000"
abbreviation (input) OHCI_SECOND_MODULUS :: nat where "OHCI_SECOND_MODULUS \<equiv> 8"
abbreviation (input) TRANSFER_DELAY_TICKS :: nat where "TRANSFER_DELAY_TICKS \<equiv> 0x2e00"
abbreviation (input) CIP_SYT_NO_INFO :: nat where "CIP_SYT_NO_INFO \<equiv> 0xffff"
abbreviation (input) CIP_SYT_CYCLE_MODULUS :: nat where "CIP_SYT_CYCLE_MODULUS \<equiv> 16"
abbreviation (input) CIP_HEADER_SIZE :: nat where "CIP_HEADER_SIZE \<equiv> 8"
abbreviation (input) IR_JUMBO_PAYLOAD_MAX_SKIP_CYCLES :: nat where "IR_JUMBO_PAYLOAD_MAX_SKIP_CYCLES \<equiv> 5"

text \<open>The flags of \<open>enum cip_flags\<close>.\<close>

datatype cip_flag = CIP_BLOCKING | CIP_EMPTY_WITH_TAG0 | CIP_DBC_IS_END_EVENT | CIP_WRONG_DBS | CIP_SKIP_DBC_ZERO_CHECK
  | CIP_EMPTY_HAS_WRONG_DBC | CIP_JUMBO_PAYLOAD | CIP_HEADER_WITHOUT_EOH | CIP_NO_HEADER | CIP_UNALIGHED_DBC | CIP_UNAWARE_SYT
  | CIP_DBC_IS_PAYLOAD_QUADLETS

text \<open>The sampling frequency codes are numbers, as the code calculates with them.\<close>

type_synonym cip_sfc = nat

abbreviation (input) CIP_SFC_32000 :: cip_sfc where "CIP_SFC_32000 \<equiv> 0"
abbreviation (input) CIP_SFC_44100 :: cip_sfc where "CIP_SFC_44100 \<equiv> 1"
abbreviation (input) CIP_SFC_48000 :: cip_sfc where "CIP_SFC_48000 \<equiv> 2"
abbreviation (input) CIP_SFC_88200 :: cip_sfc where "CIP_SFC_88200 \<equiv> 3"
abbreviation (input) CIP_SFC_96000 :: cip_sfc where "CIP_SFC_96000 \<equiv> 4"
abbreviation (input) CIP_SFC_176400 :: cip_sfc where "CIP_SFC_176400 \<equiv> 5"
abbreviation (input) CIP_SFC_192000 :: cip_sfc where "CIP_SFC_192000 \<equiv> 6"

definition amdtp_syt_intervals :: "nat list" where
  "amdtp_syt_intervals = [8, 8, 8, 16, 16, 32, 32]"

definition cip_sfc_is_base_44100 :: "cip_sfc \<Rightarrow> bool" where
  "cip_sfc_is_base_44100 sfc \<longleftrightarrow> sfc AND 1 \<noteq> 0"

section \<open>Streams\<close>

datatype amdtp_stream_direction = AMDTP_OUT_STREAM | AMDTP_IN_STREAM

record seq_desc =
  syt_offset :: nat
  seq_data_blocks :: nat

text \<open>A packet descriptor; the payload is the number of its packet buffer.\<close>

record pkt_desc =
  d_cycle :: nat
  d_syt :: nat
  d_data_blocks :: nat
  d_data_block_counter :: u32
  d_ctx_payload :: "nat option"

text \<open>The fields of the union \<open>ctx_data\<close> for incoming (\<open>tx\<close>, seen from the device) and outgoing (\<open>rx\<close>) streams stand side by side.  A
  replay target is known by its place in the domain.\<close>

record amdtp_stream =
  s_flags :: "cip_flag set"
  s_direction :: amdtp_stream_direction
  s_running :: bool
  queue_size :: nat
  packet_index :: int
  packet_descs :: "pkt_desc list"
  packet_descs_cursor :: nat
  s_tag :: nat
  tx_ctx_header_size :: nat
  tx_max_ctx_payload_length :: nat
  tx_dbc_interval :: nat
  tx_event_starts :: bool
  tx_cache_descs :: "seq_desc list"
  tx_cache_pos :: nat
  rx_fdf :: u32
  rx_event_count :: nat
  rx_seq_descs :: "seq_desc list"
  rx_seq_pos :: nat
  rx_data_block_state :: nat
  rx_syt_offset_state :: nat
  rx_last_syt_offset :: nat
  rx_replay_target :: "nat option"
  rx_cache_pos :: nat
  source_node_id_field :: u32
  data_block_quadlets :: nat
  data_block_counter :: u32
  s_sph :: u32
  s_fmt :: u32
  transfer_delay :: nat
  s_sfc :: cip_sfc
  syt_interval :: nat
  pcm_frame_multiplier :: nat
  pcm_buffer_pointer :: nat
  pcm_period_pointer :: nat
  ready_processing :: bool
  next_cycle :: nat

definition amdtp_stream_set_parameters :: "amdtp_stream \<Rightarrow> nat \<Rightarrow> nat \<Rightarrow> nat \<Rightarrow> errno option \<times> amdtp_stream" where
  "amdtp_stream_set_parameters s rate dbq multiplier =
    (case List.find (\<lambda>sfc. amdtp_rate_table ! sfc = rate) [0..<length amdtp_rate_table] of
       None \<Rightarrow> (Some EINVAL, s)
     | Some sfc \<Rightarrow>
         let interval = amdtp_syt_intervals ! sfc;
             delay = TRANSFER_DELAY_TICKS - TICKS_PER_CYCLE;
             delay = (if CIP_BLOCKING \<in> s_flags s then delay + TICKS_PER_SECOND * interval div rate else delay)
         in (None, s\<lparr>s_sfc := sfc, data_block_quadlets := dbq, syt_interval := interval, transfer_delay := delay,
                     pcm_frame_multiplier := multiplier\<rparr>))"

definition amdtp_stream_get_max_ctx_payload_size :: "amdtp_stream \<Rightarrow> nat" where
  "amdtp_stream_get_max_ctx_payload_size s =
    syt_interval s * data_block_quadlets s * 4 *
      (if CIP_JUMBO_PAYLOAD \<in> s_flags s then IR_JUMBO_PAYLOAD_MAX_SKIP_CYCLES else 1)"

definition amdtp_stream_get_max_payload :: "amdtp_stream \<Rightarrow> nat" where
  "amdtp_stream_get_max_payload s =
    (if CIP_NO_HEADER \<notin> s_flags s then CIP_HEADER_SIZE else 0) + amdtp_stream_get_max_ctx_payload_size s"

section \<open>Sequences of data blocks and time stamps\<close>

text \<open>The loops write \<open>count\<close> entries of the ring of descriptors from position \<open>pos\<close> on.\<close>

primrec pool_blocking_data_blocks :: "amdtp_stream \<Rightarrow> seq_desc list \<Rightarrow> nat \<Rightarrow> nat \<Rightarrow> seq_desc list" where
  "pool_blocking_data_blocks s descs pos 0 = descs"
| "pool_blocking_data_blocks s descs pos (Suc count) =
    (let desc = descs ! pos;
         desc = desc\<lparr>seq_data_blocks := if syt_offset desc \<noteq> CIP_SYT_NO_INFO then syt_interval s else 0\<rparr>
     in pool_blocking_data_blocks s (descs[pos := desc]) ((pos + 1) mod length descs) count)"

definition ideal_data_blocks :: "cip_sfc \<Rightarrow> nat \<Rightarrow> nat \<times> nat" where
  "ideal_data_blocks sfc state =
    (if \<not> cip_sfc_is_base_44100 sfc then (state, state)
     else
       let phase = state;
           n = (if sfc = CIP_SFC_44100 then 5 + ((phase AND 1) XOR (if phase = 0 \<or> phase \<ge> 40 then 1 else 0))
                else 11 * drop_bit 1 sfc + (if phase = 0 then 1 else 0));
           phase = phase + 1
       in (n, if phase \<ge> drop_bit (drop_bit 1 sfc) 80 then 0 else phase))"

primrec pool_ideal_nonblocking_data_blocks ::
  "cip_sfc \<Rightarrow> seq_desc list \<Rightarrow> nat \<Rightarrow> nat \<Rightarrow> nat \<Rightarrow> seq_desc list \<times> nat" where
  "pool_ideal_nonblocking_data_blocks sfc descs pos 0 state = (descs, state)"
| "pool_ideal_nonblocking_data_blocks sfc descs pos (Suc count) state =
    (let (n, state) = ideal_data_blocks sfc state
     in pool_ideal_nonblocking_data_blocks sfc (descs[pos := (descs ! pos)\<lparr>seq_data_blocks := n\<rparr>])
          ((pos + 1) mod length descs) count state)"

text \<open>The result is the offset with the new values behind the two pointers.\<close>

definition calculate_syt_offset :: "nat \<Rightarrow> nat \<Rightarrow> cip_sfc \<Rightarrow> nat \<times> nat \<times> nat" where
  "calculate_syt_offset last_syt_offset syt_offset_state sfc =
    (let (offset, state) =
       (if last_syt_offset < TICKS_PER_CYCLE then
          if \<not> cip_sfc_is_base_44100 sfc then (last_syt_offset + syt_offset_state, syt_offset_state)
          else
            let phase = syt_offset_state; index = phase mod 13;
                offset = last_syt_offset + (1386 + (if index \<noteq> 0 \<and> index AND 3 = 0 \<or> phase = 146 then 1 else 0));
                phase = phase + 1
            in (offset, if phase \<ge> 147 then 0 else phase)
        else (last_syt_offset - TICKS_PER_CYCLE, syt_offset_state))
     in (if offset \<ge> TICKS_PER_CYCLE then CIP_SYT_NO_INFO else offset, offset, state))"

primrec pool_ideal_syt_offsets ::
  "cip_sfc \<Rightarrow> seq_desc list \<Rightarrow> nat \<Rightarrow> nat \<Rightarrow> nat \<Rightarrow> nat \<Rightarrow> seq_desc list \<times> nat \<times> nat" where
  "pool_ideal_syt_offsets sfc descs pos 0 last_offset state = (descs, last_offset, state)"
| "pool_ideal_syt_offsets sfc descs pos (Suc count) last_offset state =
    (let (offset, last_offset, state) = calculate_syt_offset last_offset state sfc
     in pool_ideal_syt_offsets sfc (descs[pos := (descs ! pos)\<lparr>syt_offset := offset\<rparr>])
          ((pos + 1) mod length descs) count last_offset state)"

definition compute_syt_offset :: "nat \<Rightarrow> nat \<Rightarrow> nat \<Rightarrow> nat" where
  "compute_syt_offset syt cycle delay =
    (let cycle_lo = (cycle mod CYCLES_PER_SECOND) AND 0x0f;
         syt_cycle_lo = drop_bit 12 (syt AND 0xf000);
         syt_cycle_lo = (if syt_cycle_lo < cycle_lo then syt_cycle_lo + CIP_SYT_CYCLE_MODULUS else syt_cycle_lo);
         syt_cycle_lo = syt_cycle_lo - cycle_lo;
         offset = syt_cycle_lo * TICKS_PER_CYCLE + (syt AND 0x0fff);
         offset = (if offset < delay then offset + CIP_SYT_CYCLE_MODULUS * TICKS_PER_CYCLE else offset)
     in offset - delay)"

definition calculate_cached_cycle_count :: "amdtp_stream \<Rightarrow> nat \<Rightarrow> nat" where
  "calculate_cached_cycle_count s head =
    (let cycles = tx_cache_pos s; cycles = (if cycles < head then cycles + length (tx_cache_descs s) else cycles)
     in cycles - head)"

text \<open>The descriptors of \<open>src\<close> follow one another in the ring of the stream.\<close>

definition next_packet_desc :: "amdtp_stream \<Rightarrow> nat \<Rightarrow> nat" where
  "next_packet_desc s i = (i + 1) mod length (packet_descs s)"

primrec cache_seq :: "amdtp_stream \<Rightarrow> nat \<Rightarrow> nat \<Rightarrow> amdtp_stream" where
  "cache_seq s src 0 = s"
| "cache_seq s src (Suc desc_count) =
    (let p = packet_descs s ! src;
         offset = (if CIP_UNAWARE_SYT \<notin> s_flags s \<and> d_syt p \<noteq> CIP_SYT_NO_INFO
                   then compute_syt_offset (d_syt p) (d_cycle p) (transfer_delay s) else CIP_SYT_NO_INFO)
     in cache_seq (s\<lparr>tx_cache_descs := (tx_cache_descs s)[tx_cache_pos s := \<lparr>syt_offset = offset, seq_data_blocks = d_data_blocks p\<rparr>],
                     tx_cache_pos := (tx_cache_pos s + 1) mod length (tx_cache_descs s)\<rparr>)
          (next_packet_desc s src) desc_count)"

definition pool_ideal_seq_descs :: "amdtp_stream \<Rightarrow> nat \<Rightarrow> amdtp_stream" where
  "pool_ideal_seq_descs s count =
    (let (descs, last_offset, state) =
           pool_ideal_syt_offsets (s_sfc s) (rx_seq_descs s) (rx_seq_pos s) count (rx_last_syt_offset s) (rx_syt_offset_state s);
         s = s\<lparr>rx_last_syt_offset := last_offset, rx_syt_offset_state := state\<rparr>
     in if CIP_BLOCKING \<in> s_flags s then s\<lparr>rx_seq_descs := pool_blocking_data_blocks s descs (rx_seq_pos s) count\<rparr>
        else
          let (descs, state) = pool_ideal_nonblocking_data_blocks (s_sfc s) descs (rx_seq_pos s) count (rx_data_block_state s)
          in s\<lparr>rx_seq_descs := descs, rx_data_block_state := state\<rparr>)"

primrec replay_loop :: "seq_desc list \<Rightarrow> seq_desc list \<Rightarrow> nat \<Rightarrow> nat \<Rightarrow> nat \<Rightarrow> seq_desc list \<times> nat" where
  "replay_loop cache descs cache_pos pos 0 = (descs, cache_pos)"
| "replay_loop cache descs cache_pos pos (Suc count) =
    replay_loop cache (descs[pos := cache ! cache_pos]) ((cache_pos + 1) mod length cache) ((pos + 1) mod length descs) count"

definition pool_replayed_seq :: "amdtp_stream \<Rightarrow> amdtp_stream \<Rightarrow> nat \<Rightarrow> amdtp_stream" where
  "pool_replayed_seq target s count =
    (let (descs, cache_pos) = replay_loop (tx_cache_descs target) (rx_seq_descs s) (rx_cache_pos s) (rx_seq_pos s) count
     in s\<lparr>rx_seq_descs := descs, rx_cache_pos := cache_pos\<rparr>)"

text \<open>\<open>enable\<close> and \<open>on_the_fly\<close> are the replay settings of the domain, \<open>target\<close> is the replay target.\<close>

definition pool_seq_descs :: "bool \<Rightarrow> bool \<Rightarrow> amdtp_stream option \<Rightarrow> amdtp_stream \<Rightarrow> nat \<Rightarrow> amdtp_stream" where
  "pool_seq_descs enable on_the_fly target s count =
    (case target of
       Some tx \<Rightarrow>
         if \<not> enable then pool_ideal_seq_descs s count
         else if \<not> on_the_fly then pool_replayed_seq tx s count
         else
           let cached_cycles = calculate_cached_cycle_count tx (rx_cache_pos s)
           in if cached_cycles > count \<and> cached_cycles > length (tx_cache_descs tx) div 2 then pool_replayed_seq tx s count
              else pool_ideal_seq_descs s count
     | None \<Rightarrow> pool_ideal_seq_descs s count)"

text \<open>Where a stream starts.\<close>

definition initial_state :: "(nat \<times> nat) list" where
  "initial_state = [(4, 3072), (0, 67), (6, 1024), (0, 67), (12, 1024), (0, 67), (24, 1024)]"

section \<open>The ideal sequence\<close>

text \<open>Event \<open>n\<close> of a stream is the first sample of its \<open>n\<close>-th interval.  Its ideal time is \<open>n\<close> times the interval in
  ticks of the bus clock, rounded to the nearest tick.  After \<open>k\<close> packets without blocking, the number of data blocks is the
  number of samples of \<open>k\<close> cycles, rounded up.\<close>

definition syt_event :: "cip_sfc \<Rightarrow> nat \<Rightarrow> nat" where
  "syt_event sfc n =
    (2 * n * (amdtp_syt_intervals ! sfc * TICKS_PER_SECOND) + amdtp_rate_table ! sfc) div (2 * amdtp_rate_table ! sfc)"

definition blocks_after :: "cip_sfc \<Rightarrow> nat \<Rightarrow> nat" where
  "blocks_after sfc k = (k * amdtp_rate_table ! sfc + 7999) div CYCLES_PER_SECOND"

text \<open>The states of the two generators after \<open>k\<close> cycles from the start of a stream.\<close>

primrec syt_run :: "cip_sfc \<Rightarrow> nat \<Rightarrow> nat \<times> nat" where
  "syt_run sfc 0 = (TICKS_PER_CYCLE, snd (initial_state ! sfc))"
| "syt_run sfc (Suc k) = snd (calculate_syt_offset (fst (syt_run sfc k)) (snd (syt_run sfc k)) sfc)"

definition syt_out :: "cip_sfc \<Rightarrow> nat \<Rightarrow> nat" where
  "syt_out sfc k = fst (calculate_syt_offset (fst (syt_run sfc k)) (snd (syt_run sfc k)) sfc)"

primrec blocks_run :: "cip_sfc \<Rightarrow> nat \<Rightarrow> nat" where
  "blocks_run sfc 0 = fst (initial_state ! sfc)"
| "blocks_run sfc (Suc k) = snd (ideal_data_blocks sfc (blocks_run sfc k))"

definition blocks_out :: "cip_sfc \<Rightarrow> nat \<Rightarrow> nat" where
  "blocks_out sfc k = fst (ideal_data_blocks sfc (blocks_run sfc k))"

lemma sfc_cases:
  assumes "(sfc :: nat) < 7"
  obtains "sfc = 0" | "sfc = 1" | "sfc = 2" | "sfc = 3" | "sfc = 4" | "sfc = 5" | "sfc = 6"
  using assms by linarith

lemmas sfc_tables = amdtp_syt_intervals_def amdtp_rate_table_def initial_state_def cip_sfc_is_base_44100_def

text \<open>The increments between events, by the phase of the generator.\<close>

definition syt_increment :: "cip_sfc \<Rightarrow> nat \<Rightarrow> nat" where
  "syt_increment sfc phase =
    (if cip_sfc_is_base_44100 sfc then 1386 + (if phase mod 13 \<noteq> 0 \<and> (phase mod 13) AND 3 = 0 \<or> phase = 146 then 1 else 0)
     else snd (initial_state ! sfc))"

definition syt_phase :: "cip_sfc \<Rightarrow> nat \<Rightarrow> nat" where
  "syt_phase sfc n = (if cip_sfc_is_base_44100 sfc then (67 + n) mod 147 else snd (initial_state ! sfc))"

lemma syt_event_44100:
  assumes "sfc = 1 \<or> sfc = 3 \<or> sfc = 5"
  shows "syt_event sfc n = (2 * n * 1966080 + 441) div 882"
proof -
  have "(100 * (2 * n * 1966080 + 441)) div (100 * 882) = (2 * n * 1966080 + 441) div 882"
    "(200 * (2 * n * 1966080 + 441)) div (200 * 882) = (2 * n * 1966080 + 441) div 882"
    "(400 * (2 * n * 1966080 + 441)) div (400 * 882) = (2 * n * 1966080 + 441) div 882"
    by (rule div_mult_mult1; simp)+
  then show ?thesis using assms by (auto simp: syt_event_def sfc_tables algebra_simps)
qed

lemma syt_event_period: "(2 * (147 * q + r) * 1966080 + 441) div 882 = 655360 * q + (2 * r * 1966080 + 441) div (882 :: nat)"
proof -
  have "2 * (147 * q + r) * 1966080 + 441 = (2 * r * 1966080 + 441) + 882 * (655360 * q)" by (simp add: algebra_simps)
  then show ?thesis by (metis div_mult_self2 add.commute numeral_neq_zero)
qed

lemma upt_147: "[0..<147] = 0 # 1 # [2..<147]"
  by (simp add: upt_conv_Cons)

lemma upt_80: "[0..<80] = 0 # 1 # [2..<80]"
  by (simp add: upt_conv_Cons)

lemma syt_event_table:
  "list_all (\<lambda>r. (2 * (r + 1) * 1966080 + 441) div 882 = (2 * r * 1966080 + 441) div 882 + 3072 + syt_increment 1 ((67 + r) mod 147))
    [0..<147]"
  unfolding upt_147 upt_rec_numeral list.pred_inject by (simp add: syt_increment_def cip_sfc_is_base_44100_def)

lemma exact_multiple: "0 < d \<Longrightarrow> (2 * n * (d * p) + d) div (2 * d) = n * (p :: nat)"
proof -
  assume "0 < d"
  have "(2 * n * (d * p) + d) div (2 * d) = (d + (2 * d) * (n * p)) div (2 * d)" by (simp add: algebra_simps)
  also have "\<dots> = n * p + d div (2 * d)" using \<open>0 < d\<close> by (intro div_mult_self2) simp
  finally show ?thesis using \<open>0 < d\<close> by simp
qed

lemma syt_event_even:
  assumes "sfc = 0 \<or> sfc = 2 \<or> sfc = 4 \<or> sfc = 6"
  shows "syt_event sfc n = n * (if sfc = 0 then 6144 else 4096)"
  using assms exact_multiple [of 32000 n 6144] exact_multiple [of 48000 n 4096] exact_multiple [of 96000 n 4096]
    exact_multiple [of 192000 n 4096]
  by (auto simp: syt_event_def sfc_tables)

lemma syt_event_Suc:
  assumes "sfc < 7"
  shows "syt_event sfc (Suc n) = syt_event sfc n + 3072 + syt_increment sfc (syt_phase sfc n)"
proof (cases "sfc = 1 \<or> sfc = 3 \<or> sfc = 5")
  case True
  define q r where "q = n div 147" and "r = n mod 147"
  then have n: "n = 147 * q + r" "r < 147" by simp_all
  have "Suc n = 147 * q + (r + 1)" using n by simp
  moreover have "(2 * (r + 1) * 1966080 + 441) div 882 = (2 * r * 1966080 + 441) div 882 + 3072 + syt_increment 1 ((67 + r) mod 147)"
    using syt_event_table n(2) unfolding list_all_iff set_upt by simp
  moreover have "(67 + n) mod 147 = (67 + r) mod 147" by (simp add: r_def mod_add_right_eq)
  moreover have "syt_increment sfc (syt_phase sfc n) = syt_increment 1 ((67 + n) mod 147)"
    using True by (auto simp: syt_increment_def syt_phase_def cip_sfc_is_base_44100_def)
  ultimately show ?thesis
    unfolding syt_event_44100 [OF True] by (simp only: n(1) syt_event_period)
next
  case False
  with assms have "sfc = 0 \<or> sfc = 2 \<or> sfc = 4 \<or> sfc = 6" by linarith
  then have "syt_increment sfc (syt_phase sfc n) + 3072 = (if sfc = 0 then 6144 else 4096)"
    by (auto simp: syt_increment_def syt_phase_def sfc_tables)
  then show ?thesis unfolding syt_event_even [OF \<open>sfc = 0 \<or> sfc = 2 \<or> sfc = 4 \<or> sfc = 6\<close>] by simp
qed

lemma syt_event_gap: "sfc < 7 \<Longrightarrow> m < n \<Longrightarrow> syt_event sfc m + 3072 \<le> syt_event sfc n"
  by (induction n) (auto simp: syt_event_Suc less_Suc_eq)

lemma syt_event_0: "sfc < 7 \<Longrightarrow> syt_event sfc 0 = 0"
  by (elim sfc_cases) (auto simp: syt_event_def sfc_tables)

lemma syt_increment_le: "sfc < 7 \<Longrightarrow> syt_increment sfc phase \<le> 3072"
  by (elim sfc_cases) (auto simp: syt_increment_def sfc_tables)

lemma syt_phase_Suc:
  "syt_phase sfc (Suc n) = (if cip_sfc_is_base_44100 sfc then (if syt_phase sfc n + 1 \<ge> 147 then 0 else syt_phase sfc n + 1)
     else syt_phase sfc n)"
proof (cases "cip_sfc_is_base_44100 sfc")
  case True
  have "(67 + n) mod 147 < 147" by simp
  then show ?thesis using True mod_Suc [of "67 + n" 147] by (auto simp: syt_phase_def)
qed (simp add: syt_phase_def)

lemma calculate_syt_offset_early:
  assumes "sfc < 7" "l < 3072"
  shows "calculate_syt_offset l (syt_phase sfc n) sfc =
    (let offset = l + syt_increment sfc (syt_phase sfc n)
     in (if offset \<ge> 3072 then CIP_SYT_NO_INFO else offset, offset, syt_phase sfc (Suc n)))"
proof (cases "cip_sfc_is_base_44100 sfc")
  case True
  with assms(2) show ?thesis by (simp add: calculate_syt_offset_def Let_def syt_phase_Suc syt_increment_def)
next
  case False
  with assms(2) show ?thesis by (simp add: calculate_syt_offset_def Let_def syt_increment_def syt_phase_def)
qed

lemma calculate_syt_offset_late:
  assumes "3072 \<le> l"
  shows "calculate_syt_offset l st sfc =
    (if l - 3072 \<ge> 3072 then CIP_SYT_NO_INFO else l - 3072, l - 3072, st)"
  using assms by (simp add: calculate_syt_offset_def Let_def)

text \<open>After \<open>k\<close> cycles the generator stands at event \<open>n\<close>, which is in the last cycle or in the next one.\<close>

definition syt_at :: "cip_sfc \<Rightarrow> nat \<Rightarrow> nat \<Rightarrow> nat \<Rightarrow> bool" where
  "syt_at sfc k l n \<longleftrightarrow> l + 3072 * k = syt_event sfc n + 3072 \<and> l < 6144 \<and> (\<forall>m<n. syt_event sfc m < 3072 * k)"

lemma syt_at_step:
  assumes "sfc < 7" "syt_at sfc k l n"
  shows "l < 3072 \<Longrightarrow> syt_at sfc (Suc k) (l + syt_increment sfc (syt_phase sfc n)) (Suc n)"
    and "3072 \<le> l \<Longrightarrow> syt_at sfc (Suc k) (l - 3072) n"
proof -
  show "syt_at sfc (Suc k) (l + syt_increment sfc (syt_phase sfc n)) (Suc n)" if "l < 3072"
    using assms that syt_event_Suc [OF assms(1), of n] syt_increment_le [OF assms(1), of "syt_phase sfc n"]
    by (fastforce simp: syt_at_def less_Suc_eq)
  show "syt_at sfc (Suc k) (l - 3072) n" if "3072 \<le> l"
    using assms(2) that by (fastforce simp: syt_at_def)
qed

lemma syt_run_at:
  assumes "sfc < 7"
  shows "\<exists>n. snd (syt_run sfc k) = syt_phase sfc n \<and> syt_at sfc k (fst (syt_run sfc k)) n"
proof (induction k)
  case 0
  have "snd (initial_state ! sfc) = syt_phase sfc 0"
    using assms by (elim sfc_cases) (auto simp: syt_phase_def sfc_tables)
  then show ?case using assms by (auto simp: syt_at_def syt_event_0 intro!: exI [of _ 0])
next
  case (Suc k)
  then obtain n where n: "snd (syt_run sfc k) = syt_phase sfc n" "syt_at sfc k (fst (syt_run sfc k)) n" by blast
  show ?case
  proof (cases "fst (syt_run sfc k) < 3072")
    case True
    with n syt_at_step(1) [OF assms n(2)] show ?thesis
      by (auto simp: calculate_syt_offset_early [OF assms] Let_def)
  next
    case False
    with n syt_at_step(2) [OF assms n(2)] show ?thesis by (auto simp: calculate_syt_offset_late)
  qed
qed

text \<open>A cycle carries a time stamp exactly when an event falls into it, and then its offset.\<close>

lemma syt_out_correct:
  assumes "sfc < 7"
  shows "syt_out sfc k = CIP_SYT_NO_INFO \<or> syt_out sfc k < 3072"
    and "offset < 3072 \<Longrightarrow> syt_out sfc k = offset \<longleftrightarrow> (\<exists>n. syt_event sfc n = 3072 * k + offset)"
proof -
  obtain n where n: "snd (syt_run sfc k) = syt_phase sfc n" "syt_at sfc k (fst (syt_run sfc k)) n"
    using syt_run_at [OF assms] by blast
  let ?l = "fst (syt_run sfc k)"
  define e where "e = (if ?l < 3072 then Suc n else n)"
  define l' where "l' = (if ?l < 3072 then ?l + syt_increment sfc (syt_phase sfc n) else ?l - 3072)"
  have at: "syt_at sfc (Suc k) l' e"
    using syt_at_step [OF assms n(2)] by (auto simp: e_def l'_def)
  have out: "syt_out sfc k = (if l' \<ge> 3072 then CIP_SYT_NO_INFO else l')"
    using n(1) calculate_syt_offset_early [OF assms] by (auto simp: syt_out_def l'_def Let_def calculate_syt_offset_late)
  then show "syt_out sfc k = CIP_SYT_NO_INFO \<or> syt_out sfc k < 3072" by auto
  have before: "syt_event sfc m < 3072 * k" if "m < e" for m
    using that n(2) by (auto simp: e_def syt_at_def less_Suc_eq split: if_splits)
  have ev: "syt_event sfc e = 3072 * k + l'" using at by (simp add: syt_at_def)
  show "syt_out sfc k = offset \<longleftrightarrow> (\<exists>n. syt_event sfc n = 3072 * k + offset)" if "offset < 3072"
  proof
    assume "syt_out sfc k = offset"
    then show "\<exists>n. syt_event sfc n = 3072 * k + offset" using out ev that by (auto split: if_splits)
  next
    assume "\<exists>n. syt_event sfc n = 3072 * k + offset"
    then obtain m where m: "syt_event sfc m = 3072 * k + offset" by blast
    have "m = e"
    proof (cases rule: linorder_cases [of m e])
      case less
      then show ?thesis using before [OF less] m by simp
    next
      case greater
      then show ?thesis using syt_event_gap [OF assms greater] ev m that by simp
    qed simp
    then show "syt_out sfc k = offset" using out ev m that by simp
  qed
qed

section \<open>The number of data blocks\<close>

lemma upt_40: "[0..<40] = 0 # 1 # [2..<40]"
  by (simp add: upt_conv_Cons)

lemma upt_20: "[0..<20] = 0 # 1 # [2..<20]"
  by (simp add: upt_conv_Cons)

lemma blocks_table:
  "list_all (\<lambda>r. (441 * (r + 1) + 79) div 80 = (441 * r + 79) div 80 + fst (ideal_data_blocks 1 r)) [0..<80]"
  "list_all (\<lambda>r. (441 * (r + 1) + 39) div 40 = (441 * r + 39) div 40 + fst (ideal_data_blocks 3 r)) [0..<40]"
  "list_all (\<lambda>r. (441 * (r + 1) + 19) div 20 = (441 * r + 19) div 20 + fst (ideal_data_blocks 5 r)) [0..<20]"
  unfolding upt_80 upt_40 upt_20 upt_rec_numeral list.pred_inject
  by (simp_all add: ideal_data_blocks_def cip_sfc_is_base_44100_def Let_def)

lemma blocks_period: "0 < p \<Longrightarrow> (441 * (p * q + r) + c) div p = 441 * q + (441 * r + c) div (p :: nat)"
proof -
  assume "0 < p"
  have "441 * (p * q + r) + c = (441 * r + c) + p * (441 * q)" by (simp add: algebra_simps)
  then show ?thesis using \<open>0 < p\<close> by (metis add.commute div_mult_self2 not_gr_zero)
qed

lemma blocks_after_44100:
  "blocks_after 1 k = (441 * k + 79) div 80" "blocks_after 3 k = (441 * k + 39) div 40" "blocks_after 5 k = (441 * k + 19) div 20"
proof -
  have "(k * 44100 + 7999) div 8000 = ((k * 44100 + 7999) div 100) div 80"
    "(k * 88200 + 7999) div 8000 = ((k * 88200 + 7999) div 200) div 40"
    "(k * 176400 + 7999) div 8000 = ((k * 176400 + 7999) div 400) div 20"
    by (simp_all add: div_mult2_eq [symmetric])
  moreover have "(k * 44100 + 7999) div 100 = 441 * k + 79" "(k * 88200 + 7999) div 200 = 441 * k + 39"
    "(k * 176400 + 7999) div 400 = 441 * k + 19"
    by simp_all
  ultimately show "blocks_after 1 k = (441 * k + 79) div 80" "blocks_after 3 k = (441 * k + 39) div 40"
    "blocks_after 5 k = (441 * k + 19) div 20"
    by (simp_all add: blocks_after_def amdtp_rate_table_def)
qed

lemma blocks_run_44100:
  fixes p :: nat
  assumes "sfc = 1 \<and> p = 80 \<or> sfc = 3 \<and> p = 40 \<or> sfc = 5 \<and> p = 20"
  shows "blocks_run sfc k = k mod p"
proof (induction k)
  case 0
  show ?case using assms by (auto simp: initial_state_def)
next
  case (Suc k)
  have "k mod p < p" using assms by auto
  with assms Suc show ?case
    by (auto simp: ideal_data_blocks_def cip_sfc_is_base_44100_def Let_def mod_Suc)
qed

lemma blocks_out_44100:
  fixes p :: nat
  assumes "sfc = 1 \<and> p = 80 \<or> sfc = 3 \<and> p = 40 \<or> sfc = 5 \<and> p = 20"
  shows "blocks_after sfc (Suc k) = blocks_after sfc k + blocks_out sfc k"
proof -
  define q r where "q = k div p" and "r = k mod p"
  have p: "0 < p" using assms by auto
  then have k: "k = p * q + r" "r < p" by (simp_all add: q_def r_def)
  have out: "blocks_out sfc k = fst (ideal_data_blocks sfc r)"
    by (simp add: blocks_out_def blocks_run_44100 [OF assms] r_def)
  have b: "blocks_after sfc j = (441 * j + (p - 1)) div p" for j using assms blocks_after_44100 by auto
  have t: "(441 * (r + 1) + (p - 1)) div p = (441 * r + (p - 1)) div p + fst (ideal_data_blocks sfc r)"
    using blocks_table assms k(2) unfolding list_all_iff set_upt by fastforce
  have "Suc k = p * q + (r + 1)" using k by simp
  then show ?thesis unfolding b out by (simp only: k(1) blocks_period [OF p] t)
qed

lemma blocks_out_correct:
  assumes "sfc < 7"
  shows "blocks_after sfc (Suc k) = blocks_after sfc k + blocks_out sfc k"
proof (cases "sfc = 1 \<or> sfc = 3 \<or> sfc = 5")
  case True
  then show ?thesis using blocks_out_44100 by blast
next
  case False
  with assms have even: "sfc = 0 \<or> sfc = 2 \<or> sfc = 4 \<or> sfc = 6" by linarith
  then have "blocks_run sfc k = fst (initial_state ! sfc)"
    by (induction k) (auto simp: ideal_data_blocks_def sfc_tables)
  with even show ?thesis by (auto simp: blocks_out_def ideal_data_blocks_def blocks_after_def sfc_tables)
qed

section \<open>Writing into a ring\<close>

text \<open>What the loops over the ring of descriptors have in common: entry \<open>k + i\<close> of a sequence is written at the \<open>i\<close>-th place from
  \<open>pos\<close> on.\<close>

primrec ring_write :: "(nat \<Rightarrow> 'a \<Rightarrow> 'a) \<Rightarrow> 'a list \<Rightarrow> nat \<Rightarrow> nat \<Rightarrow> nat \<Rightarrow> 'a list" where
  "ring_write g xs pos k 0 = xs"
| "ring_write g xs pos k (Suc count) =
    ring_write g (xs[pos := g k (xs ! pos)]) ((pos + 1) mod length xs) (k + 1) count"

lemma length_ring_write [simp]: "length (ring_write g xs pos k count) = length xs"
  by (induction count arbitrary: xs pos k) simp_all

lemma ring_next_neq: "pos < n \<Longrightarrow> i + 1 < n \<Longrightarrow> ((pos + 1) mod n + i) mod n \<noteq> pos" for n :: nat
proof -
  assume "pos < n" "i + 1 < n"
  have "((pos + 1) mod n + i) mod n = (pos + (i + 1)) mod n" by (simp add: mod_add_left_eq)
  also have "\<dots> = (if pos + (i + 1) < n then pos + (i + 1) else pos + (i + 1) - n)"
    using \<open>pos < n\<close> \<open>i + 1 < n\<close> by (auto simp: mod_if)
  finally show ?thesis using \<open>pos < n\<close> \<open>i + 1 < n\<close> by auto
qed

lemma ring_write_other:
  "pos < length xs \<Longrightarrow> (\<And>i. i < count \<Longrightarrow> j \<noteq> (pos + i) mod length xs) \<Longrightarrow> ring_write g xs pos k count ! j = xs ! j"
proof (induction count arbitrary: xs pos k)
  case (Suc count)
  have "j \<noteq> pos" using Suc.prems(2) [of 0] Suc.prems(1) by simp
  moreover have "j \<noteq> ((pos + 1) mod length xs + i) mod length xs" if "i < count" for i
    using Suc.prems(2) [of "Suc i"] that by (simp add: mod_add_left_eq)
  moreover have "(pos + 1) mod length xs < length xs" using Suc.prems(1) by (intro mod_less_divisor) linarith
  ultimately show ?case using Suc.IH [where xs = "xs[pos := g k (xs ! pos)]" and pos = "(pos + 1) mod length xs" and k = "k + 1"] Suc.prems(1) by simp
qed simp

lemma ring_write_nth:
  "pos < length xs \<Longrightarrow> count \<le> length xs \<Longrightarrow> i < count \<Longrightarrow>
    ring_write g xs pos k count ! ((pos + i) mod length xs) = g (k + i) (xs ! ((pos + i) mod length xs))"
proof (induction count arbitrary: xs pos k i)
  case (Suc count)
  let ?n = "length xs" and ?xs = "xs[pos := g k (xs ! pos)]" and ?pos = "(pos + 1) mod length xs"
  have pos: "?pos < ?n" using Suc.prems(1) by (intro mod_less_divisor) linarith
  show ?case
  proof (cases i)
    case 0
    have "pos \<noteq> (?pos + j) mod ?n" if "j < count" for j
      using ring_next_neq [of pos ?n j] Suc.prems that by fastforce
    then show ?thesis using 0 Suc.prems pos ring_write_other [of ?pos ?xs count pos g "k + 1"] by simp
  next
    case (Suc j)
    have neq: "(?pos + j) mod ?n \<noteq> pos" using ring_next_neq [of pos ?n j] Suc.prems Suc by simp
    have "(?pos + j) mod ?n = (pos + i) mod ?n" using Suc by (simp add: mod_add_left_eq)
    then show ?thesis using Suc.IH [where pos = ?pos and xs = ?xs and i = j and k = "k + 1"] Suc.prems Suc pos neq by simp
  qed
qed simp

lemma pool_blocking_ring:
  "pool_blocking_data_blocks s descs pos count =
    ring_write (\<lambda>i d. d\<lparr>seq_data_blocks := if syt_offset d \<noteq> CIP_SYT_NO_INFO then syt_interval s else 0\<rparr>) descs pos k count"
  by (induction count arbitrary: descs pos k) (auto simp: Let_def)

lemma pool_nonblocking_ring:
  "pool_ideal_nonblocking_data_blocks sfc descs pos count (blocks_run sfc k) =
    (ring_write (\<lambda>i d. d\<lparr>seq_data_blocks := blocks_out sfc i\<rparr>) descs pos k count, blocks_run sfc (k + count))"
proof (induction count arbitrary: descs pos k)
  case (Suc count)
  from Suc.IH [of _ _ "Suc k"] show ?case by (simp add: blocks_out_def split_beta Let_def)
qed simp

lemma pool_syt_ring:
  "pool_ideal_syt_offsets sfc descs pos count (fst (syt_run sfc k)) (snd (syt_run sfc k)) =
    (ring_write (\<lambda>i d. d\<lparr>syt_offset := syt_out sfc i\<rparr>) descs pos k count, syt_run sfc (k + count))"
proof (induction count arbitrary: descs pos k)
  case (Suc count)
  from Suc.IH [of _ _ "Suc k"] show ?case by (simp add: syt_out_def split_beta Let_def)
qed simp

lemma ring_write_cong:
  "(\<And>i d. i < count \<Longrightarrow> g (k + i) d = h (l + i) d) \<Longrightarrow> ring_write g xs pos k count = ring_write h xs pos l count"
proof (induction count arbitrary: xs pos k l)
  case (Suc count)
  have "g k d = h l d" for d using Suc.prems [of 0] by simp
  moreover have "g (k + 1 + i) d = h (l + 1 + i) d" if "i < count" for i d using Suc.prems [of "Suc i"] that by simp
  ultimately show ?case using Suc.IH [of "k + 1" "l + 1"] by simp
qed simp

lemma replay_ring:
  "cp < length cache \<Longrightarrow> replay_loop cache descs cp pos count =
    (ring_write (\<lambda>i d. cache ! (i mod length cache)) descs pos cp count, (cp + count) mod length cache)"
proof (induction count arbitrary: descs pos cp)
  case (Suc count)
  have eq: "ring_write (\<lambda>i d. cache ! (i mod length cache)) xs p ((cp + 1) mod length cache) count =
      ring_write (\<lambda>i d. cache ! (i mod length cache)) xs p (cp + 1) count" for xs p
    by (rule ring_write_cong) (simp add: mod_add_left_eq)
  have "(cp + 1) mod length cache < length cache" using Suc.prems by (intro mod_less_divisor) linarith
  from Suc.IH [OF this] eq Suc.prems show ?case by (simp add: mod_add_left_eq)
qed simp

text \<open>A stream that has produced \<open>k\<close> entries of the ideal sequence.\<close>

definition seq_at :: "amdtp_stream \<Rightarrow> nat \<Rightarrow> bool" where
  "seq_at s k \<longleftrightarrow> (rx_last_syt_offset s, rx_syt_offset_state s) = syt_run (s_sfc s) k \<and>
    (CIP_BLOCKING \<notin> s_flags s \<longrightarrow> rx_data_block_state s = blocks_run (s_sfc s) k)"

definition ideal_entry :: "amdtp_stream \<Rightarrow> nat \<Rightarrow> seq_desc \<Rightarrow> bool" where
  "ideal_entry s j d \<longleftrightarrow>
    (syt_offset d = CIP_SYT_NO_INFO \<or> syt_offset d < TICKS_PER_CYCLE) \<and>
    (\<forall>t<TICKS_PER_CYCLE. syt_offset d = t \<longleftrightarrow> (\<exists>n. syt_event (s_sfc s) n = TICKS_PER_CYCLE * j + t)) \<and>
    (if CIP_BLOCKING \<in> s_flags s then seq_data_blocks d = (if syt_offset d = CIP_SYT_NO_INFO then 0 else syt_interval s)
     else blocks_after (s_sfc s) (j + 1) = blocks_after (s_sfc s) j + seq_data_blocks d)"

lemma ideal_entryI:
  assumes "s_sfc s < 7" "syt_offset d = syt_out (s_sfc s) j"
    and "CIP_BLOCKING \<in> s_flags s \<Longrightarrow> seq_data_blocks d = (if syt_offset d \<noteq> CIP_SYT_NO_INFO then syt_interval s else 0)"
    and "CIP_BLOCKING \<notin> s_flags s \<Longrightarrow> seq_data_blocks d = blocks_out (s_sfc s) j"
  shows "ideal_entry s j d"
  using assms syt_out_correct(1) [OF assms(1), of j] syt_out_correct(2) [OF assms(1), where k = j] blocks_out_correct [OF assms(1), of j]
  by (simp add: ideal_entry_def)

text \<open>C26. A stream that has produced \<open>k\<close> entries of the ideal sequence continues it exactly, in the ring of descriptors and
  across calls: an entry has a time stamp exactly when an event of the stream falls into its cycle, and then the rounded ideal time; with
  blocking it has the data blocks of one interval or none, otherwise the increase of the rounded up ideal number of data blocks.\<close>

theorem ideal_sequence_exact:
  assumes "s_sfc s < 7" "seq_at s k" "rx_seq_pos s < length (rx_seq_descs s)" "count \<le> length (rx_seq_descs s)"
  shows "seq_at (pool_ideal_seq_descs s count) (k + count) \<and>
    (\<forall>i<count. ideal_entry s (k + i)
       (rx_seq_descs (pool_ideal_seq_descs s count) ! ((rx_seq_pos s + i) mod length (rx_seq_descs s))))"
proof -
  let ?sfc = "s_sfc s" and ?descs = "rx_seq_descs s" and ?pos = "rx_seq_pos s"
  let ?f = "\<lambda>i d. d\<lparr>syt_offset := syt_out ?sfc i\<rparr> :: seq_desc"
  define descs where "descs = ring_write ?f ?descs ?pos k count"
  have st: "pool_ideal_syt_offsets ?sfc ?descs ?pos count (rx_last_syt_offset s) (rx_syt_offset_state s) =
      (descs, syt_run ?sfc (k + count))"
    using pool_syt_ring [of ?sfc ?descs ?pos count k] assms(2) by (metis descs_def fst_conv snd_conv seq_at_def)
  obtain l p where lp: "syt_run ?sfc (k + count) = (l, p)" by fastforce
  have len: "length descs = length ?descs" by (simp add: descs_def)
  have nth: "descs ! ((?pos + i) mod length ?descs) = ?f (k + i) (?descs ! ((?pos + i) mod length ?descs))" if "i < count" for i
    using ring_write_nth [of ?pos ?descs count i ?f k] assms that by (simp add: descs_def)
  show ?thesis
  proof (cases "CIP_BLOCKING \<in> s_flags s")
    case True
    let ?g = "\<lambda>i d. d\<lparr>seq_data_blocks := if syt_offset d \<noteq> CIP_SYT_NO_INFO then syt_interval s else 0\<rparr> :: seq_desc"
    have eq: "pool_ideal_seq_descs s count =
        s\<lparr>rx_last_syt_offset := l, rx_syt_offset_state := p, rx_seq_descs := ring_write ?g descs ?pos k count\<rparr>"
      using True by (simp add: pool_ideal_seq_descs_def st lp Let_def pool_blocking_ring [of _ _ _ _ k] cong: if_cong)
    have "ideal_entry s (k + i) (ring_write ?g descs ?pos k count ! ((?pos + i) mod length ?descs))" if "i < count" for i
      using ring_write_nth [of ?pos descs count i ?g k] nth [OF that] assms that True len by (intro ideal_entryI) auto
    then show ?thesis using True by (simp add: eq seq_at_def lp)
  next
    case False
    let ?g = "\<lambda>i d. d\<lparr>seq_data_blocks := blocks_out ?sfc i\<rparr> :: seq_desc"
    have eq: "pool_ideal_seq_descs s count = s\<lparr>rx_last_syt_offset := l, rx_syt_offset_state := p,
        rx_seq_descs := ring_write ?g descs ?pos k count, rx_data_block_state := blocks_run ?sfc (k + count)\<rparr>"
      using False assms(2) pool_nonblocking_ring [of ?sfc descs ?pos count k]
      by (simp add: pool_ideal_seq_descs_def st lp Let_def seq_at_def)
    have "ideal_entry s (k + i) (ring_write ?g descs ?pos k count ! ((?pos + i) mod length ?descs))" if "i < count" for i
      using ring_write_nth [of ?pos descs count i ?g k] nth [OF that] assms that False len by (intro ideal_entryI) auto
    then show ?thesis by (simp add: eq seq_at_def lp)
  qed
qed

text \<open>A stream at 44100 Hz with blocking that has just been started.\<close>

definition example_stream :: amdtp_stream where
  "example_stream = \<lparr>s_flags = {CIP_BLOCKING}, s_direction = AMDTP_OUT_STREAM, s_running = True, queue_size = 4, packet_index = 0,
     packet_descs = replicate 4 \<lparr>d_cycle = 0, d_syt = 0, d_data_blocks = 0, d_data_block_counter = 0, d_ctx_payload = None\<rparr>,
     packet_descs_cursor = 0, s_tag = 1, tx_ctx_header_size = 16, tx_max_ctx_payload_length = 64, tx_dbc_interval = 0,
     tx_event_starts = False, tx_cache_descs = [], tx_cache_pos = 0, rx_fdf = 1, rx_event_count = 0,
     rx_seq_descs = replicate 4 \<lparr>syt_offset = 0, seq_data_blocks = 0\<rparr>, rx_seq_pos = 0, rx_data_block_state = 0,
     rx_syt_offset_state = 67, rx_last_syt_offset = 3072, rx_replay_target = None, rx_cache_pos = 0, source_node_id_field = 0,
     data_block_quadlets = 2, data_block_counter = 0, s_sph = 0, s_fmt = 0x10, transfer_delay = 8704, s_sfc = 1, syt_interval = 8,
     pcm_frame_multiplier = 1, pcm_buffer_pointer = 0, pcm_period_pointer = 0, ready_processing = False, next_cycle = 0\<rparr>"

theorem ideal_sequence_exact_witness:
  "seq_at (pool_ideal_seq_descs example_stream 3) 3 \<and>
   ideal_entry example_stream 1 (rx_seq_descs (pool_ideal_seq_descs example_stream 3) ! 1)"
proof -
  have "s_sfc example_stream < 7" "seq_at example_stream 0" "rx_seq_pos example_stream < length (rx_seq_descs example_stream)"
    "3 \<le> length (rx_seq_descs example_stream)"
    by (simp_all add: example_stream_def seq_at_def initial_state_def)
  from ideal_sequence_exact [OF this] have
    "seq_at (pool_ideal_seq_descs example_stream 3) 3 \<and> (\<forall>i<3. ideal_entry example_stream i
       (rx_seq_descs (pool_ideal_seq_descs example_stream 3) ! ((rx_seq_pos example_stream + i) mod length (rx_seq_descs example_stream))))"
    by simp
  moreover have "(rx_seq_pos example_stream + 1) mod length (rx_seq_descs example_stream) = 1" by (simp add: example_stream_def)
  ultimately show ?thesis by (metis one_less_numeral_iff semiring_norm(77))
qed

end
