(* ===== verification/Amdtp_Cip.thy ===== *)
theory Amdtp_Cip
  imports Amdtp_Seq Iso_Resource
begin

text \<open>
  Audio streams, second part: cycle counts, the headers of common isochronous packets (CIP) and the
  packet descriptors that are generated for outgoing packets and from incoming ones, after \<^verbatim>\<open>sound/firewire/amdtp-stream.c\<close>.
  Quadlets are in host byte order.
\<close>

section \<open>Cycle counts\<close>

definition compute_ohci_iso_ctx_cycle_count :: "u32 \<Rightarrow> nat" where
  "compute_ohci_iso_ctx_cycle_count tstamp =
    unat ((drop_bit 13 tstamp) AND 0x07) * CYCLES_PER_SECOND + unat (tstamp AND 0x1fff)"

definition compute_ohci_cycle_count :: "u32 \<Rightarrow> nat" where
  "compute_ohci_cycle_count ctx_header_tstamp = compute_ohci_iso_ctx_cycle_count (ctx_header_tstamp AND 0x0000ffff)"

definition increment_ohci_cycle_count :: "nat \<Rightarrow> nat \<Rightarrow> nat" where
  "increment_ohci_cycle_count cycle addend =
    (let cycle = cycle + addend
     in if cycle \<ge> OHCI_SECOND_MODULUS * CYCLES_PER_SECOND then cycle - OHCI_SECOND_MODULUS * CYCLES_PER_SECOND else cycle)"

definition decrement_ohci_cycle_count :: "nat \<Rightarrow> nat \<Rightarrow> nat" where
  "decrement_ohci_cycle_count minuend subtrahend =
    (let minuend = (if minuend < subtrahend then minuend + OHCI_SECOND_MODULUS * CYCLES_PER_SECOND else minuend)
     in minuend - subtrahend)"

definition compare_ohci_cycle_count :: "nat \<Rightarrow> nat \<Rightarrow> int" where
  "compare_ohci_cycle_count lval rval =
    (if lval = rval then 0
     else if lval < rval \<and> rval - lval < OHCI_SECOND_MODULUS * CYCLES_PER_SECOND div 2 then -1
     else 1)"

definition compute_ohci_it_cycle :: "u32 \<Rightarrow> nat \<Rightarrow> nat" where
  "compute_ohci_it_cycle ctx_header_tstamp queue = increment_ohci_cycle_count (compute_ohci_cycle_count ctx_header_tstamp) queue"

section \<open>CIP headers\<close>

abbreviation (input) CIP_EOH :: u32 where "CIP_EOH \<equiv> 0x80000000"
abbreviation (input) CIP_SPH_MASK :: u32 where "CIP_SPH_MASK \<equiv> 0x00000400"
abbreviation (input) CIP_DBS_MASK :: u32 where "CIP_DBS_MASK \<equiv> 0x00ff0000"
abbreviation (input) CIP_DBC_MASK :: u32 where "CIP_DBC_MASK \<equiv> 0x000000ff"
abbreviation (input) CIP_FMT_MASK :: u32 where "CIP_FMT_MASK \<equiv> 0x3f000000"
abbreviation (input) CIP_FDF_MASK :: u32 where "CIP_FDF_MASK \<equiv> 0x00ff0000"
abbreviation (input) CIP_SYT_MASK :: u32 where "CIP_SYT_MASK \<equiv> 0x0000ffff"
abbreviation (input) CIP_FMT_AM :: u32 where "CIP_FMT_AM \<equiv> 0x10"
abbreviation (input) AMDTP_FDF_NO_DATA :: u32 where "AMDTP_FDF_NO_DATA \<equiv> 0xff"
abbreviation (input) UINT_MAX :: u32 where "UINT_MAX \<equiv> 0xffffffff"

definition generate_cip_header :: "amdtp_stream \<Rightarrow> u32 \<Rightarrow> nat \<Rightarrow> u32 \<times> u32" where
  "generate_cip_header s dbc syt =
    (source_node_id_field s OR push_bit 16 (of_nat (data_block_quadlets s)) OR (push_bit 10 (s_sph s) AND CIP_SPH_MASK) OR dbc,
     CIP_EOH OR (push_bit 24 (s_fmt s) AND CIP_FMT_MASK) OR (push_bit 16 (rx_fdf s) AND CIP_FDF_MASK) OR
       (of_nat syt AND CIP_SYT_MASK))"

definition build_it_pkt_header :: "amdtp_stream \<Rightarrow> fw_iso_packet \<Rightarrow> nat \<Rightarrow> nat \<Rightarrow> u32 \<Rightarrow> nat \<Rightarrow> fw_iso_packet" where
  "build_it_pkt_header s params hlen blocks dbc syt =
    (let params = params\<lparr>payload_length := blocks * 4 * data_block_quadlets s\<rparr>
     in if hlen > 0 then
          let (h0, h1) = generate_cip_header s dbc syt in params\<lparr>pk_header := [h0, h1], header_length := hlen\<rparr>
        else params)"

text \<open>The number of data blocks of a packet with CIP headers.\<close>

definition cip_data_blocks :: "amdtp_stream \<Rightarrow> u32 \<Rightarrow> u32 \<Rightarrow> nat \<Rightarrow> errno + nat" where
  "cip_data_blocks s h0 h1 plen =
    (let fmt = drop_bit 24 (h1 AND CIP_FMT_MASK); fdf = drop_bit 16 (h1 AND CIP_FDF_MASK) in
     if plen = 0 \<or> (fmt = CIP_FMT_AM \<and> fdf = AMDTP_FDF_NO_DATA) then Inr 0
     else
       let dbq = unat (drop_bit 16 (h0 AND CIP_DBS_MASK)) in
       if dbq = 0 then Inl EPROTO
       else Inr (plen div 4 div (if CIP_WRONG_DBS \<in> s_flags s then data_block_quadlets s else dbq)))"

text \<open>\<open>counter\<close> and \<open>syt\<close> are the values behind the pointers; without awareness of time stamps the latter stays as it is.\<close>

definition check_cip_header :: "amdtp_stream \<Rightarrow> u32 \<Rightarrow> u32 \<Rightarrow> nat \<Rightarrow> u32 \<Rightarrow> nat \<Rightarrow> errno + (nat \<times> u32 \<times> nat)" where
  "check_cip_header s h0 h1 plen counter syt =
    (if (h0 AND CIP_EOH = CIP_EOH \<or> h1 AND CIP_EOH \<noteq> CIP_EOH) \<and> CIP_HEADER_WITHOUT_EOH \<notin> s_flags s then Inl EAGAIN
     else if drop_bit 10 (h0 AND CIP_SPH_MASK) \<noteq> s_sph s \<or> drop_bit 24 (h1 AND CIP_FMT_MASK) \<noteq> s_fmt s then Inl EAGAIN
     else
       (case cip_data_blocks s h0 h1 plen of
          Inl err \<Rightarrow> Inl err
        | Inr blocks \<Rightarrow>
            let dbc = h0 AND CIP_DBC_MASK;
                dbc = (if blocks = 0 \<and> CIP_EMPTY_HAS_WRONG_DBC \<in> s_flags s \<and> counter \<noteq> UINT_MAX then counter else dbc);
                lost =
                  (if dbc = 0x00 \<and> CIP_SKIP_DBC_ZERO_CHECK \<in> s_flags s \<or> counter = UINT_MAX then False
                   else if CIP_DBC_IS_END_EVENT \<notin> s_flags s then dbc \<noteq> counter
                   else
                     let interval =
                       (if CIP_DBC_IS_PAYLOAD_QUADLETS \<notin> s_flags s then
                          if blocks > 0 \<and> tx_dbc_interval s > 0 then tx_dbc_interval s else blocks
                        else plen div 4)
                     in dbc \<noteq> (counter + of_nat interval) AND 0xff)
            in if lost then Inl EIO
               else Inr (blocks, dbc, if CIP_UNAWARE_SYT \<notin> s_flags s then unat (h1 AND CIP_SYT_MASK) else syt)))"

text \<open>A context header has the header of the isochronous packet, its time stamp and, unless the stream has none, the CIP header.\<close>

definition parse_ir_ctx_header :: "amdtp_stream \<Rightarrow> u32 list \<Rightarrow> u32 \<Rightarrow> nat \<Rightarrow> errno + (nat \<times> u32 \<times> nat)" where
  "parse_ir_ctx_header s ctx_header counter syt =
    (let plen = unat (drop_bit 16 (ctx_header ! 0));
         cip_header_size = (if CIP_NO_HEADER \<notin> s_flags s then CIP_HEADER_SIZE else 0) in
     if plen > cip_header_size + tx_max_ctx_payload_length s then Inl EIO
     else if cip_header_size > 0 then
       if plen \<ge> cip_header_size then
         check_cip_header s (ctx_header ! 2) (ctx_header ! 3) (plen - cip_header_size) counter syt
       else Inr (0, counter, 0)
     else Inr (plen div 4 div data_block_quadlets s, if counter = UINT_MAX then 0 else counter, 0))"

section \<open>Descriptors of incoming packets\<close>

text \<open>The local variables of the loop: the place of the next descriptor, the next cycle, the counter, the next packet buffer,
  the number of descriptors; and the ring of descriptors.\<close>

record tx_gen =
  g_desc :: nat
  g_next_cycle :: nat
  g_dbc :: u32
  g_packet_index :: nat
  g_desc_count :: nat
  g_descs :: "pkt_desc list"

definition put_desc :: "tx_gen \<Rightarrow> pkt_desc \<Rightarrow> tx_gen" where
  "put_desc g d = g\<lparr>g_descs := (g_descs g)[g_desc g := d], g_desc := (g_desc g + 1) mod length (g_descs g),
    g_desc_count := g_desc_count g + 1\<rparr>"

text \<open>The check of the cycle.  The result is whether packets were lost.\<close>

definition tx_check_cycle :: "amdtp_stream \<Rightarrow> nat \<Rightarrow> tx_gen \<Rightarrow> bool \<times> tx_gen" where
  "tx_check_cycle s cycle g =
    (if g_next_cycle g = cycle then (False, g)
     else if CIP_NO_HEADER \<in> s_flags s then
       let prev_cycle = g_next_cycle g; g = g\<lparr>g_next_cycle := increment_ohci_cycle_count (g_next_cycle g) 1\<rparr> in
       if g_next_cycle g \<noteq> cycle then (True, g)
       else (False, put_desc g \<lparr>d_cycle = prev_cycle, d_syt = 0, d_data_blocks = 0, d_data_block_counter = g_dbc g,
                                 d_ctx_payload = None\<rparr>)
     else if CIP_JUMBO_PAYLOAD \<in> s_flags s then
       (compare_ohci_cycle_count (increment_ohci_cycle_count (g_next_cycle g) IR_JUMBO_PAYLOAD_MAX_SKIP_CYCLES) cycle < 0, g)
     else (True, g))"

text \<open>One packet.  The local variable \<open>syt\<close> has no initial value in the code; whatever it is, it is \<open>junk\<close>.\<close>

definition tx_packet :: "amdtp_stream \<Rightarrow> nat \<Rightarrow> u32 list \<Rightarrow> tx_gen \<Rightarrow> errno option \<times> tx_gen" where
  "tx_packet s junk ctx_header g =
    (let cycle = compute_ohci_cycle_count (ctx_header ! 1); (lost, g) = tx_check_cycle s cycle g in
     if lost then (Some EIO, g)
     else
       (case parse_ir_ctx_header s ctx_header (g_dbc g) junk of
          Inl err \<Rightarrow> (Some err, g)
        | Inr (blocks, dbc, syt) \<Rightarrow>
            let g = put_desc g \<lparr>d_cycle = cycle, d_syt = syt, d_data_blocks = blocks, d_data_block_counter = dbc,
                                d_ctx_payload = Some (g_packet_index g)\<rparr>
            in (None, g\<lparr>g_dbc := if CIP_DBC_IS_END_EVENT \<notin> s_flags s then (dbc + of_nat blocks) AND 0xff else dbc,
                        g_next_cycle := increment_ohci_cycle_count (g_next_cycle g) 1,
                        g_packet_index := (g_packet_index g + 1) mod queue_size s\<rparr>)))"

fun tx_packets :: "amdtp_stream \<Rightarrow> nat \<Rightarrow> u32 list list \<Rightarrow> tx_gen \<Rightarrow> errno option \<times> tx_gen" where
  "tx_packets s junk [] g = (None, g)"
| "tx_packets s junk (h # hs) g =
    (case tx_packet s junk h g of
       (Some err, g) \<Rightarrow> (Some err, g)
     | (None, g) \<Rightarrow> tx_packets s junk hs g)"

text \<open>The results are the error, the number of descriptors and the stream.\<close>

definition generate_tx_packet_descs :: "amdtp_stream \<Rightarrow> nat \<Rightarrow> nat \<Rightarrow> u32 list list \<Rightarrow> errno option \<times> nat \<times> amdtp_stream" where
  "generate_tx_packet_descs s junk desc ctx_headers =
    (let (err, g) = tx_packets s junk ctx_headers
           \<lparr>g_desc = desc, g_next_cycle = next_cycle s, g_dbc = data_block_counter s, g_packet_index = nat (packet_index s),
            g_desc_count = 0, g_descs = packet_descs s\<rparr>;
         s = s\<lparr>packet_descs := g_descs g\<rparr>
     in (err, g_desc_count g,
         if err = None then s\<lparr>next_cycle := g_next_cycle g, data_block_counter := g_dbc g\<rparr> else s))"

section \<open>Descriptors of outgoing packets\<close>

definition compute_syt :: "nat \<Rightarrow> nat \<Rightarrow> nat \<Rightarrow> nat" where
  "compute_syt offset cycle delay =
    (let offset = offset + delay
     in (push_bit 12 (cycle + offset div TICKS_PER_CYCLE) OR offset mod TICKS_PER_CYCLE) AND 0xffff)"

text \<open>One packet: the counter and the position in the ring of sequence descriptors are the remaining state.\<close>

definition rx_packet :: "amdtp_stream \<Rightarrow> seq_desc \<Rightarrow> u32 \<Rightarrow> nat \<Rightarrow> u32 \<Rightarrow> pkt_desc \<times> u32" where
  "rx_packet s q tstamp index dbc =
    (let cycle = compute_ohci_it_cycle tstamp (queue_size s);
         syt = (if CIP_UNAWARE_SYT \<notin> s_flags s \<and> syt_offset q \<noteq> CIP_SYT_NO_INFO
                then compute_syt (syt_offset q) cycle (transfer_delay s) else CIP_SYT_NO_INFO);
         dbc = (if CIP_DBC_IS_END_EVENT \<in> s_flags s then (dbc + of_nat (seq_data_blocks q)) AND 0xff else dbc);
         d = \<lparr>d_cycle = cycle, d_syt = syt, d_data_blocks = seq_data_blocks q, d_data_block_counter = dbc, d_ctx_payload = Some index\<rparr>
     in (d, if CIP_DBC_IS_END_EVENT \<notin> s_flags s then (dbc + of_nat (seq_data_blocks q)) AND 0xff else dbc))"

fun rx_packets :: "amdtp_stream \<Rightarrow> u32 list \<Rightarrow> nat \<Rightarrow> nat \<Rightarrow> nat \<Rightarrow> u32 \<Rightarrow> pkt_desc list \<Rightarrow> pkt_desc list \<times> nat \<times> u32" where
  "rx_packets s [] i desc seq_pos dbc descs = (descs, seq_pos, dbc)"
| "rx_packets s (tstamp # ts) i desc seq_pos dbc descs =
    (let (d, dbc) = rx_packet s (rx_seq_descs s ! seq_pos) tstamp (nat ((packet_index s + int i) mod int (queue_size s))) dbc
     in rx_packets s ts (i + 1) ((desc + 1) mod length descs) ((seq_pos + 1) mod length (rx_seq_descs s)) dbc (descs[desc := d]))"

definition generate_rx_packet_descs ::
  "bool \<Rightarrow> bool \<Rightarrow> amdtp_stream option \<Rightarrow> amdtp_stream \<Rightarrow> nat \<Rightarrow> u32 list \<Rightarrow> amdtp_stream" where
  "generate_rx_packet_descs enable on_the_fly target s desc tstamps =
    (let s = pool_seq_descs enable on_the_fly target s (length tstamps);
         (descs, seq_pos, dbc) = rx_packets s tstamps 0 desc (rx_seq_pos s) (data_block_counter s) (packet_descs s)
     in s\<lparr>packet_descs := descs, data_block_counter := dbc, rx_seq_pos := seq_pos\<rparr>)"

section \<open>Time stamps\<close>

lemma or_push_bit_12: "b < 4096 \<Longrightarrow> push_bit 12 a OR b = a * 4096 + (b :: nat)"
proof -
  assume b: "b < 4096"
  then have tb: "take_bit 12 b = b" by (simp add: take_bit_nat_eq_self_iff)
  have "\<not> (bit (push_bit 12 a) n \<and> bit b n)" for n
    using tb by (metis bit_push_bit_iff_nat bit_take_bit_iff not_less)
  then have "push_bit 12 a AND b = 0" by (auto simp: bit_eq_iff bit_and_iff)
  then show ?thesis by (simp add: disjunctive_add_eq_or [symmetric] push_bit_eq_mult)
qed

lemma and_low_bits: "(x :: nat) AND 0xffff = x mod 65536" "x AND 0xfff = x mod 4096" "x AND 0xf = x mod 16"
  using take_bit_eq_mask [of 16 x] take_bit_eq_mask [of 12 x] take_bit_eq_mask [of 4 x]
  by (simp_all add: mask_eq_exp_minus_1 take_bit_eq_mod)

lemma and_f000: "drop_bit 12 ((x :: nat) AND 0xf000) = x div 4096 mod 16"
proof -
  have "drop_bit 12 (x AND push_bit 12 (mask 4)) = drop_bit 12 x AND mask 4" by (rule bit_eqI) (auto simp: bit_simps)
  then show ?thesis
    using take_bit_eq_mask [of 4 "drop_bit 12 x"] by (simp add: mask_eq_exp_minus_1 push_bit_eq_mult take_bit_eq_mod drop_bit_eq_div)
qed

lemma split_4096: "b < 4096 \<Longrightarrow> (a * 4096 + b) mod 65536 = a mod 16 * 4096 + (b :: nat)"
proof -
  assume "b < 4096"
  have "(a * 4096 + b) mod 65536 = (4096 * a + b) mod (4096 * 16)" by (simp add: mult.commute)
  also have "\<dots> = 4096 * ((4096 * a + b) div 4096 mod 16) + (4096 * a + b) mod 4096" by (rule mod_mult2_eq)
  finally show ?thesis using \<open>b < 4096\<close> by simp
qed

lemma compute_syt_arith:
  "compute_syt offset cycle delay = (cycle + (offset + delay) div 3072) mod 16 * 4096 + (offset + delay) mod 3072"
proof -
  have "(offset + delay) mod 3072 < 4096" by (rule less_trans [of _ 3072]) simp_all
  then show ?thesis unfolding compute_syt_def Let_def and_low_bits by (simp only: or_push_bit_12 split_4096)
qed

lemma compute_syt_offset_arith:
  "syt < 65536 \<Longrightarrow> compute_syt_offset syt cycle delay =
    (let t = (syt div 4096 + 16 - cycle mod 16) mod 16 * 3072 + syt mod 4096 in (if t < delay then t + 16 * 3072 else t) - delay)"
proof -
  assume "syt < 65536"
  then have lt: "syt div 4096 < 16" by simp
  have c: "cycle mod 8000 mod 16 = cycle mod 16" by (rule mod_mod_cancel) simp
  have wrap: "(if b < a then b + 16 else b) - a = (b + 16 - a) mod 16" if "a < 16" "b < 16" for a b :: nat
    using that by (auto simp: mod_if)
  have m: "syt div 4096 mod 16 = syt div 4096" using lt by (rule mod_less)
  have w: "(if syt div 4096 < cycle mod 16 then syt div 4096 + 16 else syt div 4096) - cycle mod 16 =
      (syt div 4096 + 16 - cycle mod 16) mod 16"
    using wrap lt by simp
  show ?thesis unfolding compute_syt_offset_def Let_def and_low_bits and_f000 c m w ..
qed

lemma cycle_difference: "d < 16 \<Longrightarrow> ((c + d) mod 16 + 16 - c mod 16) mod 16 = (d :: nat)"
proof -
  assume d: "d < 16"
  define a where "a = c mod 16"
  have "a < 16" by (simp add: a_def)
  have "(c + d) mod 16 = (a + d) mod 16" by (simp add: a_def mod_add_left_eq)
  also have "\<dots> = (if a + d < 16 then a + d else a + d - 16)" using \<open>a < 16\<close> d by (auto simp: mod_if)
  finally show ?thesis using \<open>a < 16\<close> d by (auto simp: a_def [symmetric])
qed

lemma cycle_sum: "e < 16 \<Longrightarrow> (c + (e + 16 - c mod 16) mod 16) mod 16 = (e :: nat)"
proof -
  assume "e < 16"
  have "(c + (e + 16 - c mod 16) mod 16) mod 16 = (c mod 16 + (e + 16 - c mod 16)) mod 16"
    by (metis mod_add_left_eq mod_add_right_eq)
  also have "c mod 16 + (e + 16 - c mod 16) = e + 16" by (simp add: mod_less_divisor [THEN less_imp_le] trans_le_add2)
  finally show ?thesis using \<open>e < 16\<close> by simp
qed

lemma compute_syt_offset_inverse:
  assumes "offset + delay < 16 * TICKS_PER_CYCLE"
  shows "compute_syt_offset (compute_syt offset cycle delay) cycle delay = offset"
proof -
  define d r where "d = (offset + delay) div 3072" and "r = (offset + delay) mod 3072"
  have d: "d < 16" using assms by (simp add: d_def less_mult_imp_div_less)
  have r: "r < 3072" by (simp add: r_def)
  have sum: "d * 3072 + r = offset + delay" by (simp add: d_def r_def)
  let ?syt = "(cycle + d) mod 16 * 4096 + r"
  have "(cycle + d) mod 16 \<le> 15" using mod_less_divisor [of 16 "cycle + d"] by linarith
  then have syt: "?syt < 65536" "?syt div 4096 = (cycle + d) mod 16" "?syt mod 4096 = r" using r by simp_all
  show ?thesis
    unfolding compute_syt_arith d_def [symmetric] r_def [symmetric] compute_syt_offset_arith [OF syt(1)] syt(2,3) cycle_difference [OF d] Let_def sum
    by simp
qed

lemma compute_syt_inverse:
  assumes "syt < 65536" "syt mod 4096 < TICKS_PER_CYCLE" "delay \<le> 16 * TICKS_PER_CYCLE"
  shows "compute_syt (compute_syt_offset syt cycle delay) cycle delay = syt"
proof -
  define e r where "e = syt div 4096" and "r = syt mod 4096"
  define f where "f = (e + 16 - cycle mod 16) mod 16"
  define t where "t = f * 3072 + r"
  have e: "e < 16" "r < 3072" "syt = e * 4096 + r" using assms by (simp_all add: e_def r_def less_mult_imp_div_less)
  let ?o = "(if t < delay then t + 16 * 3072 else t) - delay"
  have o: "compute_syt_offset syt cycle delay = ?o"
    unfolding compute_syt_offset_arith [OF assms(1)] e_def [symmetric] r_def [symmetric] f_def [symmetric] Let_def t_def ..
  define g where "g = f + (if t < delay then 16 else 0)"
  have "?o + delay = g * 3072 + r" using assms(3) by (auto simp: t_def g_def)
  then have "(?o + delay) mod 3072 = r" "(?o + delay) div 3072 = g" using e(2) by simp_all
  moreover have "(cycle + g) mod 16 = e"
    using cycle_sum [OF e(1), of cycle] unfolding g_def f_def by (auto simp: mod_simps add.assoc [symmetric])
  ultimately show ?thesis unfolding o compute_syt_arith by (simp add: e(3))
qed

text \<open>The time stamp of an outgoing packet and the offset that is derived from the time stamp of an incoming one are inverse to each other: the
  offset comes back as long as it lies, with the transfer delay, within the sixteen cycles that a time stamp can tell apart,
  and every valid time stamp comes back when it is replayed in its own cycle.\<close>

lemma syt_roundtrip:
  "(offset + delay < 16 * TICKS_PER_CYCLE \<longrightarrow> compute_syt_offset (compute_syt offset cycle delay) cycle delay = offset) \<and>
   (syt < 65536 \<and> syt mod 4096 < TICKS_PER_CYCLE \<and> delay \<le> 16 * TICKS_PER_CYCLE \<longrightarrow>
      compute_syt (compute_syt_offset syt cycle delay) cycle delay = syt)"
  using compute_syt_offset_inverse compute_syt_inverse by blast

end
