(* ===== verification/Amdtp_Proofs.thy ===== *)
theory Amdtp_Proofs
  imports Amdtp_Cip
begin

text \<open>
  Properties of the packet descriptors of audio streams: what one stream sends another accepts with the same contents, cycle counts
  and their comparison, and packets that stop a stream.
\<close>

section \<open>The fields of a CIP header\<close>

lemma cip_masks:
  "CIP_EOH = field_mask 31 1" "CIP_SPH_MASK = field_mask 10 1" "CIP_DBS_MASK = field_mask 16 8" "CIP_DBC_MASK = field_mask 0 8"
  "CIP_FMT_MASK = field_mask 24 6" "CIP_SYT_MASK = field_mask 0 16"
  by (simp_all add: field_mask_def mask_eq_exp_minus_1)

lemma bit_cip0:
  fixes src dbs sph dbc :: u32
  assumes "\<And>i. bit src i \<Longrightarrow> 24 \<le> i \<and> i < 30" "\<And>i. bit dbs i \<Longrightarrow> i < 8" "\<And>i. bit sph i \<Longrightarrow> i < 1" "\<And>i. bit dbc i \<Longrightarrow> i < 8"
  shows "bit (src OR push_bit 16 dbs OR (push_bit 10 sph AND field_mask 10 1) OR dbc) k \<longleftrightarrow>
    (if k < 8 then bit dbc k else if k = 10 then bit sph 0 else if 16 \<le> k \<and> k < 24 then bit dbs (k - 16)
     else if 24 \<le> k \<and> k < 30 then bit src k else False)"
  using assms(1) [of k] assms(2) [of "k - 16"] assms(3) [of "k - 10"] assms(4) [of k]
  by (auto simp: bit_simps dest: bit_imp_le_length)

lemma bit_cip1:
  fixes fmt fdf syt :: u32
  shows "bit (field_mask 31 1 OR (push_bit 24 fmt AND field_mask 24 6) OR (push_bit 16 fdf AND field_mask 16 8) OR (syt AND field_mask 0 16)) k \<longleftrightarrow>
    (if k < 16 then bit syt k else if k < 24 then bit fdf (k - 16) else if k < 30 then bit fmt (k - 24) else k = 31)"
  by (auto simp: bit_simps dest: bit_imp_le_length)

lemma word_bits_less: "unat x < 2 ^ n \<Longrightarrow> bit x i \<Longrightarrow> i < n" for x :: "'a::len word"
  using bit_of_nat_less [of "unat x" n i, where 'a = 'a] by simp

text \<open>The settings of an outgoing stream that fit into the header.\<close>

definition sender_ok :: "amdtp_stream \<Rightarrow> bool" where
  "sender_ok s \<longleftrightarrow> (\<forall>i. bit (source_node_id_field s) i \<longrightarrow> 24 \<le> i \<and> i < 30) \<and> 0 < data_block_quadlets s \<and>
    data_block_quadlets s < 256 \<and> unat (s_sph s) < 2 \<and> unat (s_fmt s) < 64 \<and> unat (rx_fdf s) < 255"

lemma cip_header_fields:
  assumes "sender_ok s" "unat dbc < 256" "syt < 65536" "generate_cip_header s dbc syt = (h0, h1)"
  shows "h0 AND CIP_EOH = 0" "h1 AND CIP_EOH = CIP_EOH"
    and "drop_bit 10 (h0 AND CIP_SPH_MASK) = s_sph s" "drop_bit 24 (h1 AND CIP_FMT_MASK) = s_fmt s"
    and "drop_bit 16 (h1 AND CIP_FDF_MASK) = rx_fdf s" "drop_bit 16 (h0 AND CIP_DBS_MASK) = of_nat (data_block_quadlets s)"
    and "h0 AND CIP_DBC_MASK = dbc" "h1 AND CIP_SYT_MASK = of_nat syt"
proof -
  let ?dbs = "of_nat (data_block_quadlets s) :: u32" and ?syt = "of_nat syt :: u32"
  have src: "bit (source_node_id_field s) i \<Longrightarrow> 24 \<le> i \<and> i < 30" for i using assms(1) by (simp add: sender_ok_def)
  have dbs: "bit ?dbs i \<Longrightarrow> i < 8" for i using assms(1) bit_of_nat_less [of "data_block_quadlets s" 8 i] by (simp add: sender_ok_def)
  have sph: "bit (s_sph s) i \<Longrightarrow> i < 1" for i using assms(1) word_bits_less [of "s_sph s" 1 i] by (simp add: sender_ok_def)
  have fmt: "bit (s_fmt s) i \<Longrightarrow> i < 6" for i using assms(1) word_bits_less [of "s_fmt s" 6 i] by (simp add: sender_ok_def)
  have fdf: "bit (rx_fdf s) i \<Longrightarrow> i < 8" for i using assms(1) word_bits_less [of "rx_fdf s" 8 i] by (simp add: sender_ok_def)
  have d: "bit dbc i \<Longrightarrow> i < 8" for i using assms(2) word_bits_less [of dbc 8 i] by simp
  have sy: "bit ?syt i \<Longrightarrow> i < 16" for i using assms(3) bit_of_nat_less [of syt 16 i] by simp
  have h: "h0 = source_node_id_field s OR push_bit 16 ?dbs OR (push_bit 10 (s_sph s) AND CIP_SPH_MASK) OR dbc"
    "h1 = CIP_EOH OR (push_bit 24 (s_fmt s) AND CIP_FMT_MASK) OR (push_bit 16 (rx_fdf s) AND CIP_DBS_MASK) OR (?syt AND CIP_SYT_MASK)"
    using assms(4) by (simp_all add: generate_cip_header_def)
  have b0: "bit h0 k \<longleftrightarrow> (if k < 8 then bit dbc k else if k = 10 then bit (s_sph s) 0 else if 16 \<le> k \<and> k < 24 then bit ?dbs (k - 16)
      else if 24 \<le> k \<and> k < 30 then bit (source_node_id_field s) k else False)" for k
    unfolding h(1) cip_masks using bit_cip0 [OF src dbs sph d] .
  have b1: "bit h1 k \<longleftrightarrow> (if k < 16 then bit ?syt k else if k < 24 then bit (rx_fdf s) (k - 16) else if k < 30 then bit (s_fmt s) (k - 24) else k = 31)" for k
    unfolding h(2) cip_masks using bit_cip1 .
  note simps = bit_and_iff bit_drop_bit_eq b0 b1
  show "h0 AND CIP_EOH = 0" unfolding cip_masks by (rule bit_word_eqI) (auto simp: simps)
  show "h1 AND CIP_EOH = CIP_EOH" unfolding cip_masks by (rule bit_word_eqI) (auto simp: simps)
  show "drop_bit 10 (h0 AND CIP_SPH_MASK) = s_sph s"
    unfolding cip_masks by (rule bit_word_eqI) (use sph in \<open>fastforce simp: simps\<close>)
  show "drop_bit 24 (h1 AND CIP_FMT_MASK) = s_fmt s"
    unfolding cip_masks by (rule bit_word_eqI) (use fmt in \<open>fastforce simp: simps\<close>)
  show "drop_bit 16 (h1 AND CIP_FDF_MASK) = rx_fdf s"
    unfolding cip_masks by (rule bit_word_eqI) (use fdf in \<open>fastforce simp: simps\<close>)
  show "drop_bit 16 (h0 AND CIP_DBS_MASK) = ?dbs"
    unfolding cip_masks by (rule bit_word_eqI) (use dbs in \<open>fastforce simp: simps simp del: of_nat_take_bit\<close>)
  show "h0 AND CIP_DBC_MASK = dbc" unfolding cip_masks by (rule bit_word_eqI) (use d in \<open>fastforce simp: simps\<close>)
  show "h1 AND CIP_SYT_MASK = ?syt" unfolding cip_masks by (rule bit_word_eqI) (use sy in \<open>fastforce simp: simps\<close>)
qed

section \<open>From sender to receiver\<close>

text \<open>An incoming stream that expects what an outgoing stream sends.\<close>

definition receiver_ok :: "amdtp_stream \<Rightarrow> amdtp_stream \<Rightarrow> bool" where
  "receiver_ok s r \<longleftrightarrow> CIP_NO_HEADER \<notin> s_flags r \<and> CIP_UNAWARE_SYT \<notin> s_flags r \<and> CIP_WRONG_DBS \<notin> s_flags r \<and>
    CIP_EMPTY_HAS_WRONG_DBC \<notin> s_flags r \<and> CIP_DBC_IS_PAYLOAD_QUADLETS \<notin> s_flags r \<and>
    (CIP_DBC_IS_END_EVENT \<in> s_flags r \<longleftrightarrow> CIP_DBC_IS_END_EVENT \<in> s_flags s) \<and> tx_dbc_interval r = 0 \<and>
    s_sph r = s_sph s \<and> s_fmt r = s_fmt s"

text \<open>The context header that the receiver's controller stores for a packet of the sender, with the time stamp \<open>t\<close>.\<close>

abbreviation (input) empty_packet :: fw_iso_packet where
  "empty_packet \<equiv> \<lparr>payload_length = 0, pk_interrupt = False, pk_skip = False, pk_tag = 0, pk_sy = 0, header_length = 0, pk_header = []\<rparr>"

definition wire :: "amdtp_stream \<Rightarrow> pkt_desc \<Rightarrow> u32 \<Rightarrow> u32 list" where
  "wire s d t =
    (let p = build_it_pkt_header s empty_packet CIP_HEADER_SIZE (d_data_blocks d) (d_data_block_counter d) (d_syt d)
     in push_bit 16 (of_nat (header_length p + payload_length p)) # t # pk_header p)"

definition desc_ok :: "amdtp_stream \<Rightarrow> amdtp_stream \<Rightarrow> pkt_desc \<Rightarrow> bool" where
  "desc_ok s r d \<longleftrightarrow> unat (d_data_block_counter d) < 256 \<and> d_syt d < 65536 \<and>
    d_data_blocks d * 4 * data_block_quadlets s \<le> tx_max_ctx_payload_length r \<and>
    d_data_blocks d * 4 * data_block_quadlets s + 8 < 65536"

lemma drop_push_16: "n < 65536 \<Longrightarrow> unat (drop_bit 16 (push_bit 16 (of_nat n :: u32))) = n"
proof -
  assume n: "n < 65536"
  have "drop_bit 16 (push_bit 16 (of_nat n :: u32)) = of_nat n"
    using bit_of_nat_less [of n 16, where 'a = 32] n by (intro bit_word_eqI) (fastforce simp: bit_simps simp del: of_nat_take_bit)
  then show ?thesis using n by (simp add: unat_of_nat take_bit_nat_eq_self_iff unsigned_of_nat)
qed

lemma parse_wire_iff:
  assumes "sender_ok s" "receiver_ok s r" "desc_ok s r d"
  shows "parse_ir_ctx_header r (wire s d t) counter junk =
    (if d_data_block_counter d = 0 \<and> CIP_SKIP_DBC_ZERO_CHECK \<in> s_flags r \<or> counter = UINT_MAX \<or> d_data_block_counter d =
        (if CIP_DBC_IS_END_EVENT \<in> s_flags s then (counter + of_nat (d_data_blocks d)) AND 0xff else counter)
     then Inr (d_data_blocks d, d_data_block_counter d, d_syt d) else Inl EIO)" (is "_ = ?res")
proof -
  obtain h0 h1 where h: "generate_cip_header s (d_data_block_counter d) (d_syt d) = (h0, h1)" by fastforce
  let ?plen = "d_data_blocks d * 4 * data_block_quadlets s"
  have dq: "0 < data_block_quadlets s" "data_block_quadlets s < 256" "rx_fdf s \<noteq> 0xff"
    using assms(1) by (auto simp: sender_ok_def)
  have d: "unat (d_data_block_counter d) < 256" "d_syt d < 65536" "?plen \<le> tx_max_ctx_payload_length r" "?plen + 8 < 65536"
    using assms(3) by (auto simp: desc_ok_def)
  note f = cip_header_fields [OF assms(1) d(1,2) h]
  have w: "wire s d t = [push_bit 16 (of_nat (8 + ?plen)), t, h0, h1]"
    by (simp add: wire_def build_it_pkt_header_def h Let_def)
  have len: "unat (drop_bit 16 (push_bit 16 (of_nat (8 + ?plen) :: u32))) = 8 + ?plen" by (rule drop_push_16) (use d(4) in simp)
  have dbq: "unat (of_nat (data_block_quadlets s) :: u32) = data_block_quadlets s"
    using dq by (simp add: unsigned_of_nat take_bit_nat_eq_self_iff)
  have syt: "unat (of_nat (d_syt d) :: u32) = d_syt d" using d(2) by (simp add: unsigned_of_nat take_bit_nat_eq_self_iff)
  have "?plen div 4 = d_data_blocks d * data_block_quadlets s" by simp
  then have "?plen div 4 div data_block_quadlets s = d_data_blocks d" using dq(1) by (simp del: div_mult_self1_is_m)
  then have blocks: "cip_data_blocks r h0 h1 ?plen = Inr (d_data_blocks d)"
    using assms(2) dq dbq f(5,6) by (auto simp: cip_data_blocks_def receiver_ok_def)
  have "check_cip_header r h0 h1 ?plen counter junk = ?res"
    using assms(2) f blocks syt by (auto simp: check_cip_header_def receiver_ok_def Let_def)
  then show ?thesis using assms(2) d(3) len by (simp add: parse_ir_ctx_header_def w receiver_ok_def Let_def del: of_nat_add)
qed

lemma parse_wire:
  assumes "sender_ok s" "receiver_ok s r" "desc_ok s r d"
    and "counter = UINT_MAX \<or> d_data_block_counter d =
      (if CIP_DBC_IS_END_EVENT \<in> s_flags s then (counter + of_nat (d_data_blocks d)) AND 0xff else counter)"
  shows "parse_ir_ctx_header r (wire s d t) counter junk = Inr (d_data_blocks d, d_data_block_counter d, d_syt d)"
  unfolding parse_wire_iff [OF assms(1-3)] using assms(4) by auto

text \<open>The packets of a sender as a list, with the sequence entries \<open>q i\<close>.\<close>

fun rx_run :: "amdtp_stream \<Rightarrow> (nat \<Rightarrow> seq_desc) \<Rightarrow> u32 list \<Rightarrow> nat \<Rightarrow> u32 \<Rightarrow> pkt_desc list \<times> u32" where
  "rx_run s q [] i dbc = ([], dbc)"
| "rx_run s q (t # ts) i dbc =
    (let (d, dbc) = rx_packet s (q i) t (nat ((packet_index s + int i) mod int (queue_size s))) dbc;
         (ds, dbc) = rx_run s q ts (i + 1) dbc
     in (d # ds, dbc))"

lemma length_rx_run: "length (fst (rx_run s q ts i dbc)) = length ts"
  by (induction ts arbitrary: i dbc) (auto simp: Let_def split_beta)

lemma rx_packets_ring:
  assumes "\<And>j. q j = rx_seq_descs s ! ((p + j) mod length (rx_seq_descs s))"
  shows "rx_packets s ts i desc ((p + i) mod length (rx_seq_descs s)) dbc descs =
    (ring_write (\<lambda>j _. fst (rx_run s q ts i dbc) ! (j - i)) descs desc i (length ts), (p + i + length ts) mod length (rx_seq_descs s),
     snd (rx_run s q ts i dbc))"
proof (induction ts arbitrary: i desc dbc descs)
  case (Cons t ts)
  obtain d dbc1 where d: "rx_packet s (q i) t (nat ((packet_index s + int i) mod int (queue_size s))) dbc = (d, dbc1)" by fastforce
  obtain ds dbc2 where ds: "rx_run s q ts (Suc i) dbc1 = (ds, dbc2)" by fastforce
  have eq: "ring_write (\<lambda>j _. ds ! (j - Suc i)) xs r (Suc i) n = ring_write (\<lambda>j _. (d # ds) ! (j - i)) xs r (Suc i) n" for xs r n
    by (rule ring_write_cong) simp
  show ?case
    using Cons.IH [of "Suc i"] d ds eq by (simp add: assms [symmetric] mod_Suc_eq)
qed simp

lemma unat_and_ff: "unat (x AND 0xff :: u32) < 256"
proof -
  have "x AND 0xff = take_bit 8 x" by (simp add: take_bit_eq_mask mask_eq_exp_minus_1)
  then show ?thesis using take_bit_nat_less_exp [of 8 "unat x"] by (simp add: unsigned_take_bit_eq)
qed

lemma rx_packet_counter:
  assumes "rx_packet s q t idx dbc = (d, dbc')" "unat dbc < 256"
  shows "unat (d_data_block_counter d) < 256" "unat dbc' < 256" "d_syt d < 65536" "d_data_blocks d = seq_data_blocks q"
    and "d_data_block_counter d = (if CIP_DBC_IS_END_EVENT \<in> s_flags s then (dbc + of_nat (d_data_blocks d)) AND 0xff else dbc)"
    and "dbc' = (if CIP_DBC_IS_END_EVENT \<in> s_flags s then d_data_block_counter d
      else (d_data_block_counter d + of_nat (d_data_blocks d)) AND 0xff)"
proof -
  have "compute_syt o1 c dl < 65536" for o1 c dl
  proof -
    have "(c + (o1 + dl) div 3072) mod 16 < 16" "(o1 + dl) mod 3072 < 3072" by simp_all
    then show ?thesis unfolding compute_syt_arith by linarith
  qed
  then show "d_syt d < 65536" using assms(1) by (auto simp: rx_packet_def Let_def)
qed (use assms unat_and_ff in \<open>auto simp: rx_packet_def Let_def\<close>)

definition same_contents :: "pkt_desc \<Rightarrow> pkt_desc \<Rightarrow> bool" where
  "same_contents d e \<longleftrightarrow> d_syt d = d_syt e \<and> d_data_blocks d = d_data_blocks e \<and> d_data_block_counter d = d_data_block_counter e"

lemma increment_one: "c < 64000 \<Longrightarrow> increment_ohci_cycle_count c (Suc 0) = Suc c mod 64000"
  by (auto simp: increment_ohci_cycle_count_def mod_if)

lemma tx_packet_wire:
  assumes "sender_ok s" "receiver_ok s r" "desc_ok s r d" "compute_ohci_cycle_count t = g_next_cycle g" "g_next_cycle g < 64000"
    and "g_dbc g = UINT_MAX \<or> d_data_block_counter d =
      (if CIP_DBC_IS_END_EVENT \<in> s_flags s then (g_dbc g + of_nat (d_data_blocks d)) AND 0xff else g_dbc g)"
  obtains g' e where "tx_packet r junk (wire s d t) g = (None, g')" "same_contents e d"
    "g_descs g' = (g_descs g)[g_desc g := e]" "g_desc g' = (g_desc g + 1) mod length (g_descs g)"
    "g_desc_count g' = g_desc_count g + 1" "g_next_cycle g' = (g_next_cycle g + 1) mod 64000"
    "g_dbc g' = (if CIP_DBC_IS_END_EVENT \<in> s_flags s then d_data_block_counter d
      else (d_data_block_counter d + of_nat (d_data_blocks d)) AND 0xff)"
proof -
  have t: "wire s d t ! 1 = t" by (simp add: wire_def Let_def)
  have "tx_check_cycle r (g_next_cycle g) g = (False, g)" by (simp add: tx_check_cycle_def)
  moreover define e where "e = \<lparr>d_cycle = g_next_cycle g, d_syt = d_syt d, d_data_blocks = d_data_blocks d,
    d_data_block_counter = d_data_block_counter d, d_ctx_payload = Some (g_packet_index g)\<rparr>"
  moreover have "CIP_DBC_IS_END_EVENT \<in> s_flags r \<longleftrightarrow> CIP_DBC_IS_END_EVENT \<in> s_flags s" using assms(2) by (simp add: receiver_ok_def)
  ultimately have "tx_packet r junk (wire s d t) g = (None, (put_desc g e)\<lparr>g_dbc := if CIP_DBC_IS_END_EVENT \<in> s_flags s then d_data_block_counter d
      else (d_data_block_counter d + of_nat (d_data_blocks d)) AND 0xff, g_next_cycle := (g_next_cycle g + 1) mod 64000,
      g_packet_index := (g_packet_index g + 1) mod queue_size r\<rparr>)"
    using assms(4,5) parse_wire [OF assms(1-3,6), of t junk] unfolding tx_packet_def t
    by (simp add: put_desc_def increment_one Let_def)
  then show ?thesis by (rule that) (simp_all add: put_desc_def e_def same_contents_def)
qed

lemma receive_run:
  assumes "sender_ok s" "receiver_ok s r"
  shows "rx_run s q ts i dbc = (ds, dbc') \<Longrightarrow> unat dbc < 256 \<Longrightarrow> g_dbc g = dbc \<or> g_dbc g = UINT_MAX \<Longrightarrow>
    (\<And>d. d \<in> set ds \<Longrightarrow> d_data_blocks d * 4 * data_block_quadlets s \<le> tx_max_ctx_payload_length r \<and>
       d_data_blocks d * 4 * data_block_quadlets s + 8 < 65536) \<Longrightarrow>
    length rts = length ds \<Longrightarrow> g_next_cycle g < 64000 \<Longrightarrow>
    (\<And>j. j < length ds \<Longrightarrow> compute_ohci_cycle_count (rts ! j) = (g_next_cycle g + j) mod 64000) \<Longrightarrow>
    \<exists>g' f. tx_packets r junk (map2 (wire s) ds rts) g = (None, g') \<and> (ds \<noteq> [] \<longrightarrow> g_dbc g' = dbc') \<and>
      g_desc_count g' = g_desc_count g + length ds \<and> g_next_cycle g' = (g_next_cycle g + length ds) mod 64000 \<and>
      g_descs g' = ring_write (\<lambda>j _. f j) (g_descs g) (g_desc g) 0 (length ds) \<and>
      (\<forall>j<length ds. same_contents (f j) (ds ! j))"
proof (induction ts arbitrary: i dbc ds g rts)
  case Nil
  then show ?case by auto
next
  case (Cons t ts)
  obtain d dbc1 where d: "rx_packet s (q i) t (nat ((packet_index s + int i) mod int (queue_size s))) dbc = (d, dbc1)" by fastforce
  obtain ds1 where ds1: "rx_run s q ts (Suc i) dbc1 = (ds1, dbc')" "ds = d # ds1"
    using Cons.prems(1) d by (auto split: prod.splits)
  obtain rt rts1 where rts: "rts = rt # rts1" "length rts1 = length ds1" using Cons.prems(5) ds1(2) by (cases rts) auto
  note c = rx_packet_counter [OF d Cons.prems(2)]
  have ok: "desc_ok s r d" using c Cons.prems(4) [of d] ds1(2) by (simp add: desc_ok_def)
  have cyc: "compute_ohci_cycle_count rt = g_next_cycle g" using Cons.prems(6) Cons.prems(7) [of 0] rts ds1(2) by simp
  have "g_dbc g = UINT_MAX \<or> d_data_block_counter d =
      (if CIP_DBC_IS_END_EVENT \<in> s_flags s then (g_dbc g + of_nat (d_data_blocks d)) AND 0xff else g_dbc g)"
    using Cons.prems(3) c(5) by auto
  from tx_packet_wire [OF assms ok cyc Cons.prems(6) this, of junk] obtain g1 e where g1: "tx_packet r junk (wire s d rt) g = (None, g1)"
      "same_contents e d" "g_descs g1 = (g_descs g)[g_desc g := e]" "g_desc g1 = (g_desc g + 1) mod length (g_descs g)"
      "g_desc_count g1 = g_desc_count g + 1" "g_next_cycle g1 = (g_next_cycle g + 1) mod 64000" "g_dbc g1 = dbc1"
    using c(6) by metis
  have "\<exists>g' f. tx_packets r junk (map2 (wire s) ds1 rts1) g1 = (None, g') \<and> (ds1 \<noteq> [] \<longrightarrow> g_dbc g' = dbc') \<and>
      g_desc_count g' = g_desc_count g1 + length ds1 \<and> g_next_cycle g' = (g_next_cycle g1 + length ds1) mod 64000 \<and>
      g_descs g' = ring_write (\<lambda>j _. f j) (g_descs g1) (g_desc g1) 0 (length ds1) \<and> (\<forall>j<length ds1. same_contents (f j) (ds1 ! j))"
    using ds1(1)
  proof (rule Cons.IH)
    show "compute_ohci_cycle_count (rts1 ! j) = (g_next_cycle g1 + j) mod 64000" if "j < length ds1" for j
      using Cons.prems(7) [of "Suc j"] that rts ds1(2) g1(6) by (simp add: mod_Suc_eq mod_add_left_eq)
  qed (use Cons.prems c g1 ds1 rts in auto)
  then obtain g' f where g': "tx_packets r junk (map2 (wire s) ds1 rts1) g1 = (None, g')" "ds1 \<noteq> [] \<longrightarrow> g_dbc g' = dbc'"
      "g_desc_count g' = g_desc_count g1 + length ds1" "g_next_cycle g' = (g_next_cycle g1 + length ds1) mod 64000"
      "g_descs g' = ring_write (\<lambda>j _. f j) (g_descs g1) (g_desc g1) 0 (length ds1)" "\<forall>j<length ds1. same_contents (f j) (ds1 ! j)"
    by blast
  define f' where "f' = case_nat e f"
  have "ring_write (\<lambda>j _. f j) (g_descs g1) (g_desc g1) 0 (length ds1) = ring_write (\<lambda>j _. f' j) (g_descs g1) (g_desc g1) 1 (length ds1)"
    by (rule ring_write_cong) (simp add: f'_def)
  then have "g_descs g' = ring_write (\<lambda>j _. f' j) (g_descs g) (g_desc g) 0 (length ds)"
    using g'(5) g1(3,4) ds1(2) by (simp add: f'_def)
  moreover have "\<forall>j<length ds. same_contents (f' j) (ds ! j)"
    using g'(6) g1(2) ds1(2) by (auto simp: f'_def less_Suc_eq_0_disj)
  moreover have "ds1 = [] \<Longrightarrow> g_dbc g' = dbc'"
    using g'(1) g1(7) ds1(1) length_rx_run [of s q ts "Suc i" dbc1] by auto
  ultimately show ?case
    using g' g1 rts ds1(2) by (intro exI [of _ g'] exI [of _ f']) (auto simp: mod_add_left_eq mod_Suc_eq)
qed

lemma length_pools:
  "length (pool_blocking_data_blocks s descs pos n) = length descs"
  "length (fst (pool_ideal_nonblocking_data_blocks sfc descs pos n st)) = length descs"
  "length (fst (pool_ideal_syt_offsets sfc descs pos n l st)) = length descs"
  "length (fst (replay_loop cache descs cp pos n)) = length descs"
  by (induction n arbitrary: descs pos l st cp) (simp_all add: Let_def split_beta)

lemma pool_seq_descs_ring:
  "rx_seq_pos (pool_seq_descs en fly tgt s n) = rx_seq_pos s"
  "length (rx_seq_descs (pool_seq_descs en fly tgt s n)) = length (rx_seq_descs s)"
  by (auto simp: pool_seq_descs_def pool_ideal_seq_descs_def pool_replayed_seq_def Let_def split_beta length_pools split: option.splits)

lemma pool_seq_descs_keeps:
  "source_node_id_field (pool_seq_descs en fly tgt s n) = source_node_id_field s"
  "data_block_quadlets (pool_seq_descs en fly tgt s n) = data_block_quadlets s"
  "s_sph (pool_seq_descs en fly tgt s n) = s_sph s" "s_fmt (pool_seq_descs en fly tgt s n) = s_fmt s"
  "rx_fdf (pool_seq_descs en fly tgt s n) = rx_fdf s" "s_flags (pool_seq_descs en fly tgt s n) = s_flags s"
  "data_block_counter (pool_seq_descs en fly tgt s n) = data_block_counter s"
  "packet_descs (pool_seq_descs en fly tgt s n) = packet_descs s"
  by (auto simp: pool_seq_descs_def pool_ideal_seq_descs_def pool_replayed_seq_def Let_def split: option.splits prod.splits)

text \<open>The \<open>n\<close> descriptors of a stream from place \<open>desc\<close> on.\<close>

definition ring_descs :: "amdtp_stream \<Rightarrow> nat \<Rightarrow> nat \<Rightarrow> pkt_desc list" where
  "ring_descs s desc n = map (\<lambda>i. packet_descs s ! ((desc + i) mod length (packet_descs s))) [0..<n]"

lemma generate_rx_sent:
  assumes "desc < length (packet_descs s)" "length tstamps \<le> length (packet_descs s)" "rx_seq_pos s < length (rx_seq_descs s)"
  shows "\<exists>s1 q. (\<forall>d t. wire (generate_rx_packet_descs en fly tgt s desc tstamps) d t = wire s1 d t) \<and> sender_ok s1 = sender_ok s \<and>
    (\<forall>r. receiver_ok s1 r = receiver_ok s r) \<and> data_block_quadlets s1 = data_block_quadlets s \<and>
    rx_run s1 q tstamps 0 (data_block_counter s) =
      (ring_descs (generate_rx_packet_descs en fly tgt s desc tstamps) desc (length tstamps),
       data_block_counter (generate_rx_packet_descs en fly tgt s desc tstamps))"
proof -
  define s1 where "s1 = pool_seq_descs en fly tgt s (length tstamps)"
  note keeps = pool_seq_descs_keeps [of en fly tgt s "length tstamps", folded s1_def]
    pool_seq_descs_ring [of en fly tgt s "length tstamps", folded s1_def]
  define q where "q = (\<lambda>j. rx_seq_descs s1 ! ((rx_seq_pos s + j) mod length (rx_seq_descs s1)))"
  obtain ds dbc where run: "rx_run s1 q tstamps 0 (data_block_counter s) = (ds, dbc)" by fastforce
  have len: "length ds = length tstamps" using length_rx_run [of s1 q tstamps 0 "data_block_counter s"] run by simp
  let ?ring = "ring_write (\<lambda>j _. ds ! j) (packet_descs s) desc 0 (length tstamps)"
  have s': "generate_rx_packet_descs en fly tgt s desc tstamps = s1\<lparr>packet_descs := ?ring, data_block_counter := dbc,
      rx_seq_pos := (rx_seq_pos s + length tstamps) mod length (rx_seq_descs s)\<rparr>"
    using rx_packets_ring [of q s1 "rx_seq_pos s" tstamps 0 desc "data_block_counter s" "packet_descs s"] assms(3) run keeps
    by (simp add: generate_rx_packet_descs_def s1_def [symmetric] q_def Let_def)
  have "ring_descs (generate_rx_packet_descs en fly tgt s desc tstamps) desc (length tstamps) = ds"
    unfolding s' ring_descs_def
    by (rule nth_equalityI) (use len assms ring_write_nth [of desc "packet_descs s" "length tstamps"] in auto)
  then have "rx_run s1 q tstamps 0 (data_block_counter s) =
      (ring_descs (generate_rx_packet_descs en fly tgt s desc tstamps) desc (length tstamps),
       data_block_counter (generate_rx_packet_descs en fly tgt s desc tstamps))"
    using run by (simp add: s')
  moreover have "wire (generate_rx_packet_descs en fly tgt s desc tstamps) d t = wire s1 d t" for d t
    by (simp add: s' wire_def build_it_pkt_header_def generate_cip_header_def)
  ultimately show ?thesis using keeps by (intro exI [of _ s1] exI [of _ q]) (simp add: sender_ok_def receiver_ok_def)
qed

text \<open>C27. What an outgoing stream sends, with the ideal or a replayed sequence, an incoming stream with the same format accepts, wherever the two stand in
  their rings: no discontinuity is found, each packet gives a descriptor with the same time stamp, number of data blocks and
  counter, and the receiver is ready for the sender's next packet.\<close>

theorem stream_roundtrip:
  assumes "sender_ok s" "receiver_ok s r" "tstamps \<noteq> []" "unat (data_block_counter s) < 256"
    and "data_block_counter r = data_block_counter s \<or> data_block_counter r = UINT_MAX"
    and "desc < length (packet_descs s)" "length tstamps \<le> length (packet_descs s)" "rx_seq_pos s < length (rx_seq_descs s)"
    and "rdesc < length (packet_descs r)" "length tstamps \<le> length (packet_descs r)" "next_cycle r < 64000"
    and "s' = generate_rx_packet_descs en fly tgt s desc tstamps"
    and "\<forall>d\<in>set (ring_descs s' desc (length tstamps)). d_data_blocks d * 4 * data_block_quadlets s \<le> tx_max_ctx_payload_length r \<and>
      d_data_blocks d * 4 * data_block_quadlets s + 8 < 65536"
    and "length rts = length tstamps" "\<forall>j<length rts. compute_ohci_cycle_count (rts ! j) = (next_cycle r + j) mod 64000"
    and "generate_tx_packet_descs r junk rdesc (map2 (wire s') (ring_descs s' desc (length tstamps)) rts) = (err, count, r')"
  shows "err = None \<and> count = length tstamps \<and> data_block_counter r' = data_block_counter s' \<and>
    next_cycle r' = (next_cycle r + length tstamps) mod 64000 \<and>
    list_all2 same_contents (ring_descs r' rdesc (length tstamps)) (ring_descs s' desc (length tstamps))"
proof -
  obtain s1 q where s1: "\<forall>d t. wire s' d t = wire s1 d t" "sender_ok s1" "receiver_ok s1 r" "data_block_quadlets s1 = data_block_quadlets s"
      "rx_run s1 q tstamps 0 (data_block_counter s) = (ring_descs s' desc (length tstamps), data_block_counter s')"
    using generate_rx_sent [OF assms(6-8), of en fly tgt] assms(1,2,12) by blast
  let ?ds = "ring_descs s' desc (length tstamps)"
  let ?g = "\<lparr>g_desc = rdesc, g_next_cycle = next_cycle r, g_dbc = data_block_counter r, g_packet_index = nat (packet_index r),
    g_desc_count = 0, g_descs = packet_descs r\<rparr>"
  have len: "length ?ds = length tstamps" by (simp add: ring_descs_def)
  have "\<exists>g' f. tx_packets r junk (map2 (wire s1) ?ds rts) ?g = (None, g') \<and> (?ds \<noteq> [] \<longrightarrow> g_dbc g' = data_block_counter s') \<and>
      g_desc_count g' = g_desc_count ?g + length ?ds \<and> g_next_cycle g' = (g_next_cycle ?g + length ?ds) mod 64000 \<and>
      g_descs g' = ring_write (\<lambda>j _. f j) (g_descs ?g) (g_desc ?g) 0 (length ?ds) \<and> (\<forall>j<length ?ds. same_contents (f j) (?ds ! j))"
    by (rule receive_run [OF s1(2,3,5)]) (use assms s1(4) len in auto)
  then obtain g' f where g': "tx_packets r junk (map2 (wire s1) ?ds rts) ?g = (None, g')" "g_dbc g' = data_block_counter s'"
      "g_desc_count g' = length tstamps" "g_next_cycle g' = (next_cycle r + length tstamps) mod 64000"
      "g_descs g' = ring_write (\<lambda>j _. f j) (packet_descs r) rdesc 0 (length tstamps)" "\<forall>j<length tstamps. same_contents (f j) (?ds ! j)"
    using assms(3) len by fastforce
  have w: "map2 (wire s') ?ds rts = map2 (wire s1) ?ds rts" using s1(1) by simp
  have r': "err = None" "count = length tstamps" "r' = r\<lparr>packet_descs := g_descs g', next_cycle := g_next_cycle g', data_block_counter := g_dbc g'\<rparr>"
    using assms(16) g' unfolding w by (auto simp: generate_tx_packet_descs_def Let_def)
  have "ring_descs r' rdesc (length tstamps) = map f [0..<length tstamps]"
    unfolding r'(3) ring_descs_def g'(5) using ring_write_nth [OF assms(9,10), of _ "\<lambda>j _. f j" 0] by simp
  then have "list_all2 same_contents (ring_descs r' rdesc (length tstamps)) ?ds"
    using g'(6) by (simp add: list_all2_conv_all_nth len)
  then show ?thesis using r' g' by simp
qed

text \<open>The stream of the example sends two packets to a stream that has not seen any.\<close>

definition example_receiver :: amdtp_stream where
  "example_receiver = example_stream\<lparr>s_direction := AMDTP_IN_STREAM, data_block_counter := UINT_MAX, next_cycle := 100\<rparr>"

lemma example_sent_packets:
  "ring_descs (generate_rx_packet_descs False False None example_stream 0 [0, 1]) 0 2 =
    [\<lparr>d_cycle = 4, d_syt = 0x6a00, d_data_blocks = 8, d_data_block_counter = 0, d_ctx_payload = Some 0\<rparr>,
     \<lparr>d_cycle = 5, d_syt = 0x836a, d_data_blocks = 8, d_data_block_counter = 8, d_ctx_payload = Some 1\<rparr>]"
  unfolding ring_descs_def generate_rx_packet_descs_def pool_seq_descs_def pool_ideal_seq_descs_def
  by (simp add: example_stream_def numeral_2_eq_2 calculate_syt_offset_def Let_def cip_sfc_is_base_44100_def rx_packet_def compute_syt_arith
      compute_ohci_it_cycle_def compute_ohci_cycle_count_def compute_ohci_iso_ctx_cycle_count_def increment_ohci_cycle_count_def)
    (simp add: numeral_2_eq_2 [symmetric])

theorem stream_roundtrip_witness:
  "\<exists>r'. generate_tx_packet_descs example_receiver 7 0 (map2 (wire (generate_rx_packet_descs False False None example_stream 0 [0, 1]))
      (ring_descs (generate_rx_packet_descs False False None example_stream 0 [0, 1]) 0 2) [100, 101]) = (None, 2, r') \<and>
    list_all2 same_contents (ring_descs r' 0 2) (ring_descs (generate_rx_packet_descs False False None example_stream 0 [0, 1]) 0 2)"
proof -
  let ?s = "generate_rx_packet_descs False False None example_stream 0 [0, 1]"
  obtain err n r' where g: "generate_tx_packet_descs example_receiver 7 0 (map2 (wire ?s) (ring_descs ?s 0 2) [100, 101]) = (err, n, r')"
    by (metis prod_cases3)
  have two: "length [0 :: u32, 1] = 2" by simp
  have cyc: "compute_ohci_cycle_count 100 = 100" "compute_ohci_cycle_count 101 = 101"
    by (simp_all add: compute_ohci_cycle_count_def compute_ohci_iso_ctx_cycle_count_def)
  have "err = None \<and> n = length [0 :: u32, 1] \<and> data_block_counter r' = data_block_counter ?s \<and>
    next_cycle r' = (next_cycle example_receiver + length [0 :: u32, 1]) mod 64000 \<and>
    list_all2 same_contents (ring_descs r' 0 (length [0 :: u32, 1])) (ring_descs ?s 0 (length [0 :: u32, 1]))"
  proof (rule stream_roundtrip [of example_stream example_receiver _ 0 0 _ False False None "[100, 101]" 7])
    show "generate_tx_packet_descs example_receiver 7 0 (map2 (wire ?s) (ring_descs ?s 0 (length [0 :: u32, 1])) [100, 101]) = (err, n, r')"
      using g by (simp only: two)
    show "\<forall>d\<in>set (ring_descs ?s 0 (length [0 :: u32, 1])). d_data_blocks d * 4 * data_block_quadlets example_stream \<le>
        tx_max_ctx_payload_length example_receiver \<and> d_data_blocks d * 4 * data_block_quadlets example_stream + 8 < 65536"
      unfolding two example_sent_packets by (simp add: example_stream_def example_receiver_def)
    show "\<forall>j<length [100 :: u32, 101]. compute_ohci_cycle_count ([100, 101] ! j) = (next_cycle example_receiver + j) mod 64000"
      using cyc by (auto simp: less_Suc_eq example_receiver_def example_stream_def)
  qed (simp_all add: sender_ok_def receiver_ok_def example_stream_def example_receiver_def)
  then show ?thesis using g by (simp add: numeral_2_eq_2)
qed

section \<open>Comparing cycle counts\<close>

text \<open>A cycle count that is less than four seconds ahead is recognised as later, but the earlier one is recognised as earlier only if the count
  did not wrap around in between; otherwise each of the two counts as later than the other.\<close>

lemma compare_ohci_cycle_count_wraps:
  assumes "l < 64000" "0 < d" "d < 32000"
  shows "compare_ohci_cycle_count ((l + d) mod 64000) l = 1 \<and>
    compare_ohci_cycle_count l ((l + d) mod 64000) = (if l + d < 64000 then - 1 else 1)"
  using assms by (auto simp: compare_ohci_cycle_count_def mod_if)

section \<open>Packets that stop a stream\<close>

lemma tx_packet_lost:
  assumes "s_flags r \<inter> {CIP_NO_HEADER, CIP_JUMBO_PAYLOAD} = {}" "compute_ohci_cycle_count (h ! 1) \<noteq> g_next_cycle g"
  shows "tx_packet r junk h g = (Some EIO, g)"
  using assms by (auto simp: tx_packet_def tx_check_cycle_def Let_def)

text \<open>A batch of packets with a header that is to be ignored leaves the expected cycle where it was, so that the next batch, which continues in
  the right cycle, is taken for a discontinuity and ends the stream.\<close>

lemma ignored_packet_stops_stream:
  assumes "generate_tx_packet_descs r junk desc hs = (Some EAGAIN, n, r')" "s_flags r \<inter> {CIP_NO_HEADER, CIP_JUMBO_PAYLOAD} = {}"
    and "next_cycle r < 64000" "0 < length hs" "length hs < 64000"
    and "compute_ohci_cycle_count (h ! 1) = (next_cycle r + length hs) mod 64000"
  shows "\<exists>n' r''. generate_tx_packet_descs r' junk desc' (h # hs') = (Some EIO, n', r'')"
proof -
  obtain ds where r': "r' = r\<lparr>packet_descs := ds\<rparr>"
    using assms(1) by (auto simp: generate_tx_packet_descs_def Let_def split: prod.splits if_splits)
  have "(next_cycle r + length hs) mod 64000 \<noteq> next_cycle r" using assms(3-5) by (auto simp: mod_if)
  then show ?thesis using assms(2,6) by (simp add: r' generate_tx_packet_descs_def tx_packet_lost Let_def)
qed

text \<open>An empty packet without CIP header at the start makes the unknown counter 255, so that the first counter is found to be wrong.\<close>

lemma first_empty_packet_breaks:
  assumes "s_flags r \<inter> {CIP_NO_HEADER, CIP_DBC_IS_END_EVENT, CIP_EMPTY_HAS_WRONG_DBC} = {}" "data_block_counter r = UINT_MAX"
    and "sender_ok s" "receiver_ok s r" "desc_ok s r d" "d_data_block_counter d \<notin> {0, 0xff}"
    and "next_cycle r < 64000" "compute_ohci_cycle_count t0 = next_cycle r" "compute_ohci_cycle_count t1 = (next_cycle r + 1) mod 64000"
  shows "fst (generate_tx_packet_descs r junk desc [[0, t0], wire s d t1]) = Some EIO"
proof -
  have lost: "parse_ir_ctx_header r (wire s d t1) 0xff junk = Inl EIO"
    using assms(1,4,6) unfolding parse_wire_iff [OF assms(3-5)] by (auto simp: receiver_ok_def)
  have empty: "parse_ir_ctx_header r [0, t0] UINT_MAX junk = Inr (0, UINT_MAX, 0)"
    using assms(1) by (simp add: parse_ir_ctx_header_def)
  have t: "wire s d t1 ! Suc 0 = t1" by (simp add: wire_def Let_def)
  show ?thesis
    using assms(1,2,7-9) lost empty
    by (simp add: generate_tx_packet_descs_def tx_packet_def tx_check_cycle_def t increment_one put_desc_def Let_def split_beta)
qed

text \<open>Skipped cycles of a device with jumbo payloads add up over the life of the stream: a device that leaves out one cycle between any
  two packets is stopped at the seventh packet, although every gap is far below the limit.\<close>

lemma jumbo_skips_add_up:
  assumes "CIP_JUMBO_PAYLOAD \<in> s_flags r" "CIP_NO_HEADER \<notin> s_flags r"
    and ok: "\<And>h c. h \<in> set hs \<Longrightarrow> \<exists>x. parse_ir_ctx_header r h c junk = Inr x"
    and cycles: "\<And>j. j < length hs \<Longrightarrow> compute_ohci_cycle_count (hs ! j ! 1) = g_next_cycle g + lag + 2 * j"
    and "lag \<le> 6" "6 < lag + length hs" "g_next_cycle g + lag + 2 * length hs < 32000"
  shows "\<exists>g'. tx_packets r junk hs g = (Some EIO, g')"
  using assms(3-7)
proof (induction hs arbitrary: g lag)
  case (Cons h hs)
  have cyc: "compute_ohci_cycle_count (h ! Suc 0) = g_next_cycle g + lag" using Cons.prems(2) [of 0] by simp
  have chk: "tx_check_cycle r (g_next_cycle g + lag) g = (lag = 6, g)"
    using assms(1,2) Cons.prems(3,5)
    by (auto simp: tx_check_cycle_def compare_ohci_cycle_count_def increment_ohci_cycle_count_def Let_def)
  show ?case
  proof (cases "lag = 6")
    case True
    then show ?thesis using cyc chk by (simp add: tx_packet_def)
  next
    case False
    obtain b c y where p: "parse_ir_ctx_header r h (g_dbc g) junk = Inr (b, c, y)" using Cons.prems(1) [of h] by (metis list.set_intros(1) prod_cases3)
    obtain g1 where g1: "tx_packet r junk h g = (None, g1)" "g_next_cycle g1 = g_next_cycle g + 1"
      using cyc chk False p Cons.prems(5) by (simp add: tx_packet_def put_desc_def increment_one Let_def)
    have "\<exists>g'. tx_packets r junk hs g1 = (Some EIO, g')"
    proof (rule Cons.IH [where lag = "lag + 1"])
      show "compute_ohci_cycle_count (hs ! j ! 1) = g_next_cycle g1 + (lag + 1) + 2 * j" if "j < length hs" for j
        using Cons.prems(2) [of "Suc j"] that g1(2) by simp
    qed (use Cons.prems False g1(2) in auto)
    then show ?thesis using g1(1) by simp
  qed
qed simp

end
