(* ===== verification/Packets_Buffer.thy ===== *)
theory Packets_Buffer
  imports Iso_Resource
begin

text \<open>
  The buffer for the packets of an audio stream (\<^verbatim>\<open>sound/firewire/packets-buffer.c\<close>) on the isochronous buffers of
  \<^verbatim>\<open>core-iso.c\<close>: how packets are laid out in its pages.
\<close>

section \<open>Layout\<close>

text \<open>A packet has its address, as page and offset in the page, and its offset in the whole buffer.\<close>

record buffer_packet =
  pkt_page :: nat
  pkt_page_offset :: nat
  pkt_offset :: nat

record iso_packets_buffer =
  iso_buffer :: fw_iso_buffer
  buffer_packets :: "buffer_packet list option"

text \<open>The allocators: whether the array of packets can be allocated, the parameters of the isochronous buffer, and the size of a
  cache line, which depends on the architecture.\<close>

record buffer_env =
  be_packets :: bool
  be_arr :: bool
  be_bulk :: "nat \<Rightarrow> nat list"
  be_arr2 :: bool
  be_dma_map :: "nat \<Rightarrow> u64 option"
  be_cache_bytes :: nat

definition L1_CACHE_ALIGN :: "nat \<Rightarrow> nat \<Rightarrow> nat" where
  "L1_CACHE_ALIGN bytes x = (x + (bytes - 1)) div bytes * bytes"

definition DIV_ROUND_UP :: "nat \<Rightarrow> nat \<Rightarrow> nat" where
  "DIV_ROUND_UP n d = (n + d - 1) div d"

definition place_packet :: "nat list \<Rightarrow> nat \<Rightarrow> nat \<Rightarrow> nat \<Rightarrow> buffer_packet" where
  "place_packet ps packets_per_page packet_size i =
    (let page_index = i div packets_per_page; offset_in_page = (i mod packets_per_page) * packet_size
     in \<lparr>pkt_page = ps ! page_index, pkt_page_offset = offset_in_page, pkt_offset = page_index * 4096 + offset_in_page\<rparr>)"

definition iso_packets_buffer_init ::
  "buffer_env \<Rightarrow> iso_packets_buffer \<Rightarrow> nat \<Rightarrow> nat \<Rightarrow> dma_data_direction \<Rightarrow> errno option \<times> iso_packets_buffer \<times> dma_event list" where
  "iso_packets_buffer_init env b count packet_size dir =
    (if \<not> be_packets env then (Some ENOMEM, b\<lparr>buffer_packets := None\<rparr>, [])
     else
       let packet_size = L1_CACHE_ALIGN (be_cache_bytes env) packet_size; packets_per_page = 4096 div packet_size in
       if packets_per_page = 0 then (Some EINVAL, b\<lparr>buffer_packets := None\<rparr>, [])
       else
         (case fw_iso_buffer_init (be_arr env) (be_bulk env) (be_arr2 env) (be_dma_map env) (iso_buffer b)
                 (DIV_ROUND_UP count packets_per_page) dir of
            (Some err, buf, ev) \<Rightarrow> (Some err, b\<lparr>iso_buffer := buf, buffer_packets := None\<rparr>, ev)
          | (None, buf, ev) \<Rightarrow>
              (None, b\<lparr>iso_buffer := buf,
                 buffer_packets := Some (map (place_packet (the (pages buf)) packets_per_page packet_size) [0..<count])\<rparr>, ev)))"

definition iso_packets_buffer_destroy :: "iso_packets_buffer \<Rightarrow> iso_packets_buffer \<times> dma_event list" where
  "iso_packets_buffer_destroy b =
    (let (buf, ev) = fw_iso_buffer_destroy (iso_buffer b) in (b\<lparr>iso_buffer := buf, buffer_packets := None\<rparr>, ev))"

section \<open>Packets lie apart\<close>

lemma cache_align_ge: "0 < bytes \<Longrightarrow> x \<le> L1_CACHE_ALIGN bytes x"
proof -
  assume "0 < bytes"
  have "x + (bytes - 1) = L1_CACHE_ALIGN bytes x + (x + (bytes - 1)) mod bytes"
    by (simp add: L1_CACHE_ALIGN_def)
  moreover have "(x + (bytes - 1)) mod bytes \<le> bytes - 1"
    using mod_less_divisor [OF \<open>0 < bytes\<close>, of "x + (bytes - 1)"] by linarith
  ultimately show ?thesis by linarith
qed

lemma place_packet_in_page:
  assumes "0 < per" "per = 4096 div psize"
  shows "pkt_page_offset (place_packet ps per psize i) + psize \<le> 4096"
proof -
  have "i mod per + 1 \<le> per" using mod_less_divisor [OF assms(1), of i] by linarith
  then have "(i mod per + 1) * psize \<le> per * psize" by (rule mult_le_mono1)
  also have "\<dots> \<le> 4096" unfolding assms(2) by simp
  finally show ?thesis by (simp add: place_packet_def Let_def algebra_simps)
qed

lemma place_packet_order:
  assumes "0 < per" "per = 4096 div psize" "i < j"
  shows "pkt_offset (place_packet ps per psize i) + psize \<le> pkt_offset (place_packet ps per psize j)"
proof (cases "i div per = j div per")
  case True
  then have "i mod per < j mod per"
    using \<open>i < j\<close> by (metis add_less_cancel_left div_mult_mod_eq)
  then have "(i mod per + 1) * psize \<le> j mod per * psize" by (intro mult_le_mono1) simp
  then show ?thesis using True by (simp add: place_packet_def Let_def algebra_simps)
next
  case False
  then have "i div per + 1 \<le> j div per" using div_le_mono [of i j per] \<open>i < j\<close> by linarith
  then have "(i div per + 1) * 4096 \<le> j div per * 4096" by (rule mult_le_mono1)
  then show ?thesis using place_packet_in_page [OF assms(1,2), of ps i] by (simp add: place_packet_def Let_def algebra_simps)
qed

lemma place_packet_end:
  assumes "0 < per" "per = 4096 div psize" "i < count"
  shows "pkt_offset (place_packet ps per psize i) + psize \<le> DIV_ROUND_UP count per * 4096"
proof -
  have "i div per * per + 1 \<le> count" using \<open>i < count\<close> div_times_less_eq_dividend [of i per] by linarith
  then have "(i div per + 1) * per \<le> count + per - 1" by simp
  then have "i div per + 1 \<le> DIV_ROUND_UP count per"
    unfolding DIV_ROUND_UP_def using assms(1) by (simp add: less_eq_div_iff_mult_less_eq)
  then have "(i div per + 1) * 4096 \<le> DIV_ROUND_UP count per * 4096" by (rule mult_le_mono1)
  then show ?thesis using place_packet_in_page [OF assms(1,2), of ps i] by (simp add: place_packet_def Let_def algebra_simps)
qed

text \<open>What a successful initialization leaves.\<close>

definition packets_ok :: "nat \<Rightarrow> nat \<Rightarrow> iso_packets_buffer \<Rightarrow> bool" where
  "packets_ok count psize b \<longleftrightarrow>
    (\<exists>ps pk. pages (iso_buffer b) = Some ps \<and> length ps = page_count (iso_buffer b) \<and> buffer_packets b = Some pk \<and> length pk = count \<and>
      (\<forall>i < count. pkt_offset (pk ! i) + psize \<le> length ps * 4096 \<and> pkt_page_offset (pk ! i) + psize \<le> 4096 \<and>
         pkt_page (pk ! i) = ps ! (pkt_offset (pk ! i) div 4096) \<and> pkt_page_offset (pk ! i) = pkt_offset (pk ! i) mod 4096) \<and>
      (\<forall>i j. i < j \<and> j < count \<longrightarrow> pkt_offset (pk ! i) + psize \<le> pkt_offset (pk ! j)))"

lemma place_packet_address:
  assumes "0 < per" "per = 4096 div psize" "0 < psize"
  shows "pkt_page (place_packet ps per psize i) = ps ! (pkt_offset (place_packet ps per psize i) div 4096) \<and>
    pkt_page_offset (place_packet ps per psize i) = pkt_offset (place_packet ps per psize i) mod 4096"
proof -
  have "(i mod per) * psize < 4096"
    using place_packet_in_page [OF assms(1,2), of ps i] assms(3) by (simp add: place_packet_def Let_def)
  then show ?thesis by (simp add: place_packet_def Let_def)
qed

lemma iso_packets_buffer_init_ok:
  assumes "pages (iso_buffer b) = None" "dma_addrs (iso_buffer b) = None" "0 < be_cache_bytes env" "0 < psize"
    and init: "iso_packets_buffer_init env b count psize dir = (None, b', ev)"
  shows "packets_ok count psize b'"
proof -
  define sz per where "sz = L1_CACHE_ALIGN (be_cache_bytes env) psize" and "per = 4096 div sz"
  have le: "psize \<le> sz" unfolding sz_def by (rule cache_align_ge [OF assms(3)])
  have per: "0 < per" using init by (simp add: iso_packets_buffer_init_def Let_def sz_def [symmetric] per_def [symmetric] split: if_splits)
  obtain buf where buf: "fw_iso_buffer_init (be_arr env) (be_bulk env) (be_arr2 env) (be_dma_map env) (iso_buffer b)
      (DIV_ROUND_UP count per) dir = (None, buf, ev)"
    and b': "b' = b\<lparr>iso_buffer := buf, buffer_packets := Some (map (place_packet (the (pages buf)) per sz) [0..<count])\<rparr>"
    using init by (auto simp: iso_packets_buffer_init_def Let_def sz_def [symmetric] per_def [symmetric]
        split: if_splits prod.splits option.splits)
  obtain ps where ps: "pages buf = Some ps" "page_count buf = length ps" "length ps = DIV_ROUND_UP count per"
  proof -
    have "length (be_bulk env (DIV_ROUND_UP count per)) = DIV_ROUND_UP count per"
      using buf by (auto simp: fw_iso_buffer_init_def fw_iso_buffer_alloc_def Let_def split: if_splits)
    then show thesis using that fw_iso_buffer_init_balanced [OF assms(1,2) buf] by auto
  qed
  note place = place_packet_in_page [OF per per_def, of ps] place_packet_end [OF per per_def, of _ count ps]
    place_packet_order [OF per per_def, of _ _ ps] place_packet_address [OF per per_def, of ps]
  have "pkt_offset (place_packet ps per sz i) + psize \<le> length ps * 4096" "pkt_page_offset (place_packet ps per sz i) + psize \<le> 4096"
    if "i < count" for i using le place(1) [of i] place(2) [OF that] ps by linarith+
  moreover have "pkt_offset (place_packet ps per sz i) + psize \<le> pkt_offset (place_packet ps per sz j)" if "i < j" for i j
    using le place(3) [OF that] by linarith
  ultimately show ?thesis
    unfolding packets_ok_def b' using ps place(4) le assms(4) by simp
qed

lemma iso_packets_buffer_init_fails:
  assumes "pages (iso_buffer b) = None" "dma_addrs (iso_buffer b) = None"
    and init: "iso_packets_buffer_init env b count psize dir = (Some err, b', ev)"
  shows "pages (iso_buffer b') = None \<and> dma_addrs (iso_buffer b') = None \<and> buffer_packets b' = None"
proof -
  define per where "per = 4096 div L1_CACHE_ALIGN (be_cache_bytes env) psize"
  consider "b' = b\<lparr>buffer_packets := None\<rparr>"
    | buf where "fw_iso_buffer_init (be_arr env) (be_bulk env) (be_arr2 env) (be_dma_map env) (iso_buffer b)
        (DIV_ROUND_UP count per) dir = (Some err, buf, ev)" "b' = b\<lparr>iso_buffer := buf, buffer_packets := None\<rparr>"
    using init by (auto simp: iso_packets_buffer_init_def Let_def per_def [symmetric] split: if_splits prod.splits option.splits)
  then show ?thesis
    by cases (use fw_iso_buffer_init_balanced [OF assms(1,2)] assms(1,2) in \<open>fastforce+\<close>)
qed

end
