(* ===== verification/Amdtp_Stream.thy ===== *)
theory Amdtp_Stream
  imports Amdtp_Proofs Packets_Buffer "HOL-Library.Multiset"
begin

text \<open>
  Audio streams, third part: domains of streams, the callbacks of their isochronous contexts, which are the states
  of a stream, and starting and stopping (\<^verbatim>\<open>sound/firewire/amdtp-stream.c\<close>).  A stream is known by a number that
  stands for its address; the domain holds the objects and the list of the streams that have been added.  Packets that
  are queued to the contexts and calls to the PCM layer go to logs; memory and contexts that are held make a multiset.
\<close>

section \<open>Domains\<close>

text \<open>The function that a context calls for a batch of packets.\<close>

datatype sc_callback =
    First_callback
  | Drop_tx_packets_initially
  | Process_tx_packets_intermediately
  | Process_tx_packets
  | Irq_target_callback_skip
  | Skip_rx_packets
  | Irq_target_callback_intermediately
  | Process_rx_packets_intermediately
  | Irq_target_callback
  | Process_rx_packets

record pcm_runtime =
  buffer_size :: nat
  period_size :: nat
  no_period_wakeup :: bool
  pcm_delay :: nat

text \<open>What a started stream holds: packet buffer, context, ring of sequence descriptors or cache, and packet descriptors.\<close>

datatype amdtp_res = Res_buffer nat | Res_context nat | Res_seq nat | Res_descs nat

text \<open>A queued packet with its stream and its offset in the buffer.\<close>

type_synonym queued_packet = "nat \<times> nat \<times> fw_iso_packet"

record amdtp_domain =
  d_streams :: "nat list"
  d_obj :: "nat \<Rightarrow> amdtp_stream"
  d_callback :: "nat \<Rightarrow> sc_callback"
  d_pcm :: "nat \<Rightarrow> pcm_runtime option"
  d_buffer :: "nat \<Rightarrow> iso_packets_buffer"
  d_channel :: "nat \<Rightarrow> nat \<times> nat"
  d_irq_target :: "nat option"
  events_per_period :: nat
  events_per_buffer :: nat
  tx_init_skip :: nat
  tx_start :: nat
  rx_start :: nat
  replay_enable :: bool
  replay_on_the_fly :: bool
  d_queued :: "queued_packet list"
  d_works :: "nat list"
  d_xruns :: "nat list"
  d_held :: "amdtp_res multiset"

text \<open>The environment: the result of queueing the next packet of a stream, given the packets that have been queued; the cycle
  timer; the headers that flushing a context delivers to its callback, if there are any; whether the code runs in a work item
  other than the one for elapsed periods; the uninitialized variable; the node; and the results of allocations and of the
  isochronous context at the start of a stream.\<close>

record amdtp_env =
  ae_queue :: "nat \<Rightarrow> queued_packet list \<Rightarrow> errno option"
  ae_cycle_time :: "errno + u32"
  ae_flush :: "nat \<Rightarrow> u32 list list option"
  ae_work :: bool
  ae_junk :: nat
  ae_node_id :: u32
  ae_buffer :: "nat \<Rightarrow> buffer_env"
  ae_context :: "nat \<Rightarrow> errno option"
  ae_seq :: "nat \<Rightarrow> bool"
  ae_descs :: "nat \<Rightarrow> bool"
  ae_start :: "nat \<Rightarrow> errno option"

abbreviation the_stream :: "amdtp_domain \<Rightarrow> nat \<Rightarrow> amdtp_stream" where
  "the_stream \<equiv> d_obj"

definition set_stream :: "amdtp_domain \<Rightarrow> nat \<Rightarrow> amdtp_stream \<Rightarrow> amdtp_domain" where
  "set_stream d i s = d\<lparr>d_obj := (d_obj d)(i := s)\<rparr>"

definition amdtp_streaming_error :: "amdtp_stream \<Rightarrow> bool" where
  "amdtp_streaming_error s \<longleftrightarrow> packet_index s < 0"

section \<open>PCM\<close>

abbreviation (input) SNDRV_PCM_POS_XRUN :: nat where "SNDRV_PCM_POS_XRUN \<equiv> 0xffffffffffffffff"

definition update_pcm_pointers :: "amdtp_domain \<Rightarrow> nat \<Rightarrow> pcm_runtime \<Rightarrow> nat \<Rightarrow> amdtp_domain" where
  "update_pcm_pointers d i pcm frames =
    (let s = the_stream d i;
         ptr = (pcm_buffer_pointer s + frames) mod 2 ^ 32;
         ptr = (if ptr \<ge> buffer_size pcm then ptr - buffer_size pcm else ptr);
         s = s\<lparr>pcm_buffer_pointer := ptr, pcm_period_pointer := (pcm_period_pointer s + frames) mod 2 ^ 32\<rparr>
     in if pcm_period_pointer s \<ge> period_size pcm then
          (set_stream d i (s\<lparr>pcm_period_pointer := pcm_period_pointer s - period_size pcm\<rparr>))
            \<lparr>d_works := if \<not> no_period_wakeup pcm then d_works d @ [i] else d_works d\<rparr>
        else set_stream d i s)"

definition amdtp_stream_pcm_abort :: "amdtp_domain \<Rightarrow> nat \<Rightarrow> amdtp_domain" where
  "amdtp_stream_pcm_abort d i = (case d_pcm d i of Some pcm \<Rightarrow> d\<lparr>d_xruns := d_xruns d @ [i]\<rparr> | None \<Rightarrow> d)"

definition cancel_stream :: "amdtp_env \<Rightarrow> amdtp_domain \<Rightarrow> nat \<Rightarrow> amdtp_domain" where
  "cancel_stream env d i =
    (let d = set_stream d i ((the_stream d i)\<lparr>packet_index := -1\<rparr>);
         d = (if ae_work env then amdtp_stream_pcm_abort d i else d)
     in set_stream d i ((the_stream d i)\<lparr>pcm_buffer_pointer := SNDRV_PCM_POS_XRUN\<rparr>))"

text \<open>The data blocks of \<open>n\<close> descriptors from \<open>desc\<close> on, and back from \<open>desc\<close>.\<close>

primrec count_next :: "amdtp_stream \<Rightarrow> nat \<Rightarrow> nat \<Rightarrow> nat" where
  "count_next s desc 0 = 0"
| "count_next s desc (Suc n) = d_data_blocks (packet_descs s ! desc) + count_next s (next_packet_desc s desc) n"

definition prev_packet_desc :: "amdtp_stream \<Rightarrow> nat \<Rightarrow> nat" where
  "prev_packet_desc s i = (if i = 0 then length (packet_descs s) - 1 else i - 1)"

primrec count_prev :: "amdtp_stream \<Rightarrow> nat \<Rightarrow> nat \<Rightarrow> nat" where
  "count_prev s desc 0 = 0"
| "count_prev s desc (Suc n) = d_data_blocks (packet_descs s ! desc) + count_prev s (prev_packet_desc s desc) n"

definition compute_pcm_extra_delay :: "amdtp_env \<Rightarrow> amdtp_stream \<Rightarrow> nat \<Rightarrow> nat \<Rightarrow> nat" where
  "compute_pcm_extra_delay env s desc cnt =
    (if cnt = 0 then 0
     else
       let desc = (next_packet_desc s ^^ (cnt - 1)) desc; latest_cycle = d_cycle (packet_descs s ! desc) in
       (case ae_cycle_time env of
          Inl err \<Rightarrow> 0
        | Inr cycle_time \<Rightarrow>
            let curr_cycle = compute_ohci_iso_ctx_cycle_count (drop_bit 12 cycle_time AND 0x0000ffff) in
            if s_direction s = AMDTP_IN_STREAM then
              if compare_ohci_cycle_count latest_cycle curr_cycle > 0 then 0
              else count_next s (next_packet_desc s desc) (decrement_ohci_cycle_count curr_cycle latest_cycle) * pcm_frame_multiplier s
            else
              if compare_ohci_cycle_count latest_cycle curr_cycle < 0 then 0
              else count_prev s desc (decrement_ohci_cycle_count latest_cycle curr_cycle) * pcm_frame_multiplier s))"

text \<open>The processing of the payload by the protocol of the device does not touch the state that is modelled here.\<close>

definition process_ctx_payloads :: "amdtp_env \<Rightarrow> amdtp_domain \<Rightarrow> nat \<Rightarrow> nat \<Rightarrow> nat \<Rightarrow> amdtp_domain" where
  "process_ctx_payloads env d i desc cnt =
    (case d_pcm d i of
       None \<Rightarrow> d
     | Some pcm \<Rightarrow>
         let s = the_stream d i;
             d = d\<lparr>d_pcm := (d_pcm d)(i \<mapsto> pcm\<lparr>pcm_delay := compute_pcm_extra_delay env s desc cnt\<rparr>)\<rparr>
         in update_pcm_pointers d i pcm (count_next s desc cnt * pcm_frame_multiplier s))"

section \<open>Queueing packets\<close>

definition packet_offset :: "amdtp_domain \<Rightarrow> nat \<Rightarrow> int \<Rightarrow> nat" where
  "packet_offset d i index = pkt_offset (the (buffer_packets (d_buffer d i)) ! nat index)"

definition queue_packet :: "amdtp_env \<Rightarrow> amdtp_domain \<Rightarrow> nat \<Rightarrow> fw_iso_packet \<Rightarrow> bool \<Rightarrow> errno option \<times> amdtp_domain" where
  "queue_packet env d i params sched_irq =
    (let s = the_stream d i; params = params\<lparr>pk_interrupt := sched_irq, pk_tag := s_tag s, pk_sy := 0\<rparr> in
     case ae_queue env i (d_queued d) of
       Some err \<Rightarrow> (Some err, d)
     | None \<Rightarrow>
         let index = packet_index s + 1
         in (None, (set_stream d i (s\<lparr>packet_index := if index \<ge> int (queue_size s) then 0 else index\<rparr>))
               \<lparr>d_queued := d_queued d @ [(i, packet_offset d i (packet_index s), params)]\<rparr>))"

definition queue_out_packet :: "amdtp_env \<Rightarrow> amdtp_domain \<Rightarrow> nat \<Rightarrow> fw_iso_packet \<Rightarrow> bool \<Rightarrow> errno option \<times> amdtp_domain" where
  "queue_out_packet env d i params sched_irq =
    queue_packet env d i (params\<lparr>pk_skip := (header_length params = 0 \<and> payload_length params = 0)\<rparr>) sched_irq"

definition queue_in_packet :: "amdtp_env \<Rightarrow> amdtp_domain \<Rightarrow> nat \<Rightarrow> fw_iso_packet \<Rightarrow> errno option \<times> amdtp_domain" where
  "queue_in_packet env d i params =
    queue_packet env d i (params\<lparr>header_length := tx_ctx_header_size (the_stream d i),
      payload_length := tx_max_ctx_payload_length (the_stream d i), pk_skip := False\<rparr>) False"

section \<open>Outgoing packets\<close>

text \<open>The loop that queues the packets of a batch: descriptor and count of events; \<open>None\<close> after an error.\<close>

primrec queue_rx_loop :: "amdtp_env \<Rightarrow> nat \<Rightarrow> nat \<Rightarrow> bool \<Rightarrow> nat \<Rightarrow> nat \<Rightarrow> nat \<Rightarrow> amdtp_domain \<Rightarrow> (nat \<times> nat) option \<times> amdtp_domain" where
  "queue_rx_loop env i hlen need_hw_irq 0 desc event_count d = (Some (desc, event_count), d)"
| "queue_rx_loop env i hlen need_hw_irq (Suc n) desc event_count d =
    (let s = the_stream d i; p = packet_descs s ! desc;
         template = build_it_pkt_header s empty_packet hlen (d_data_blocks p) (d_data_block_counter p) (d_syt p);
         (event_count, sched_irq) =
           (if d_irq_target d = Some i then
              let event_count = event_count + d_data_blocks p
              in if event_count \<ge> events_per_period d then (event_count - events_per_period d, need_hw_irq) else (event_count, False)
            else (event_count, False)) in
     case queue_out_packet env d i template sched_irq of
       (Some err, d) \<Rightarrow> (None, cancel_stream env d i)
     | (None, d) \<Rightarrow> queue_rx_loop env i hlen need_hw_irq n (next_packet_desc s desc) event_count d)"

definition process_rx_packets :: "amdtp_env \<Rightarrow> amdtp_domain \<Rightarrow> nat \<Rightarrow> u32 list \<Rightarrow> amdtp_domain" where
  "process_rx_packets env d i headers =
    (let s = the_stream d i; desc = packet_descs_cursor s in
     if packet_index s < 0 then d
     else
       let packets = length headers;
           target = (case rx_replay_target s of Some t \<Rightarrow> Some (the_stream d t) | None \<Rightarrow> None);
           d = set_stream d i (generate_rx_packet_descs (replay_enable d) (replay_on_the_fly d) target s desc headers);
           d = process_ctx_payloads env d i desc packets;
           hlen = (if CIP_NO_HEADER \<notin> s_flags s then CIP_HEADER_SIZE else 0);
           need_hw_irq = (if d_irq_target d = Some i then (case d_pcm d i of None \<Rightarrow> True | Some pcm \<Rightarrow> \<not> no_period_wakeup pcm) else False)
       in (case queue_rx_loop env i hlen need_hw_irq packets desc (rx_event_count s) d of
             (None, d) \<Rightarrow> d
           | (Some (desc, event_count), d) \<Rightarrow>
               set_stream d i ((the_stream d i)\<lparr>rx_event_count := event_count, packet_descs_cursor := desc\<rparr>)))"

primrec skip_rx_loop :: "amdtp_env \<Rightarrow> nat \<Rightarrow> nat \<Rightarrow> amdtp_domain \<Rightarrow> amdtp_domain" where
  "skip_rx_loop env i 0 d = d"
| "skip_rx_loop env i (Suc n) d =
    (case queue_out_packet env d i empty_packet (d_irq_target d = Some i \<and> n = 0) of
       (Some err, d) \<Rightarrow> cancel_stream env d i
     | (None, d) \<Rightarrow> skip_rx_loop env i n d)"

definition skip_rx_packets :: "amdtp_env \<Rightarrow> amdtp_domain \<Rightarrow> nat \<Rightarrow> u32 list \<Rightarrow> amdtp_domain" where
  "skip_rx_packets env d i headers =
    (let s = the_stream d i in
     if packet_index s < 0 then d
     else
       let packets = length headers; cycle = compute_ohci_it_cycle (headers ! (packets - 1)) (queue_size s)
       in skip_rx_loop env i packets (set_stream d i (s\<lparr>next_cycle := increment_ohci_cycle_count cycle 1\<rparr>)))"

text \<open>The first packet that has reached the starting cycle.\<close>

definition rx_offset :: "amdtp_domain \<Rightarrow> nat \<Rightarrow> u32 list \<Rightarrow> nat" where
  "rx_offset d queue headers =
    length (takeWhile (\<lambda>h. \<not> compare_ohci_cycle_count (compute_ohci_it_cycle h queue) (rx_start d) \<ge> 0) headers)"

definition process_rx_packets_intermediately :: "amdtp_env \<Rightarrow> amdtp_domain \<Rightarrow> nat \<Rightarrow> u32 list \<Rightarrow> amdtp_domain" where
  "process_rx_packets_intermediately env d i headers =
    (if packet_index (the_stream d i) < 0 then d
     else
       let packets = length headers; offset = rx_offset d (queue_size (the_stream d i)) headers;
           d = (if offset > 0 then skip_rx_packets env d i (take offset headers) else d) in
       if offset > 0 \<and> amdtp_streaming_error (the_stream d i) then d
       else if offset < packets then
         let s = (the_stream d i)\<lparr>ready_processing := True\<rparr>;
             s = (if replay_enable d then s\<lparr>rx_cache_pos := 0\<rparr> else s);
             d = process_rx_packets env (set_stream d i s) i (drop offset headers)
         in if amdtp_streaming_error (the_stream d i) then d
            else d\<lparr>d_callback := (d_callback d)(i := if d_irq_target d = Some i then Irq_target_callback else Process_rx_packets)\<rparr>
       else d)"

section \<open>Incoming packets\<close>

primrec queue_tx_loop :: "amdtp_env \<Rightarrow> nat \<Rightarrow> nat \<Rightarrow> amdtp_domain \<Rightarrow> amdtp_domain" where
  "queue_tx_loop env i 0 d = d"
| "queue_tx_loop env i (Suc n) d =
    (case queue_in_packet env d i empty_packet of
       (Some err, d) \<Rightarrow> cancel_stream env d i
     | (None, d) \<Rightarrow> queue_tx_loop env i n d)"

definition process_tx_packets :: "amdtp_env \<Rightarrow> amdtp_domain \<Rightarrow> nat \<Rightarrow> u32 list list \<Rightarrow> amdtp_domain" where
  "process_tx_packets env d i headers =
    (let s = the_stream d i; desc = packet_descs_cursor s in
     if packet_index s < 0 then d
     else
       (case generate_tx_packet_descs s (ae_junk env) desc headers of
          (Some err, desc_count, s) \<Rightarrow>
            if err \<noteq> EAGAIN then cancel_stream env (set_stream d i s) i
            else queue_tx_loop env i (length headers) (set_stream d i s)
        | (None, desc_count, s) \<Rightarrow>
            let d = process_ctx_payloads env (set_stream d i s) i desc desc_count;
                d = (if replay_enable d then set_stream d i (cache_seq (the_stream d i) desc desc_count) else d);
                d = set_stream d i ((the_stream d i)\<lparr>packet_descs_cursor := (next_packet_desc (the_stream d i) ^^ desc_count) desc\<rparr>)
            in queue_tx_loop env i (length headers) d))"

definition drop_tx_packets :: "amdtp_env \<Rightarrow> amdtp_domain \<Rightarrow> nat \<Rightarrow> u32 list list \<Rightarrow> amdtp_domain" where
  "drop_tx_packets env d i headers =
    (let s = the_stream d i in
     if packet_index s < 0 then d
     else
       let cycle = compute_ohci_cycle_count (headers ! (length headers - 1) ! 1)
       in queue_tx_loop env i (length headers) (set_stream d i (s\<lparr>next_cycle := increment_ohci_cycle_count cycle 1\<rparr>)))"

definition tx_offset :: "amdtp_domain \<Rightarrow> u32 list list \<Rightarrow> nat" where
  "tx_offset d headers =
    length (takeWhile (\<lambda>h. \<not> compare_ohci_cycle_count (compute_ohci_cycle_count (h ! 1)) (tx_start d) \<ge> 0) headers)"

definition process_tx_packets_intermediately :: "amdtp_env \<Rightarrow> amdtp_domain \<Rightarrow> nat \<Rightarrow> u32 list list \<Rightarrow> amdtp_domain" where
  "process_tx_packets_intermediately env d i headers =
    (if packet_index (the_stream d i) < 0 then d
     else
       let packets = length headers; offset = tx_offset d headers;
           d = (if offset > 0 then drop_tx_packets env d i (take offset headers) else d) in
       if offset > 0 \<and> amdtp_streaming_error (the_stream d i) then d
       else if offset < packets then
         let d = process_tx_packets env (set_stream d i ((the_stream d i)\<lparr>ready_processing := True\<rparr>)) i (drop offset headers)
         in if amdtp_streaming_error (the_stream d i) then d
            else d\<lparr>d_callback := (d_callback d)(i := Process_tx_packets)\<rparr>
       else d)"

abbreviation (input) CIP_NO_DATA :: u32 where "CIP_NO_DATA \<equiv> 0x00ffffff"

definition packet_events :: "amdtp_stream \<Rightarrow> u32 list \<Rightarrow> nat" where
  "packet_events s h =
    (let payload_quads = unat (drop_bit 16 (h ! 0)) div 4 in
     if CIP_NO_HEADER \<in> s_flags s then payload_quads div data_block_quadlets s
     else if payload_quads < 2 then 0
     else
       let payload_quads = payload_quads - 2 in
       if CIP_UNAWARE_SYT \<in> s_flags s then payload_quads div data_block_quadlets s
       else if h ! 3 AND CIP_NO_DATA = CIP_NO_DATA then 0
       else payload_quads div data_block_quadlets s)"

text \<open>The cycle at which all incoming streams start: the latest of their next cycles with the cycles to skip; \<open>UINT_MAX\<close>
  is \<open>None\<close>.\<close>

fun latest_tx_cycle :: "nat \<Rightarrow> amdtp_stream list \<Rightarrow> nat option \<Rightarrow> nat option" where
  "latest_tx_cycle skip [] cycle = cycle"
| "latest_tx_cycle skip (s # ss) cycle =
    (if s_direction s \<noteq> AMDTP_IN_STREAM then latest_tx_cycle skip ss cycle
     else
       let nc = increment_ohci_cycle_count (next_cycle s) skip
       in latest_tx_cycle skip ss
            (case cycle of None \<Rightarrow> Some nc | Some c \<Rightarrow> if compare_ohci_cycle_count nc c > 0 then Some nc else Some c))"

definition drop_tx_packets_initially :: "amdtp_env \<Rightarrow> amdtp_domain \<Rightarrow> nat \<Rightarrow> u32 list list \<Rightarrow> amdtp_domain" where
  "drop_tx_packets_initially env d i headers =
    (if packet_index (the_stream d i) < 0 then d
     else
       let events = sum_list (map (packet_events (the_stream d i)) headers);
           d = drop_tx_packets env d i headers;
           d = (if events > 0 then set_stream d i ((the_stream d i)\<lparr>tx_event_starts := True\<rparr>) else d);
           ins = filter (\<lambda>s. s_direction s = AMDTP_IN_STREAM) (map (d_obj d) (d_streams d)) in
       if length ins = length (filter tx_event_starts ins) then
         d\<lparr>d_callback := (\<lambda>j. if j \<in> set (d_streams d) \<and> s_direction (the_stream d j) = AMDTP_IN_STREAM
                               then Process_tx_packets_intermediately else d_callback d j),
           tx_start := (case latest_tx_cycle (tx_init_skip d) (map (d_obj d) (d_streams d)) None of Some c \<Rightarrow> c | None \<Rightarrow> 0xffffffff)\<rparr>
       else d)"

section \<open>All contexts of a domain\<close>

text \<open>The callbacks of streams other than the target of interrupts.  They are called with the headers of the packets: one quadlet
  each for an outgoing stream.  The callbacks of the target belong to no other stream.\<close>

definition call_sc :: "amdtp_env \<Rightarrow> sc_callback \<Rightarrow> amdtp_domain \<Rightarrow> nat \<Rightarrow> u32 list list \<Rightarrow> amdtp_domain" where
  "call_sc env cb d i headers =
    (case cb of
       Drop_tx_packets_initially \<Rightarrow> drop_tx_packets_initially env d i headers
     | Process_tx_packets_intermediately \<Rightarrow> process_tx_packets_intermediately env d i headers
     | Process_tx_packets \<Rightarrow> process_tx_packets env d i headers
     | Skip_rx_packets \<Rightarrow> skip_rx_packets env d i (map hd headers)
     | Process_rx_packets_intermediately \<Rightarrow> process_rx_packets_intermediately env d i (map hd headers)
     | Process_rx_packets \<Rightarrow> process_rx_packets env d i (map hd headers)
     | _ \<Rightarrow> d)"

text \<open>The callback that the first call of a context leaves behind.\<close>

definition first_callback :: "amdtp_domain \<Rightarrow> nat \<Rightarrow> sc_callback" where
  "first_callback d i =
    (if s_direction (the_stream d i) = AMDTP_IN_STREAM then Drop_tx_packets_initially
     else if d_irq_target d = Some i then Irq_target_callback_skip
     else Skip_rx_packets)"

definition set_callback :: "amdtp_domain \<Rightarrow> nat \<Rightarrow> sc_callback \<Rightarrow> amdtp_domain" where
  "set_callback d i cb = d\<lparr>d_callback := (d_callback d)(i := cb)\<rparr>"

definition flush_completions :: "amdtp_env \<Rightarrow> amdtp_domain \<Rightarrow> nat \<Rightarrow> amdtp_domain" where
  "flush_completions env d i =
    (case ae_flush env i of
       None \<Rightarrow> d
     | Some headers \<Rightarrow>
         if d_callback d i = First_callback then
           let cb = first_callback d i in call_sc env cb (set_callback d i cb) i headers
         else call_sc env (d_callback d i) d i headers)"

fun flush_ctxs :: "amdtp_env \<Rightarrow> nat list \<Rightarrow> amdtp_domain \<Rightarrow> bool \<times> amdtp_domain" where
  "flush_ctxs env [] d = (True, d)"
| "flush_ctxs env (i # is) d =
    (let d = (if d_irq_target d \<noteq> Some i \<and> s_running (the_stream d i) then flush_completions env d i else d)
     in if amdtp_streaming_error (the_stream d i) then (False, d) else flush_ctxs env is d)"

definition cancel_running :: "amdtp_env \<Rightarrow> nat \<Rightarrow> amdtp_domain \<Rightarrow> amdtp_domain" where
  "cancel_running env i d = (if s_running (the_stream d i) then cancel_stream env d i else d)"

definition process_ctxs_in_domain :: "amdtp_env \<Rightarrow> amdtp_domain \<Rightarrow> amdtp_domain" where
  "process_ctxs_in_domain env d =
    (case flush_ctxs env (d_streams d) d of
       (True, d) \<Rightarrow> d
     | (False, d) \<Rightarrow>
         let d = (case d_irq_target d of Some t \<Rightarrow> cancel_running env t d | None \<Rightarrow> d)
         in fold (cancel_running env) (d_streams d) d)"

section \<open>Callbacks of the target of interrupts\<close>

definition irq_target_callback :: "amdtp_env \<Rightarrow> amdtp_domain \<Rightarrow> nat \<Rightarrow> u32 list \<Rightarrow> amdtp_domain" where
  "irq_target_callback env d i headers = process_ctxs_in_domain env (process_rx_packets env d i headers)"

definition irq_target_callback_intermediately :: "amdtp_env \<Rightarrow> amdtp_domain \<Rightarrow> nat \<Rightarrow> u32 list \<Rightarrow> amdtp_domain" where
  "irq_target_callback_intermediately env d i headers =
    process_ctxs_in_domain env (process_rx_packets_intermediately env d i headers)"

text \<open>Whether enough packets of its replay target have been cached for an outgoing stream.\<close>

definition rx_ready :: "amdtp_domain \<Rightarrow> amdtp_stream \<Rightarrow> bool" where
  "rx_ready d rx =
    (let tx = the_stream d (the (rx_replay_target rx))
     in calculate_cached_cycle_count tx 0 > length (tx_cache_descs tx) div 2)"

fun latest_rx_cycle :: "amdtp_stream list \<Rightarrow> nat \<Rightarrow> nat" where
  "latest_rx_cycle [] cycle = cycle"
| "latest_rx_cycle (s # ss) cycle =
    (if s_direction s \<noteq> AMDTP_OUT_STREAM then latest_rx_cycle ss cycle
     else latest_rx_cycle ss (if compare_ohci_cycle_count (next_cycle s) cycle > 0 then next_cycle s else cycle))"

definition irq_target_callback_skip :: "amdtp_env \<Rightarrow> amdtp_domain \<Rightarrow> nat \<Rightarrow> u32 list \<Rightarrow> amdtp_domain" where
  "irq_target_callback_skip env d i headers =
    (let d = skip_rx_packets env d i headers;
         d = process_ctxs_in_domain env d;
         outs = filter (\<lambda>s. s_direction s = AMDTP_OUT_STREAM) (map (d_obj d) (d_streams d));
         ready_to_start =
           (if replay_enable d \<and> \<not> replay_on_the_fly d then length outs = length (filter (rx_ready d) outs) else True) in
     if ready_to_start then
       d\<lparr>d_callback := (\<lambda>j. if j \<in> set (d_streams d) \<and> s_direction (the_stream d j) = AMDTP_OUT_STREAM then
             if d_irq_target d = Some j then Irq_target_callback_intermediately else Process_rx_packets_intermediately
           else d_callback d j),
         rx_start := latest_rx_cycle (map (d_obj d) (d_streams d)) (next_cycle (the_stream d i))\<rparr>
     else d)"

text \<open>The call of the callback of any context.\<close>

definition context_callback :: "amdtp_env \<Rightarrow> sc_callback \<Rightarrow> amdtp_domain \<Rightarrow> nat \<Rightarrow> u32 list list \<Rightarrow> amdtp_domain" where
  "context_callback env cb d i headers =
    (case cb of
       Irq_target_callback_skip \<Rightarrow> irq_target_callback_skip env d i (map hd headers)
     | Irq_target_callback_intermediately \<Rightarrow> irq_target_callback_intermediately env d i (map hd headers)
     | Irq_target_callback \<Rightarrow> irq_target_callback env d i (map hd headers)
     | _ \<Rightarrow> call_sc env cb d i headers)"

definition amdtp_stream_first_callback :: "amdtp_env \<Rightarrow> amdtp_domain \<Rightarrow> nat \<Rightarrow> u32 list list \<Rightarrow> amdtp_domain" where
  "amdtp_stream_first_callback env d i headers =
    (let cb = first_callback d i in context_callback env cb (set_callback d i cb) i headers)"

text \<open>The interrupt of a context.\<close>

definition iso_context_interrupt :: "amdtp_env \<Rightarrow> amdtp_domain \<Rightarrow> nat \<Rightarrow> u32 list list \<Rightarrow> amdtp_domain" where
  "iso_context_interrupt env d i headers =
    (if d_callback d i = First_callback then amdtp_stream_first_callback env d i headers
     else context_callback env (d_callback d i) d i headers)"

section \<open>PCM operations\<close>

definition amdtp_stream_pcm_prepare :: "amdtp_domain \<Rightarrow> nat \<Rightarrow> amdtp_domain" where
  "amdtp_stream_pcm_prepare d i =
    set_stream (d\<lparr>d_works := filter (\<lambda>j. j \<noteq> i) (d_works d)\<rparr>) i ((the_stream d i)\<lparr>pcm_buffer_pointer := 0, pcm_period_pointer := 0\<rparr>)"

definition amdtp_stream_pcm_trigger :: "amdtp_domain \<Rightarrow> nat \<Rightarrow> pcm_runtime option \<Rightarrow> amdtp_domain" where
  "amdtp_stream_pcm_trigger d i pcm = d\<lparr>d_pcm := (d_pcm d)(i := pcm)\<rparr>"

definition flush_irq_target :: "amdtp_env \<Rightarrow> amdtp_domain \<Rightarrow> amdtp_domain" where
  "flush_irq_target env d =
    (case d_irq_target d of
       Some t \<Rightarrow> (case ae_flush env t of Some headers \<Rightarrow> iso_context_interrupt env d t headers | None \<Rightarrow> d)
     | None \<Rightarrow> d)"

text \<open>\<open>period_work\<close> says whether the caller is the work item for elapsed periods.\<close>

definition amdtp_domain_stream_pcm_pointer :: "amdtp_env \<Rightarrow> bool \<Rightarrow> amdtp_domain \<Rightarrow> nat \<Rightarrow> nat \<times> amdtp_domain" where
  "amdtp_domain_stream_pcm_pointer env period_work d i =
    (let d = (case d_irq_target d of
                Some t \<Rightarrow> if s_running (the_stream d t) \<and> \<not> period_work then flush_irq_target env d else d
              | None \<Rightarrow> d)
     in (pcm_buffer_pointer (the_stream d i), d))"

definition amdtp_domain_stream_pcm_ack :: "amdtp_env \<Rightarrow> amdtp_domain \<Rightarrow> nat \<Rightarrow> nat \<times> amdtp_domain" where
  "amdtp_domain_stream_pcm_ack env d i =
    (0, case d_irq_target d of
          Some t \<Rightarrow> if s_running (the_stream d t) then flush_irq_target env d else d
        | None \<Rightarrow> d)"

section \<open>Start and stop\<close>

definition amdtp_stream_update :: "amdtp_env \<Rightarrow> amdtp_stream \<Rightarrow> amdtp_stream" where
  "amdtp_stream_update env s = s\<lparr>source_node_id_field := push_bit 24 (ae_node_id env) AND 0x3f000000\<rparr>"

text \<open>The packets of the idle queue.  Packets are queued until the index is back at zero.\<close>

definition queue_idle_packet :: "amdtp_env \<Rightarrow> nat \<Rightarrow> nat \<Rightarrow> amdtp_domain \<Rightarrow> errno option \<times> amdtp_domain" where
  "queue_idle_packet env idle_irq_interval i d =
    (let s = the_stream d i in
     if s_direction s = AMDTP_IN_STREAM then queue_in_packet env d i empty_packet
     else queue_out_packet env d i empty_packet
            (d_irq_target d = Some i \<and> (packet_index s + 1) mod int idle_irq_interval = 0))"

partial_function (option) queue_idle_loop :: "amdtp_env \<Rightarrow> nat \<Rightarrow> nat \<Rightarrow> amdtp_domain \<Rightarrow> (errno option \<times> amdtp_domain) option" where
  "queue_idle_loop env idle_irq_interval i d =
    (case queue_idle_packet env idle_irq_interval i d of
       (Some err, d) \<Rightarrow> Some (Some err, d)
     | (None, d) \<Rightarrow>
         if packet_index (the_stream d i) > 0 then queue_idle_loop env idle_irq_interval i d else Some (None, d))"

definition hold :: "amdtp_res \<Rightarrow> amdtp_domain \<Rightarrow> amdtp_domain" where
  "hold r d = d\<lparr>d_held := add_mset r (d_held d)\<rparr>"

definition release_res :: "amdtp_res \<Rightarrow> amdtp_domain \<Rightarrow> amdtp_domain" where
  "release_res r d = d\<lparr>d_held := d_held d - {#r#}\<rparr>"

text \<open>The labels of the error path.\<close>

definition release_buffer :: "nat \<Rightarrow> amdtp_domain \<Rightarrow> amdtp_domain" where
  "release_buffer i d =
    release_res (Res_buffer i) (d\<lparr>d_buffer := (d_buffer d)(i := fst (iso_packets_buffer_destroy (d_buffer d i)))\<rparr>)"

definition release_seq :: "nat \<Rightarrow> amdtp_domain \<Rightarrow> amdtp_domain" where
  "release_seq i d =
    (if s_direction (the_stream d i) = AMDTP_OUT_STREAM \<or> replay_enable d then release_res (Res_seq i) d else d)"

definition err_context :: "nat \<Rightarrow> amdtp_domain \<Rightarrow> amdtp_domain" where
  "err_context i d =
    (let d = release_seq i d;
         d = release_res (Res_context i) (set_stream d i ((the_stream d i)\<lparr>s_running := False\<rparr>))
     in release_buffer i d)"

definition err_pkt_descs :: "nat \<Rightarrow> amdtp_domain \<Rightarrow> amdtp_domain" where
  "err_pkt_descs i d =
    err_context i (release_res (Res_descs i) (set_stream d i ((the_stream d i)\<lparr>packet_descs := []\<rparr>)))"

abbreviation (input) zero_seq :: seq_desc where "zero_seq \<equiv> \<lparr>syt_offset = 0, seq_data_blocks = 0\<rparr>"

abbreviation (input) zero_desc :: pkt_desc where
  "zero_desc \<equiv> \<lparr>d_cycle = 0, d_syt = 0, d_data_blocks = 0, d_data_block_counter = 0, d_ctx_payload = None\<rparr>"

text \<open>The fields that depend on the direction, with the allocation of the cache or the ring of sequence descriptors.\<close>

definition init_ctx_data :: "amdtp_env \<Rightarrow> nat \<Rightarrow> nat \<Rightarrow> nat \<Rightarrow> amdtp_domain \<Rightarrow> errno option \<times> amdtp_domain" where
  "init_ctx_data env i ctx_header_size max_ctx_payload_size d =
    (let s = the_stream d i in
     if s_direction s = AMDTP_IN_STREAM then
       let s = s\<lparr>tx_max_ctx_payload_length := max_ctx_payload_size, tx_ctx_header_size := ctx_header_size, tx_event_starts := False\<rparr> in
       if replay_enable d then
         if ae_seq env i then
           (None, hold (Res_seq i) (set_stream d i
              (s\<lparr>tx_cache_descs := replicate (max (syt_interval s * 2) (queue_size s * 3 div 2)) zero_seq, tx_cache_pos := 0\<rparr>)))
         else (Some ENOMEM, set_stream d i (s\<lparr>tx_cache_descs := [], tx_cache_pos := 0\<rparr>))
       else (None, set_stream d i s)
     else if ae_seq env i then
       (None, hold (Res_seq i) (set_stream d i
          (s\<lparr>rx_seq_descs := replicate (queue_size s) zero_seq, rx_seq_pos := 0,
             rx_data_block_state := fst (initial_state ! s_sfc s), rx_syt_offset_state := snd (initial_state ! s_sfc s),
             rx_last_syt_offset := TICKS_PER_CYCLE, rx_event_count := 0\<rparr>)))
     else (Some ENOMEM, set_stream d i (s\<lparr>rx_seq_descs := []\<rparr>)))"

text \<open>After the context has been created.\<close>

definition start_queueing :: "amdtp_env \<Rightarrow> nat \<Rightarrow> nat \<Rightarrow> amdtp_domain \<Rightarrow> (errno option \<times> amdtp_domain) option" where
  "start_queueing env i idle_irq_interval d =
    (let s = (the_stream d i)\<lparr>s_tag := if CIP_NO_HEADER \<in> s_flags (the_stream d i) then 0 else 1\<rparr>; d = set_stream d i s in
     if \<not> ae_descs env i then Some (Some ENOMEM, err_context i d)
     else
       let d = hold (Res_descs i) (set_stream d i
             (s\<lparr>packet_descs := replicate (queue_size s) zero_desc, packet_descs_cursor := 0, packet_index := 0\<rparr>)) in
       (case queue_idle_loop env idle_irq_interval i d of
          None \<Rightarrow> None
        | Some (Some err, d) \<Rightarrow> Some (Some err, err_pkt_descs i d)
        | Some (None, d) \<Rightarrow>
            let d = set_stream d i ((the_stream d i)\<lparr>ready_processing := False\<rparr>) in
            (case ae_start env i of
               Some err \<Rightarrow> Some (Some err, err_pkt_descs i d)
             | None \<Rightarrow> Some (None, d))))"

definition amdtp_stream_start :: "amdtp_env \<Rightarrow> amdtp_domain \<Rightarrow> nat \<Rightarrow> nat \<Rightarrow> nat \<Rightarrow> (errno option \<times> amdtp_domain) option" where
  "amdtp_stream_start env d i qsize idle_irq_interval =
    (let s = the_stream d i in
     if s_running s \<or> data_block_quadlets s < 1 then Some (Some EBADFD, d)
     else if s_direction s = AMDTP_IN_STREAM \<and> d_irq_target d = Some i then Some (Some EINVAL, d)
     else
       let s = s\<lparr>data_block_counter := if s_direction s = AMDTP_IN_STREAM then UINT_MAX else 0\<rparr>;
           d = set_stream d i s;
           dir = (if s_direction s = AMDTP_IN_STREAM then DMA_FROM_DEVICE else DMA_TO_DEVICE);
           ctx_header_size = (if s_direction s = AMDTP_IN_STREAM then if CIP_NO_HEADER \<notin> s_flags s then 16 else 8 else 4);
           max_ctx_payload_size = amdtp_stream_get_max_ctx_payload_size s;
           (err, buf, ev) = iso_packets_buffer_init (ae_buffer env i) (d_buffer d i) qsize max_ctx_payload_size dir;
           d = d\<lparr>d_buffer := (d_buffer d)(i := buf)\<rparr> in
       (case err of
          Some e \<Rightarrow> Some (Some e, d)
        | None \<Rightarrow>
            let s = s\<lparr>queue_size := qsize\<rparr>; d = hold (Res_buffer i) (set_stream d i s) in
            (case ae_context env i of
               Some e \<Rightarrow> Some (Some e, release_buffer i d)
             | None \<Rightarrow>
                 let s = amdtp_stream_update env (s\<lparr>s_running := True\<rparr>);
                     d = hold (Res_context i) (set_callback (set_stream d i s) i First_callback) in
                 (case init_ctx_data env i ctx_header_size max_ctx_payload_size d of
                    (Some e, d) \<Rightarrow> Some (Some e, err_context i d)
                  | (None, d) \<Rightarrow> start_queueing env i idle_irq_interval d))))"

definition amdtp_stream_stop :: "amdtp_domain \<Rightarrow> nat \<Rightarrow> amdtp_domain" where
  "amdtp_stream_stop d i =
    (if \<not> s_running (the_stream d i) then d
     else
       let d = d\<lparr>d_works := filter (\<lambda>j. j \<noteq> i) (d_works d)\<rparr>;
           d = release_res (Res_context i) (set_stream d i ((the_stream d i)\<lparr>s_running := False\<rparr>));
           d = release_buffer i d;
           d = release_res (Res_descs i) (set_stream d i ((the_stream d i)\<lparr>packet_descs := []\<rparr>))
       in release_seq i d)"

definition amdtp_domain_init :: "amdtp_domain \<Rightarrow> amdtp_domain" where
  "amdtp_domain_init d = d\<lparr>d_streams := [], events_per_period := 0\<rparr>"

definition amdtp_domain_add_stream :: "amdtp_domain \<Rightarrow> nat \<Rightarrow> nat \<Rightarrow> nat \<Rightarrow> errno option \<times> amdtp_domain" where
  "amdtp_domain_add_stream d i channel speed =
    (if i \<in> set (d_streams d) then (Some EBUSY, d)
     else (None, d\<lparr>d_streams := i # d_streams d, d_channel := (d_channel d)(i := (channel, speed))\<rparr>))"

text \<open>The \<open>n\<close>-th incoming stream, or the first.\<close>

definition replay_target_for :: "nat list \<Rightarrow> nat \<Rightarrow> nat option" where
  "replay_target_for sources n = (if n < length sources then Some (sources ! n) else case sources of [] \<Rightarrow> None | t # _ \<Rightarrow> Some t)"

fun associate :: "nat list \<Rightarrow> nat list \<Rightarrow> nat \<Rightarrow> amdtp_domain \<Rightarrow> errno option \<times> amdtp_domain" where
  "associate sources [] dst_index d = (None, d)"
| "associate sources (i # is) dst_index d =
    (if s_direction (the_stream d i) = AMDTP_OUT_STREAM then
       case replay_target_for sources dst_index of
         None \<Rightarrow> (Some EINVAL, d)
       | Some t \<Rightarrow> associate sources is (dst_index + 1) (set_stream d i ((the_stream d i)\<lparr>rx_replay_target := Some t\<rparr>))
     else associate sources is dst_index d)"

definition make_association :: "amdtp_domain \<Rightarrow> errno option \<times> amdtp_domain" where
  "make_association d =
    associate (filter (\<lambda>i. s_direction (the_stream d i) = AMDTP_IN_STREAM) (d_streams d)) (d_streams d) 0 d"

fun start_streams :: "amdtp_env \<Rightarrow> nat \<Rightarrow> nat \<Rightarrow> nat list \<Rightarrow> amdtp_domain \<Rightarrow> (errno option \<times> amdtp_domain) option" where
  "start_streams env qsize interval [] d = Some (None, d)"
| "start_streams env qsize interval (i # is) d =
    (case amdtp_stream_start env d i qsize
            (if s_direction (the_stream d i) = AMDTP_OUT_STREAM \<and> d_irq_target d = Some i then interval else 0) of
       Some (None, d) \<Rightarrow> start_streams env qsize interval is d
     | r \<Rightarrow> r)"

text \<open>The isochronous cycles that a number of events takes, rounded up; the numbers are 32 bits wide.\<close>

definition cycles_of_events :: "nat \<Rightarrow> nat \<Rightarrow> nat" where
  "cycles_of_events events rate = ((CYCLES_PER_SECOND * events) mod 2 ^ 32 + rate - 1) mod 2 ^ 32 div rate"

definition domain_queue_size :: "amdtp_domain \<Rightarrow> cip_sfc \<Rightarrow> nat \<times> nat" where
  "domain_queue_size d sfc =
    (let period = (if events_per_period d = 0 then amdtp_rate_table ! sfc div 100 else events_per_period d);
         buffer = (if events_per_buffer d = 0 then period * 3 else events_per_buffer d)
     in (cycles_of_events buffer (amdtp_rate_table ! sfc), cycles_of_events period (amdtp_rate_table ! sfc)))"

definition amdtp_domain_start :: "amdtp_env \<Rightarrow> amdtp_domain \<Rightarrow> nat \<Rightarrow> bool \<Rightarrow> bool \<Rightarrow> (errno option \<times> amdtp_domain) option" where
  "amdtp_domain_start env d tx_init_skip_cycles replay_seq on_the_fly =
    (let (err, d) = (if replay_seq then make_association d else (None, d)) in
     if err \<noteq> None then Some (err, d)
     else
       let d = d\<lparr>replay_enable := replay_seq, replay_on_the_fly := on_the_fly\<rparr> in
       (case List.find (\<lambda>i. s_direction (the_stream d i) = AMDTP_OUT_STREAM) (d_streams d) of
          None \<Rightarrow> Some (Some ENXIO, d)
        | Some t \<Rightarrow>
            let d = d\<lparr>d_irq_target := Some t, tx_init_skip := tx_init_skip_cycles\<rparr>;
                (qsize, interval) = domain_queue_size d (s_sfc (the_stream d t)) in
            (case start_streams env qsize interval (d_streams d) d of
               Some (Some e, d) \<Rightarrow> Some (Some e, fold (\<lambda>i d. amdtp_stream_stop d i) (d_streams d) d)
             | r \<Rightarrow> r)))"

definition amdtp_domain_stop :: "amdtp_domain \<Rightarrow> amdtp_domain" where
  "amdtp_domain_stop d =
    (let target = d_irq_target d;
         d = (case target of Some t \<Rightarrow> amdtp_stream_stop d t | None \<Rightarrow> d);
         d = fold (\<lambda>i d. if target \<noteq> Some i then amdtp_stream_stop d i else d) (d_streams d) (d\<lparr>d_streams := []\<rparr>)
     in d\<lparr>events_per_period := 0, d_irq_target := None\<rparr>)"

end
