(* ===== verification/Amdtp_Domain.thy ===== *)
theory Amdtp_Domain
  imports Amdtp_Stream
begin

text \<open>
  What the callbacks of the isochronous contexts of an audio domain promise, and what starting and stopping does to the
  resources: the proofs for \<^verbatim>\<open>sound/firewire/amdtp-stream.c\<close>.
\<close>

section \<open>Frame conditions\<close>

lemma set_stream_simps [simp]:
  "d_obj (set_stream d i s) = (d_obj d)(i := s)" "d_streams (set_stream d i s) = d_streams d"
  "d_callback (set_stream d i s) = d_callback d" "d_pcm (set_stream d i s) = d_pcm d" "d_buffer (set_stream d i s) = d_buffer d"
  "d_irq_target (set_stream d i s) = d_irq_target d" "events_per_period (set_stream d i s) = events_per_period d"
  "replay_enable (set_stream d i s) = replay_enable d" "replay_on_the_fly (set_stream d i s) = replay_on_the_fly d"
  "d_queued (set_stream d i s) = d_queued d" "d_held (set_stream d i s) = d_held d" "d_works (set_stream d i s) = d_works d"
  "rx_start (set_stream d i s) = rx_start d" "tx_start (set_stream d i s) = tx_start d" "tx_init_skip (set_stream d i s) = tx_init_skip d"
  by (simp_all add: set_stream_def)

text \<open>The fields of a stream that packets do not change.\<close>

definition same_setup :: "amdtp_stream \<Rightarrow> amdtp_stream \<Rightarrow> bool" where
  "same_setup s s' \<longleftrightarrow> s_running s' = s_running s \<and> s_direction s' = s_direction s \<and> s_flags s' = s_flags s \<and> queue_size s' = queue_size s"

definition touches :: "nat \<Rightarrow> amdtp_domain \<Rightarrow> amdtp_domain \<Rightarrow> bool" where
  "touches i d d' \<longleftrightarrow> d_streams d' = d_streams d \<and> d_irq_target d' = d_irq_target d \<and> d_held d' = d_held d \<and> d_buffer d' = d_buffer d \<and>
    events_per_period d' = events_per_period d \<and> replay_enable d' = replay_enable d \<and>
    (\<forall>j. j \<noteq> i \<longrightarrow> d_obj d' j = d_obj d j) \<and> same_setup (d_obj d i) (d_obj d' i)"

definition steady :: "nat \<Rightarrow> amdtp_domain \<Rightarrow> bool" where
  "steady i d \<longleftrightarrow> 0 \<le> packet_index (d_obj d i) \<and> packet_index (d_obj d i) < int (queue_size (d_obj d i))"

text \<open>The \<open>n\<close> next places of the ring of packet buffers have been queued.\<close>

definition ring_places :: "nat \<Rightarrow> amdtp_domain \<Rightarrow> nat \<Rightarrow> (nat \<times> nat) list" where
  "ring_places i d n =
    map (\<lambda>k. (i, packet_offset d i ((packet_index (d_obj d i) + int k) mod int (queue_size (d_obj d i))))) [0..<n]"

definition queued_ring :: "nat \<Rightarrow> nat \<Rightarrow> amdtp_domain \<Rightarrow> amdtp_domain \<Rightarrow> bool" where
  "queued_ring i n d d' \<longleftrightarrow>
    map (\<lambda>(j, offset, p). (j, offset)) (d_queued d') = map (\<lambda>(j, offset, p). (j, offset)) (d_queued d) @ ring_places i d n \<and>
    packet_index (d_obj d' i) = (packet_index (d_obj d i) + int n) mod int (queue_size (d_obj d i))"

text \<open>What a callback does for a batch of \<open>n\<close> packets of stream \<open>i\<close>: as many packets are queued, or the stream is cancelled.\<close>

definition serves :: "nat \<Rightarrow> nat \<Rightarrow> amdtp_domain \<Rightarrow> amdtp_domain \<Rightarrow> bool" where
  "serves i n d d' \<longleftrightarrow> touches i d d' \<and> (steady i d \<longrightarrow> packet_index (d_obj d' i) = -1 \<or> queued_ring i n d d')"

lemma same_setup_refl [simp]: "same_setup s s"
  by (simp add: same_setup_def)

lemma touches_refl [simp]: "touches i d d"
  by (simp add: touches_def)

lemma touches_trans: "touches i d d1 \<Longrightarrow> touches i d1 d2 \<Longrightarrow> touches i d d2"
  by (auto simp: touches_def same_setup_def)

lemma touches_packet_offset: "touches i d d' \<Longrightarrow> packet_offset d' j index = packet_offset d j index"
  by (simp add: touches_def packet_offset_def)

lemma queued_ring_trans:
  assumes "touches i d d1" "queued_ring i m d d1" "queued_ring i n d1 d2"
  shows "queued_ring i (m + n) d d2"
proof -
  have q: "queue_size (d_obj d1 i) = queue_size (d_obj d i)" using assms(1) by (simp add: touches_def same_setup_def)
  have idx: "packet_index (d_obj d1 i) = (packet_index (d_obj d i) + int m) mod int (queue_size (d_obj d i))"
    using assms(2) by (simp add: queued_ring_def)
  have "[0..<m + n] = [0..<m] @ map (\<lambda>k. m + k) [0..<n]"
    by (rule nth_equalityI) (auto simp: nth_append)
  then have "ring_places i d (m + n) = ring_places i d m @ ring_places i d1 n"
    unfolding ring_places_def idx q touches_packet_offset [OF assms(1)] mod_add_left_eq by (simp add: comp_def add.assoc)
  moreover have "packet_index (d_obj d2 i) = (packet_index (d_obj d i) + int (m + n)) mod int (queue_size (d_obj d i))"
    using assms(3) unfolding queued_ring_def idx q mod_add_left_eq by (simp add: add.assoc)
  ultimately show ?thesis using assms(2,3) by (simp add: queued_ring_def)
qed

definition queues :: "nat \<Rightarrow> nat \<Rightarrow> amdtp_domain \<Rightarrow> amdtp_domain \<Rightarrow> bool" where
  "queues i n d d' \<longleftrightarrow> touches i d d' \<and> (steady i d \<longrightarrow> queued_ring i n d d')"

lemma queued_ring_steady: "touches i d d' \<Longrightarrow> steady i d \<Longrightarrow> queued_ring i n d d' \<Longrightarrow> steady i d'"
proof -
  assume t: "touches i d d'" and s: "steady i d" and q: "queued_ring i n d d'"
  have "0 < int (queue_size (d_obj d i))" using s by (simp add: steady_def)
  then show ?thesis
    using t q by (simp add: steady_def queued_ring_def touches_def same_setup_def)
qed

lemma queues_serves_trans: "queues i m d d1 \<Longrightarrow> serves i n d1 d2 \<Longrightarrow> serves i (m + n) d d2"
  unfolding queues_def serves_def using touches_trans queued_ring_trans queued_ring_steady by meson

lemma serves_no_error: "serves i n d d' \<Longrightarrow> \<not> amdtp_streaming_error (d_obj d' i) \<Longrightarrow> queues i n d d'"
  by (auto simp: serves_def queues_def amdtp_streaming_error_def)

lemmas serves_seq = queues_serves_trans [OF serves_no_error]

text \<open>A change that queues nothing.\<close>

definition quiet :: "nat \<Rightarrow> amdtp_domain \<Rightarrow> amdtp_domain \<Rightarrow> bool" where
  "quiet i d d' \<longleftrightarrow> touches i d d' \<and> packet_index (d_obj d' i) = packet_index (d_obj d i) \<and> d_queued d' = d_queued d"

lemma quiet_refl [simp]: "quiet i d d"
  by (simp add: quiet_def)

lemma quiet_trans: "quiet i d d1 \<Longrightarrow> quiet i d1 d2 \<Longrightarrow> quiet i d d2"
  using touches_trans by (auto simp: quiet_def)

lemma quiet_serves: "quiet i d d' \<Longrightarrow> serves i 0 d d'"
  by (auto simp: quiet_def serves_def queued_ring_def ring_places_def steady_def)

lemma quiet_serves_trans: "quiet i d d1 \<Longrightarrow> serves i n d1 d2 \<Longrightarrow> serves i n d d2"
proof -
  assume q: "quiet i d d1" and s: "serves i n d1 d2"
  have "touches i d d1" "touches i d1 d2" using q s by (simp_all add: quiet_def serves_def)
  moreover have "steady i d1 = steady i d" "queued_ring i n d1 d2 = queued_ring i n d d2"
    using q touches_packet_offset [OF \<open>touches i d d1\<close>]
    by (auto simp: quiet_def steady_def queued_ring_def touches_def same_setup_def ring_places_def)
  ultimately show ?thesis using s touches_trans by (auto simp: serves_def)
qed

lemma serves_quiet_trans: "serves i n d d1 \<Longrightarrow> quiet i d1 d2 \<Longrightarrow> serves i n d d2"
  using touches_trans by (auto simp: serves_def quiet_def queued_ring_def)

lemma quiet_set_stream:
  "same_setup (d_obj d i) s \<Longrightarrow> packet_index s = packet_index (d_obj d i) \<Longrightarrow> quiet i d (set_stream d i s)"
  by (simp add: quiet_def touches_def)

lemma cancel_stream_touches: "touches i d (cancel_stream env d i)"
  by (auto simp: touches_def same_setup_def cancel_stream_def Let_def amdtp_stream_pcm_abort_def split: option.splits)

lemma cancel_stream_index [simp]: "packet_index (d_obj (cancel_stream env d i) i) = -1"
  by (simp add: cancel_stream_def Let_def amdtp_stream_pcm_abort_def split: option.splits)

lemma cancel_stream_serves: "serves i n d (cancel_stream env d i)"
  by (simp add: serves_def cancel_stream_touches)

section \<open>Queueing\<close>

lemma ring_succ: "0 \<le> x \<Longrightarrow> x < q \<Longrightarrow> (if x + 1 \<ge> q then 0 else x + 1) = (x + 1) mod (q :: int)"
  by (cases "x + 1 = q") (auto simp: mod_pos_pos_trivial)

lemma queue_packet_serves:
  assumes "queue_packet env d i params sched_irq = (r, d')"
  shows "case r of None \<Rightarrow> queues i 1 d d' | Some err \<Rightarrow> d' = d"
proof (cases "ae_queue env i (d_queued d)")
  case (Some err)
  then have "r = Some err" "d' = d" using assms by (simp_all add: queue_packet_def Let_def)
  then show ?thesis by simp
next
  case None
  then have "touches i d d'" "r = None" using assms by (auto simp: queue_packet_def Let_def touches_def same_setup_def)
  moreover have "queued_ring i 1 d d'" if "steady i d"
  proof -
    have "packet_index (d_obj d' i) = (packet_index (d_obj d i) + 1) mod int (queue_size (d_obj d i))"
      using None assms that ring_succ [of "packet_index (d_obj d i)" "int (queue_size (d_obj d i))"]
      by (auto simp: queue_packet_def Let_def steady_def simp del: One_nat_def)
    moreover have "packet_index (d_obj d i) mod int (queue_size (d_obj d i)) = packet_index (d_obj d i)"
      using that by (simp add: steady_def mod_pos_pos_trivial)
    ultimately show ?thesis
      using None assms by (auto simp: queue_packet_def Let_def queued_ring_def ring_places_def)
  qed
  ultimately show ?thesis by (simp add: queues_def)
qed

text \<open>One step of a loop that queues packets and cancels the stream when that fails.\<close>

lemma queue_step_serves:
  assumes "queue_packet env d i params sched_irq = (r, d1)" "\<And>d1. serves i n d1 (rest d1)"
  shows "serves i (Suc n) d (case (r, d1) of (Some err, d1) \<Rightarrow> cancel_stream env d1 i | (None, d1) \<Rightarrow> rest d1)"
proof (cases r)
  case (Some err)
  then show ?thesis using queue_packet_serves [OF assms(1)] by (simp add: cancel_stream_serves)
next
  case None
  then have "queues i 1 d d1" using queue_packet_serves [OF assms(1)] by simp
  from queues_serves_trans [OF this assms(2)] show ?thesis using None by simp
qed

lemma queue_tx_loop_serves: "serves i n d (queue_tx_loop env i n d)"
proof (induction n arbitrary: d)
  case (Suc n)
  obtain r d1 where q: "queue_in_packet env d i empty_packet = (r, d1)" by fastforce
  from queue_step_serves [OF q [unfolded queue_in_packet_def], of n "queue_tx_loop env i n"] Suc.IH
  show ?case unfolding queue_tx_loop.simps q by blast
qed (simp add: quiet_serves)

lemma skip_rx_loop_serves: "serves i n d (skip_rx_loop env i n d)"
proof (induction n arbitrary: d)
  case (Suc n)
  obtain r d1 where q: "queue_out_packet env d i empty_packet (d_irq_target d = Some i \<and> n = 0) = (r, d1)" by fastforce
  from queue_step_serves [OF q [unfolded queue_out_packet_def], of n "skip_rx_loop env i n"] Suc.IH
  show ?case unfolding skip_rx_loop.simps q by blast
qed (simp add: quiet_serves)

lemma queue_rx_loop_serves: "serves i n d (snd (queue_rx_loop env i hlen hw n desc ec d))"
proof (induction n arbitrary: d desc ec)
  case (Suc n)
  obtain ec' irq tmpl where step: "queue_rx_loop env i hlen hw (Suc n) desc ec d =
      (case queue_out_packet env d i tmpl irq of (Some err, d) \<Rightarrow> (None, cancel_stream env d i)
       | (None, d1) \<Rightarrow> queue_rx_loop env i hlen hw n (next_packet_desc (d_obj d i) desc) ec' d1)"
    by (fastforce simp: Let_def split_beta)
  obtain r d1 where q: "queue_out_packet env d i tmpl irq = (r, d1)" by fastforce
  from queue_step_serves [OF q [unfolded queue_out_packet_def], of n
      "\<lambda>d1. snd (queue_rx_loop env i hlen hw n (next_packet_desc (d_obj d i) desc) ec' d1)"] Suc.IH
  show ?case unfolding step q by (cases r) simp_all
qed (simp add: quiet_serves)

section \<open>The contract of the callbacks\<close>

text \<open>Every callback serves a batch, and does nothing for a stream that has been cancelled.\<close>

locale batch_callback =
  fixes callback :: "amdtp_env \<Rightarrow> amdtp_domain \<Rightarrow> nat \<Rightarrow> 'h list \<Rightarrow> amdtp_domain"
  assumes batch: "serves i (length headers) d (callback env d i headers)"
    and cancelled: "packet_index (d_obj d i) < 0 \<Longrightarrow> callback env d i headers = d"
begin

lemma others: "j \<noteq> i \<Longrightarrow> d_obj (callback env d i headers) j = d_obj d j"
  using batch [of i headers d env] by (simp add: serves_def touches_def)

lemma keeps_range: "steady i d \<Longrightarrow> steady i (callback env d i headers) \<or> amdtp_streaming_error (d_obj (callback env d i headers) i)"
  using batch [of i headers d env] queued_ring_steady [of i d _ "length headers"]
  by (auto simp: serves_def amdtp_streaming_error_def)

text \<open>After a batch of another stream the stream is as it was, even its range.\<close>

lemma keeps_others: "j \<noteq> i \<Longrightarrow> steady j (callback env d i headers) = steady j d"
  using others by (simp add: steady_def)

end

section \<open>The callbacks keep the contract\<close>

lemma pool_seq_descs_setup:
  "same_setup s (pool_seq_descs en fly tgt s n) \<and> packet_index (pool_seq_descs en fly tgt s n) = packet_index s"
  by (auto simp: same_setup_def pool_seq_descs_def pool_ideal_seq_descs_def pool_replayed_seq_def Let_def split: option.splits prod.splits)

lemma generate_rx_setup:
  "same_setup s (generate_rx_packet_descs en fly tgt s desc hs)"
  "packet_index (generate_rx_packet_descs en fly tgt s desc hs) = packet_index s"
  using pool_seq_descs_setup [of s en fly tgt "length hs"]
  by (auto simp: same_setup_def generate_rx_packet_descs_def Let_def split: prod.splits)

lemma generate_tx_setup:
  assumes "generate_tx_packet_descs s junk desc hs = (err, n, s')"
  shows "same_setup s s'" "packet_index s' = packet_index s"
  using assms by (auto simp: same_setup_def generate_tx_packet_descs_def Let_def split: prod.splits if_splits)

lemma cache_seq_setup: "same_setup s (cache_seq s src n)" "packet_index (cache_seq s src n) = packet_index s"
  by (induction n arbitrary: s src) (auto simp: same_setup_def Let_def)

lemma process_ctx_payloads_quiet: "quiet i d (process_ctx_payloads env d i desc cnt)"
  by (auto simp: quiet_def touches_def same_setup_def process_ctx_payloads_def update_pcm_pointers_def Let_def split: option.splits)

lemma process_rx_packets_serves: "serves i (length hs) d (process_rx_packets env d i hs)"
proof (cases "packet_index (d_obj d i) < 0")
  case True
  then show ?thesis by (simp add: process_rx_packets_def Let_def serves_def steady_def)
next
  case False
  define s1 where "s1 = generate_rx_packet_descs (replay_enable d) (replay_on_the_fly d)
    (case rx_replay_target (d_obj d i) of Some t \<Rightarrow> Some (d_obj d t) | None \<Rightarrow> None) (d_obj d i) (packet_descs_cursor (d_obj d i)) hs"
  define d1 where "d1 = process_ctx_payloads env (set_stream d i s1) i (packet_descs_cursor (d_obj d i)) (length hs)"
  have "quiet i d d1" unfolding d1_def s1_def
    by (intro quiet_trans [OF quiet_set_stream process_ctx_payloads_quiet] generate_rx_setup)
  define hlen where "hlen = (if CIP_NO_HEADER \<notin> s_flags (d_obj d i) then CIP_HEADER_SIZE else 0)"
  define hw where "hw = (if d_irq_target d1 = Some i then (case d_pcm d1 i of None \<Rightarrow> True | Some pcm \<Rightarrow> \<not> no_period_wakeup pcm) else False)"
  obtain r d2 where loop: "queue_rx_loop env i hlen hw (length hs) (packet_descs_cursor (d_obj d i)) (rx_event_count (d_obj d i)) d1 = (r, d2)"
    by (metis surj_pair)
  have res: "process_rx_packets env d i hs = (case r of None \<Rightarrow> d2 | Some (desc, ec) \<Rightarrow>
       set_stream d2 i ((d_obj d2 i)\<lparr>rx_event_count := ec, packet_descs_cursor := desc\<rparr>))"
    using False unfolding process_rx_packets_def Let_def s1_def [symmetric] d1_def [symmetric] hlen_def [symmetric] hw_def [symmetric] loop
    by (simp split: option.splits)
  have "serves i (length hs) d1 d2" using queue_rx_loop_serves [of i "length hs" d1 env hlen hw] loop by (metis snd_conv)
  from quiet_serves_trans [OF \<open>quiet i d d1\<close> this]
  have d2: "serves i (length hs) d d2" .
  show ?thesis
  proof (cases r)
    case None
    then show ?thesis using d2 res by simp
  next
    case (Some p)
    have "quiet i d2 (set_stream d2 i ((d_obj d2 i)\<lparr>rx_event_count := snd p, packet_descs_cursor := fst p\<rparr>))"
      by (intro quiet_set_stream) (simp_all add: same_setup_def)
    from serves_quiet_trans [OF d2 this] show ?thesis using Some res by (simp add: split_beta)
  qed
qed

lemma skip_rx_packets_serves: "serves i (length hs) d (skip_rx_packets env d i hs)"
proof (cases "packet_index (d_obj d i) < 0")
  case False
  have "quiet i d (set_stream d i ((d_obj d i)\<lparr>next_cycle := c\<rparr>))" for c
    by (intro quiet_set_stream) (simp_all add: same_setup_def)
  from quiet_serves_trans [OF this skip_rx_loop_serves] show ?thesis using False by (simp add: skip_rx_packets_def Let_def)
qed (simp add: skip_rx_packets_def Let_def serves_def steady_def)

lemma drop_tx_packets_serves: "serves i (length hs) d (drop_tx_packets env d i hs)"
proof (cases "packet_index (d_obj d i) < 0")
  case False
  have "quiet i d (set_stream d i ((d_obj d i)\<lparr>next_cycle := c\<rparr>))" for c
    by (intro quiet_set_stream) (simp_all add: same_setup_def)
  from quiet_serves_trans [OF this queue_tx_loop_serves] show ?thesis using False by (simp add: drop_tx_packets_def Let_def)
qed (simp add: drop_tx_packets_def Let_def serves_def steady_def)

lemma process_tx_packets_serves: "serves i (length hs) d (process_tx_packets env d i hs)"
proof (cases "packet_index (d_obj d i) < 0")
  case False
  obtain err n s1 where g: "generate_tx_packet_descs (d_obj d i) (ae_junk env) (packet_descs_cursor (d_obj d i)) hs = (err, n, s1)"
    by (metis surj_pair)
  have q1: "quiet i d (set_stream d i s1)" by (intro quiet_set_stream generate_tx_setup [OF g])
  show ?thesis
  proof (cases err)
    case (Some e)
    then show ?thesis
      using False g quiet_serves_trans [OF q1 cancel_stream_serves] quiet_serves_trans [OF q1 queue_tx_loop_serves]
      by (simp add: process_tx_packets_def Let_def)
  next
    case None
    define d1 where "d1 = process_ctx_payloads env (set_stream d i s1) i (packet_descs_cursor (d_obj d i)) n"
    define d2 where "d2 = (if replay_enable d1 then set_stream d1 i (cache_seq (d_obj d1 i) (packet_descs_cursor (d_obj d i)) n) else d1)"
    define d3 where "d3 = set_stream d2 i ((d_obj d2 i)\<lparr>packet_descs_cursor :=
      (next_packet_desc (d_obj d2 i) ^^ n) (packet_descs_cursor (d_obj d i))\<rparr>)"
    have "quiet i d d1" unfolding d1_def by (rule quiet_trans [OF q1 process_ctx_payloads_quiet])
    moreover have "quiet i d1 d2" unfolding d2_def using quiet_set_stream [OF cache_seq_setup] by simp
    moreover have "quiet i d2 d3" unfolding d3_def by (intro quiet_set_stream) (simp_all add: same_setup_def)
    ultimately have "quiet i d d3" by (blast intro: quiet_trans)
    moreover have "process_tx_packets env d i hs = queue_tx_loop env i (length hs) d3"
      using False None g by (simp add: process_tx_packets_def Let_def d1_def d2_def d3_def)
    ultimately show ?thesis using quiet_serves_trans [OF _ queue_tx_loop_serves] by simp
  qed
qed (simp add: process_tx_packets_def Let_def serves_def steady_def)

lemma set_callback_quiet: "quiet i d (d\<lparr>d_callback := f\<rparr>)"
  by (simp add: quiet_def touches_def)

text \<open>The first part of a batch is skipped and the rest processed, unless an error occurs.\<close>

lemma serves_error: "serves i m d d1 \<Longrightarrow> amdtp_streaming_error (d_obj d1 i) \<Longrightarrow> serves i n d d1"
  using queued_ring_steady [of i d d1 m] by (auto simp: serves_def steady_def amdtp_streaming_error_def)

lemma two_parts_serve:
  assumes "m \<le> n" "serves i m d d1" "serves i (n - m) d1 d2"
  shows "serves i n d (if amdtp_streaming_error (d_obj d1 i) \<or> m \<ge> n then d1
    else if amdtp_streaming_error (d_obj d2 i) then d2 else d2\<lparr>d_callback := f\<rparr>)"
proof (cases "amdtp_streaming_error (d_obj d1 i)")
  case True
  then show ?thesis using serves_error [OF assms(2)] by simp
next
  case False
  from serves_seq [OF assms(2) this assms(3)] have "serves i n d d2" using assms(1) by simp
  then show ?thesis using assms(1,2) False serves_quiet_trans [OF _ set_callback_quiet] by auto
qed

lemma process_rx_packets_intermediately_serves: "serves i (length hs) d (process_rx_packets_intermediately env d i hs)"
proof (cases "packet_index (d_obj d i) < 0")
  case False
  define off where "off = rx_offset d (queue_size (d_obj d i)) hs"
  define d1 where "d1 = (if off > 0 then skip_rx_packets env d i (take off hs) else d)"
  define s where "s = (let s = (d_obj d1 i)\<lparr>ready_processing := True\<rparr> in if replay_enable d1 then s\<lparr>rx_cache_pos := 0\<rparr> else s)"
  define d2 where "d2 = process_rx_packets env (set_stream d1 i s) i (drop off hs)"
  have le: "off \<le> length hs" unfolding off_def rx_offset_def by (rule length_takeWhile_le)
  have d1: "serves i off d d1"
    using skip_rx_packets_serves [of i "take off hs" d env] le by (auto simp: d1_def quiet_serves)
  have "quiet i d1 (set_stream d1 i s)" by (intro quiet_set_stream) (simp_all add: s_def same_setup_def Let_def)
  from quiet_serves_trans [OF this process_rx_packets_serves]
  have d2: "serves i (length hs - off) d1 d2" unfolding d2_def by (metis length_drop)
  have "off > 0 \<and> amdtp_streaming_error (d_obj d1 i) \<longleftrightarrow> amdtp_streaming_error (d_obj d1 i)"
    using False by (auto simp: d1_def amdtp_streaming_error_def)
  then have "process_rx_packets_intermediately env d i hs =
      (if amdtp_streaming_error (d_obj d1 i) \<or> off \<ge> length hs then d1
       else if amdtp_streaming_error (d_obj d2 i) then d2
       else d2\<lparr>d_callback := (d_callback d2)(i := if d_irq_target d2 = Some i then Irq_target_callback else Process_rx_packets)\<rparr>)"
    using False unfolding process_rx_packets_intermediately_def off_def [symmetric] d1_def [symmetric] Let_def
    by (auto simp: d2_def s_def Let_def)
  then show ?thesis using two_parts_serve [OF le d1 d2] by simp
qed (simp add: process_rx_packets_intermediately_def serves_def steady_def)

lemma process_tx_packets_intermediately_serves: "serves i (length hs) d (process_tx_packets_intermediately env d i hs)"
proof (cases "packet_index (d_obj d i) < 0")
  case False
  define off where "off = tx_offset d hs"
  define d1 where "d1 = (if off > 0 then drop_tx_packets env d i (take off hs) else d)"
  define d2 where "d2 = process_tx_packets env (set_stream d1 i ((d_obj d1 i)\<lparr>ready_processing := True\<rparr>)) i (drop off hs)"
  have le: "off \<le> length hs" unfolding off_def tx_offset_def by (rule length_takeWhile_le)
  have d1: "serves i off d d1"
    using drop_tx_packets_serves [of i "take off hs" d env] le by (auto simp: d1_def quiet_serves)
  have "quiet i d1 (set_stream d1 i ((d_obj d1 i)\<lparr>ready_processing := True\<rparr>))"
    by (intro quiet_set_stream) (simp_all add: same_setup_def)
  from quiet_serves_trans [OF this process_tx_packets_serves]
  have d2: "serves i (length hs - off) d1 d2" unfolding d2_def by (metis length_drop)
  have "off > 0 \<and> amdtp_streaming_error (d_obj d1 i) \<longleftrightarrow> amdtp_streaming_error (d_obj d1 i)"
    using False by (auto simp: d1_def amdtp_streaming_error_def)
  then have "process_tx_packets_intermediately env d i hs =
      (if amdtp_streaming_error (d_obj d1 i) \<or> off \<ge> length hs then d1
       else if amdtp_streaming_error (d_obj d2 i) then d2
       else d2\<lparr>d_callback := (d_callback d2)(i := Process_tx_packets)\<rparr>)"
    using False unfolding process_tx_packets_intermediately_def off_def [symmetric] d1_def [symmetric] Let_def
    by (auto simp: d2_def)
  then show ?thesis using two_parts_serve [OF le d1 d2] by simp
qed (simp add: process_tx_packets_intermediately_def serves_def steady_def)

lemma drop_tx_packets_initially_serves: "serves i (length hs) d (drop_tx_packets_initially env d i hs)"
proof (cases "packet_index (d_obj d i) < 0")
  case False
  define d1 where "d1 = drop_tx_packets env d i hs"
  have q: "quiet i d1 (set_stream d1 i ((d_obj d1 i)\<lparr>tx_event_starts := True\<rparr>))"
    by (intro quiet_set_stream) (simp_all add: same_setup_def)
  have q': "quiet i d2 (d2\<lparr>d_callback := f, tx_start := c\<rparr>)" for d2 f c by (simp add: quiet_def touches_def)
  have "quiet i d1 (drop_tx_packets_initially env d i hs)"
    using False q q' quiet_trans [OF q q'] unfolding drop_tx_packets_initially_def d1_def [symmetric] Let_def by simp
  then show ?thesis using serves_quiet_trans drop_tx_packets_serves d1_def by blast
qed (simp add: drop_tx_packets_initially_def serves_def steady_def)

interpretation skip_rx: batch_callback skip_rx_packets
  by unfold_locales (rule skip_rx_packets_serves, simp add: skip_rx_packets_def Let_def)

interpretation intermediate_rx: batch_callback process_rx_packets_intermediately
  by unfold_locales (rule process_rx_packets_intermediately_serves, simp add: process_rx_packets_intermediately_def)

interpretation process_rx: batch_callback process_rx_packets
  by unfold_locales (rule process_rx_packets_serves, simp add: process_rx_packets_def Let_def)

interpretation drop_tx_first: batch_callback drop_tx_packets_initially
  by unfold_locales (rule drop_tx_packets_initially_serves, simp add: drop_tx_packets_initially_def)

interpretation intermediate_tx: batch_callback process_tx_packets_intermediately
  by unfold_locales (rule process_tx_packets_intermediately_serves, simp add: process_tx_packets_intermediately_def)

interpretation process_tx: batch_callback process_tx_packets
  by unfold_locales (rule process_tx_packets_serves, simp add: process_tx_packets_def Let_def)

section \<open>Errors of a domain\<close>

lemmas callback_batches = skip_rx.batch intermediate_rx.batch process_rx.batch drop_tx_first.batch intermediate_tx.batch process_tx.batch

lemma call_sc_touches: "touches i d (call_sc env cb d i headers)"
  using callback_batches by (auto simp: call_sc_def serves_def split: sc_callback.splits)

lemma flush_completions_touches: "touches i d (flush_completions env d i)"
proof -
  have "touches i d (set_callback d i cb)" for cb by (simp add: set_callback_def touches_def)
  then show ?thesis
    using call_sc_touches touches_trans by (fastforce simp: flush_completions_def Let_def split: option.splits)
qed

text \<open>The streams have the same setup, and those outside of a set are the same.\<close>

definition same_domain :: "amdtp_domain \<Rightarrow> amdtp_domain \<Rightarrow> bool" where
  "same_domain d d' \<longleftrightarrow> d_streams d' = d_streams d \<and> d_irq_target d' = d_irq_target d \<and> d_held d' = d_held d \<and> d_buffer d' = d_buffer d \<and>
    replay_enable d' = replay_enable d \<and> (\<forall>j. same_setup (d_obj d j) (d_obj d' j))"

lemma same_domain_refl [simp]: "same_domain d d"
  by (simp add: same_domain_def)

lemma same_domain_trans: "same_domain d d1 \<Longrightarrow> same_domain d1 d2 \<Longrightarrow> same_domain d d2"
  by (simp add: same_domain_def same_setup_def)

lemma touches_same_domain: "touches i d d' \<Longrightarrow> same_domain d d'"
  unfolding touches_def same_domain_def by (metis same_setup_refl)

lemma flush_ctxs_same: "same_domain d (snd (flush_ctxs env is d))"
proof (induction env "is" d rule: flush_ctxs.induct)
  case (2 env i "is" d)
  define d1 where "d1 = (if d_irq_target d \<noteq> Some i \<and> s_running (d_obj d i) then flush_completions env d i else d)"
  have d1: "same_domain d d1" using touches_same_domain [OF flush_completions_touches] by (simp add: d1_def)
  have step: "flush_ctxs env (i # is) d = (if amdtp_streaming_error (d_obj d1 i) then (False, d1) else flush_ctxs env is d1)"
    by (simp add: d1_def Let_def)
  have "same_domain d1 (snd (flush_ctxs env is d1))" if "\<not> amdtp_streaming_error (d_obj d1 i)"
    using "2.IH" [OF d1_def] that by simp
  then show ?case unfolding step using same_domain_trans [OF d1] d1 by simp
qed simp

lemma flush_ctxs_ok:
  assumes "flush_ctxs env is d = (True, d')"
  shows "(\<forall>i \<in> set is. \<not> amdtp_streaming_error (d_obj d' i)) \<and>
    (\<forall>j. \<not> amdtp_streaming_error (d_obj d j) \<longrightarrow> \<not> amdtp_streaming_error (d_obj d' j))"
  using assms
proof (induction env "is" d arbitrary: d' rule: flush_ctxs.induct)
  case (2 env i "is" d)
  define d1 where "d1 = (if d_irq_target d \<noteq> Some i \<and> s_running (d_obj d i) then flush_completions env d i else d)"
  have "touches i d d1" using flush_completions_touches by (simp add: d1_def)
  then have others: "j \<noteq> i \<Longrightarrow> d_obj d1 j = d_obj d j" for j by (simp add: touches_def)
  have ok: "\<not> amdtp_streaming_error (d_obj d1 i)" and rest: "flush_ctxs env is d1 = (True, d')"
    using "2.prems" by (simp_all add: d1_def [symmetric] Let_def split: if_splits)
  from "2.IH" [OF d1_def _ ] ok rest have IH: "\<forall>i \<in> set is. \<not> amdtp_streaming_error (d_obj d' i)"
    "\<forall>j. \<not> amdtp_streaming_error (d_obj d1 j) \<longrightarrow> \<not> amdtp_streaming_error (d_obj d' j)" by blast+
  then show ?case using ok others by (metis set_ConsD)
qed simp

lemma cancel_running_same: "same_domain d (cancel_running env i d)"
  using touches_same_domain [OF cancel_stream_touches] by (simp add: cancel_running_def)

lemma cancel_running_error:
  "amdtp_streaming_error (d_obj d j) \<Longrightarrow> amdtp_streaming_error (d_obj (cancel_running env i d) j)"
  using cancel_stream_touches [of i d env] by (cases "j = i") (auto simp: cancel_running_def touches_def amdtp_streaming_error_def)

lemma fold_cancel:
  "same_domain d (fold (cancel_running env) is d) \<and>
   (\<forall>j. s_running (d_obj d j) \<and> (j \<in> set is \<or> amdtp_streaming_error (d_obj d j)) \<longrightarrow>
     amdtp_streaming_error (d_obj (fold (cancel_running env) is d) j))"
proof (induction "is" arbitrary: d)
  case (Cons i "is")
  have same: "same_domain d (cancel_running env i d)" by (rule cancel_running_same)
  then have run: "s_running (d_obj (cancel_running env i d) j) = s_running (d_obj d j)" for j
    by (simp add: same_domain_def same_setup_def)
  have "amdtp_streaming_error (d_obj (cancel_running env i d) i)" if "s_running (d_obj d i)"
    using that by (simp add: cancel_running_def amdtp_streaming_error_def)
  then show ?case
    using Cons.IH [of "cancel_running env i d"] same_domain_trans [OF same] run cancel_running_error by auto
qed simp

lemma process_ctxs_in_domain_cases:
  obtains d1 where "flush_ctxs env (d_streams d) d = (True, d1)" "process_ctxs_in_domain env d = d1"
  | d2 where "same_domain d d2" "process_ctxs_in_domain env d = fold (cancel_running env) (d_streams d) d2"
proof (cases "flush_ctxs env (d_streams d) d")
  case (Pair ok d1)
  define d2 where "d2 = (case d_irq_target d1 of Some t \<Rightarrow> cancel_running env t d1 | None \<Rightarrow> d1)"
  have "same_domain d d1" using flush_ctxs_same [of d env "d_streams d"] Pair by simp
  moreover have "same_domain d1 d2" using cancel_running_same by (simp add: d2_def split: option.splits)
  ultimately have d2: "same_domain d d2" by (rule same_domain_trans)
  then have "d_streams d2 = d_streams d" by (simp add: same_domain_def)
  then have "process_ctxs_in_domain env d = (if ok then d1 else fold (cancel_running env) (d_streams d) d2)"
    unfolding process_ctxs_in_domain_def Pair d2_def [symmetric] Let_def by (simp add: d2_def [symmetric])
  then show thesis using that Pair d2 by (cases ok) auto
qed

lemma process_ctxs_in_domain_same: "same_domain d (process_ctxs_in_domain env d)"
proof (cases rule: process_ctxs_in_domain_cases [of env d])
  case (1 d1)
  then show ?thesis using flush_ctxs_same [of d env "d_streams d"] by simp
next
  case (2 d2)
  then show ?thesis using same_domain_trans fold_cancel by metis
qed

lemma process_ctxs_in_domain_errors:
  "(\<forall>i \<in> set (d_streams d). \<not> amdtp_streaming_error (d_obj (process_ctxs_in_domain env d) i)) \<or>
   (\<forall>i \<in> set (d_streams d). s_running (d_obj d i) \<longrightarrow> amdtp_streaming_error (d_obj (process_ctxs_in_domain env d) i))"
proof (cases rule: process_ctxs_in_domain_cases [of env d])
  case (1 d1)
  then show ?thesis using flush_ctxs_ok [of env "d_streams d" d d1] by simp
next
  case (2 d2)
  then have "s_running (d_obj d2 i) = s_running (d_obj d i)" for i by (simp add: same_domain_def same_setup_def)
  then show ?thesis using 2 fold_cancel [of d2 env "d_streams d"] by auto
qed

text \<open>C28. All or nothing: after an interrupt of the target, whichever of its three callbacks runs and whatever the hardware reports for the contexts, either no
  stream of the domain has an error, or every running stream of the domain has been cancelled.\<close>

theorem irq_target_all_or_nothing:
  assumes "cb \<in> {Irq_target_callback_skip, Irq_target_callback_intermediately, Irq_target_callback}"
  shows "(\<forall>i \<in> set (d_streams d). \<not> amdtp_streaming_error (d_obj (context_callback env cb d t headers) i)) \<or>
    (\<forall>i \<in> set (d_streams d). s_running (d_obj d i) \<longrightarrow> amdtp_streaming_error (d_obj (context_callback env cb d t headers) i))"
proof -
  define d1 where "d1 = (if cb = Irq_target_callback_skip then skip_rx_packets env d t (map hd headers)
    else if cb = Irq_target_callback then process_rx_packets env d t (map hd headers)
    else process_rx_packets_intermediately env d t (map hd headers))"
  have "touches t d d1" using callback_batches by (auto simp: d1_def serves_def)
  from touches_same_domain [OF this]
  have d1: "d_streams d1 = d_streams d" "\<forall>i. s_running (d_obj d1 i) = s_running (d_obj d i)"
    by (simp_all add: same_domain_def same_setup_def)
  have "d_obj (context_callback env cb d t headers) = d_obj (process_ctxs_in_domain env d1)"
    using assms by (auto simp: context_callback_def irq_target_callback_def irq_target_callback_intermediately_def
        irq_target_callback_skip_def Let_def d1_def)
  then show ?thesis using process_ctxs_in_domain_errors [of d1 env] d1 by simp
qed

section \<open>Interrupts for periods\<close>

definition irq_count :: "queued_packet list \<Rightarrow> nat" where
  "irq_count ps = length (filter (\<lambda>(i, offset, p). pk_interrupt p) ps)"

lemma irq_count_simps [simp]: "irq_count [] = 0" "irq_count (q # ps) = (if pk_interrupt (snd (snd q)) then 1 else 0) + irq_count ps"
  by (simp_all add: irq_count_def split_beta)

lemma queue_out_packet_queued:
  assumes "queue_out_packet env d i tmpl irq = (None, d1)"
  shows "\<exists>offset p. d_queued d1 = d_queued d @ [(i, offset, p)] \<and> pk_interrupt p = irq"
    and "packet_descs (d_obj d1 i) = packet_descs (d_obj d i)" "d_irq_target d1 = d_irq_target d"
    and "events_per_period d1 = events_per_period d"
proof -
  have "ae_queue env i (d_queued d) = None"
    using assms by (cases "ae_queue env i (d_queued d)") (simp_all add: queue_out_packet_def queue_packet_def Let_def)
  then show "\<exists>offset p. d_queued d1 = d_queued d @ [(i, offset, p)] \<and> pk_interrupt p = irq"
      "packet_descs (d_obj d1 i) = packet_descs (d_obj d i)" "d_irq_target d1 = d_irq_target d" "events_per_period d1 = events_per_period d"
    using assms by (auto simp: queue_out_packet_def queue_packet_def Let_def)
qed

lemma count_next_cong: "packet_descs s = packet_descs s' \<Longrightarrow> count_next s desc n = count_next s' desc n"
  by (induction n arbitrary: desc) (simp_all add: next_packet_desc_def)

text \<open>The descriptors that the loop goes through.\<close>

primrec descs_from :: "amdtp_stream \<Rightarrow> nat \<Rightarrow> nat \<Rightarrow> pkt_desc list" where
  "descs_from s desc 0 = []"
| "descs_from s desc (Suc n) = packet_descs s ! desc # descs_from s (next_packet_desc s desc) n"

lemma descs_from_cong: "packet_descs s = packet_descs s' \<Longrightarrow> descs_from s desc n = descs_from s' desc n"
  by (induction n arbitrary: desc) (simp_all add: next_packet_desc_def)

text \<open>The step of the count of events.\<close>

lemma event_step:
  fixes P :: nat
  assumes "ec < P" "b \<le> P"
  shows "\<exists>irq ec'. (if ec + b \<ge> P then (ec + b - P, True) else (ec + b, False)) = (ec', irq) \<and> ec' < P \<and>
    (if irq then P else 0) + ec' = ec + b"
proof (cases "ec + b \<ge> P")
  case True
  then show ?thesis using assms by (intro exI [of _ True] exI [of _ "ec + b - P"]) simp
next
  case False
  then show ?thesis by (intro exI [of _ False] exI [of _ "ec + b"]) simp
qed

lemma queue_rx_loop_irqs:
  assumes "queue_rx_loop env i hlen True n desc ec d = (Some (desc', ec'), d')" "d_irq_target d = Some i" "ec < events_per_period d"
    and "\<forall>p \<in> set (descs_from (d_obj d i) desc n). d_data_blocks p \<le> events_per_period d"
  shows "\<exists>ps. d_queued d' = d_queued d @ ps \<and> length ps = n \<and> ec' < events_per_period d \<and>
    irq_count ps * events_per_period d + ec' = ec + count_next (d_obj d i) desc n"
  using assms
proof (induction n arbitrary: d desc ec)
  case (Suc n)
  let ?s = "d_obj d i" and ?P = "events_per_period d"
  obtain irq ec1 where step: "(if ec + d_data_blocks (packet_descs ?s ! desc) \<ge> ?P
      then (ec + d_data_blocks (packet_descs ?s ! desc) - ?P, True) else (ec + d_data_blocks (packet_descs ?s ! desc), False)) = (ec1, irq)"
    "ec1 < ?P" "(if irq then ?P else 0) + ec1 = ec + d_data_blocks (packet_descs ?s ! desc)"
    using event_step [of ec ?P "d_data_blocks (packet_descs ?s ! desc)"] Suc.prems(3,4) by (metis descs_from.simps(2) list.set_intros(1))
  obtain tmpl where loop: "queue_rx_loop env i hlen True (Suc n) desc ec d =
      (case queue_out_packet env d i tmpl irq of (Some err, d) \<Rightarrow> (None, cancel_stream env d i)
       | (None, d1) \<Rightarrow> queue_rx_loop env i hlen True n (next_packet_desc ?s desc) ec1 d1)"
    using step(1) Suc.prems(2) by (simp add: Let_def)
  obtain r d1 where q0: "queue_out_packet env d i tmpl irq = (r, d1)" by fastforce
  then have "r = None" using Suc.prems(1) unfolding loop q0 by (cases r) simp_all
  then have q: "queue_out_packet env d i tmpl irq = (None, d1)"
      and rest: "queue_rx_loop env i hlen True n (next_packet_desc ?s desc) ec1 d1 = (Some (desc', ec'), d')"
    using Suc.prems(1) q0 unfolding loop q0 by simp_all
  note q1 = queue_out_packet_queued [OF q]
  have cong: "descs_from (d_obj d1 i) k m = descs_from ?s k m" "count_next (d_obj d1 i) k m = count_next ?s k m" for k m
    using q1(2) descs_from_cong count_next_cong by blast+
  obtain ps where ps: "d_queued d' = d_queued d1 @ ps" "length ps = n" "ec' < ?P"
      "irq_count ps * ?P + ec' = ec1 + count_next ?s (next_packet_desc ?s desc) n"
    using Suc.IH [OF rest] Suc.prems step(2) q1(3,4) cong by auto
  obtain off p where p: "d_queued d1 = d_queued d @ [(i, off, p)]" "pk_interrupt p = irq" using q1(1) by blast
  show ?case
    using p ps step(3) by (intro exI [of _ "(i, off, p) # ps"]) (auto simp: algebra_simps)
qed auto

text \<open>The local variables of the function for outgoing packets.\<close>

lemma process_rx_packets_loop:
  assumes "\<not> packet_index (d_obj d i) < 0"
  obtains s1 d1 hlen where
    "s1 = generate_rx_packet_descs (replay_enable d) (replay_on_the_fly d)
       (case rx_replay_target (d_obj d i) of Some t \<Rightarrow> Some (d_obj d t) | None \<Rightarrow> None) (d_obj d i) (packet_descs_cursor (d_obj d i)) hs"
    "d1 = process_ctx_payloads env (set_stream d i s1) i (packet_descs_cursor (d_obj d i)) (length hs)"
    "process_rx_packets env d i hs =
      (case queue_rx_loop env i hlen (if d_irq_target d1 = Some i then (case d_pcm d1 i of None \<Rightarrow> True | Some pcm \<Rightarrow> \<not> no_period_wakeup pcm) else False)
              (length hs) (packet_descs_cursor (d_obj d i)) (rx_event_count (d_obj d i)) d1 of
         (None, d) \<Rightarrow> d
       | (Some (desc, ec), d) \<Rightarrow> set_stream d i ((d_obj d i)\<lparr>rx_event_count := ec, packet_descs_cursor := desc\<rparr>))"
  using assms that unfolding process_rx_packets_def Let_def by (simp add: if_False)

lemma process_ctx_payloads_keeps:
  assumes "d1 = process_ctx_payloads env d i desc cnt"
  shows "packet_descs (d_obj d1 i) = packet_descs (d_obj d i)" "d_irq_target d1 = d_irq_target d" "events_per_period d1 = events_per_period d"
    "d_queued d1 = d_queued d" "packet_index (d_obj d1 i) = packet_index (d_obj d i)"
    "(case d_pcm d1 i of None \<Rightarrow> True | Some pcm \<Rightarrow> \<not> no_period_wakeup pcm) = (case d_pcm d i of None \<Rightarrow> True | Some pcm \<Rightarrow> \<not> no_period_wakeup pcm)"
  unfolding assms by (auto simp: process_ctx_payloads_def update_pcm_pointers_def Let_def split: option.splits)

lemma queue_rx_loop_cancels:
  "fst (queue_rx_loop env i hlen hw n desc ec d) = None \<Longrightarrow> packet_index (d_obj (snd (queue_rx_loop env i hlen hw n desc ec d)) i) = -1"
proof (induction n arbitrary: d desc ec)
  case (Suc n)
  obtain ec' irq tmpl where step: "queue_rx_loop env i hlen hw (Suc n) desc ec d =
      (case queue_out_packet env d i tmpl irq of (Some err, d) \<Rightarrow> (None, cancel_stream env d i)
       | (None, d1) \<Rightarrow> queue_rx_loop env i hlen hw n (next_packet_desc (d_obj d i) desc) ec' d1)"
    by (fastforce simp: Let_def split_beta)
  obtain r d1 where q: "queue_out_packet env d i tmpl irq = (r, d1)" by fastforce
  show ?case using Suc.prems Suc.IH [of "next_packet_desc (d_obj d i) desc" ec' d1] unfolding step q by (cases r) simp_all
qed simp

lemma div_mod_unique: "c * P + e = x \<Longrightarrow> e < P \<Longrightarrow> c = x div P \<and> e = x mod (P :: nat)"
  by auto


section \<open>Examples\<close>

text \<open>A domain with an outgoing and an incoming stream, for devices that are idle and queues that take every packet, or none of the incoming
  stream.\<close>

definition example_domain :: amdtp_domain where
  "example_domain = \<lparr>d_streams = [0, 1], d_obj = (\<lambda>i. if i = 0 then example_stream else example_receiver),
     d_callback = (\<lambda>i. if i = 0 then Irq_target_callback else Process_tx_packets), d_pcm = (\<lambda>i. None),
     d_buffer = (\<lambda>i. \<lparr>iso_buffer = \<lparr>direction = DMA_TO_DEVICE, pages = None, dma_addrs = None, page_count = 0\<rparr>, buffer_packets = None\<rparr>),
     d_channel = (\<lambda>i. (0, 0)), d_irq_target = Some 0, events_per_period = 12, events_per_buffer = 36, tx_init_skip = 0, tx_start = 0,
     rx_start = 0, replay_enable = False, replay_on_the_fly = False, d_queued = [], d_works = [], d_xruns = [], d_held = {#}\<rparr>"

definition example_env :: "bool \<Rightarrow> amdtp_env" where
  "example_env fails = \<lparr>ae_queue = (\<lambda>i q. if i = 1 \<and> fails then Some EINVAL else None), ae_cycle_time = Inr 0,
     ae_flush = (\<lambda>i. if fails then Some [[0x00080000, 100, 0x00020000, 0x90010000]] else None), ae_work = True, ae_junk = 0, ae_node_id = 0xffc0,
     ae_buffer = (\<lambda>i. \<lparr>be_packets = True, be_arr = True, be_bulk = (\<lambda>n. [0..<n]), be_arr2 = True, be_dma_map = (\<lambda>p. Some (of_nat (p * 4096))),
       be_cache_bytes = 64\<rparr>),
     ae_context = (\<lambda>i. if i = 1 \<and> fails then Some EBUSY else None), ae_seq = (\<lambda>i. True), ae_descs = (\<lambda>i. True), ae_start = (\<lambda>i. None)\<rparr>"

lemma queue_rx_loop_succeeds:
  assumes "\<And>q. ae_queue env i q = None" "0 \<le> packet_index (d_obj d i)"
  shows "fst (queue_rx_loop env i hlen hw n desc ec d) \<noteq> None \<and> 0 \<le> packet_index (d_obj (snd (queue_rx_loop env i hlen hw n desc ec d)) i)"
  using assms(2)
proof (induction n arbitrary: d desc ec)
  case (Suc n)
  obtain ec' irq tmpl where step: "queue_rx_loop env i hlen hw (Suc n) desc ec d =
      (case queue_out_packet env d i tmpl irq of (Some err, d) \<Rightarrow> (None, cancel_stream env d i)
       | (None, d1) \<Rightarrow> queue_rx_loop env i hlen hw n (next_packet_desc (d_obj d i) desc) ec' d1)"
    by (fastforce simp: Let_def split_beta)
  obtain d1 where q: "queue_out_packet env d i tmpl irq = (None, d1)" and "0 \<le> packet_index (d_obj d1 i)"
    using Suc.prems assms(1) by (auto simp: queue_out_packet_def queue_packet_def Let_def)
  then show ?case using Suc.IH [of d1] unfolding step q by simp
qed simp

lemma process_rx_packets_succeeds:
  assumes "\<And>q. ae_queue env i q = None" "0 \<le> packet_index (d_obj d i)"
  shows "\<not> amdtp_streaming_error (d_obj (process_rx_packets env d i hs) i)"
proof -
  obtain s1 d1 hlen where s1: "s1 = generate_rx_packet_descs (replay_enable d) (replay_on_the_fly d)
       (case rx_replay_target (d_obj d i) of Some t \<Rightarrow> Some (d_obj d t) | None \<Rightarrow> None) (d_obj d i) (packet_descs_cursor (d_obj d i)) hs"
    and d1: "d1 = process_ctx_payloads env (set_stream d i s1) i (packet_descs_cursor (d_obj d i)) (length hs)"
    and step: "process_rx_packets env d i hs =
      (case queue_rx_loop env i hlen (if d_irq_target d1 = Some i then (case d_pcm d1 i of None \<Rightarrow> True | Some pcm \<Rightarrow> \<not> no_period_wakeup pcm) else False)
              (length hs) (packet_descs_cursor (d_obj d i)) (rx_event_count (d_obj d i)) d1 of
         (None, d) \<Rightarrow> d
       | (Some (desc, ec), d) \<Rightarrow> set_stream d i ((d_obj d i)\<lparr>rx_event_count := ec, packet_descs_cursor := desc\<rparr>))"
    using process_rx_packets_loop [of d i hs env] assms(2) by (metis not_less)
  have "0 \<le> packet_index (d_obj d1 i)" using assms(2) generate_rx_setup(2) process_ctx_payloads_keeps(5) [OF d1] s1 by simp
  note ok = queue_rx_loop_succeeds [OF assms(1) this]
  have "\<not> amdtp_streaming_error (d_obj (case x of (None, d) \<Rightarrow> d
      | (Some (desc, ec), d) \<Rightarrow> set_stream d i ((d_obj d i)\<lparr>rx_event_count := ec, packet_descs_cursor := desc\<rparr>)) i)"
    if "fst x \<noteq> None \<and> 0 \<le> packet_index (d_obj (snd x) i)" for x
    using that by (cases x) (auto simp: amdtp_streaming_error_def)
  then show ?thesis unfolding step using ok by blast
qed

lemma descs_from_ring:
  assumes "desc < length (packet_descs s)"
  shows "descs_from s desc n = ring_descs s desc n"
  using assms
proof (induction n arbitrary: desc)
  case (Suc n)
  then have "(desc + 1) mod length (packet_descs s) < length (packet_descs s)" by (intro mod_less_divisor) auto
  from Suc.IH [OF this] show ?case
    using Suc.prems by (simp add: next_packet_desc_def ring_descs_def map_upt_Suc mod_add_left_eq del: upt_Suc)
qed (simp add: ring_descs_def)

lemma count_next_descs_from: "count_next s desc n = sum_list (map d_data_blocks (descs_from s desc n))"
  by (induction n arbitrary: desc) simp_all

lemma example_sent_blocks:
  "map d_data_blocks (descs_from (generate_rx_packet_descs False False None example_stream 0 [0, 1]) 0 2) = [8, 8]"
  (is "map _ (descs_from ?s 0 2) = _")
proof -
  have "0 < length (packet_descs ?s)"
    by (simp add: generate_rx_packet_descs_def Let_def split_beta rx_packet_def pool_seq_descs_keeps) (simp add: example_stream_def)
  then show ?thesis using descs_from_ring [of 0 ?s 2] example_sent_packets by simp
qed


theorem irq_target_all_or_nothing_witness:
  "let d' = context_callback (example_env True) Irq_target_callback example_domain 0 [[0], [1]] in
    (\<not> amdtp_streaming_error (d_obj d' 0) \<and> \<not> amdtp_streaming_error (d_obj d' 1)) \<or>
    (amdtp_streaming_error (d_obj d' 0) \<and> amdtp_streaming_error (d_obj d' 1))"
proof -
  have "d_streams example_domain = [0, 1]" "s_running (d_obj example_domain 0)" "s_running (d_obj example_domain 1)"
    by (simp_all add: example_domain_def example_stream_def example_receiver_def)
  then show ?thesis using irq_target_all_or_nothing [of Irq_target_callback example_domain "example_env True" 0 "[[0], [1]]"] by (simp add: Let_def)
qed

text \<open>Without a PCM substream the number of events per period stays zero in the domain, since the starting function keeps its own
  default to itself.  Then every packet of the target has an interrupt.\<close>

lemma zero_period_interrupts_always:
  assumes "queue_rx_loop env i hlen True n desc ec d = (Some (desc', ec'), d')" "d_irq_target d = Some i" "events_per_period d = 0"
  shows "\<exists>ps. d_queued d' = d_queued d @ ps \<and> length ps = n \<and> irq_count ps = n"
  using assms
proof (induction n arbitrary: d desc ec)
  case (Suc n)
  let ?s = "d_obj d i"
  obtain tmpl ec1 where loop: "queue_rx_loop env i hlen True (Suc n) desc ec d =
      (case queue_out_packet env d i tmpl True of (Some err, d) \<Rightarrow> (None, cancel_stream env d i)
       | (None, d1) \<Rightarrow> queue_rx_loop env i hlen True n (next_packet_desc ?s desc) ec1 d1)"
    using Suc.prems(2,3) by (simp add: Let_def)
  obtain r d1 where q0: "queue_out_packet env d i tmpl True = (r, d1)" by fastforce
  then have "r = None" using Suc.prems(1) unfolding loop q0 by (cases r) simp_all
  then have q: "queue_out_packet env d i tmpl True = (None, d1)"
      and rest: "queue_rx_loop env i hlen True n (next_packet_desc ?s desc) ec1 d1 = (Some (desc', ec'), d')"
    using Suc.prems(1) q0 unfolding loop q0 by simp_all
  note q1 = queue_out_packet_queued [OF q]
  obtain ps where ps: "d_queued d' = d_queued d1 @ ps" "length ps = n" "irq_count ps = n"
    using Suc.IH [OF rest] Suc.prems q1(3,4) by auto
  obtain off p where p: "d_queued d1 = d_queued d @ [(i, off, p)]" "pk_interrupt p" using q1(1) by blast
  show ?case using p ps by (intro exI [of _ "(i, off, p) # ps"]) simp
qed simp

section \<open>Starting a stream\<close>

text \<open>Everything but the stream itself and the logs is as before.\<close>

definition only_stream :: "nat \<Rightarrow> amdtp_domain \<Rightarrow> amdtp_domain \<Rightarrow> bool" where
  "only_stream i d d' \<longleftrightarrow> d_streams d' = d_streams d \<and> d_irq_target d' = d_irq_target d \<and> replay_enable d' = replay_enable d \<and>
    (\<forall>j. j \<noteq> i \<longrightarrow> d_obj d' j = d_obj d j) \<and> s_direction (d_obj d' i) = s_direction (d_obj d i)"

lemma only_stream_refl [simp]: "only_stream i d d"
  by (simp add: only_stream_def)

lemma only_stream_trans: "only_stream i d d1 \<Longrightarrow> only_stream i d1 d2 \<Longrightarrow> only_stream i d d2"
  by (simp add: only_stream_def)

lemma touches_only_stream: "touches i d d' \<Longrightarrow> only_stream i d d'"
  by (simp add: touches_def only_stream_def same_setup_def)

lemma queue_idle_packet_queues:
  assumes "queue_idle_packet env k i d = (r, d')"
  shows "case r of None \<Rightarrow> queues i 1 d d' | Some err \<Rightarrow> d' = d"
proof -
  obtain params irq where "queue_packet env d i params irq = (r, d')"
    using assms by (auto simp: queue_idle_packet_def queue_in_packet_def queue_out_packet_def Let_def split: if_splits)
  then show ?thesis by (rule queue_packet_serves)
qed

lemma queue_idle_packet_index:
  assumes "queue_idle_packet env k i d = (None, d')"
  shows "packet_index (d_obj d' i) =
    (if packet_index (d_obj d i) + 1 \<ge> int (queue_size (d_obj d i)) then 0 else packet_index (d_obj d i) + 1)"
proof -
  obtain params irq where q: "queue_packet env d i params irq = (None, d')"
    using assms by (auto simp: queue_idle_packet_def queue_in_packet_def queue_out_packet_def Let_def split: if_splits)
  then have "ae_queue env i (d_queued d) = None"
    by (cases "ae_queue env i (d_queued d)") (simp_all add: queue_packet_def Let_def)
  then show ?thesis using q by (auto simp: queue_packet_def Let_def)
qed

text \<open>The idle loop comes to an end.  Without an error it has queued every packet buffer from the first place on.\<close>

lemma queue_idle_loop_returns:
  assumes "0 \<le> packet_index (d_obj d i)"
  shows "\<exists>err d'. queue_idle_loop env k i d = Some (err, d') \<and> touches i d d' \<and>
    (err = None \<and> steady i d \<longrightarrow> queued_ring i (nat (int (queue_size (d_obj d i)) - packet_index (d_obj d i))) d d')"
  using assms
proof (induction "nat (int (queue_size (d_obj d i)) - packet_index (d_obj d i))" arbitrary: d rule: less_induct)
  case less
  obtain r d1 where q: "queue_idle_packet env k i d = (r, d1)" by fastforce
  note q1 = queue_idle_packet_queues [OF q]
  show ?case
  proof (cases r)
    case (Some err)
    then show ?thesis using q q1 by (simp add: queue_idle_loop.simps [of env k i d])
  next
    case None
    then have d1: "touches i d d1" "steady i d \<Longrightarrow> queued_ring i 1 d d1" using q1 by (simp_all add: queues_def)
    have same: "queue_size (d_obj d1 i) = queue_size (d_obj d i)" using d1 by (simp add: touches_def same_setup_def)
    note idx = queue_idle_packet_index [OF q [unfolded None]]
    show ?thesis
    proof (cases "packet_index (d_obj d1 i) > 0")
      case False
      then have "packet_index (d_obj d i) + 1 \<ge> int (queue_size (d_obj d i))" using idx less.prems by (auto split: if_splits)
      then have "steady i d \<Longrightarrow> nat (int (queue_size (d_obj d i)) - packet_index (d_obj d i)) = 1" by (auto simp: steady_def nat_eq_iff)
      then show ?thesis using False q None d1 by (simp add: queue_idle_loop.simps [of env k i d])
    next
      case True
      then have idx1: "packet_index (d_obj d1 i) = packet_index (d_obj d i) + 1" "packet_index (d_obj d i) + 1 < int (queue_size (d_obj d i))"
        using idx by (auto split: if_splits)
      then have "nat (int (queue_size (d_obj d1 i)) - packet_index (d_obj d1 i)) < nat (int (queue_size (d_obj d i)) - packet_index (d_obj d i))"
        using same by linarith
      from less.hyps [OF this] True obtain err d' where IH: "queue_idle_loop env k i d1 = Some (err, d')" "touches i d1 d'"
          "err = None \<and> steady i d1 \<Longrightarrow> queued_ring i (nat (int (queue_size (d_obj d1 i)) - packet_index (d_obj d1 i))) d1 d'"
        by auto
      have "queued_ring i (nat (int (queue_size (d_obj d i)) - packet_index (d_obj d i))) d d'" if "err = None" "steady i d"
      proof -
        have "queued_ring i (1 + nat (int (queue_size (d_obj d1 i)) - packet_index (d_obj d1 i))) d d'"
          using queued_ring_trans [OF d1(1) d1(2) IH(3)] queued_ring_steady [OF d1(1)] d1(2) that by blast
        moreover have "1 + nat (int (queue_size (d_obj d1 i)) - packet_index (d_obj d1 i)) =
            nat (int (queue_size (d_obj d i)) - packet_index (d_obj d i))" using idx1 same by linarith
        ultimately show ?thesis by simp
      qed
      then show ?thesis
        using True q None IH(1) touches_trans [OF d1(1) IH(2)] by (simp add: queue_idle_loop.simps [of env k i d])
    qed
  qed
qed

text \<open>What a running stream holds.\<close>

definition holdings :: "amdtp_domain \<Rightarrow> nat \<Rightarrow> amdtp_res multiset" where
  "holdings d i =
    {#Res_buffer i, Res_context i, Res_descs i#} +
    (if s_direction (d_obj d i) = AMDTP_OUT_STREAM \<or> replay_enable d then {#Res_seq i#} else {#})"

text \<open>The result of starting: everything is held, or nothing more than before.\<close>

definition started :: "nat \<Rightarrow> errno option \<Rightarrow> amdtp_domain \<Rightarrow> amdtp_domain \<Rightarrow> bool" where
  "started i err d d' \<longleftrightarrow> only_stream i d d' \<and>
    (if err = None then s_running (d_obj d' i) \<and> d_held d' = d_held d + holdings d i
     else \<not> s_running (d_obj d' i) \<and> d_held d' = d_held d)"

lemma hold_simps [simp]:
  "d_obj (hold r d) = d_obj d" "d_streams (hold r d) = d_streams d" "d_irq_target (hold r d) = d_irq_target d"
  "replay_enable (hold r d) = replay_enable d" "d_held (hold r d) = add_mset r (d_held d)"
  "d_obj (release_res r d) = d_obj d" "d_streams (release_res r d) = d_streams d" "d_irq_target (release_res r d) = d_irq_target d"
  "replay_enable (release_res r d) = replay_enable d" "d_held (release_res r d) = d_held d - {#r#}"
  "d_obj (release_buffer i d) = d_obj d" "d_streams (release_buffer i d) = d_streams d" "d_irq_target (release_buffer i d) = d_irq_target d"
  "replay_enable (release_buffer i d) = replay_enable d" "d_held (release_buffer i d) = d_held d - {#Res_buffer i#}"
  "d_obj (set_callback d i cb) = d_obj d" "d_streams (set_callback d i cb) = d_streams d" "d_irq_target (set_callback d i cb) = d_irq_target d"
  "replay_enable (set_callback d i cb) = replay_enable d" "d_held (set_callback d i cb) = d_held d"
  by (simp_all add: hold_def release_res_def release_buffer_def set_callback_def)

lemma release_seq_simps [simp]:
  "d_obj (release_seq i d) = d_obj d" "d_streams (release_seq i d) = d_streams d" "d_irq_target (release_seq i d) = d_irq_target d"
  "replay_enable (release_seq i d) = replay_enable d"
  "d_held (release_seq i d) = d_held d - (if s_direction (d_obj d i) = AMDTP_OUT_STREAM \<or> replay_enable d then {#Res_seq i#} else {#})"
  by (simp_all add: release_seq_def)

lemma err_context_simps:
  "only_stream i d (err_context i d)" "\<not> s_running (d_obj (err_context i d) i)"
  "d_held (err_context i d) = d_held d -
    (if s_direction (d_obj d i) = AMDTP_OUT_STREAM \<or> replay_enable d then {#Res_seq i#} else {#}) - {#Res_context i#} - {#Res_buffer i#}"
  by (simp_all add: err_context_def Let_def only_stream_def)

lemma err_pkt_descs_simps:
  "only_stream i d (err_pkt_descs i d)" "\<not> s_running (d_obj (err_pkt_descs i d) i)"
  "d_held (err_pkt_descs i d) = d_held d - {#Res_descs i#} -
    (if s_direction (d_obj d i) = AMDTP_OUT_STREAM \<or> replay_enable d then {#Res_seq i#} else {#}) - {#Res_context i#} - {#Res_buffer i#}"
  using err_context_simps [of i "release_res (Res_descs i) (set_stream d i ((d_obj d i)\<lparr>packet_descs := []\<rparr>))"]
  by (simp_all add: err_pkt_descs_def only_stream_def)

text \<open>The last part of the start, from a state that holds everything but the descriptors.\<close>

lemma start_queueing_started:
  assumes "d_held d = h + (holdings d i - {#Res_descs i#})" "s_running (d_obj d i)"
  shows "\<exists>err d'. start_queueing env i k d = Some (err, d') \<and> only_stream i d d' \<and>
    (if err = None then s_running (d_obj d' i) \<and> d_held d' = h + holdings d i else \<not> s_running (d_obj d' i) \<and> d_held d' = h)"
proof -
  define s where "s = (d_obj d i)\<lparr>s_tag := if CIP_NO_HEADER \<in> s_flags (d_obj d i) then 0 else 1\<rparr>"
  define d1 where "d1 = set_stream d i s"
  have d1: "only_stream i d d1" "d_held d1 = d_held d" "holdings d1 i = holdings d i" "s_running (d_obj d1 i)"
    using assms(2) by (simp_all add: d1_def s_def only_stream_def holdings_def)
  show ?thesis
  proof (cases "ae_descs env i")
    case False
    then have "start_queueing env i k d = Some (Some ENOMEM, err_context i d1)" by (simp add: start_queueing_def Let_def d1_def s_def)
    moreover have "d_held (err_context i d1) = h" using err_context_simps(3) [of i d1] d1(2) assms(1) by (simp add: holdings_def d1_def s_def)
    ultimately show ?thesis using err_context_simps(2) [of i d1] only_stream_trans [OF d1(1) err_context_simps(1)] by simp
  next
    case True
    define d2 where "d2 = hold (Res_descs i) (set_stream d1 i
        (s\<lparr>packet_descs := replicate (queue_size s) zero_desc, packet_descs_cursor := 0, packet_index := 0\<rparr>))"
    have d2: "only_stream i d d2" "d_held d2 = h + holdings d2 i" "holdings d2 i = holdings d i" "s_running (d_obj d2 i)" "packet_index (d_obj d2 i) = 0"
      using assms by (auto simp: d2_def d1_def s_def only_stream_def holdings_def)
    obtain err d3 where loop: "queue_idle_loop env k i d2 = Some (err, d3)" "touches i d2 d3"
      using queue_idle_loop_returns [of d2 i env k] d2(5) by auto
    have d3: "only_stream i d d3" "d_held d3 = h + holdings d3 i" "holdings d3 i = holdings d i" "s_running (d_obj d3 i)"
      using only_stream_trans [OF d2(1) touches_only_stream [OF loop(2)]] loop(2) d2(2,3,4)
      by (simp_all add: touches_def same_setup_def holdings_def)
    have fail: "only_stream i d (err_pkt_descs i d4) \<and> \<not> s_running (d_obj (err_pkt_descs i d4) i) \<and> d_held (err_pkt_descs i d4) = h"
      if "only_stream i d d4" "d_held d4 = h + holdings d4 i" for d4
      using err_pkt_descs_simps [of i d4] only_stream_trans [OF that(1)] that(2) by (auto simp: holdings_def)
    define d4 where "d4 = set_stream d3 i ((d_obj d3 i)\<lparr>ready_processing := False\<rparr>)"
    have d4: "only_stream i d d4" "d_held d4 = h + holdings d4 i" "holdings d4 i = holdings d i" "s_running (d_obj d4 i)"
      using d3 by (simp_all add: d4_def only_stream_def holdings_def)
    have step: "start_queueing env i k d = (case err of Some e \<Rightarrow> Some (Some e, err_pkt_descs i d3)
        | None \<Rightarrow> (case ae_start env i of Some e \<Rightarrow> Some (Some e, err_pkt_descs i d4) | None \<Rightarrow> Some (None, d4)))"
      unfolding start_queueing_def Let_def s_def [symmetric] d1_def [symmetric] d2_def [symmetric] loop(1)
      using True by (cases err; cases "ae_start env i") (simp_all add: d4_def)
    show ?thesis
    proof (cases err)
      case (Some e)
      then show ?thesis using fail [OF d3(1,2)] unfolding step by simp
    next
      case None
      then show ?thesis using fail [OF d4(1,2)] d4 unfolding step by (cases "ae_start env i") simp_all
    qed
  qed
qed

lemma direction_cases: "x \<noteq> AMDTP_IN_STREAM \<longleftrightarrow> x = AMDTP_OUT_STREAM"
  by (cases x) simp_all

lemma amdtp_stream_start_started:
  assumes "\<not> s_running (d_obj d i)" "Res_seq i \<notin># d_held d"
  shows "\<exists>err d'. amdtp_stream_start env d i q k = Some (err, d') \<and> started i err d d'"
proof (cases "data_block_quadlets (d_obj d i) < 1 \<or> s_direction (d_obj d i) = AMDTP_IN_STREAM \<and> d_irq_target d = Some i")
  case True
  then show ?thesis using assms by (auto simp: amdtp_stream_start_def started_def Let_def)
next
  case False
  define s where "s = (d_obj d i)\<lparr>data_block_counter := if s_direction (d_obj d i) = AMDTP_IN_STREAM then UINT_MAX else 0\<rparr>"
  define d1 where "d1 = set_stream d i s"
  define chs :: nat where "chs = (if s_direction s = AMDTP_IN_STREAM then if CIP_NO_HEADER \<notin> s_flags s then 16 else 8 else 4)"
  define mps where "mps = amdtp_stream_get_max_ctx_payload_size s"
  obtain err buf ev where buf: "iso_packets_buffer_init (ae_buffer env i) (d_buffer d1 i) q mps
      (if s_direction s = AMDTP_IN_STREAM then DMA_FROM_DEVICE else DMA_TO_DEVICE) = (err, buf, ev)" by (metis prod_cases3)
  define d2 where "d2 = d1\<lparr>d_buffer := (d_buffer d1)(i := buf)\<rparr>"
  have d2: "only_stream i d d2" "d_held d2 = d_held d" "\<not> s_running (d_obj d2 i)"
    using assms by (simp_all add: d2_def d1_def s_def only_stream_def)
  define s3 where "s3 = s\<lparr>queue_size := q\<rparr>"
  define d3 where "d3 = hold (Res_buffer i) (set_stream d2 i s3)"
  define s4 where "s4 = amdtp_stream_update env (s3\<lparr>s_running := True\<rparr>)"
  define d4 where "d4 = hold (Res_context i) (set_callback (set_stream d3 i s4) i First_callback)"
  have c: "(s_running (d_obj d i) \<or> data_block_quadlets (d_obj d i) < 1) = False"
    "(s_direction (d_obj d i) = AMDTP_IN_STREAM \<and> d_irq_target d = Some i) = False" using False assms by auto
  have step: "amdtp_stream_start env d i q k =
      (case err of
         Some e \<Rightarrow> Some (Some e, d2)
       | None \<Rightarrow>
           (case ae_context env i of
              Some e \<Rightarrow> Some (Some e, release_buffer i d3)
            | None \<Rightarrow>
                (case init_ctx_data env i chs mps d4 of
                   (Some e, d) \<Rightarrow> Some (Some e, err_context i d)
                 | (None, d) \<Rightarrow> start_queueing env i k d)))"
    unfolding amdtp_stream_start_def Let_def c if_False s_def [symmetric] d1_def [symmetric] chs_def [symmetric] mps_def [symmetric]
      buf prod.case d2_def [symmetric] s3_def [symmetric] d3_def [symmetric] s4_def [symmetric] d4_def [symmetric] ..
  have d3: "only_stream i d d3" "d_held d3 = add_mset (Res_buffer i) (d_held d)" "\<not> s_running (d_obj d3 i)"
    using d2 by (simp_all add: d3_def s3_def s_def only_stream_def assms)
  have d4: "only_stream i d d4" "d_held d4 = {#Res_context i, Res_buffer i#} + d_held d" "s_running (d_obj d4 i)"
    using d3 by (simp_all add: d4_def s4_def s3_def s_def only_stream_def amdtp_stream_update_def)
  obtain e5 d5 where init: "init_ctx_data env i chs mps d4 = (e5, d5)" by fastforce
  have d5: "only_stream i d4 d5" "s_running (d_obj d5 i)" "e5 \<noteq> None \<longrightarrow> d_held d5 = d_held d4"
    "e5 = None \<longrightarrow> d_held d5 = d_held d + (holdings d5 i - {#Res_descs i#})"
    using init d4 by (auto simp: init_ctx_data_def Let_def only_stream_def holdings_def direction_cases split: if_splits)
  note d5_frame = only_stream_trans [OF d4(1) d5(1)]
  have hold5: "holdings d5 i = holdings d i" using d5_frame by (simp add: holdings_def only_stream_def)
  show ?thesis
  proof (cases err)
    case (Some e)
    then show ?thesis using d2 unfolding step by (simp add: started_def)
  next
    case None
    show ?thesis
    proof (cases "ae_context env i")
      case (Some e)
      then show ?thesis using None d3 unfolding step by (simp add: started_def only_stream_def)
    next
      case ctx: None
      show ?thesis
      proof (cases e5)
        case (Some e)
        then have "d_held (err_context i d5) = d_held d"
          using err_context_simps(3) [of i d5] d5(3) d4(2) assms(2) by (simp add: diff_single_trivial)
        then show ?thesis
          using Some None ctx init err_context_simps(2) [of i d5] only_stream_trans [OF d5_frame err_context_simps(1)] unfolding step
          by (simp add: started_def)
      next
        case e5: None
        from start_queueing_started [of d5 "d_held d" i env k] d5(2,4) e5
        show ?thesis
          using None ctx init e5 hold5 only_stream_trans [OF d5_frame] unfolding step by (fastforce simp: started_def)
      qed
    qed
  qed
qed

section \<open>Starting and stopping a domain\<close>

text \<open>The running streams are among \<open>is\<close>, and what is held is what they hold.\<close>

definition held_by :: "amdtp_domain \<Rightarrow> nat \<Rightarrow> amdtp_res multiset" where
  "held_by d i = (if s_running (d_obj d i) then holdings d i else {#})"

definition balanced :: "nat list \<Rightarrow> amdtp_domain \<Rightarrow> bool" where
  "balanced is d \<longleftrightarrow> distinct is \<and> (\<forall>i. s_running (d_obj d i) \<longrightarrow> i \<in> set is) \<and> d_held d = sum_list (map (held_by d) is)"

lemma sum_list_update:
  fixes f g :: "nat \<Rightarrow> amdtp_res multiset"
  assumes "distinct xs" "i \<in> set xs" "\<And>j. j \<noteq> i \<Longrightarrow> g j = f j"
  shows "sum_list (map f xs) + g i = sum_list (map g xs) + f i"
  using assms(1,2)
proof (induction xs)
  case (Cons x xs)
  show ?case
  proof (cases "x = i")
    case True
    then have "g y = f y" if "y \<in> set xs" for y using Cons.prems assms(3) [of y] that by auto
    then have "sum_list (map g xs) = sum_list (map f xs)" by (intro arg_cong [of _ _ sum_list] map_cong refl) simp
    then show ?thesis using True by (simp add: ac_simps)
  next
    case False
    then show ?thesis using Cons assms(3) [of x] by (auto simp: ac_simps)
  qed
qed simp

lemma held_by_only_stream: "only_stream i d d' \<Longrightarrow> j \<noteq> i \<Longrightarrow> held_by d' j = held_by d j"
  by (simp add: only_stream_def held_by_def holdings_def)

lemma holdings_only_stream: "only_stream i d d' \<Longrightarrow> holdings d' j = holdings d j"
  by (cases "j = i") (simp_all add: only_stream_def holdings_def)

lemma balanced_started:
  assumes "balanced is d" "i \<in> set is" "\<not> s_running (d_obj d i)" "started i err d d'"
  shows "balanced is d'"
proof -
  have only: "only_stream i d d'" using assms(4) by (simp add: started_def)
  have "d_held d + held_by d' i = sum_list (map (held_by d') is) + held_by d i"
    using sum_list_update [of "is" i "held_by d'" "held_by d"] held_by_only_stream [OF only] assms(1,2) by (simp add: balanced_def)
  moreover have "held_by d i = {#}" using assms(3) by (simp add: held_by_def)
  moreover have "d_held d' = d_held d + held_by d' i"
    using assms(4) holdings_only_stream [OF only] by (cases err) (simp_all add: started_def held_by_def)
  moreover have "s_running (d_obj d' j) \<longrightarrow> j \<in> set is" for j
    using assms(1,2) only by (cases "j = i") (auto simp: balanced_def only_stream_def)
  ultimately show ?thesis using assms(1) by (simp add: balanced_def)
qed

lemma not_held: "balanced is d \<Longrightarrow> \<not> s_running (d_obj d i) \<Longrightarrow> Res_seq i \<notin># d_held d"
proof -
  assume b: "balanced is d" and i: "\<not> s_running (d_obj d i)"
  have "Res_seq i \<notin># held_by d j" for j using i by (cases "j = i") (auto simp: held_by_def holdings_def)
  then have "Res_seq i \<notin># sum_list (map (held_by d) is)" by (induction "is") auto
  then show ?thesis using b by (simp add: balanced_def)
qed

lemma start_streams_balanced:
  assumes "balanced all d" "distinct is" "set is \<subseteq> set all" "\<forall>i \<in> set is. \<not> s_running (d_obj d i)"
  shows "\<exists>err d'. start_streams env q k is d = Some (err, d') \<and> balanced all d' \<and> d_streams d' = d_streams d \<and>
    d_irq_target d' = d_irq_target d \<and> (\<forall>j. j \<notin> set is \<longrightarrow> d_obj d' j = d_obj d j) \<and>
    (err = None \<longrightarrow> (\<forall>i \<in> set is. s_running (d_obj d' i)))"
  using assms
proof (induction "is" arbitrary: d)
  case (Cons i "is")
  let ?k = "if s_direction (d_obj d i) = AMDTP_OUT_STREAM \<and> d_irq_target d = Some i then k else 0"
  have i: "\<not> s_running (d_obj d i)" "i \<in> set all" "i \<notin> set is" using Cons.prems by auto
  obtain e1 d1 where st: "amdtp_stream_start env d i q ?k = Some (e1, d1)" "started i e1 d d1"
    using amdtp_stream_start_started [OF i(1) not_held [OF Cons.prems(1) i(1)]] by blast
  have b1: "balanced all d1" by (rule balanced_started [OF Cons.prems(1) i(2,1) st(2)])
  have only: "d_streams d1 = d_streams d" "d_irq_target d1 = d_irq_target d" "\<forall>j. j \<noteq> i \<longrightarrow> d_obj d1 j = d_obj d j"
    using st(2) by (simp_all add: started_def only_stream_def)
  show ?case
  proof (cases e1)
    case (Some e)
    then show ?thesis using st b1 only by simp
  next
    case None
    have "\<forall>j \<in> set is. \<not> s_running (d_obj d1 j)" using Cons.prems(4) only(3) i(3) by force
    then obtain err d' where IH: "start_streams env q k is d1 = Some (err, d')" "balanced all d'" "d_streams d' = d_streams d1"
        "d_irq_target d' = d_irq_target d1" "\<forall>j. j \<notin> set is \<longrightarrow> d_obj d' j = d_obj d1 j"
        "err = None \<longrightarrow> (\<forall>i \<in> set is. s_running (d_obj d' i))"
      using Cons.IH [OF b1] Cons.prems by auto
    have "s_running (d_obj d1 i)" using st(2) None by (simp add: started_def)
    then show ?thesis using st(1) None IH only i(3) by simp
  qed
qed simp

lemma amdtp_stream_stop_frame:
  "only_stream i d (amdtp_stream_stop d i)" "\<not> s_running (d_obj (amdtp_stream_stop d i) i)"
  "s_running (d_obj d i) \<Longrightarrow> d_held (amdtp_stream_stop d i) = d_held d - holdings d i"
  "\<not> s_running (d_obj d i) \<Longrightarrow> amdtp_stream_stop d i = d"
  by (simp_all add: amdtp_stream_stop_def Let_def only_stream_def holdings_def add_mset_commute)

lemma balanced_stop: "balanced is d \<Longrightarrow> balanced is (amdtp_stream_stop d i)"
proof (cases "s_running (d_obj d i)")
  case True
  assume b: "balanced is d"
  let ?d = "amdtp_stream_stop d i"
  have i: "i \<in> set is" using b True by (simp add: balanced_def)
  note frame = amdtp_stream_stop_frame [where d = d and i = i]
  have "held_by ?d i = {#}" "held_by d i = holdings d i" using frame(2) True by (simp_all add: held_by_def)
  then have "d_held d = sum_list (map (held_by ?d) is) + holdings d i"
    using sum_list_update [of "is" i "held_by ?d" "held_by d"] held_by_only_stream [OF frame(1)] b i by (simp add: balanced_def)
  then have "d_held ?d = sum_list (map (held_by ?d) is)" using frame(3) [OF True] by simp
  moreover have "s_running (d_obj ?d j) \<longrightarrow> j \<in> set is" for j
    using b i frame(1) by (cases "j = i") (auto simp: balanced_def only_stream_def)
  ultimately show ?thesis using b by (simp add: balanced_def)
qed (simp add: amdtp_stream_stop_frame(4))

lemma stop_running: "s_running (d_obj (amdtp_stream_stop d i) j) \<longleftrightarrow> s_running (d_obj d j) \<and> j \<noteq> i"
  using amdtp_stream_stop_frame(1,2) [where d = d and i = i] by (cases "j = i") (auto simp: only_stream_def)

lemma fold_stop:
  assumes "balanced all d"
  shows "balanced all (fold (\<lambda>i d. if P i then amdtp_stream_stop d i else d) is d) \<and>
    (\<forall>j. s_running (d_obj (fold (\<lambda>i d. if P i then amdtp_stream_stop d i else d) is d) j) \<longleftrightarrow>
       s_running (d_obj d j) \<and> \<not> (j \<in> set is \<and> P j))"
  using assms
proof (induction "is" arbitrary: d)
  case (Cons i "is")
  let ?d = "if P i then amdtp_stream_stop d i else d"
  have "balanced all ?d" using balanced_stop Cons.prems by simp
  from Cons.IH [OF this] show ?case by (auto simp: stop_running)
qed simp

lemma balanced_idle: "balanced is d \<Longrightarrow> \<forall>i. \<not> s_running (d_obj d i) \<Longrightarrow> d_held d = {#}"
proof -
  assume "balanced is d" and i: "\<forall>i. \<not> s_running (d_obj d i)"
  moreover have "sum_list (map (held_by d) is) = {#}" by (induction "is") (simp_all add: held_by_def i)
  ultimately show ?thesis by (simp add: balanced_def)
qed

lemma amdtp_domain_stop_releases:
  assumes "balanced (d_streams d) d"
  shows "(\<forall>i. \<not> s_running (d_obj (amdtp_domain_stop d) i)) \<and> d_held (amdtp_domain_stop d) = {#} \<and>
    d_streams (amdtp_domain_stop d) = [] \<and> d_irq_target (amdtp_domain_stop d) = None"
proof -
  define d1 where "d1 = (case d_irq_target d of Some t \<Rightarrow> amdtp_stream_stop d t | None \<Rightarrow> d)"
  have d1: "balanced (d_streams d) d1" "d_streams d1 = d_streams d"
    "\<forall>j. s_running (d_obj d1 j) \<longrightarrow> j \<in> set (d_streams d) \<and> d_irq_target d \<noteq> Some j"
    using assms balanced_stop amdtp_stream_stop_frame(1) [where d = d]
    by (auto simp: d1_def stop_running balanced_def only_stream_def split: option.splits)
  define d2 where "d2 = d1\<lparr>d_streams := []\<rparr>"
  have "holdings d2 = holdings d1" by (rule ext) (simp add: d2_def holdings_def)
  then have "held_by d2 = held_by d1" by (intro ext) (simp add: held_by_def d2_def)
  then have "balanced (d_streams d) d2" using d1(1) by (simp add: balanced_def d2_def)
  define d3 where "d3 = fold (\<lambda>i d'. if d_irq_target d \<noteq> Some i then amdtp_stream_stop d' i else d') (d_streams d1) d2"
  have stop: "amdtp_domain_stop d = d3\<lparr>events_per_period := 0, d_irq_target := None\<rparr>"
    by (simp add: amdtp_domain_stop_def Let_def d1_def d2_def d3_def)
  from fold_stop [OF \<open>balanced (d_streams d) d2\<close>, of "\<lambda>i. d_irq_target d \<noteq> Some i" "d_streams d1"]
  have d3: "balanced (d_streams d) d3" "\<forall>i. \<not> s_running (d_obj d3 i)"
    using d1(2,3) unfolding d3_def [symmetric] by (auto simp: d2_def)
  have "d_streams (fold (\<lambda>i d'. if d_irq_target d \<noteq> Some i then amdtp_stream_stop d' i else d') xs e) = d_streams e" for xs e
    using amdtp_stream_stop_frame(1) by (induction xs arbitrary: e) (simp_all add: only_stream_def)
  then have "d_streams d3 = []" by (simp add: d3_def d2_def)
  then show ?thesis using d3 balanced_idle [OF d3] unfolding stop by simp
qed

lemma associate_frame:
  assumes "associate txl is n d = (err, d')"
  shows "d_streams d' = d_streams d \<and> d_held d' = d_held d \<and> (\<forall>i. same_setup (d_obj d i) (d_obj d' i))"
  using assms
proof (induction "is" arbitrary: n d)
  case (Cons i "is")
  show ?case
  proof (cases "s_direction (d_obj d i) = AMDTP_OUT_STREAM")
    case True
    show ?thesis
    proof (cases "replay_target_for txl n")
      case None
      then show ?thesis using Cons.prems True by simp
    next
      case (Some t)
      define d1 where "d1 = set_stream d i ((d_obj d i)\<lparr>rx_replay_target := Some t\<rparr>)"
      have "same_setup (d_obj d j) (d_obj d1 j)" for j by (simp add: d1_def same_setup_def)
      moreover have "associate txl is (n + 1) d1 = (err, d')" using Cons.prems True Some by (simp add: d1_def)
      ultimately show ?thesis using Cons.IH [of "n + 1" d1] by (simp add: d1_def same_setup_def)
    qed
  next
    case False
    then show ?thesis using Cons.prems Cons.IH by simp
  qed
qed simp

definition idle_domain :: "amdtp_domain \<Rightarrow> bool" where
  "idle_domain d \<longleftrightarrow> distinct (d_streams d) \<and> (\<forall>i. \<not> s_running (d_obj d i)) \<and> d_held d = {#}"

lemma idle_balanced: "idle_domain d \<Longrightarrow> balanced (d_streams d) d"
proof -
  assume i: "idle_domain d"
  have "sum_list (map (held_by d) xs) = {#}" for xs using i by (induction xs) (simp_all add: held_by_def idle_domain_def)
  then show ?thesis using i by (simp add: idle_domain_def balanced_def)
qed

lemma amdtp_domain_start_balanced:
  assumes "idle_domain d"
  shows "\<exists>err d'. amdtp_domain_start env d skip replay fly = Some (err, d') \<and> balanced (d_streams d') d' \<and> d_streams d' = d_streams d \<and>
    (if err = None then \<forall>i \<in> set (d_streams d). s_running (d_obj d' i) else idle_domain d')"
proof -
  obtain e1 d1 where as: "(if replay then make_association d else (None, d)) = (e1, d1)" by fastforce
  have d1: "d_streams d1 = d_streams d" "idle_domain d1"
    using associate_frame as assms by (cases replay; fastforce simp: make_association_def idle_domain_def same_setup_def)+
  define d2 where "d2 = d1\<lparr>replay_enable := replay, replay_on_the_fly := fly\<rparr>"
  have d2: "d_streams d2 = d_streams d" "idle_domain d2" using d1 by (simp_all add: d2_def idle_domain_def)
  let ?t = "List.find (\<lambda>i. s_direction (d_obj d2 i) = AMDTP_OUT_STREAM) (d_streams d2)"
  have step: "amdtp_domain_start env d skip replay fly =
      (if e1 \<noteq> None then Some (e1, d1)
       else case ?t of
          None \<Rightarrow> Some (Some ENXIO, d2)
        | Some t \<Rightarrow>
            let d = d2\<lparr>d_irq_target := Some t, tx_init_skip := skip\<rparr>;
                (qsize, interval) = domain_queue_size d (s_sfc (d_obj d t)) in
            (case start_streams env qsize interval (d_streams d) d of
               Some (Some e, d) \<Rightarrow> Some (Some e, fold (\<lambda>i d. amdtp_stream_stop d i) (d_streams d) d)
             | r \<Rightarrow> r))"
    unfolding amdtp_domain_start_def as d2_def by (simp only: Let_def prod.case)
  show ?thesis
  proof (cases "e1 = None \<and> ?t \<noteq> None")
    case False
    then show ?thesis using d1 d2 idle_balanced [OF d1(2)] idle_balanced [OF d2(2)] unfolding step by (cases e1) auto
  next
    case True
    then obtain t where t: "?t = Some t" by auto
    define d3 where "d3 = d2\<lparr>d_irq_target := Some t, tx_init_skip := skip\<rparr>"
    have d3: "d_streams d3 = d_streams d" "idle_domain d3" using d2 by (simp_all add: d3_def idle_domain_def)
    obtain q k where qk: "domain_queue_size d3 (s_sfc (d_obj d3 t)) = (q, k)" by fastforce
    obtain err d4 where st: "start_streams env q k (d_streams d3) d3 = Some (err, d4)" "balanced (d_streams d3) d4" "d_streams d4 = d_streams d3"
        "\<forall>j. j \<notin> set (d_streams d3) \<longrightarrow> d_obj d4 j = d_obj d3 j" "err = None \<longrightarrow> (\<forall>i \<in> set (d_streams d3). s_running (d_obj d4 i))"
      using start_streams_balanced [OF idle_balanced [OF d3(2)], of "d_streams d3" env q k] d3(2) by (auto simp: idle_domain_def)
    have step2: "amdtp_domain_start env d skip replay fly =
        (case err of Some e \<Rightarrow> Some (Some e, fold (\<lambda>i d. amdtp_stream_stop d i) (d_streams d4) d4) | None \<Rightarrow> Some (None, d4))"
      using True t st(1) qk unfolding step by (simp add: d3_def [symmetric] Let_def split: option.splits)
    show ?thesis
    proof (cases err)
      case None
      then show ?thesis using st d3(1) unfolding step2 by simp
    next
      case (Some e)
      let ?d5 = "fold (\<lambda>i d. amdtp_stream_stop d i) (d_streams d4) d4"
      have stop: "balanced (d_streams d3) ?d5" "\<forall>j. s_running (d_obj ?d5 j) \<longleftrightarrow> s_running (d_obj d4 j) \<and> j \<notin> set (d_streams d4)"
        using fold_stop [OF st(2), of "\<lambda>i. True" "d_streams d4"] by simp_all
      have "\<forall>j. \<not> s_running (d_obj ?d5 j)" using stop(2) st(3,4) d3(2) by (auto simp: idle_domain_def)
      moreover have "d_streams (fold (\<lambda>i d. amdtp_stream_stop d i) xs e) = d_streams e" for xs e
        using amdtp_stream_stop_frame(1) by (induction xs arbitrary: e) (simp_all add: only_stream_def)
      ultimately have "idle_domain ?d5" "d_streams ?d5 = d_streams d"
        using balanced_idle [OF stop(1)] st(3) d3 by (simp_all add: idle_domain_def)
      then show ?thesis using Some idle_balanced [of ?d5] unfolding step2 by simp
    qed
  qed
qed

text \<open>C30. Starting a domain always comes to an end, and either every stream of the domain runs or, after an error at any point, none does and no packet
  buffer, context, sequence or descriptor is left behind; stopping the domain releases all of them.\<close>

theorem amdtp_domain_start_stop:
  assumes "distinct (d_streams d)" "\<forall>i. \<not> s_running (d_obj d i)" "d_held d = {#}"
  shows "\<exists>err d'. amdtp_domain_start env d skip replay fly = Some (err, d') \<and>
    (err = None \<longrightarrow> (\<forall>i \<in> set (d_streams d). s_running (d_obj d' i))) \<and>
    (err \<noteq> None \<longrightarrow> (\<forall>i. \<not> s_running (d_obj d' i)) \<and> d_held d' = {#}) \<and>
    (\<forall>i. \<not> s_running (d_obj (amdtp_domain_stop d') i)) \<and> d_held (amdtp_domain_stop d') = {#}"
  using amdtp_domain_start_balanced [of d env skip replay fly] amdtp_domain_stop_releases assms
  by (fastforce simp: idle_domain_def)

definition stopped_domain :: amdtp_domain where
  "stopped_domain = example_domain\<lparr>d_obj := (\<lambda>i. (d_obj example_domain i)\<lparr>s_running := False\<rparr>)\<rparr>"

theorem amdtp_domain_start_stop_witness:
  "\<exists>err d'. amdtp_domain_start (example_env True) stopped_domain 0 False False = Some (err, d') \<and> d_held (amdtp_domain_stop d') = {#}"
proof -
  have "distinct (d_streams stopped_domain)" "\<forall>i. \<not> s_running (d_obj stopped_domain i)" "d_held stopped_domain = {#}"
    by (simp_all add: stopped_domain_def example_domain_def)
  from amdtp_domain_start_stop [OF this, of "example_env True" 0 False False] show ?thesis by blast
qed

end
