(* ===== verification/Cdev.thy ===== *)
theory Cdev
  imports Request Iso_Resource Net_Transmit
begin

text \<open>
  The character device (\<^verbatim>\<open>drivers/firewire/core-cdev.c\<close>), first part: clients, their resources behind handles, their queue of
  events, and the operations on transactions, address ranges and descriptors.  An open file is a client, known by a number; other objects
  are known by the number that stands for their address.  The core below is the one of the theories
  \<^verbatim>\<open>Request\<close>, \<^verbatim>\<open>Config_Rom\<close> and \<^verbatim>\<open>Iso_Resource\<close>; outbound requests and bus resets go to a log.  There is one card.
\<close>

section \<open>The array of resources\<close>

text \<open>An allocating \<open>xarray\<close>: entries in the order of their index, which is at least 1.  A new entry gets the lowest free index.\<close>

type_synonym 'a xarray = "(nat \<times> 'a) list"

fun xa_insert_from :: "nat \<Rightarrow> 'a \<Rightarrow> 'a xarray \<Rightarrow> nat \<times> 'a xarray" where
  "xa_insert_from i r [] = (i, [(i, r)])"
| "xa_insert_from i r ((j, s) # xs) =
    (if i < j then (i, (i, r) # (j, s) # xs) else let (k, ys) = xa_insert_from (i + 1) r xs in (k, (j, s) # ys))"

definition xa_alloc :: "'a \<Rightarrow> 'a xarray \<Rightarrow> nat \<times> 'a xarray" where
  "xa_alloc r xa = xa_insert_from 1 r xa"

definition xa_load :: "'a xarray \<Rightarrow> nat \<Rightarrow> 'a option" where
  "xa_load xa i = map_of xa i"

definition xa_erase :: "nat \<Rightarrow> 'a xarray \<Rightarrow> 'a xarray" where
  "xa_erase i xa = filter (\<lambda>(j, r). j \<noteq> i) xa"

section \<open>Events\<close>

text \<open>What an event carries.  The payload of a response is part of the event.\<close>

datatype event_body =
    Ev_bus_reset (be_closure: u64) (be_generation: nat) (be_node_id: u32) (be_local: u32) (be_bm: u32) (be_irm: u32) (be_root: u32)
  | Ev_response (re_closure: u64) (re_rcode: u32) (re_length: nat) (re_data: bytes)
  | Ev_response2 (re_closure: u64) (re_rcode: u32) (re_length: nat) (re_request_tstamp: u32) (re_response_tstamp: u32) (re_data: bytes)
  | Ev_request (rqe_closure: u64) (rqe_tcode: u32) (rqe_offset: u64) (rqe_length: nat) (rqe_handle: nat)
  | Ev_request2 (rqe_closure: u64) (rqe_tcode: u32) (rqe_offset: u64) (rqe_source: u32) (rqe_destination: u32) (rqe_card: nat)
      (rqe_generation: nat) (rqe_length: nat) (rqe_handle: nat)
  | Ev_request3 (rqe_closure: u64) (rqe_tcode: u32) (rqe_offset: u64) (rqe_source: u32) (rqe_destination: u32) (rqe_card: nat)
      (rqe_generation: nat) (rqe_length: nat) (rqe_handle: nat) (rqe_tstamp: u32)
  | Ev_iso_interrupt (ie_closure: u64) (ie_cycle: u32) (ie_header: bytes)
  | Ev_iso_interrupt_mc (ie_closure: u64) (ie_completed: nat)
  | Ev_iso_resource (se_allocated: bool) (se_closure: u64) (se_handle: int) (se_channel: "errno + nat") (se_bandwidth: int)
  | Ev_phy_packet (pe_received: bool) (pe_closure: u64) (pe_rcode: u32) (pe_length: nat) (pe_data: "u32 list")
  | Ev_phy_packet2 (pe_received: bool) (pe_closure: u64) (pe_rcode: u32) (pe_length: nat) (pe_tstamp: u32) (pe_data: "u32 list")

text \<open>The second part of an event: nothing, a copy of its own data, or data of an inbound request, which is not part of the event.\<close>

datatype event_data = No_data | Own_data | Request_data nat

record event =
  ev_body :: event_body
  ev_size0 :: nat
  ev_data1 :: event_data
  ev_size1 :: nat

section \<open>Clients and the card\<close>

record inbound_transaction_resource =
  in_request :: nat
  in_is_fcp :: bool
  in_length :: nat

datatype client_resource =
    Outbound_transaction nat
  | Inbound_transaction inbound_transaction_resource
  | Address_handler nat
  | Descriptor fw_descriptor
  | Iso_resource_auto nat

text \<open>The release function of a resource, by which the code tells the kinds apart.\<close>

datatype release_fn = Release_transaction | Release_request | Release_address_handler | Release_descriptor | Release_iso_resource_auto

fun release_of :: "client_resource \<Rightarrow> release_fn" where
  "release_of (Outbound_transaction e) = Release_transaction"
| "release_of (Inbound_transaction r) = Release_request"
| "release_of (Address_handler p) = Release_address_handler"
| "release_of (Descriptor d) = Release_descriptor"
| "release_of (Iso_resource_auto r) = Release_iso_resource_auto"

datatype iso_context_type = FW_ISO_CONTEXT_TRANSMIT | FW_ISO_CONTEXT_RECEIVE | FW_ISO_CONTEXT_RECEIVE_MULTICHANNEL

record iso_context =
  ic_type :: iso_context_type
  ic_channel :: nat
  ic_speed :: nat
  ic_header_size :: nat
  ic_drop_overflow_headers :: bool

record client =
  c_version :: nat
  c_device :: nat
  c_in_shutdown :: bool
  c_resource_xa :: "client_resource xarray"
  c_event_list :: "event list"
  c_bus_reset_closure :: u64
  c_iso_context :: "iso_context option"
  c_iso_closure :: u64
  c_buffer :: fw_iso_buffer
  c_vm_start :: u64
  c_phy_receiver_closure :: u64
  c_kref :: nat

record cdev_device =
  dev_node_id :: u32
  dev_generation :: nat
  dev_is_local :: bool
  dev_is_shutdown :: bool
  dev_max_speed :: nat
  dev_config_rom :: "u32 list"
  dev_client_list :: "nat list"
  dev_kref :: nat

record outbound_transaction_event =
  oe_client :: nat
  oe_handle :: nat
  oe_with_tstamp :: bool
  oe_closure :: u64
  oe_length :: nat
  oe_payload :: bytes

text \<open>Automatic isochronous resources: what is left to do, and the state of the work item, of which at most one instance runs.\<close>

datatype iso_todo = ISO_RES_AUTO_ALLOC | ISO_RES_AUTO_REALLOC | ISO_RES_AUTO_DEALLOC

datatype auto_run =
    Auto_idle
  | Auto_managing iso_todo nat
  | Auto_managed iso_todo "errno + nat" int
  | Auto_failed iso_todo "errno + nat" int bool

record iso_resource_auto =
  a_client :: nat
  a_handle :: nat
  a_todo :: iso_todo
  a_generation :: nat
  a_channels_mask :: u64
  a_bandwidth :: int
  a_closure :: u64
  a_e_alloc :: bool
  a_e_dealloc :: bool
  a_pending :: bool
  a_run :: auto_run

record iso_resource_once =
  o_client :: nat
  o_alloc :: bool
  o_channels_mask :: u64
  o_bandwidth :: int
  o_closure :: u64

record outbound_phy_packet_event =
  ope_client :: nat
  ope_with_tstamp :: bool
  ope_closure :: u64
  ope_length :: nat
  ope_data :: "u32 list"
  ope_generation :: nat

text \<open>Calls that leave the modelled code.\<close>

datatype cdev_call =
    Call_send_request nat u32 u32 nat nat u64 bytes nat
  | Call_schedule_bus_reset bool bool
  | Call_send_phy nat nat "u32 list"
  | Call_iso_queue nat fw_iso_packet nat
  | Call_iso_flush nat
  | Call_iso_start nat u32 u32 u32
  | Call_iso_stop nat
  | Call_iso_flush_completions nat
  | Call_iso_set_channels nat u64
  | Call_iso_destroy nat
  | Call_dma "dma_event list"
  | Call_client_released nat

text \<open>The nodes that a bus reset event tells of; \<open>None\<close> is a null pointer.\<close>

record cdev_card =
  card_index :: nat
  card_link_speed :: nat
  card_bm_node_id :: u32
  card_local_node :: "u32 option"
  card_irm_node :: "u32 option"
  card_root_node :: "u32 option"
  card_reset_jiffies :: u64

record cdev =
  cd_rq :: rq_card
  cd_rom :: rom_state
  cd_irm_log :: lock_log
  cd_card :: cdev_card
  cd_device :: "nat \<Rightarrow> cdev_device"
  cd_client :: "nat \<Rightarrow> client"
  cd_phy_receivers :: "nat list"
  cd_closures :: "nat \<Rightarrow> u64 \<times> nat"
  cd_outbound :: "nat \<Rightarrow> outbound_transaction_event option"
  cd_auto :: "nat \<Rightarrow> iso_resource_auto option"
  cd_once :: "nat \<Rightarrow> iso_resource_once option"
  cd_phy_out :: "nat \<Rightarrow> outbound_phy_packet_event option"
  cd_card_refs :: nat
  cd_log :: "cdev_call list"

definition cd_upd :: "cdev \<Rightarrow> nat \<Rightarrow> (client \<Rightarrow> client) \<Rightarrow> cdev" where
  "cd_upd w c f = w\<lparr>cd_client := (cd_client w)(c := f (cd_client w c))\<rparr>"

definition cd_emit :: "cdev \<Rightarrow> cdev_call \<Rightarrow> cdev" where
  "cd_emit w e = w\<lparr>cd_log := cd_log w @ [e]\<rparr>"

abbreviation the_device :: "cdev \<Rightarrow> nat \<Rightarrow> cdev_device" where
  "the_device w c \<equiv> cd_device w (c_device (cd_client w c))"

definition client_get :: "cdev \<Rightarrow> nat \<Rightarrow> cdev" where
  "client_get w c = cd_upd w c (\<lambda>x. x\<lparr>c_kref := c_kref x + 1\<rparr>)"

definition client_release :: "cdev \<Rightarrow> nat \<Rightarrow> cdev" where
  "client_release w c =
    (let i = c_device (cd_client w c)
     in cd_emit (w\<lparr>cd_device := (cd_device w)(i := (cd_device w i)\<lparr>dev_kref := dev_kref (cd_device w i) - 1\<rparr>)\<rparr>) (Call_client_released c))"

definition client_put :: "cdev \<Rightarrow> nat \<Rightarrow> cdev" where
  "client_put w c =
    (let w = cd_upd w c (\<lambda>x. x\<lparr>c_kref := c_kref x - 1\<rparr>)
     in if c_kref (cd_client w c) = 0 then client_release w c else w)"

text \<open>The environment of one operation: whether the allocations succeed, why the array of resources cannot be extended, what is copied from user
  space, what is in fresh memory, the address of the new object, jiffies, and their number in a
  second.\<close>

record cdev_env =
  en_alloc :: bool
  en_alloc2 :: bool
  en_xa :: "errno option"
  en_copy :: "bytes option"
  en_junk :: bytes
  en_ptr :: nat
  en_jiffies :: u64
  en_second :: u64
  en_generation :: nat

definition fw_device_op_open :: "cdev_env \<Rightarrow> cdev \<Rightarrow> nat option \<Rightarrow> nat \<Rightarrow> errno option \<times> cdev" where
  "fw_device_op_open env w device c =
    (case device of
       None \<Rightarrow> (Some ENODEV, w)
     | Some d \<Rightarrow>
         if dev_is_shutdown (cd_device w d) then (Some ENODEV, w)
         else if \<not> en_alloc env then (Some ENOMEM, w)
         else
           (None, w\<lparr>cd_device := (cd_device w)(d := (cd_device w d)\<lparr>dev_kref := dev_kref (cd_device w d) + 1\<rparr>),
              cd_client := (cd_client w)(c := \<lparr>c_version = 0, c_device = d, c_in_shutdown = False, c_resource_xa = [], c_event_list = [],
                c_bus_reset_closure = 0, c_iso_context = None, c_iso_closure = 0,
                c_buffer = \<lparr>direction = DMA_BIDIRECTIONAL, pages = None, dma_addrs = None, page_count = 0\<rparr>, c_vm_start = 0,
                c_phy_receiver_closure = 0, c_kref = 1\<rparr>)\<rparr>))"

section \<open>The queue of events\<close>

definition queue_event :: "cdev \<Rightarrow> nat \<Rightarrow> event \<Rightarrow> cdev" where
  "queue_event w c e =
    (if c_in_shutdown (cd_client w c) then w else cd_upd w c (\<lambda>x. x\<lparr>c_event_list := c_event_list x @ [e]\<rparr>))"

text \<open>What a read delivers: for each part of the event how many bytes were copied.  \<open>copy_ok\<close> says whether a part can be copied to
  user space.  Reading data of a request that has been freed makes the last result true.\<close>

datatype read_result = Read_blocks | Read_error errno | Read_bytes event "nat list" nat bool

definition data_alive :: "rq_card \<Rightarrow> event_data \<Rightarrow> bool" where
  "data_alive rq dat = (case dat of Request_data r \<Rightarrow> rq_live rq r | _ \<Rightarrow> True)"

definition dequeue_event :: "bool \<Rightarrow> (nat \<Rightarrow> bool) \<Rightarrow> cdev \<Rightarrow> nat \<Rightarrow> nat \<Rightarrow> read_result \<times> cdev" where
  "dequeue_event interrupted copy_ok w c cnt =
    (let evs = c_event_list (cd_client w c); down = dev_is_shutdown (the_device w c) in
     if evs = [] \<and> \<not> down then (if interrupted then Read_error ERESTARTSYS else Read_blocks, w)
     else
       (case evs of
          [] \<Rightarrow> (Read_error ENODEV, w)
        | e # es \<Rightarrow>
            let w' = cd_upd w c (\<lambda>x. x\<lparr>c_event_list := es\<rparr>);
                n0 = (if 0 < cnt then min (ev_size0 e) cnt else 0);
                n1 = (if n0 < cnt then min (ev_size1 e) (cnt - n0) else 0) in
            if 0 < n0 \<and> \<not> copy_ok 0 then (Read_error EFAULT, w')
            else if 0 < n1 \<and> \<not> copy_ok 1 then (Read_error EFAULT, w')
            else (Read_bytes e [n0, n1] (n0 + n1) (0 < n1 \<and> \<not> data_alive (cd_rq w) (ev_data1 e)), w')))"

section \<open>Resources of a client\<close>

definition add_client_resource :: "cdev_env \<Rightarrow> cdev \<Rightarrow> nat \<Rightarrow> client_resource \<Rightarrow> (errno + nat) \<times> cdev" where
  "add_client_resource env w c resource =
    (if c_in_shutdown (cd_client w c) then (Inl ECANCELED, w)
     else
       (case en_xa env of
          Some err \<Rightarrow> (Inl err, w)
        | None \<Rightarrow>
            let (handle, xa) = xa_alloc resource (c_resource_xa (cd_client w c))
            in (Inr handle, client_get (cd_upd w c (\<lambda>x. x\<lparr>c_resource_xa := xa\<rparr>)) c)))"

text \<open>The part under the lock.\<close>

definition take_client_resource :: "cdev \<Rightarrow> nat \<Rightarrow> nat \<Rightarrow> release_fn \<Rightarrow> (client_resource \<times> cdev) option" where
  "take_client_resource w c handle release =
    (if c_in_shutdown (cd_client w c) then None
     else
       (case xa_load (c_resource_xa (cd_client w c)) handle of
          None \<Rightarrow> None
        | Some resource \<Rightarrow>
            if release_of resource \<noteq> release then None
            else Some (resource, cd_upd w c (\<lambda>x. x\<lparr>c_resource_xa := xa_erase handle (c_resource_xa x)\<rparr>))))"

section \<open>Outbound transactions\<close>

definition erase_resource :: "cdev \<Rightarrow> nat \<Rightarrow> nat \<Rightarrow> cdev" where
  "erase_resource w c handle = cd_upd w c (\<lambda>x. x\<lparr>c_resource_xa := xa_erase handle (c_resource_xa x)\<rparr>)"

text \<open>The size of \<open>struct fw_cdev_event_response\<close> is 24 bytes with its data at byte 20.\<close>

definition complete_transaction :: "cdev \<Rightarrow> u32 \<Rightarrow> u32 \<Rightarrow> u32 \<Rightarrow> bytes \<Rightarrow> nat \<Rightarrow> cdev" where
  "complete_transaction w rcode request_tstamp response_tstamp payload e =
    (case cd_outbound w e of
       None \<Rightarrow> w
     | Some r \<Rightarrow>
         let c = oe_client r;
             w = erase_resource w c (oe_handle r);
             len = min (length payload) (oe_length r);
             dat = (if rcode = RCODE_COMPLETE then take len payload @ drop len (oe_payload r) else oe_payload r);
             ev = (if \<not> oe_with_tstamp r then
                     if len \<le> 4 then \<lparr>ev_body = Ev_response (oe_closure r) rcode len dat, ev_size0 = 24, ev_data1 = Own_data, ev_size1 = len\<rparr>
                     else \<lparr>ev_body = Ev_response (oe_closure r) rcode len dat, ev_size0 = 24 + len, ev_data1 = No_data, ev_size1 = 0\<rparr>
                   else \<lparr>ev_body = Ev_response2 (oe_closure r) rcode len request_tstamp response_tstamp dat, ev_size0 = 32 + len,
                          ev_data1 = No_data, ev_size1 = 0\<rparr>);
             w = queue_event (w\<lparr>cd_outbound := (cd_outbound w)(e := None)\<rparr>) c ev
         in client_put w c)"

record send_request_arg =
  sr_tcode :: u32
  sr_length :: nat
  sr_offset :: u64
  sr_closure :: u64
  sr_data :: u64
  sr_generation :: nat

definition init_request :: "cdev_env \<Rightarrow> cdev \<Rightarrow> nat \<Rightarrow> send_request_arg \<Rightarrow> u32 \<Rightarrow> nat \<Rightarrow> (errno + nat) \<times> cdev" where
  "init_request env w c request destination_id speed =
    (if sr_tcode request \<noteq> TCODE_STREAM_DATA \<and> (sr_length request > 4096 \<or> sr_length request > 512 * 2 ^ speed) then (Inl EIO, w)
     else if sr_tcode request = TCODE_WRITE_QUADLET_REQUEST \<and> sr_length request < 4 then (Inl EINVAL, w)
     else if \<not> en_alloc env then (Inl ENOMEM, w)
     else if sr_data request \<noteq> 0 \<and> en_copy env = None then (Inl EFAULT, w)
     else
       let e = en_ptr env;
           payload = (if sr_data request \<noteq> 0 then the (en_copy env) else en_junk env) in
       (case add_client_resource env w c (Outbound_transaction e) of
          (Inl err, w) \<Rightarrow> (Inl err, w)
        | (Inr handle, w) \<Rightarrow>
            let r = \<lparr>oe_client = c, oe_handle = handle, oe_with_tstamp = (c_version (cd_client w c) \<ge> 6), oe_closure = sr_closure request,
                     oe_length = sr_length request, oe_payload = payload\<rparr>
            in (Inr 0, cd_emit (w\<lparr>cd_outbound := (cd_outbound w)(e := Some r)\<rparr>)
                  (Call_send_request e (sr_tcode request) destination_id (sr_generation request) speed (sr_offset request) payload
                     (sr_length request)))))"

definition ioctl_send_request :: "cdev_env \<Rightarrow> cdev \<Rightarrow> nat \<Rightarrow> send_request_arg \<Rightarrow> (errno + nat) \<times> cdev" where
  "ioctl_send_request env w c a =
    (if sr_tcode a \<in> {TCODE_WRITE_QUADLET_REQUEST, TCODE_WRITE_BLOCK_REQUEST, TCODE_READ_QUADLET_REQUEST, TCODE_READ_BLOCK_REQUEST,
         0x11, 0x12, 0x13, 0x14, 0x15, 0x16, 0x17}
     then init_request env w c a (dev_node_id (the_device w c)) (dev_max_speed (the_device w c))
     else (Inl EINVAL, w))"

definition ioctl_send_broadcast_request :: "cdev_env \<Rightarrow> cdev \<Rightarrow> nat \<Rightarrow> send_request_arg \<Rightarrow> (errno + nat) \<times> cdev" where
  "ioctl_send_broadcast_request env w c a =
    (if sr_tcode a \<noteq> TCODE_WRITE_QUADLET_REQUEST \<and> sr_tcode a \<noteq> TCODE_WRITE_BLOCK_REQUEST then (Inl EINVAL, w)
     else if sr_offset a < 0xfffff0000800 then (Inl EACCES, w)
     else init_request env w c a (0xffc0 OR 0x3f) 0)"

record send_stream_packet_arg =
  ss_length :: nat
  ss_tag :: nat
  ss_channel :: nat
  ss_sy :: nat
  ss_closure :: u64
  ss_data :: u64
  ss_generation :: nat
  ss_speed :: nat

text \<open>The offset of the request is not initialized; stream packets have none.\<close>

definition ioctl_send_stream_packet :: "cdev_env \<Rightarrow> cdev \<Rightarrow> nat \<Rightarrow> send_stream_packet_arg \<Rightarrow> u64 \<Rightarrow> (errno + nat) \<times> cdev" where
  "ioctl_send_stream_packet env w c a junk =
    (if ss_speed a > card_link_speed (cd_card w) \<or> ss_length a > 1024 * 2 ^ ss_speed a then (Inl EIO, w)
     else if ss_tag a > 3 \<or> ss_channel a > 63 \<or> ss_sy a > 15 then (Inl EINVAL, w)
     else
       let dest = fw_stream_packet_destination_id (of_nat (ss_tag a)) (of_nat (ss_channel a)) (of_nat (ss_sy a));
           request = \<lparr>sr_tcode = TCODE_STREAM_DATA, sr_length = ss_length a, sr_offset = junk, sr_closure = ss_closure a,
                      sr_data = ss_data a, sr_generation = ss_generation a\<rparr>
       in init_request env w c request dest (ss_speed a))"

section \<open>Inbound requests\<close>

definition cd_card_get :: "cdev \<Rightarrow> cdev" where
  "cd_card_get w = w\<lparr>cd_card_refs := cd_card_refs w + 1\<rparr>"

definition cd_card_put :: "cdev \<Rightarrow> cdev" where
  "cd_card_put w = w\<lparr>cd_card_refs := cd_card_refs w - 1\<rparr>"

text \<open>\<open>None\<close> is the use of a freed request.\<close>

definition cd_send_response :: "cdev \<Rightarrow> nat \<Rightarrow> u32 \<Rightarrow> cdev option" where
  "cd_send_response w r rcode = (case fw_send_response (cd_rq w) r rcode of None \<Rightarrow> None | Some rq \<Rightarrow> Some (w\<lparr>cd_rq := rq\<rparr>))"

definition cd_request_put :: "cdev \<Rightarrow> nat \<Rightarrow> cdev option" where
  "cd_request_put w r = (if rq_live (cd_rq w) r then Some (w\<lparr>cd_rq := fw_request_put (cd_rq w) r\<rparr>) else None)"

definition release_request :: "cdev \<Rightarrow> inbound_transaction_resource \<Rightarrow> cdev option" where
  "release_request w r =
    (case (if in_is_fcp r then cd_request_put w (in_request r) else cd_send_response w (in_request r) RCODE_CONFLICT_ERROR) of
       None \<Rightarrow> None
     | Some w \<Rightarrow> Some (cd_card_put w))"

text \<open>The parameters of an inbound request, which the dispatcher hands over.\<close>

record inbound_arg =
  ib_request :: nat
  ib_tcode :: u32
  ib_destination :: u32
  ib_source :: u32
  ib_generation :: nat
  ib_offset :: u64
  ib_length :: nat

definition request_event :: "nat \<Rightarrow> nat \<Rightarrow> u64 \<Rightarrow> nat \<Rightarrow> u32 \<Rightarrow> inbound_arg \<Rightarrow> event_body \<times> nat" where
  "request_event version index closure handle tstamp a =
    (if version < 4 then
       (Ev_request closure (if ib_tcode a AND 0x10 \<noteq> 0 then TCODE_LOCK_REQUEST else ib_tcode a) (ib_offset a) (ib_length a) handle, 32)
     else if version < 6 then
       (Ev_request2 closure (ib_tcode a) (ib_offset a) (ib_source a) (ib_destination a) index (ib_generation a) (ib_length a) handle, 48)
     else
       (Ev_request3 closure (ib_tcode a) (ib_offset a) (ib_source a) (ib_destination a) index (ib_generation a) (ib_length a) handle tstamp, 56))"

text \<open>The callback of an address handler \<open>p\<close>.  A request to the FCP registers gets a reference of its own.\<close>

definition handle_request :: "cdev_env \<Rightarrow> cdev \<Rightarrow> nat \<Rightarrow> inbound_arg \<Rightarrow> cdev option" where
  "handle_request env w p a =
    (let (closure, c) = cd_closures w p;
         is_fcp = is_in_fcp_region (ib_offset a) (of_nat (ib_length a));
         w = cd_card_get w;
         w = (if is_fcp then w\<lparr>cd_rq := fw_request_get (cd_rq w) (ib_request a)\<rparr> else w);
         r = \<lparr>in_request = ib_request a, in_is_fcp = is_fcp, in_length = ib_length a\<rparr>;
         failed = (\<lambda>w. case (if \<not> is_fcp then cd_send_response w (ib_request a) RCODE_CONFLICT_ERROR else cd_request_put w (ib_request a)) of
                         None \<Rightarrow> None | Some w \<Rightarrow> Some (cd_card_put w)) in
     if \<not> en_alloc env \<or> \<not> en_alloc2 env then failed w
     else
       (case add_client_resource env w c (Inbound_transaction r) of
          (Inl err, w) \<Rightarrow> failed w
        | (Inr handle, w) \<Rightarrow>
            let (body, size0) = request_event (c_version (cd_client w c)) (card_index (cd_card w)) closure handle
                                  (rq_timestamp (requests (cd_rq w) ! ib_request a)) a
            in Some (queue_event w c \<lparr>ev_body = body, ev_size0 = size0, ev_data1 = Request_data (ib_request a), ev_size1 = ib_length a\<rparr>)))"

record send_response_arg =
  sp_rcode :: u32
  sp_length :: nat
  sp_handle :: nat

text \<open>The reference of the array of resources is dropped before the resource is used.\<close>

definition ioctl_send_response :: "cdev_env \<Rightarrow> cdev \<Rightarrow> nat \<Rightarrow> send_response_arg \<Rightarrow> ((errno + nat) \<times> cdev) option" where
  "ioctl_send_response env w c a =
    (case take_client_resource w c (sp_handle a) Release_request of
       Some (Inbound_transaction r, w) \<Rightarrow>
         let w = client_put w c; q = in_request r in
         if in_is_fcp r then (case cd_request_put w q of None \<Rightarrow> None | Some w \<Rightarrow> Some (Inr 0, cd_card_put w))
         else if \<not> rq_live (cd_rq w) q then None
         else if sp_length a \<noteq> fw_get_response_length (rq_header (requests (cd_rq w) ! q)) then
           (case cd_request_put w q of None \<Rightarrow> None | Some w \<Rightarrow> Some (Inl EINVAL, cd_card_put w))
         else
           (case en_copy env of
              None \<Rightarrow> (case cd_request_put w q of None \<Rightarrow> None | Some w \<Rightarrow> Some (Inl EFAULT, cd_card_put w))
            | Some dat \<Rightarrow>
                (case cd_send_response (w\<lparr>cd_rq := rq_store (cd_rq w) q dat\<rparr>) q (sp_rcode a) of
                   None \<Rightarrow> None
                 | Some w \<Rightarrow> Some (Inr 0, cd_card_put w)))
     | _ \<Rightarrow> Some (Inl EINVAL, w))"

section \<open>Address ranges and descriptors\<close>

record allocate_arg =
  al_offset :: u64
  al_closure :: u64
  al_length :: nat
  al_region_end :: u64

definition release_address_handler :: "cdev \<Rightarrow> nat \<Rightarrow> cdev" where
  "release_address_handler w p = w\<lparr>cd_rq := (cd_rq w)\<lparr>rq_handlers := fst (fw_core_remove_address_handler (rq_handlers (cd_rq w)) p)\<rparr>\<rparr>"

text \<open>The results are the offset and the handle.  \<open>None\<close> is a search for a free range that does not end.\<close>

definition ioctl_allocate :: "cdev_env \<Rightarrow> cdev \<Rightarrow> nat \<Rightarrow> allocate_arg \<Rightarrow> ((errno + u64 \<times> nat) \<times> cdev) option" where
  "ioctl_allocate env w c a =
    (if \<not> en_alloc env then Some (Inl ENOMEM, w)
     else
       let p = en_ptr env;
           region = \<lparr>region_start = al_offset a,
             region_end = (if c_version (cd_client w c) < 4 then al_offset a + of_nat (al_length a) else al_region_end a)\<rparr>;
           h = \<lparr>h_ptr = p, h_offset = 0, h_length = of_nat (al_length a), h_callback = Handle_other p,
                h_kref = 0, h_done = False\<rparr> in
       (case fw_core_add_address_handler (rq_handlers (cd_rq w)) h region of
          None \<Rightarrow> None
        | Some (Some err, h, hs) \<Rightarrow> Some (Inl err, w)
        | Some (None, h, hs) \<Rightarrow>
            let w = w\<lparr>cd_rq := (cd_rq w)\<lparr>rq_handlers := hs\<rparr>, cd_closures := (cd_closures w)(p := (al_closure a, c))\<rparr> in
            (case add_client_resource env w c (Address_handler p) of
               (Inl err, w) \<Rightarrow> Some (Inl err, release_address_handler w p)
             | (Inr handle, w) \<Rightarrow> Some (Inr (h_offset h, handle), w))))"

definition ioctl_deallocate :: "cdev \<Rightarrow> nat \<Rightarrow> nat \<Rightarrow> (errno + nat) \<times> cdev" where
  "ioctl_deallocate w c handle =
    (case take_client_resource w c handle Release_address_handler of
       Some (Address_handler p, w) \<Rightarrow> (Inr 0, client_put (release_address_handler w p) c)
     | _ \<Rightarrow> (Inl EINVAL, w))"

record add_descriptor_arg =
  ad_immediate :: u32
  ad_key :: u32
  ad_length :: nat
  ad_data :: "u32 list option"

definition release_descriptor :: "(u16 \<Rightarrow> u8 list \<Rightarrow> u16) \<Rightarrow> cdev \<Rightarrow> fw_descriptor \<Rightarrow> cdev" where
  "release_descriptor crc w d = w\<lparr>cd_rom := fw_core_remove_descriptor crc (cd_rom w) d\<rparr>"

definition ioctl_add_descriptor ::
  "(u16 \<Rightarrow> u8 list \<Rightarrow> u16) \<Rightarrow> cdev_env \<Rightarrow> cdev \<Rightarrow> nat \<Rightarrow> add_descriptor_arg \<Rightarrow> (errno + nat) \<times> cdev" where
  "ioctl_add_descriptor crc env w c a =
    (if \<not> dev_is_local (the_device w c) then (Inl ENOSYS, w)
     else if ad_length a > 256 then (Inl EINVAL, w)
     else if \<not> en_alloc env then (Inl ENOMEM, w)
     else
       (case ad_data a of
          None \<Rightarrow> (Inl EFAULT, w)
        | Some dat \<Rightarrow>
            let d = \<lparr>desc_length = ad_length a, immediate = ad_immediate a, key = ad_key a, data = dat\<rparr> in
            (case fw_core_add_descriptor crc (cd_rom w) d of
               Inl err \<Rightarrow> (Inl err, w)
             | Inr rom \<Rightarrow>
                 (case add_client_resource env (w\<lparr>cd_rom := rom\<rparr>) c (Descriptor d) of
                    (Inl err, w) \<Rightarrow> (Inl err, release_descriptor crc w d)
                  | (Inr handle, w) \<Rightarrow> (Inr handle, w)))))"

definition ioctl_remove_descriptor :: "(u16 \<Rightarrow> u8 list \<Rightarrow> u16) \<Rightarrow> cdev \<Rightarrow> nat \<Rightarrow> nat \<Rightarrow> (errno + nat) \<times> cdev" where
  "ioctl_remove_descriptor crc w c handle =
    (case take_client_resource w c handle Release_descriptor of
       Some (Descriptor d, w) \<Rightarrow> (Inr 0, client_put (release_descriptor crc w d) c)
     | _ \<Rightarrow> (Inl EINVAL, w))"

definition ioctl_initiate_bus_reset :: "cdev \<Rightarrow> nat \<Rightarrow> bool \<Rightarrow> (errno + nat) \<times> cdev" where
  "ioctl_initiate_bus_reset w c short_reset = (Inr 0, cd_emit w (Call_schedule_bus_reset True short_reset))"

definition ioctl_get_speed :: "cdev \<Rightarrow> nat \<Rightarrow> (errno + nat) \<times> cdev" where
  "ioctl_get_speed w c = (Inr (dev_max_speed (the_device w c)), w)"

section \<open>Bus resets and information\<close>

text \<open>\<open>None\<close> is the use of a null node.\<close>

definition fill_bus_reset_event :: "cdev \<Rightarrow> nat \<Rightarrow> event_body option" where
  "fill_bus_reset_event w c =
    (case (card_local_node (cd_card w), card_irm_node (cd_card w), card_root_node (cd_card w)) of
       (Some local, Some irm, Some root) \<Rightarrow>
         Some (Ev_bus_reset (c_bus_reset_closure (cd_client w c)) (dev_generation (the_device w c)) (dev_node_id (the_device w c)) local
                 (card_bm_node_id (cd_card w)) irm root)
     | _ \<Rightarrow> None)"

text \<open>\<open>queue_delayed_work\<close> on a pending work item does nothing.\<close>

definition schedule_iso_resource_auto :: "cdev \<Rightarrow> nat \<Rightarrow> cdev" where
  "schedule_iso_resource_auto w r =
    (case cd_auto w r of
       None \<Rightarrow> w
     | Some a \<Rightarrow>
         let w = client_get w (a_client a) in
         if a_pending a then client_put w (a_client a) else w\<lparr>cd_auto := (cd_auto w)(r := Some (a\<lparr>a_pending := True\<rparr>))\<rparr>)"

fun schedule_resources :: "cdev \<Rightarrow> client_resource list \<Rightarrow> cdev" where
  "schedule_resources w [] = w"
| "schedule_resources w (Iso_resource_auto r # rs) = schedule_resources (schedule_iso_resource_auto w r) rs"
| "schedule_resources w (_ # rs) = schedule_resources w rs"

definition queue_bus_reset_event :: "bool \<Rightarrow> cdev \<Rightarrow> nat \<Rightarrow> cdev option" where
  "queue_bus_reset_event alloc w c =
    (if \<not> alloc then Some w
     else
       (case fill_bus_reset_event w c of
          None \<Rightarrow> None
        | Some body \<Rightarrow>
            let w = queue_event w c \<lparr>ev_body = body, ev_size0 = 40, ev_data1 = No_data, ev_size1 = 0\<rparr>
            in Some (schedule_resources w (map snd (c_resource_xa (cd_client w c))))))"

fun update_clients :: "(nat \<Rightarrow> bool) \<Rightarrow> cdev \<Rightarrow> nat list \<Rightarrow> cdev option" where
  "update_clients alloc w [] = Some w"
| "update_clients alloc w (c # cs) =
    (case queue_bus_reset_event (alloc c) w c of None \<Rightarrow> None | Some w \<Rightarrow> update_clients alloc w cs)"

definition fw_device_cdev_update :: "(nat \<Rightarrow> bool) \<Rightarrow> cdev \<Rightarrow> nat \<Rightarrow> cdev option" where
  "fw_device_cdev_update alloc w d = update_clients alloc w (dev_client_list (cd_device w d))"

record get_info_arg =
  gi_version :: nat
  gi_rom :: bool
  gi_rom_length :: nat
  gi_bus_reset :: bool
  gi_bus_reset_closure :: u64

record get_info_result =
  gr_version :: nat
  gr_card :: nat
  gr_rom_length :: nat
  gr_rom_copied :: nat
  gr_bus_reset :: "event_body option"

text \<open>The flags say whether the ROM and the event can be copied to user space.\<close>

definition ioctl_get_info :: "bool \<Rightarrow> bool \<Rightarrow> cdev \<Rightarrow> nat \<Rightarrow> get_info_arg \<Rightarrow> ((errno + get_info_result) \<times> cdev) option" where
  "ioctl_get_info rom_ok event_ok w c a =
    (let w = cd_upd w c (\<lambda>x. x\<lparr>c_version := gi_version a\<rparr>);
         have = length (dev_config_rom (the_device w c)) * 4 in
     if gi_rom a \<and> \<not> rom_ok then Some (Inl EFAULT, w)
     else
       let w = cd_upd w c (\<lambda>x. x\<lparr>c_bus_reset_closure := gi_bus_reset_closure a\<rparr>) in
       (case (if gi_bus_reset a then map_option Some (fill_bus_reset_event w c) else Some None) of
          None \<Rightarrow> None
        | Some ev \<Rightarrow>
            if gi_bus_reset a \<and> \<not> event_ok then Some (Inl EFAULT, w)
            else
              let d = c_device (cd_client w c); dev = cd_device w d;
                  w = (if c \<notin> set (dev_client_list dev)
                       then w\<lparr>cd_device := (cd_device w)(d := dev\<lparr>dev_client_list := dev_client_list dev @ [c]\<rparr>)\<rparr> else w)
              in Some (Inr \<lparr>gr_version = 6, gr_card = card_index (cd_card w), gr_rom_length = have,
                    gr_rom_copied = (if gi_rom a then min (gi_rom_length a) have else 0), gr_bus_reset = ev\<rparr>, w)))"

end
