(* ===== verification/Cdev_Iso.thy ===== *)
theory Cdev_Iso
  imports Cdev
begin

text \<open>
  The character device (\<^verbatim>\<open>drivers/firewire/core-cdev.c\<close>), second part: isochronous contexts and their packets, the buffer that is
  mapped into user space, isochronous resources with their work items, PHY packets, the table of operations, and the release of a client.
\<close>

section \<open>Isochronous contexts\<close>

definition iso_callback :: "bool \<Rightarrow> cdev \<Rightarrow> nat \<Rightarrow> u32 \<Rightarrow> bytes \<Rightarrow> cdev" where
  "iso_callback alloc w c cycle header =
    (if \<not> alloc then w
     else queue_event w c \<lparr>ev_body = Ev_iso_interrupt (c_iso_closure (cd_client w c)) cycle header, ev_size0 = 24 + length header,
            ev_data1 = No_data, ev_size1 = 0\<rparr>)"

definition iso_mc_callback :: "bool \<Rightarrow> cdev \<Rightarrow> nat \<Rightarrow> u64 \<Rightarrow> cdev" where
  "iso_mc_callback alloc w c completed =
    (if \<not> alloc then w
     else queue_event w c \<lparr>ev_body = Ev_iso_interrupt_mc (c_iso_closure (cd_client w c)) (fw_iso_buffer_lookup (c_buffer (cd_client w c)) completed),
            ev_size0 = 16, ev_data1 = No_data, ev_size1 = 0\<rparr>)"

definition iso_dma_direction :: "iso_context \<Rightarrow> dma_data_direction" where
  "iso_dma_direction ctx = (if ic_type ctx = FW_ISO_CONTEXT_TRANSMIT then DMA_TO_DEVICE else DMA_FROM_DEVICE)"

record create_iso_context_arg =
  cr_type :: nat
  cr_header_size :: nat
  cr_channel :: nat
  cr_speed :: nat
  cr_closure :: u64

text \<open>The calls below: creation of the context, the array of DMA addresses and the mapping of a page.\<close>

record iso_env =
  ie_create :: "errno option"
  ie_arr :: bool
  ie_bulk :: "nat \<Rightarrow> nat list"
  ie_arr2 :: bool
  ie_dma_map :: "nat \<Rightarrow> u64 option"
  ie_vm_map :: "errno option"

definition iso_type_of :: "nat \<Rightarrow> iso_context_type option" where
  "iso_type_of n =
    (if n = 0 then Some FW_ISO_CONTEXT_TRANSMIT else if n = 1 then Some FW_ISO_CONTEXT_RECEIVE
     else if n = 2 then Some FW_ISO_CONTEXT_RECEIVE_MULTICHANNEL else None)"

definition iso_context_args_ok :: "create_iso_context_arg \<Rightarrow> iso_context_type \<Rightarrow> bool" where
  "iso_context_args_ok a type =
    (case type of
       FW_ISO_CONTEXT_TRANSMIT \<Rightarrow> cr_speed a \<le> 5 \<and> cr_channel a \<le> 63
     | FW_ISO_CONTEXT_RECEIVE \<Rightarrow> \<not> (cr_header_size a < 4 \<or> cr_header_size a mod 4 \<noteq> 0 \<or> cr_channel a > 63)
     | FW_ISO_CONTEXT_RECEIVE_MULTICHANNEL \<Rightarrow> True)"

definition ioctl_create_iso_context :: "iso_env \<Rightarrow> cdev \<Rightarrow> nat \<Rightarrow> create_iso_context_arg \<Rightarrow> (errno + nat) \<times> cdev" where
  "ioctl_create_iso_context env w c a =
    (case iso_type_of (cr_type a) of
       None \<Rightarrow> (Inl EINVAL, w)
     | Some type \<Rightarrow>
         if \<not> iso_context_args_ok a type then (Inl EINVAL, w)
         else
           (case ie_create env of
              Some err \<Rightarrow> (Inl err, w)
            | None \<Rightarrow>
                let multi = (type = FW_ISO_CONTEXT_RECEIVE_MULTICHANNEL);
                    context = \<lparr>ic_type = type, ic_channel = (if multi then 0 else cr_channel a), ic_speed = (if multi then 0 else cr_speed a),
                      ic_header_size = (if multi then 0 else cr_header_size a), ic_drop_overflow_headers = (c_version (cd_client w c) < 5)\<rparr>;
                    x = cd_client w c in
                if c_iso_context x \<noteq> None then (Inl EBUSY, cd_emit w (Call_iso_destroy c))
                else
                  let (err, buf, ev) =
                        (if pages (c_buffer x) \<noteq> None \<and> dma_addrs (c_buffer x) = None
                         then fw_iso_buffer_map_dma (ie_arr2 env) (ie_dma_map env) (c_buffer x) (iso_dma_direction context)
                         else (None, c_buffer x, []));
                      w = (if ev = [] then w else cd_emit w (Call_dma ev)) in
                  (case err of
                     Some e \<Rightarrow> (Inl e, cd_emit (cd_upd w c (\<lambda>x. x\<lparr>c_buffer := buf\<rparr>)) (Call_iso_destroy c))
                   | None \<Rightarrow>
                       (Inr 0, cd_upd w c (\<lambda>x. x\<lparr>c_buffer := buf, c_iso_closure := cr_closure a, c_iso_context := Some context\<rparr>)))))"

text \<open>The operations on the context all check that there is one and that its handle, 0, is given.  \<open>drv\<close> is the driver's result.\<close>

definition ioctl_set_iso_channels :: "errno option \<Rightarrow> cdev \<Rightarrow> nat \<Rightarrow> nat \<Rightarrow> u64 \<Rightarrow> (errno + nat) \<times> cdev" where
  "ioctl_set_iso_channels drv w c handle channels =
    (if c_iso_context (cd_client w c) = None \<or> handle \<noteq> 0 then (Inl EINVAL, w)
     else (case drv of Some err \<Rightarrow> Inl err | None \<Rightarrow> Inr 0, cd_emit w (Call_iso_set_channels c channels)))"

definition ioctl_start_iso :: "errno option \<Rightarrow> cdev \<Rightarrow> nat \<Rightarrow> nat \<Rightarrow> u32 \<Rightarrow> u32 \<Rightarrow> u32 \<Rightarrow> (errno + nat) \<times> cdev" where
  "ioctl_start_iso drv w c handle cycle sync tags =
    (case c_iso_context (cd_client w c) of
       None \<Rightarrow> (Inl EINVAL, w)
     | Some ctx \<Rightarrow>
         if handle \<noteq> 0 then (Inl EINVAL, w)
         else if ic_type ctx = FW_ISO_CONTEXT_RECEIVE \<and> (tags = 0 \<or> tags > 15 \<or> sync > 15) then (Inl EINVAL, w)
         else (case drv of Some err \<Rightarrow> Inl err | None \<Rightarrow> Inr 0, cd_emit w (Call_iso_start c cycle sync tags)))"

definition ioctl_stop_iso :: "errno option \<Rightarrow> cdev \<Rightarrow> nat \<Rightarrow> nat \<Rightarrow> (errno + nat) \<times> cdev" where
  "ioctl_stop_iso drv w c handle =
    (if c_iso_context (cd_client w c) = None \<or> handle \<noteq> 0 then (Inl EINVAL, w)
     else (case drv of Some err \<Rightarrow> Inl err | None \<Rightarrow> Inr 0, cd_emit w (Call_iso_stop c)))"

definition ioctl_flush_iso :: "errno option \<Rightarrow> cdev \<Rightarrow> nat \<Rightarrow> nat \<Rightarrow> (errno + nat) \<times> cdev" where
  "ioctl_flush_iso drv w c handle =
    (if c_iso_context (cd_client w c) = None \<or> handle \<noteq> 0 then (Inl EINVAL, w)
     else (case drv of Some err \<Rightarrow> Inl err | None \<Rightarrow> Inr 0, cd_emit w (Call_iso_flush_completions c)))"

section \<open>Queueing packets\<close>

text \<open>The fields of the control word of a packet.\<close>

definition GET_PAYLOAD_LENGTH :: "u32 \<Rightarrow> nat" where "GET_PAYLOAD_LENGTH v = unat (v AND 0xffff)"
definition GET_INTERRUPT :: "u32 \<Rightarrow> nat" where "GET_INTERRUPT v = unat (drop_bit 16 v AND 0x01)"
definition GET_SKIP :: "u32 \<Rightarrow> nat" where "GET_SKIP v = unat (drop_bit 17 v AND 0x01)"
definition GET_TAG :: "u32 \<Rightarrow> nat" where "GET_TAG v = unat (drop_bit 18 v AND 0x03)"
definition GET_SY :: "u32 \<Rightarrow> nat" where "GET_SY v = unat (drop_bit 20 v AND 0x0f)"
definition GET_HEADER_LENGTH :: "u32 \<Rightarrow> nat" where "GET_HEADER_LENGTH v = unat (drop_bit 24 v AND 0xff)"

definition decode_control :: "u32 \<Rightarrow> fw_iso_packet" where
  "decode_control v =
    \<lparr>payload_length = GET_PAYLOAD_LENGTH v, pk_interrupt = (GET_INTERRUPT v = 1), pk_skip = (GET_SKIP v = 1), pk_tag = GET_TAG v,
     pk_sy = GET_SY v, header_length = GET_HEADER_LENGTH v, pk_header = []\<rparr>"

definition iso_packet_ok :: "iso_context \<Rightarrow> fw_iso_packet \<Rightarrow> bool" where
  "iso_packet_ok ctx u =
    (case ic_type ctx of
       FW_ISO_CONTEXT_TRANSMIT \<Rightarrow> header_length u mod 4 = 0
     | FW_ISO_CONTEXT_RECEIVE \<Rightarrow> header_length u \<noteq> 0 \<and> header_length u mod ic_header_size ctx = 0
     | FW_ISO_CONTEXT_RECEIVE_MULTICHANNEL \<Rightarrow> payload_length u \<noteq> 0 \<and> payload_length u mod 4 = 0)"

text \<open>A quadlet of user space, unless it cannot be read.\<close>

type_synonym user_memory = "nat \<Rightarrow> u32 option"

definition copy_quadlets :: "user_memory \<Rightarrow> nat \<Rightarrow> nat \<Rightarrow> u32 list option" where
  "copy_quadlets user p n =
    (if \<forall>i \<in> set [0..<n]. user (p + 4 * i) \<noteq> None then Some (map (\<lambda>i. the (user (p + 4 * i))) [0..<n]) else None)"

text \<open>The loop over the packets from address \<open>p\<close> to \<open>pend\<close>.  \<open>drv\<close> says whether the driver takes the packet, given those before.  The
  result is the error, the address and the payload after the last packet, and the packets that have been queued.\<close>

function queue_iso_loop ::
  "user_memory \<Rightarrow> ((fw_iso_packet \<times> nat) list \<Rightarrow> bool) \<Rightarrow> iso_context \<Rightarrow> nat \<Rightarrow> nat \<Rightarrow> nat \<Rightarrow> nat \<Rightarrow> (fw_iso_packet \<times> nat) list \<Rightarrow>
    errno option \<times> nat \<times> nat \<times> (fw_iso_packet \<times> nat) list" where
  "queue_iso_loop user drv ctx pend buffer_end p payload queued =
    (if p \<ge> pend then (None, p, payload, queued)
     else
       (case user p of
          None \<Rightarrow> (Some EFAULT, p, payload, queued)
        | Some control \<Rightarrow>
            let u = decode_control control;
                transmit_header_bytes = (if ic_type ctx = FW_ISO_CONTEXT_TRANSMIT then header_length u else 0);
                nxt = p + 4 + 4 * (transmit_header_bytes div 4) in
            if \<not> iso_packet_ok ctx u \<or> nxt > pend then (Some EINVAL, p, payload, queued)
            else
              (case copy_quadlets user (p + 4) (transmit_header_bytes div 4) of
                 None \<Rightarrow> (Some EFAULT, p, payload, queued)
               | Some header \<Rightarrow>
                   let u = u\<lparr>pk_header := header\<rparr> in
                   if pk_skip u \<and> ic_type ctx = FW_ISO_CONTEXT_TRANSMIT \<and> header_length u + payload_length u > 0 \<or>
                      payload + payload_length u > buffer_end
                   then (Some EINVAL, p, payload, queued)
                   else if \<not> drv queued then (None, p, payload, queued)
                   else queue_iso_loop user drv ctx pend buffer_end nxt (payload + payload_length u) (queued @ [(u, payload)]))))"
  by pat_completeness auto
termination by (relation "measure (\<lambda>(user, drv, ctx, pend, buffer_end, p, payload, queued). pend - p)") auto

declare queue_iso_loop.simps [simp del]

record queue_iso_arg =
  qi_packets :: nat
  qi_data :: u64
  qi_size :: nat
  qi_handle :: nat

text \<open>Where the payload starts and how far it may reach.\<close>

definition queue_iso_payload :: "client \<Rightarrow> u64 \<Rightarrow> nat \<times> nat" where
  "queue_iso_payload x dat =
    (let payload = unat (dat - c_vm_start x); buffer_end = page_count (c_buffer x) * 4096
     in if dat = 0 \<or> pages (c_buffer x) = None \<or> payload \<ge> buffer_end then (0, 0) else (payload, buffer_end))"

text \<open>The results are the number of packets and the updated argument.\<close>

definition ioctl_queue_iso ::
  "user_memory \<Rightarrow> ((fw_iso_packet \<times> nat) list \<Rightarrow> bool) \<Rightarrow> cdev \<Rightarrow> nat \<Rightarrow> queue_iso_arg \<Rightarrow> (errno + nat \<times> queue_iso_arg) \<times> cdev" where
  "ioctl_queue_iso user drv w c a =
    (case c_iso_context (cd_client w c) of
       None \<Rightarrow> (Inl EINVAL, w)
     | Some ctx \<Rightarrow>
         if qi_handle a \<noteq> 0 then (Inl EINVAL, w)
         else
           let (payload, buffer_end) = queue_iso_payload (cd_client w c) (qi_data a) in
           if ic_type ctx = FW_ISO_CONTEXT_RECEIVE_MULTICHANNEL \<and> payload mod 4 \<noteq> 0 then (Inl EINVAL, w)
           else
             let (err, p, payload, queued) =
                   queue_iso_loop user drv ctx (qi_packets a + qi_size a) buffer_end (qi_packets a) payload [];
                 w = w\<lparr>cd_log := cd_log w @ map (\<lambda>(u, payload). Call_iso_queue c u payload) queued\<rparr> in
             (case err of
                Some e \<Rightarrow> (Inl e, w)
              | None \<Rightarrow>
                  (Inr (length queued, a\<lparr>qi_size := qi_size a - (p - qi_packets a), qi_packets := p,
                          qi_data := c_vm_start (cd_client w c) + of_nat payload\<rparr>),
                   cd_emit w (Call_iso_flush c))))"

section \<open>Cycle timer\<close>

text \<open>The clock: seconds and nanoseconds of the clocks that are known.\<close>

definition ioctl_get_cycle_timer2 :: "(errno + u32) \<Rightarrow> (nat \<Rightarrow> (int \<times> int) option) \<Rightarrow> nat \<Rightarrow> errno + int \<times> int \<times> u32" where
  "ioctl_get_cycle_timer2 cycle_time clock clk_id =
    (case cycle_time of
       Inl err \<Rightarrow> Inl err
     | Inr t \<Rightarrow> (case clock clk_id of None \<Rightarrow> Inl EINVAL | Some (sec, nsec) \<Rightarrow> Inr (sec, nsec, t)))"

text \<open>The old operation ignores errors and then reads what is in its uninitialized variable.\<close>

definition ioctl_get_cycle_timer :: "(int \<times> int \<times> u32) \<Rightarrow> (errno + u32) \<Rightarrow> (nat \<Rightarrow> (int \<times> int) option) \<Rightarrow> int \<times> u32" where
  "ioctl_get_cycle_timer junk cycle_time clock =
    (let (sec, nsec, t) = (case ioctl_get_cycle_timer2 cycle_time clock 0 of Inl err \<Rightarrow> junk | Inr r \<Rightarrow> r)
     in (sec * 1000000 + nsec div 1000, t))"

section \<open>The mapped buffer\<close>

record vma =
  vm_start :: u64
  vm_end :: u64
  vm_shared :: bool

definition destroy_buffer :: "cdev \<Rightarrow> nat \<Rightarrow> cdev" where
  "destroy_buffer w c =
    (let (buf, ev) = fw_iso_buffer_destroy (c_buffer (cd_client w c)) in cd_emit (cd_upd w c (\<lambda>x. x\<lparr>c_buffer := buf\<rparr>)) (Call_dma ev))"

definition fw_device_op_mmap :: "iso_env \<Rightarrow> cdev \<Rightarrow> nat \<Rightarrow> vma \<Rightarrow> errno option \<times> cdev" where
  "fw_device_op_mmap env w c v =
    (if dev_is_shutdown (the_device w c) then (Some ENODEV, w)
     else if pages (c_buffer (cd_client w c)) \<noteq> None then (Some EBUSY, w)
     else if \<not> vm_shared v \<or> vm_start v AND 0xfff \<noteq> 0 then (Some EINVAL, w)
     else
       let w = cd_upd w c (\<lambda>x. x\<lparr>c_vm_start := vm_start v\<rparr>); msize = vm_end v - vm_start v in
       if msize AND 0xfff \<noteq> 0 then (Some EINVAL, w)
       else
         (case fw_iso_buffer_alloc (ie_arr env) (ie_bulk env) (c_buffer (cd_client w c)) (unat (drop_bit 12 msize)) of
            (Some err, buf, ev) \<Rightarrow> (Some err, cd_emit (cd_upd w c (\<lambda>x. x\<lparr>c_buffer := buf\<rparr>)) (Call_dma ev))
          | (None, buf, ev) \<Rightarrow>
              let (err, buf, ev2) =
                    (case c_iso_context (cd_client w c) of
                       Some ctx \<Rightarrow> fw_iso_buffer_map_dma (ie_arr2 env) (ie_dma_map env) buf (iso_dma_direction ctx)
                     | None \<Rightarrow> (None, buf, []));
                  w = cd_emit (cd_upd w c (\<lambda>x. x\<lparr>c_buffer := buf\<rparr>)) (Call_dma (ev @ ev2)) in
              (case (case err of Some e \<Rightarrow> Some e | None \<Rightarrow> ie_vm_map env) of
                 Some e \<Rightarrow> (Some e, destroy_buffer w c)
               | None \<Rightarrow> (None, w))))"

section \<open>Isochronous resources\<close>

record iso_resource_arg =
  ir_closure :: u64
  ir_channels :: u64
  ir_bandwidth :: nat

definition fill_iso_resource_params :: "iso_resource_arg \<Rightarrow> (u64 \<times> int) option" where
  "fill_iso_resource_params a =
    (if (ir_channels a = 0 \<and> ir_bandwidth a = 0) \<or> int (ir_bandwidth a) > BANDWIDTH_AVAILABLE_INITIAL then None
     else Some (ir_channels a, int (ir_bandwidth a)))"

definition upd_auto :: "cdev \<Rightarrow> nat \<Rightarrow> (iso_resource_auto \<Rightarrow> iso_resource_auto) \<Rightarrow> cdev" where
  "upd_auto w r f = w\<lparr>cd_auto := (cd_auto w)(r := map_option f (cd_auto w r))\<rparr>"

definition release_iso_resource_auto :: "cdev \<Rightarrow> nat \<Rightarrow> cdev" where
  "release_iso_resource_auto w r =
    schedule_iso_resource_auto (upd_auto w r (\<lambda>a. a\<lparr>a_todo := ISO_RES_AUTO_DEALLOC\<rparr>)) r"

definition ioctl_allocate_iso_resource :: "cdev_env \<Rightarrow> cdev \<Rightarrow> nat \<Rightarrow> iso_resource_arg \<Rightarrow> (errno + nat) \<times> cdev" where
  "ioctl_allocate_iso_resource env w c a =
    (if \<not> en_alloc env then (Inl ENOMEM, w)
     else
       (case fill_iso_resource_params a of
          None \<Rightarrow> (Inl EINVAL, w)
        | Some (channels, bandwidth) \<Rightarrow>
            let r = en_ptr env in
            (case add_client_resource env w c (Iso_resource_auto r) of
               (Inl err, w) \<Rightarrow> (Inl err, w)
             | (Inr handle, w) \<Rightarrow>
                 let res = \<lparr>a_client = c, a_handle = handle, a_todo = ISO_RES_AUTO_ALLOC, a_generation = en_generation env,
                       a_channels_mask = channels, a_bandwidth = bandwidth, a_closure = ir_closure a, a_e_alloc = True, a_e_dealloc = True,
                       a_pending = False, a_run = Auto_idle\<rparr>
                 in (Inr handle, schedule_iso_resource_auto (w\<lparr>cd_auto := (cd_auto w)(r := Some res)\<rparr>) r))))"

definition ioctl_deallocate_iso_resource :: "cdev \<Rightarrow> nat \<Rightarrow> nat \<Rightarrow> (errno + nat) \<times> cdev" where
  "ioctl_deallocate_iso_resource w c handle =
    (case take_client_resource w c handle Release_iso_resource_auto of
       Some (Iso_resource_auto r, w) \<Rightarrow> (Inr 0, client_put (release_iso_resource_auto w r) c)
     | _ \<Rightarrow> (Inl EINVAL, w))"

text \<open>The work item takes several steps, between which others can run: it starts, manages the resources, and takes note of the result.\<close>

definition auto_work_start :: "cdev_env \<Rightarrow> cdev \<Rightarrow> nat \<Rightarrow> cdev" where
  "auto_work_start env w r =
    (case cd_auto w r of
       None \<Rightarrow> w
     | Some a \<Rightarrow>
         let c = a_client a; current = dev_generation (the_device w c);
             w = upd_auto w r (\<lambda>a. a\<lparr>a_pending := False, a_generation := current\<rparr>) in
         if a_todo a = ISO_RES_AUTO_ALLOC \<and> sint (en_jiffies env - (card_reset_jiffies (cd_card w) + en_second env)) < 0 then
           client_put (schedule_iso_resource_auto w r) c
         else if a_todo a = ISO_RES_AUTO_REALLOC \<and> a_generation a = current then client_put w c
         else upd_auto w r (\<lambda>x. x\<lparr>a_run := Auto_managing (a_todo a) current\<rparr>))"

definition auto_work_manage :: "irm \<Rightarrow> cdev \<Rightarrow> nat \<Rightarrow> cdev" where
  "auto_work_manage irm w r =
    (case cd_auto w r of
       None \<Rightarrow> w
     | Some a \<Rightarrow>
         (case a_run a of
            Auto_managing todo generation \<Rightarrow>
              let (channel, bandwidth, h) =
                    fw_iso_resource_manage irm (cd_irm_log w) (a_channels_mask a) (a_bandwidth a) (todo \<noteq> ISO_RES_AUTO_DEALLOC)
              in upd_auto (w\<lparr>cd_irm_log := h\<rparr>) r (\<lambda>x. x\<lparr>a_run := Auto_managed todo channel bandwidth\<rparr>)
          | _ \<Rightarrow> w))"

text \<open>The end of the work function: the event is sent, and the resource freed if it is out of the array.  \<open>None\<close> is the use of a null event.\<close>

definition auto_work_notify :: "cdev \<Rightarrow> nat \<Rightarrow> iso_resource_auto \<Rightarrow> iso_todo \<Rightarrow> errno + nat \<Rightarrow> int \<Rightarrow> bool \<Rightarrow> cdev option" where
  "auto_work_notify w r a todo channel bandwidth free =
    (let c = a_client a; alloc = (todo = ISO_RES_AUTO_ALLOC);
         has_event = (if alloc then a_e_alloc a else a_e_dealloc a);
         a' = (if alloc then a\<lparr>a_todo := ISO_RES_AUTO_REALLOC, a_e_alloc := False,
                   a_channels_mask := (case channel of Inr ch \<Rightarrow> push_bit ch 1 | Inl _ \<Rightarrow> a_channels_mask a)\<rparr>
               else a\<lparr>a_e_dealloc := False\<rparr>) in
     if \<not> has_event then None
     else
       let w = queue_event w c \<lparr>ev_body = Ev_iso_resource alloc (a_closure a) (int (a_handle a)) channel bandwidth, ev_size0 = 24,
                 ev_data1 = No_data, ev_size1 = 0\<rparr>;
           w = w\<lparr>cd_auto := (cd_auto w)(r := if free then None else Some (a'\<lparr>a_run := Auto_idle\<rparr>))\<rparr>
       in Some (client_put w c))"

definition auto_work_decide :: "cdev \<Rightarrow> nat \<Rightarrow> cdev option" where
  "auto_work_decide w r =
    (case cd_auto w r of
       None \<Rightarrow> Some w
     | Some a \<Rightarrow>
         (case a_run a of
            Auto_managed todo channel bandwidth \<Rightarrow>
              let c = a_client a; success = (\<not> isl channel \<or> bandwidth > 0);
                  out = client_put (upd_auto w r (\<lambda>x. x\<lparr>a_run := Auto_idle\<rparr>)) c in
              if todo = ISO_RES_AUTO_DEALLOC then auto_work_notify w r a todo channel bandwidth True
              else if channel = Inl EAGAIN then Some out
              else if \<not> success then
                if \<not> c_in_shutdown (cd_client w c) \<and> xa_load (c_resource_xa (cd_client w c)) (a_handle a) \<noteq> None then
                  Some (client_put (upd_auto (erase_resource w c (a_handle a)) r (\<lambda>x. x\<lparr>a_run := Auto_failed todo channel bandwidth True\<rparr>)) c)
                else Some (upd_auto w r (\<lambda>x. x\<lparr>a_run := Auto_failed todo channel bandwidth False\<rparr>))
              else if todo = ISO_RES_AUTO_REALLOC then Some out
              else auto_work_notify w r a todo channel bandwidth False
          | Auto_failed todo channel bandwidth free \<Rightarrow> auto_work_notify w r a todo channel bandwidth free
          | _ \<Rightarrow> Some w))"

text \<open>Resources that are allocated or freed once.\<close>

definition init_iso_resource_once :: "cdev_env \<Rightarrow> cdev \<Rightarrow> nat \<Rightarrow> iso_resource_arg \<Rightarrow> bool \<Rightarrow> (errno + int) \<times> cdev" where
  "init_iso_resource_once env w c a alloc =
    (if \<not> en_alloc env then (Inl ENOMEM, w)
     else
       (case fill_iso_resource_params a of
          None \<Rightarrow> (Inl EINVAL, w)
        | Some (channels, bandwidth) \<Rightarrow>
            let w = client_get w c;
                r = \<lparr>o_client = c, o_alloc = alloc, o_channels_mask = channels, o_bandwidth = bandwidth, o_closure = ir_closure a\<rparr>
            in (Inr (-1), w\<lparr>cd_once := (cd_once w)(en_ptr env := Some r)\<rparr>)))"

definition iso_resource_once_work :: "irm \<Rightarrow> cdev \<Rightarrow> nat \<Rightarrow> cdev" where
  "iso_resource_once_work irm w r =
    (case cd_once w r of
       None \<Rightarrow> w
     | Some x \<Rightarrow>
         let (channel, bandwidth, h) = fw_iso_resource_manage irm (cd_irm_log w) (o_channels_mask x) (o_bandwidth x) (o_alloc x);
             w = queue_event (w\<lparr>cd_irm_log := h\<rparr>) (o_client x)
                   \<lparr>ev_body = Ev_iso_resource (o_alloc x) (o_closure x) (-1) channel bandwidth, ev_size0 = 24, ev_data1 = No_data, ev_size1 = 0\<rparr>
         in client_put (w\<lparr>cd_once := (cd_once w)(r := None)\<rparr>) (o_client x))"

section \<open>PHY packets\<close>

definition is_ping_packet :: "u32 list \<Rightarrow> bool" where
  "is_ping_packet d \<longleftrightarrow> d ! 0 AND 0xc0ffffff = 0 \<and> NOT (d ! 0) = d ! 1"

definition phy_packet_rcode :: "u32 \<Rightarrow> u32" where
  "phy_packet_rcode status =
    (if status = ACK_COMPLETE \<or> status = ACK_PENDING then RCODE_COMPLETE
     else if status = ACK_BUSY_X \<or> status = ACK_BUSY_A \<or> status = ACK_BUSY_B then RCODE_BUSY
     else if status = ACK_DATA_ERROR then RCODE_DATA_ERROR
     else if status = ACK_TYPE_ERROR then RCODE_TYPE_ERROR
     else status)"

definition outbound_phy_packet_callback :: "cdev \<Rightarrow> nat \<Rightarrow> u32 \<Rightarrow> u32 \<Rightarrow> cdev" where
  "outbound_phy_packet_callback w e status tstamp =
    (case cd_phy_out w e of
       None \<Rightarrow> w
     | Some p \<Rightarrow>
         let rcode = phy_packet_rcode status;
             body = (if \<not> ope_with_tstamp p
                     then Ev_phy_packet False (ope_closure p) rcode (ope_length p) ((ope_data p)[0 := tstamp])
                     else Ev_phy_packet2 False (ope_closure p) rcode (ope_length p) tstamp (ope_data p));
             w = queue_event (w\<lparr>cd_phy_out := (cd_phy_out w)(e := None)\<rparr>) (ope_client p)
                   \<lparr>ev_body = body, ev_size0 = 24 + ope_length p, ev_data1 = No_data, ev_size1 = 0\<rparr>
         in client_put w (ope_client p))"

definition ioctl_send_phy_packet :: "cdev_env \<Rightarrow> cdev \<Rightarrow> nat \<Rightarrow> u64 \<Rightarrow> u32 list \<Rightarrow> nat \<Rightarrow> (errno + nat) \<times> cdev" where
  "ioctl_send_phy_packet env w c closure dat generation =
    (if \<not> dev_is_local (the_device w c) then (Inl ENOSYS, w)
     else if \<not> en_alloc env then (Inl ENOMEM, w)
     else
       let w = client_get w c; new = (c_version (cd_client w c) \<ge> 6);
           e = \<lparr>ope_client = c, ope_with_tstamp = new, ope_closure = closure,
                ope_length = (if new then 8 else if is_ping_packet dat then 4 else 0), ope_data = (if new then dat else [0, 0]),
                ope_generation = generation\<rparr>
       in (Inr 0, cd_emit (w\<lparr>cd_phy_out := (cd_phy_out w)(en_ptr env := Some e)\<rparr>) (Call_send_phy (en_ptr env) generation dat)))"

definition ioctl_receive_phy_packets :: "cdev \<Rightarrow> nat \<Rightarrow> u64 \<Rightarrow> (errno + nat) \<times> cdev" where
  "ioctl_receive_phy_packets w c closure =
    (if \<not> dev_is_local (the_device w c) then (Inl ENOSYS, w)
     else (Inr 0, cd_upd (w\<lparr>cd_phy_receivers := removeAll c (cd_phy_receivers w) @ [c]\<rparr>) c (\<lambda>x. x\<lparr>c_phy_receiver_closure := closure\<rparr>)))"

text \<open>Each receiver gets the two quadlets of the packet, until an allocation fails.\<close>

fun deliver_phy_packet :: "(nat \<Rightarrow> bool) \<Rightarrow> u32 \<Rightarrow> u32 list \<Rightarrow> cdev \<Rightarrow> nat list \<Rightarrow> cdev" where
  "deliver_phy_packet alloc tstamp dat w [] = w"
| "deliver_phy_packet alloc tstamp dat w (c # cs) =
    (if \<not> alloc c then w
     else
       let x = cd_client w c;
           body = (if c_version x < 6 then Ev_phy_packet True (c_phy_receiver_closure x) RCODE_COMPLETE 8 dat
                   else Ev_phy_packet2 True (c_phy_receiver_closure x) RCODE_COMPLETE 8 tstamp dat)
       in deliver_phy_packet alloc tstamp dat
            (queue_event w c \<lparr>ev_body = body, ev_size0 = 24 + 8, ev_data1 = No_data, ev_size1 = 0\<rparr>) cs)"

definition fw_cdev_handle_phy_packet :: "(nat \<Rightarrow> bool) \<Rightarrow> cdev \<Rightarrow> u32 \<Rightarrow> u32 list \<Rightarrow> cdev" where
  "fw_cdev_handle_phy_packet alloc w tstamp dat = deliver_phy_packet alloc tstamp dat w (cd_phy_receivers w)"

section \<open>The table of operations\<close>

text \<open>One constructor for each number, with what the operation reads from user space and what the calls below it return.\<close>

datatype ioctl_arg =
    Io_get_info bool bool get_info_arg
  | Io_send_request send_request_arg
  | Io_allocate allocate_arg
  | Io_deallocate nat
  | Io_send_response send_response_arg
  | Io_initiate_bus_reset bool
  | Io_add_descriptor add_descriptor_arg
  | Io_remove_descriptor nat
  | Io_create_iso_context iso_env create_iso_context_arg
  | Io_queue_iso user_memory "(fw_iso_packet \<times> nat) list \<Rightarrow> bool" queue_iso_arg
  | Io_start_iso "errno option" nat u32 u32 u32
  | Io_stop_iso "errno option" nat
  | Io_get_cycle_timer "int \<times> int \<times> u32" "errno + u32" "nat \<Rightarrow> (int \<times> int) option"
  | Io_allocate_iso_resource iso_resource_arg
  | Io_deallocate_iso_resource nat
  | Io_allocate_iso_resource_once iso_resource_arg
  | Io_deallocate_iso_resource_once iso_resource_arg
  | Io_get_speed
  | Io_send_broadcast_request send_request_arg
  | Io_send_stream_packet send_stream_packet_arg u64
  | Io_get_cycle_timer2 "errno + u32" "nat \<Rightarrow> (int \<times> int) option" nat
  | Io_send_phy_packet u64 "u32 list" nat
  | Io_receive_phy_packets u64
  | Io_set_iso_channels "errno option" nat u64
  | Io_flush_iso "errno option" nat

datatype ioctl_out =
    Out_number int
  | Out_range u64 nat
  | Out_info get_info_result
  | Out_queued nat queue_iso_arg
  | Out_timer int u32
  | Out_timer2 int int u32

definition out_number :: "(errno + nat) \<times> cdev \<Rightarrow> ((errno + ioctl_out) \<times> cdev) option" where
  "out_number r = Some (map_sum id (\<lambda>n. Out_number (int n)) (fst r), snd r)"

fun ioctl_handlers ::
  "(u16 \<Rightarrow> u8 list \<Rightarrow> u16) \<Rightarrow> cdev_env \<Rightarrow> cdev \<Rightarrow> nat \<Rightarrow> ioctl_arg \<Rightarrow> ((errno + ioctl_out) \<times> cdev) option" where
  "ioctl_handlers crc env w c (Io_get_info rom_ok event_ok a) =
    map_option (\<lambda>(r, w). (map_sum id Out_info r, w)) (ioctl_get_info rom_ok event_ok w c a)"
| "ioctl_handlers crc env w c (Io_send_request a) = out_number (ioctl_send_request env w c a)"
| "ioctl_handlers crc env w c (Io_allocate a) =
    map_option (\<lambda>(r, w). (map_sum id (\<lambda>(off, h). Out_range off h) r, w)) (ioctl_allocate env w c a)"
| "ioctl_handlers crc env w c (Io_deallocate h) = out_number (ioctl_deallocate w c h)"
| "ioctl_handlers crc env w c (Io_send_response a) = (case ioctl_send_response env w c a of None \<Rightarrow> None | Some r \<Rightarrow> out_number r)"
| "ioctl_handlers crc env w c (Io_initiate_bus_reset short) = out_number (ioctl_initiate_bus_reset w c short)"
| "ioctl_handlers crc env w c (Io_add_descriptor a) = out_number (ioctl_add_descriptor crc env w c a)"
| "ioctl_handlers crc env w c (Io_remove_descriptor h) = out_number (ioctl_remove_descriptor crc w c h)"
| "ioctl_handlers crc env w c (Io_create_iso_context ie a) = out_number (ioctl_create_iso_context ie w c a)"
| "ioctl_handlers crc env w c (Io_queue_iso user drv a) =
    (let (r, w) = ioctl_queue_iso user drv w c a in Some (map_sum id (\<lambda>(n, b). Out_queued n b) r, w))"
| "ioctl_handlers crc env w c (Io_start_iso drv h cycle sync tags) = out_number (ioctl_start_iso drv w c h cycle sync tags)"
| "ioctl_handlers crc env w c (Io_stop_iso drv h) = out_number (ioctl_stop_iso drv w c h)"
| "ioctl_handlers crc env w c (Io_get_cycle_timer junk cycle_time clock) =
    (let (us, t) = ioctl_get_cycle_timer junk cycle_time clock in Some (Inr (Out_timer us t), w))"
| "ioctl_handlers crc env w c (Io_allocate_iso_resource a) = out_number (ioctl_allocate_iso_resource env w c a)"
| "ioctl_handlers crc env w c (Io_deallocate_iso_resource h) = out_number (ioctl_deallocate_iso_resource w c h)"
| "ioctl_handlers crc env w c (Io_allocate_iso_resource_once a) =
    (let (r, w) = init_iso_resource_once env w c a True in Some (map_sum id Out_number r, w))"
| "ioctl_handlers crc env w c (Io_deallocate_iso_resource_once a) =
    (let (r, w) = init_iso_resource_once env w c a False in Some (map_sum id Out_number r, w))"
| "ioctl_handlers crc env w c Io_get_speed = out_number (ioctl_get_speed w c)"
| "ioctl_handlers crc env w c (Io_send_broadcast_request a) = out_number (ioctl_send_broadcast_request env w c a)"
| "ioctl_handlers crc env w c (Io_send_stream_packet a junk) = out_number (ioctl_send_stream_packet env w c a junk)"
| "ioctl_handlers crc env w c (Io_get_cycle_timer2 cycle_time clock clk) =
    Some (map_sum id (\<lambda>(sec, nsec, t). Out_timer2 sec nsec t) (ioctl_get_cycle_timer2 cycle_time clock clk), w)"
| "ioctl_handlers crc env w c (Io_send_phy_packet closure dat generation) =
    out_number (ioctl_send_phy_packet env w c closure dat generation)"
| "ioctl_handlers crc env w c (Io_receive_phy_packets closure) = out_number (ioctl_receive_phy_packets w c closure)"
| "ioctl_handlers crc env w c (Io_set_iso_channels drv h channels) = out_number (ioctl_set_iso_channels drv w c h channels)"
| "ioctl_handlers crc env w c (Io_flush_iso drv h) = out_number (ioctl_flush_iso drv w c h)"

text \<open>The command: its type, the size of its argument, which is at most that of the largest one, and the directions in which the argument
  is copied.  No argument stands for a number that is not in the table.\<close>

record ioctl_cmd =
  ioc_type :: nat
  ioc_size :: nat
  ioc_write :: bool
  ioc_read :: bool

definition dispatch_ioctl ::
  "(u16 \<Rightarrow> u8 list \<Rightarrow> u16) \<Rightarrow> cdev_env \<Rightarrow> bool \<Rightarrow> bool \<Rightarrow> cdev \<Rightarrow> nat \<Rightarrow> ioctl_cmd \<Rightarrow> ioctl_arg option \<Rightarrow>
    ((errno + ioctl_out) \<times> cdev) option" where
  "dispatch_ioctl crc env copy_in copy_out w c cmd arg =
    (if dev_is_shutdown (the_device w c) then Some (Inl ENODEV, w)
     else if ioc_type cmd \<noteq> 0x23 \<or> arg = None \<or> ioc_size cmd > 40 then Some (Inl ENOTTY, w)
     else if ioc_write cmd \<and> \<not> copy_in then Some (Inl EFAULT, w)
     else
       (case ioctl_handlers crc env w c (the arg) of
          None \<Rightarrow> None
        | Some (Inl err, w) \<Rightarrow> Some (Inl err, w)
        | Some (Inr r, w) \<Rightarrow> if ioc_read cmd \<and> \<not> copy_out then Some (Inl EFAULT, w) else Some (Inr r, w)))"

section \<open>Closing\<close>

definition has_outbound_transactions :: "cdev \<Rightarrow> nat \<Rightarrow> bool" where
  "has_outbound_transactions w c \<longleftrightarrow> list_ex (\<lambda>(i, r). release_of r = Release_transaction) (c_resource_xa (cd_client w c))"

text \<open>The release up to the point where it waits for the outbound transactions.\<close>

definition release_begin :: "cdev \<Rightarrow> nat \<Rightarrow> cdev" where
  "release_begin w c =
    (let d = c_device (cd_client w c);
         w = w\<lparr>cd_phy_receivers := removeAll c (cd_phy_receivers w),
               cd_device := (cd_device w)(d := (cd_device w d)\<lparr>dev_client_list := removeAll c (dev_client_list (cd_device w d))\<rparr>)\<rparr>;
         w = (if c_iso_context (cd_client w c) \<noteq> None then cd_emit w (Call_iso_destroy c) else w);
         w = (if pages (c_buffer (cd_client w c)) \<noteq> None then destroy_buffer w c else w)
     in cd_upd w c (\<lambda>x. x\<lparr>c_in_shutdown := True\<rparr>))"

definition release_resource :: "(u16 \<Rightarrow> u8 list \<Rightarrow> u16) \<Rightarrow> cdev \<Rightarrow> client_resource \<Rightarrow> cdev option" where
  "release_resource crc w res =
    (case res of
       Outbound_transaction e \<Rightarrow> Some w
     | Inbound_transaction r \<Rightarrow> release_request w r
     | Address_handler p \<Rightarrow> Some (release_address_handler w p)
     | Descriptor d \<Rightarrow> Some (release_descriptor crc w d)
     | Iso_resource_auto r \<Rightarrow> Some (release_iso_resource_auto w r))"

fun release_resources :: "(u16 \<Rightarrow> u8 list \<Rightarrow> u16) \<Rightarrow> cdev \<Rightarrow> nat \<Rightarrow> client_resource list \<Rightarrow> cdev option" where
  "release_resources crc w c [] = Some w"
| "release_resources crc w c (res # rs) =
    (case release_resource crc w res of None \<Rightarrow> None | Some w \<Rightarrow> release_resources crc (client_put w c) c rs)"

definition release_end :: "(u16 \<Rightarrow> u8 list \<Rightarrow> u16) \<Rightarrow> cdev \<Rightarrow> nat \<Rightarrow> cdev option" where
  "release_end crc w c =
    (case release_resources crc w c (map snd (c_resource_xa (cd_client w c))) of
       None \<Rightarrow> None
     | Some w \<Rightarrow> Some (client_put (cd_upd w c (\<lambda>x. x\<lparr>c_resource_xa := [], c_event_list := []\<rparr>)) c))"

definition fw_device_op_release :: "(u16 \<Rightarrow> u8 list \<Rightarrow> u16) \<Rightarrow> (cdev \<Rightarrow> cdev) \<Rightarrow> cdev \<Rightarrow> nat \<Rightarrow> cdev option" where
  "fw_device_op_release crc meanwhile w c = release_end crc (meanwhile (release_begin w c)) c"

definition fw_device_op_poll :: "cdev \<Rightarrow> nat \<Rightarrow> bool \<times> bool" where
  "fw_device_op_poll w c = (dev_is_shutdown (the_device w c), c_event_list (cd_client w c) \<noteq> [])"

end
