(* ===== verification/Cdev_Proofs.thy ===== *)
theory Cdev_Proofs
  imports Cdev_Iso
begin

text \<open>
  Properties of the character device: the array of resources as a table of handles, packets from user memory, requests that a client
  answers, and the work items of isochronous resources, also where they go wrong.
\<close>

section \<open>Handles\<close>

text \<open>The contract of a table of handles: which entries there are, and what allocating and erasing do to them.\<close>

locale handle_table =
  fixes ok :: "'t \<Rightarrow> bool" and load :: "'t \<Rightarrow> nat \<Rightarrow> 'r option"
    and alloc :: "'r \<Rightarrow> 't \<Rightarrow> nat \<times> 't" and erase :: "nat \<Rightarrow> 't \<Rightarrow> 't"
  assumes alloc_ok: "ok t \<Longrightarrow> ok (snd (alloc r t))"
    and erase_ok: "ok t \<Longrightarrow> ok (erase h t)"
    and alloc_fresh: "ok t \<Longrightarrow> load t (fst (alloc r t)) = None"
    and alloc_positive: "ok t \<Longrightarrow> 0 < fst (alloc r t)"
    and alloc_lowest: "ok t \<Longrightarrow> 0 < i \<Longrightarrow> i < fst (alloc r t) \<Longrightarrow> load t i \<noteq> None"
    and load_alloc: "ok t \<Longrightarrow> load (snd (alloc r t)) = (load t)(fst (alloc r t) \<mapsto> r)"
    and load_erase: "ok t \<Longrightarrow> load (erase h t) = (load t)(h := None)"
begin

text \<open>Other handles are not disturbed, and a handle that has been given back is given out again first if no lower one is free.\<close>

lemma alloc_keeps: "ok t \<Longrightarrow> load t i = Some s \<Longrightarrow> load (snd (alloc r t)) i = Some s"
  using load_alloc alloc_fresh by (metis fun_upd_apply option.distinct(1))

lemma erase_alloc: "ok t \<Longrightarrow> load (erase (fst (alloc r t)) (snd (alloc r t))) = load t"
  using load_alloc load_erase alloc_ok alloc_fresh by (metis fun_upd_triv fun_upd_upd)

lemma alloc_after_erase:
  assumes "ok t" "load t h \<noteq> None" "0 < h" "\<And>i. 0 < i \<Longrightarrow> i < h \<Longrightarrow> load t i \<noteq> None"
  shows "fst (alloc r (erase h t)) = h"
proof (rule ccontr)
  let ?k = "fst (alloc r (erase h t))"
  have e: "ok (erase h t)" "load (erase h t) = (load t)(h := None)" using assms(1) erase_ok load_erase by simp_all
  assume "?k \<noteq> h"
  then consider "?k < h" | "h < ?k" by linarith
  then show False
  proof cases
    case 1
    then have "load t ?k \<noteq> None" using assms(4) alloc_positive [OF e(1)] by blast
    then show False using alloc_fresh [OF e(1), of r] 1 e(2) by simp
  next
    case 2
    then show False using alloc_lowest [OF e(1) assms(3)] e(2) by auto
  qed
qed

end

definition xa_ok :: "'a xarray \<Rightarrow> bool" where
  "xa_ok xa \<longleftrightarrow> sorted_wrt (\<lambda>x y. fst x < fst y) xa \<and> (\<forall>x \<in> set xa. 0 < fst x)"

lemma xa_insert_from:
  assumes "sorted_wrt (\<lambda>x y. fst x < fst y) xa" "\<forall>x \<in> set xa. i \<le> fst x" "xa_insert_from i r xa = (k, ys)"
  shows "i \<le> k \<and> k \<notin> fst ` set xa \<and> (\<forall>j. i \<le> j \<and> j < k \<longrightarrow> j \<in> fst ` set xa) \<and> sorted_wrt (\<lambda>x y. fst x < fst y) ys \<and>
    set ys = insert (k, r) (set xa) \<and> map_of ys = (map_of xa)(k \<mapsto> r)"
  using assms
proof (induction i r xa arbitrary: k ys rule: xa_insert_from.induct)
  case (1 i r)
  then show ?case by auto
next
  case (2 i r j s xs)
  show ?case
  proof (cases "i < j")
    case True
    then have ks: "k = i" "ys = (i, r) # (j, s) # xs" using "2.prems"(3) by auto
    have "\<forall>x \<in> set xs. j < fst x" using "2.prems"(1) by auto
    then show ?thesis using True ks "2.prems"(1,2) by fastforce
  next
    case False
    then have ij: "i = j" using "2.prems"(2) by simp
    obtain zs where zs: "xa_insert_from (i + 1) r xs = (k, zs)" "ys = (j, s) # zs"
      using "2.prems"(3) False by (auto split: prod.splits)
    have "\<forall>x \<in> set xs. i + 1 \<le> fst x" using "2.prems"(1) ij by auto
    then have IH: "i + 1 \<le> k" "k \<notin> fst ` set xs" "\<forall>n. i + 1 \<le> n \<and> n < k \<longrightarrow> n \<in> fst ` set xs"
      "sorted_wrt (\<lambda>x y. fst x < fst y) zs" "set zs = insert (k, r) (set xs)" "map_of zs = (map_of xs)(k \<mapsto> r)"
      using "2.IH" [OF False] "2.prems"(1) zs(1) by auto
    then show ?thesis using ij zs(2) "2.prems"(1) by (auto simp: le_less_Suc_eq Suc_le_eq nat_less_le)
  qed
qed

lemma xa_alloc_spec:
  assumes "xa_ok xa"
  shows "0 < fst (xa_alloc r xa)" "xa_load xa (fst (xa_alloc r xa)) = None"
    "\<And>i. 0 < i \<Longrightarrow> i < fst (xa_alloc r xa) \<Longrightarrow> xa_load xa i \<noteq> None"
    "xa_ok (snd (xa_alloc r xa))" "xa_load (snd (xa_alloc r xa)) = (xa_load xa)(fst (xa_alloc r xa) \<mapsto> r)"
proof -
  obtain k ys where k: "xa_insert_from 1 r xa = (k, ys)" by fastforce
  have "sorted_wrt (\<lambda>x y. fst x < fst y) xa" "\<forall>x \<in> set xa. 1 \<le> fst x" using assms by (auto simp: xa_ok_def Suc_le_eq)
  note spec = xa_insert_from [OF this k]
  show "0 < fst (xa_alloc r xa)" "xa_load xa (fst (xa_alloc r xa)) = None"
    "\<And>i. 0 < i \<Longrightarrow> i < fst (xa_alloc r xa) \<Longrightarrow> xa_load xa i \<noteq> None"
    "xa_ok (snd (xa_alloc r xa))" "xa_load (snd (xa_alloc r xa)) = (xa_load xa)(fst (xa_alloc r xa) \<mapsto> r)"
    using spec assms by (auto simp: xa_alloc_def k [simplified] xa_load_def xa_ok_def map_of_eq_None_iff Suc_le_eq)
qed

lemma xa_erase_spec:
  assumes "xa_ok xa"
  shows "xa_ok (xa_erase h xa)" "xa_load (xa_erase h xa) = (xa_load xa)(h := None)"
proof -
  show "xa_ok (xa_erase h xa)" using assms by (auto simp: xa_ok_def xa_erase_def sorted_wrt_filter)
  have "map_of (filter (\<lambda>(j, r). j \<noteq> h) xa) = (map_of xa)(h := None)" by (induction xa) auto
  then show "xa_load (xa_erase h xa) = (xa_load xa)(h := None)" by (simp add: xa_erase_def xa_load_def fun_eq_iff)
qed

interpretation handles: handle_table xa_ok xa_load xa_alloc xa_erase
  by unfold_locales (auto simp: xa_alloc_spec xa_erase_spec)

subsection \<open>The resources of a client refine a map\<close>

text \<open>The specification: a map from handles to resources, in which a new resource gets the lowest free handle.\<close>

datatype table_op = Add client_resource | Take nat release_fn
datatype table_result = Got_handle nat | Got_resource client_resource | Refused

definition lowest_free :: "(nat \<rightharpoonup> client_resource) \<Rightarrow> nat" where
  "lowest_free m = (LEAST i. 0 < i \<and> m i = None)"

definition table_spec :: "table_op \<Rightarrow> (nat \<rightharpoonup> client_resource) \<Rightarrow> table_result \<times> (nat \<rightharpoonup> client_resource)" where
  "table_spec x m =
    (case x of
       Add r \<Rightarrow> (Got_handle (lowest_free m), m(lowest_free m \<mapsto> r))
     | Take h f \<Rightarrow> (case m h of Some r \<Rightarrow> if release_of r = f then (Got_resource r, m(h := None)) else (Refused, m) | None \<Rightarrow> (Refused, m)))"

text \<open>What the operations of the device do.\<close>

definition table_impl :: "cdev_env \<Rightarrow> nat \<Rightarrow> table_op \<Rightarrow> cdev \<Rightarrow> table_result \<times> cdev" where
  "table_impl env c x w =
    (case x of
       Add r \<Rightarrow> (case add_client_resource env w c r of (Inr h, w) \<Rightarrow> (Got_handle h, w) | (Inl _, w) \<Rightarrow> (Refused, w))
     | Take h f \<Rightarrow> (case take_client_resource w c h f of Some (r, w) \<Rightarrow> (Got_resource r, client_put w c) | None \<Rightarrow> (Refused, w)))"

fun run_table :: "('x \<Rightarrow> 's \<Rightarrow> 'r \<times> 's) \<Rightarrow> 'x list \<Rightarrow> 's \<Rightarrow> 'r list \<times> 's" where
  "run_table f [] s = ([], s)"
| "run_table f (x # xs) s = (let (r, s) = f x s; (rs, s) = run_table f xs s in (r # rs, s))"

abbreviation the_xa :: "cdev \<Rightarrow> nat \<Rightarrow> client_resource xarray" where
  "the_xa w c \<equiv> c_resource_xa (cd_client w c)"

definition table_ready :: "cdev \<Rightarrow> nat \<Rightarrow> bool" where
  "table_ready w c \<longleftrightarrow> xa_ok (the_xa w c) \<and> \<not> c_in_shutdown (cd_client w c)"

lemma client_of_put [simp]: "cd_client (client_put w c) i = (if i = c then (cd_client w c)\<lparr>c_kref := c_kref (cd_client w c) - 1\<rparr> else cd_client w i)"
  by (simp add: client_put_def client_release_def cd_upd_def cd_emit_def Let_def)

lemma client_of_get [simp]: "cd_client (client_get w c) i = (if i = c then (cd_client w c)\<lparr>c_kref := c_kref (cd_client w c) + 1\<rparr> else cd_client w i)"
  by (simp add: client_get_def cd_upd_def)

lemma lowest_free_alloc:
  assumes "xa_ok xa"
  shows "lowest_free (xa_load xa) = fst (xa_alloc r xa)"
  unfolding lowest_free_def
proof (rule Least_equality)
  show "0 < fst (xa_alloc r xa) \<and> xa_load xa (fst (xa_alloc r xa)) = None"
    using handles.alloc_positive [OF assms] handles.alloc_fresh [OF assms] by simp
  show "fst (xa_alloc r xa) \<le> i" if "0 < i \<and> xa_load xa i = None" for i
    using handles.alloc_lowest [OF assms, of i r] that by force
qed

lemma table_impl_refines:
  assumes "table_ready w c" "en_xa env = None" "table_impl env c x w = (r, w')"
  shows "table_ready w' c \<and> table_spec x (xa_load (the_xa w c)) = (r, xa_load (the_xa w' c))"
proof (cases x)
  case (Add res)
  obtain h xa where a: "xa_alloc res (the_xa w c) = (h, xa)" by fastforce
  have ok: "xa_ok (the_xa w c)" "\<not> c_in_shutdown (cd_client w c)" using assms(1) by (simp_all add: table_ready_def)
  have "lowest_free (xa_load (the_xa w c)) = h" using lowest_free_alloc [OF ok(1), of res] a by simp
  moreover have "xa_ok xa" "xa_load xa = (xa_load (the_xa w c))(h \<mapsto> res)" using xa_alloc_spec(4,5) [OF ok(1), of res] a by simp_all
  ultimately show ?thesis
    using assms(2,3) ok(2) a by (auto simp: Add table_impl_def table_spec_def add_client_resource_def table_ready_def cd_upd_def)
next
  case (Take h f)
  have ok: "xa_ok (the_xa w c)" "\<not> c_in_shutdown (cd_client w c)" using assms(1) by (simp_all add: table_ready_def)
  show ?thesis
    using assms(3) ok xa_erase_spec [OF ok(1), of h]
    by (auto simp: Take table_impl_def table_spec_def take_client_resource_def table_ready_def cd_upd_def split: option.splits if_splits)
qed

lemma run_table_refines:
  assumes "en_xa env = None" "table_ready w c" "run_table (table_impl env c) xs w = (rs, w')"
  shows "table_ready w' c \<and> run_table table_spec xs (xa_load (the_xa w c)) = (rs, xa_load (the_xa w' c))"
  using assms(2,3)
proof (induction xs arbitrary: w rs w')
  case Nil
  then show ?case by simp
next
  case (Cons x xs)
  obtain r w1 where 1: "table_impl env c x w = (r, w1)" by fastforce
  obtain rs' w2 where 2: "run_table (table_impl env c) xs w1 = (rs', w2)" by fastforce
  note s = table_impl_refines [OF Cons.prems(1) assms(1) 1]
  show ?case using Cons.IH [OF conjunct1 [OF s] 2] s Cons.prems(2) 1 2 by simp
qed


text \<open>A card with one device and no open file.\<close>

definition no_client :: client where
  "no_client = \<lparr>c_version = 0, c_device = 0, c_in_shutdown = False, c_resource_xa = [], c_event_list = [], c_bus_reset_closure = 0,
     c_iso_context = None, c_iso_closure = 0, c_buffer = \<lparr>direction = DMA_BIDIRECTIONAL, pages = None, dma_addrs = None, page_count = 0\<rparr>,
     c_vm_start = 0, c_phy_receiver_closure = 0, c_kref = 0\<rparr>"

definition example_cdev :: cdev where
  "example_cdev =
    \<lparr>cd_rq = \<lparr>rq_handlers = [], requests = [], split_hi = 0, split_lo = 0, split_timeout_cycles = 0, split_timeout_jiffies = 0,
       priority_budget_implemented = False, maint_utility_register = [], broadcast_channel = 0, rq_topology_map = [], rq_log = []\<rparr>,
     cd_rom = rom_init, cd_irm_log = [],
     cd_card = \<lparr>card_index = 0, card_link_speed = 3, card_bm_node_id = 0xffc0, card_local_node = Some 0xffc0, card_irm_node = Some 0xffc1,
       card_root_node = Some 0xffc1, card_reset_jiffies = 0\<rparr>,
     cd_device = (\<lambda>d. \<lparr>dev_node_id = 0xffc1, dev_generation = 1, dev_is_local = False, dev_is_shutdown = False, dev_max_speed = 2,
       dev_config_rom = [], dev_client_list = [], dev_kref = 1\<rparr>),
     cd_client = (\<lambda>c. no_client), cd_phy_receivers = [], cd_closures = (\<lambda>p. (0, 0)), cd_outbound = (\<lambda>e. None), cd_auto = (\<lambda>r. None),
     cd_once = (\<lambda>r. None), cd_phy_out = (\<lambda>e. None), cd_card_refs = 0, cd_log = []\<rparr>"

definition file_env :: cdev_env where
  "file_env = \<lparr>en_alloc = True, en_alloc2 = True, en_xa = None, en_copy = Some [1, 2, 3, 4], en_junk = [], en_ptr = 0, en_jiffies = 0,
     en_second = 1000, en_generation = 1\<rparr>"


end
