(* ===== verification/Cdev_Refs.thy ===== *)
theory Cdev_Refs
  imports Cdev_Proofs
begin

text \<open>
  References to the clients of the character device.  Who holds a reference is read off the state: the open file, each resource in the array,
  each pending or running work item, and each PHY packet that is on its way.  In every interleaving of operations, callbacks and work
  items a client has at least as many references as holders, and objects that wait for a callback are found at their handle.
\<close>

section \<open>Holders of references\<close>

datatype holder = File | Entry nat | Pending nat | Running nat | Once nat | Phy nat

abbreviation kref_of :: "cdev \<Rightarrow> nat \<Rightarrow> nat" where
  "kref_of w c \<equiv> c_kref (cd_client w c)"

definition holds :: "cdev \<Rightarrow> nat set \<Rightarrow> nat \<Rightarrow> holder \<Rightarrow> bool" where
  "holds w fs c x =
    (case x of
       File \<Rightarrow> c \<in> fs
     | Entry h \<Rightarrow> xa_load (the_xa w c) h \<noteq> None
     | Pending r \<Rightarrow> (case cd_auto w r of None \<Rightarrow> False | Some a \<Rightarrow> a_client a = c \<and> a_pending a)
     | Running r \<Rightarrow> (case cd_auto w r of None \<Rightarrow> False | Some a \<Rightarrow> a_client a = c \<and> a_run a \<noteq> Auto_idle)
     | Once r \<Rightarrow> (case cd_once w r of None \<Rightarrow> False | Some x \<Rightarrow> o_client x = c)
     | Phy e \<Rightarrow> (case cd_phy_out w e of None \<Rightarrow> False | Some p \<Rightarrow> ope_client p = c))"

definition holders :: "cdev \<Rightarrow> nat set \<Rightarrow> nat \<Rightarrow> holder set" where
  "holders w fs c = {x. holds w fs c x}"

definition refs_ok :: "cdev \<Rightarrow> nat set \<Rightarrow> bool" where
  "refs_ok w fs \<longleftrightarrow> (\<forall>c. finite (holders w fs c) \<and> card (holders w fs c) \<le> kref_of w c)"

text \<open>A run of the work item that ends with the resource being freed.\<close>

fun run_frees :: "auto_run \<Rightarrow> bool" where
  "run_frees Auto_idle = False"
| "run_frees (Auto_managing todo g) = (todo = ISO_RES_AUTO_DEALLOC)"
| "run_frees (Auto_managed todo ch bw) = (todo = ISO_RES_AUTO_DEALLOC)"
| "run_frees (Auto_failed todo ch bw free) = free"

definition objects_ok :: "cdev \<Rightarrow> bool" where
  "objects_ok w \<longleftrightarrow>
    (\<forall>c. xa_ok (the_xa w c)) \<and>
    (\<forall>e t. cd_outbound w e = Some t \<longrightarrow> xa_load (the_xa w (oe_client t)) (oe_handle t) = Some (Outbound_transaction e)) \<and>
    (\<forall>c h e. xa_load (the_xa w c) h = Some (Outbound_transaction e) \<longrightarrow>
       (\<exists>t. cd_outbound w e = Some t \<and> oe_client t = c \<and> oe_handle t = h)) \<and>
    (\<forall>c h r. xa_load (the_xa w c) h = Some (Iso_resource_auto r) \<longrightarrow>
       (\<exists>a. cd_auto w r = Some a \<and> a_client a = c \<and> a_handle a = h \<and> a_todo a \<noteq> ISO_RES_AUTO_DEALLOC \<and> \<not> run_frees (a_run a)))"

definition cdev_ok :: "cdev \<Rightarrow> nat set \<Rightarrow> bool" where
  "cdev_ok w fs \<longleftrightarrow> refs_ok w fs \<and> objects_ok w"

text \<open>Everything that these depend on.\<close>

definition core :: "cdev \<Rightarrow> (nat \<Rightarrow> nat \<times> client_resource xarray) \<times> (nat \<Rightarrow> iso_resource_auto option) \<times>
    (nat \<Rightarrow> iso_resource_once option) \<times> (nat \<Rightarrow> outbound_phy_packet_event option) \<times> (nat \<Rightarrow> outbound_transaction_event option)" where
  "core w = ((\<lambda>c. (kref_of w c, the_xa w c)), cd_auto w, cd_once w, cd_phy_out w, cd_outbound w)"

lemma core_eq:
  "core v = core w \<longleftrightarrow> (\<forall>c. kref_of v c = kref_of w c \<and> the_xa v c = the_xa w c) \<and> cd_auto v = cd_auto w \<and> cd_once v = cd_once w \<and>
    cd_phy_out v = cd_phy_out w \<and> cd_outbound v = cd_outbound w"
  by (auto simp: core_def fun_eq_iff)

lemma cdev_ok_cong: "core v = core w \<Longrightarrow> cdev_ok v fs = cdev_ok w fs"
  by (simp add: core_eq cdev_ok_def refs_ok_def objects_ok_def holders_def holds_def cong: holder.case_cong)

lemma core_simps [simp]:
  "core (w\<lparr>cd_rq := rq\<rparr>) = core w" "core (w\<lparr>cd_rom := rom\<rparr>) = core w" "core (w\<lparr>cd_irm_log := h\<rparr>) = core w"
  "core (w\<lparr>cd_card := crd\<rparr>) = core w" "core (w\<lparr>cd_device := dev\<rparr>) = core w" "core (w\<lparr>cd_phy_receivers := l\<rparr>) = core w"
  "core (w\<lparr>cd_closures := cl\<rparr>) = core w" "core (w\<lparr>cd_card_refs := n\<rparr>) = core w" "core (w\<lparr>cd_log := log\<rparr>) = core w"
  "core (cd_emit w ev) = core w"
  by (simp_all add: core_def cd_emit_def)

lemma core_upd: "(\<And>x. c_kref (f x) = c_kref x \<and> c_resource_xa (f x) = c_resource_xa x) \<Longrightarrow> core (cd_upd w c f) = core w"
  by (simp add: core_eq cd_upd_def)

lemma core_queue_event [simp]: "core (queue_event w c e) = core w"
  by (simp add: queue_event_def core_upd)

lemma refs_ok_step:
  assumes "refs_ok w fs"
    and "\<And>i. holders w' fs' i \<union> L i \<subseteq> holders w fs i \<union> G i" "\<And>i. holders w' fs' i \<inter> L i = {}" "\<And>i. finite (L i)" "\<And>i. finite (G i)"
    and "\<And>i. kref_of w i + card (G i) \<le> kref_of w' i + card (L i)"
  shows "refs_ok w' fs'"
  unfolding refs_ok_def
proof (intro allI conjI)
  fix i
  have f: "finite (holders w fs i)" "card (holders w fs i) \<le> kref_of w i" using assms(1) by (simp_all add: refs_ok_def)
  show f': "finite (holders w' fs' i)" using assms(2) [of i] f(1) assms(5) [of i] finite_subset by blast
  have "card (holders w' fs' i) + card (L i) = card (holders w' fs' i \<union> L i)" using card_Un_disjoint [OF f' assms(4,3)] by simp
  also have "\<dots> \<le> card (holders w fs i \<union> G i)" using card_mono [OF _ assms(2)] f(1) assms(5) by simp
  also have "\<dots> \<le> card (holders w fs i) + card (G i)" by (rule card_Un_le)
  finally show "card (holders w' fs' i) \<le> kref_of w' i" using f(2) assms(6) [of i] by linarith
qed

text \<open>One client gains a holder, loses one, or one holder takes the place of another.\<close>

lemma refs_ok_gain:
  assumes "refs_ok w fs" "\<And>i y. holds w' fs' i y \<Longrightarrow> holds w fs i y \<or> i = c \<and> y = x"
    and "\<And>i. kref_of w' i = (if i = c then kref_of w i + 1 else kref_of w i)"
  shows "refs_ok w' fs'"
  by (rule refs_ok_step [OF assms(1), where L = "\<lambda>i. {}" and G = "\<lambda>i. if i = c then {x} else {}"])
    (use assms(2,3) in \<open>auto simp: holders_def\<close>)

lemma refs_ok_lose:
  assumes "refs_ok w fs" "holds w fs c x" "\<not> holds w' fs' c x" "\<And>i y. holds w' fs' i y \<Longrightarrow> holds w fs i y"
    and "\<And>i. kref_of w' i = (if i = c then kref_of w i - 1 else kref_of w i)"
  shows "refs_ok w' fs'"
  by (rule refs_ok_step [OF assms(1), where L = "\<lambda>i. if i = c then {x} else {}" and G = "\<lambda>i. {}"])
    (use assms(2-5) in \<open>auto simp: holders_def\<close>)

lemma refs_ok_move:
  assumes "refs_ok w fs" "holds w fs c x" "\<not> holds w' fs' c x" "\<And>i y. holds w' fs' i y \<Longrightarrow> holds w fs i y \<or> i = c \<and> y = z"
    and "\<And>i. kref_of w' i = kref_of w i"
  shows "refs_ok w' fs'"
  by (rule refs_ok_step [OF assms(1), where L = "\<lambda>i. if i = c then {x} else {}" and G = "\<lambda>i. if i = c then {z} else {}"])
    (use assms(2-5) in \<open>auto simp: holders_def\<close>)

lemma refs_ok_positive: "refs_ok w fs \<Longrightarrow> holds w fs c x \<Longrightarrow> 0 < kref_of w c"
  by (metis card_gt_0_iff empty_iff holders_def mem_Collect_eq refs_ok_def leD neq0_conv)

section \<open>The operations on references\<close>

lemma put_sel [simp]:
  "cd_auto (client_put w c) = cd_auto w" "cd_once (client_put w c) = cd_once w" "cd_phy_out (client_put w c) = cd_phy_out w"
  "cd_outbound (client_put w c) = cd_outbound w" "cd_rq (client_put w c) = cd_rq w"
  by (simp_all add: client_put_def client_release_def cd_upd_def cd_emit_def Let_def)

lemma get_sel [simp]:
  "cd_auto (client_get w c) = cd_auto w" "cd_once (client_get w c) = cd_once w" "cd_phy_out (client_get w c) = cd_phy_out w"
  "cd_outbound (client_get w c) = cd_outbound w"
  by (simp_all add: client_get_def cd_upd_def)

lemma upd_sel [simp]:
  "cd_auto (cd_upd w c f) = cd_auto w" "cd_once (cd_upd w c f) = cd_once w" "cd_phy_out (cd_upd w c f) = cd_phy_out w"
  "cd_outbound (cd_upd w c f) = cd_outbound w" "cd_client (cd_upd w c f) i = (if i = c then f (cd_client w c) else cd_client w i)"
  by (simp_all add: cd_upd_def)

lemma upd_auto_sel [simp]:
  "cd_client (upd_auto w r f) = cd_client w" "cd_once (upd_auto w r f) = cd_once w" "cd_phy_out (upd_auto w r f) = cd_phy_out w"
  "cd_outbound (upd_auto w r f) = cd_outbound w" "cd_auto (upd_auto w r f) i = (if i = r then map_option f (cd_auto w r) else cd_auto w i)"
  by (simp_all add: upd_auto_def)

lemma queue_event_sel [simp]:
  "kref_of (queue_event w c e) i = kref_of w i" "the_xa (queue_event w c e) i = the_xa w i" "cd_auto (queue_event w c e) = cd_auto w"
  "cd_once (queue_event w c e) = cd_once w" "cd_phy_out (queue_event w c e) = cd_phy_out w" "cd_outbound (queue_event w c e) = cd_outbound w"
  using core_queue_event [of w c e] unfolding core_eq by simp_all

lemma erase_sel [simp]:
  "cd_auto (erase_resource w c h) = cd_auto w" "cd_once (erase_resource w c h) = cd_once w" "cd_phy_out (erase_resource w c h) = cd_phy_out w"
  "cd_outbound (erase_resource w c h) = cd_outbound w" "kref_of (erase_resource w c h) i = kref_of w i"
  "the_xa (erase_resource w c h) i = (if i = c then xa_erase h (the_xa w c) else the_xa w i)"
  by (simp_all add: erase_resource_def)

lemma objects_okD:
  assumes "objects_ok w"
  shows "xa_ok (the_xa w c)" "cd_outbound w e = Some t \<Longrightarrow> xa_load (the_xa w (oe_client t)) (oe_handle t) = Some (Outbound_transaction e)"
    "xa_load (the_xa w c) h = Some (Outbound_transaction e) \<Longrightarrow> \<exists>t. cd_outbound w e = Some t \<and> oe_client t = c \<and> oe_handle t = h"
    "xa_load (the_xa w c) h = Some (Iso_resource_auto r) \<Longrightarrow>
      \<exists>a. cd_auto w r = Some a \<and> a_client a = c \<and> a_handle a = h \<and> a_todo a \<noteq> ISO_RES_AUTO_DEALLOC \<and> \<not> run_frees (a_run a)"
  using assms unfolding objects_ok_def by blast+

lemma cdev_okD: "cdev_ok w fs \<Longrightarrow> refs_ok w fs" "cdev_ok w fs \<Longrightarrow> objects_ok w"
  by (simp_all add: cdev_ok_def)

text \<open>Objects stay in order when only the state of resources changes and none in the array is marked as to be freed.\<close>

lemma objects_ok_auto:
  assumes "objects_ok w" "\<And>c. the_xa w' c = the_xa w c" "cd_outbound w' = cd_outbound w"
    and "\<And>c h r a. xa_load (the_xa w c) h = Some (Iso_resource_auto r) \<Longrightarrow> cd_auto w r = Some a \<Longrightarrow> a_client a = c \<Longrightarrow> a_handle a = h \<Longrightarrow>
      a_todo a \<noteq> ISO_RES_AUTO_DEALLOC \<Longrightarrow> \<not> run_frees (a_run a) \<Longrightarrow>
      \<exists>a'. cd_auto w' r = Some a' \<and> a_client a' = c \<and> a_handle a' = h \<and> a_todo a' \<noteq> ISO_RES_AUTO_DEALLOC \<and> \<not> run_frees (a_run a')"
  shows "objects_ok w'"
proof -
  have "\<exists>a'. cd_auto w' r = Some a' \<and> a_client a' = c \<and> a_handle a' = h \<and> a_todo a' \<noteq> ISO_RES_AUTO_DEALLOC \<and> \<not> run_frees (a_run a')"
    if "xa_load (the_xa w c) h = Some (Iso_resource_auto r)" for c h r
    using objects_okD(4) [OF assms(1) that] assms(4) [OF that] by blast
  then show ?thesis using assms(1-3) unfolding objects_ok_def by simp
qed

text \<open>Scheduling the work item of a resource.\<close>

lemma schedule_ok:
  assumes "cdev_ok w fs"
  shows "cdev_ok (schedule_iso_resource_auto w r) fs"
proof (cases "cd_auto w r")
  case None
  then show ?thesis using assms by (simp add: schedule_iso_resource_auto_def)
next
  case (Some a)
  show ?thesis
  proof (cases "a_pending a")
    case True
    then have "core (schedule_iso_resource_auto w r) = core w" by (simp add: schedule_iso_resource_auto_def Some core_eq)
    then show ?thesis using assms cdev_ok_cong by metis
  next
    case False
    let ?w = "schedule_iso_resource_auto w r"
    have w: "kref_of ?w i = (if i = a_client a then kref_of w i + 1 else kref_of w i)" "the_xa ?w i = the_xa w i"
      "cd_auto ?w = (cd_auto w)(r \<mapsto> a\<lparr>a_pending := True\<rparr>)" "cd_once ?w = cd_once w" "cd_phy_out ?w = cd_phy_out w"
      "cd_outbound ?w = cd_outbound w" for i
      using False Some by (simp_all add: schedule_iso_resource_auto_def)
    have "refs_ok ?w fs"
      by (rule refs_ok_gain [OF cdev_okD(1) [OF assms], where c = "a_client a" and x = "Pending r"])
        (use Some in \<open>auto simp: w holds_def split: holder.splits option.splits if_splits\<close>)
    moreover have "objects_ok ?w" by (rule objects_ok_auto [OF cdev_okD(2) [OF assms]]) (use Some in \<open>auto simp: w\<close>)
    ultimately show ?thesis by (simp add: cdev_ok_def)
  qed
qed

lemma schedule_resources_ok: "cdev_ok w fs \<Longrightarrow> cdev_ok (schedule_resources w rs) fs"
  by (induction w rs rule: schedule_resources.induct) (simp_all add: schedule_ok)

text \<open>A resource leaves the array and its reference is dropped.  A transaction goes with it; an isochronous resource may be marked.\<close>

lemma drop_entry_ok:
  assumes ok: "cdev_ok w fs" and res: "xa_load (the_xa w c) h = Some res"
    and k: "\<And>i. kref_of w' i = (if i = c then kref_of w i - 1 else kref_of w i)"
    and xa: "\<And>i. the_xa w' i = (if i = c then xa' else the_xa w i)" "xa_ok xa'" "xa_load xa' = (xa_load (the_xa w c))(h := None)"
    and out: "cd_outbound w' = (case res of Outbound_transaction e \<Rightarrow> (cd_outbound w)(e := None) | _ \<Rightarrow> cd_outbound w)"
    and auto: "\<And>i. cd_auto w' i = (if res = Iso_resource_auto i then map_option f (cd_auto w i) else cd_auto w i)"
    and f: "\<And>i a. res = Iso_resource_auto i \<Longrightarrow> cd_auto w i = Some a \<Longrightarrow>
      a_client (f a) = a_client a \<and> a_pending (f a) = a_pending a \<and> (a_run (f a) = Auto_idle) = (a_run a = Auto_idle)"
    and same: "cd_once w' = cd_once w" "cd_phy_out w' = cd_phy_out w"
  shows "cdev_ok w' fs"
proof -
  note o = objects_okD [OF cdev_okD(2) [OF ok]]
  have h: "holds w' fs i x \<longleftrightarrow> holds w fs i x \<and> \<not> (i = c \<and> x = Entry h)" for i x
  proof (cases x)
    case (Entry j)
    then show ?thesis using xa(1,3) by (simp add: holds_def)
  next
    case (Pending r)
    then show ?thesis using f by (cases "cd_auto w r") (simp_all add: holds_def auto)
  next
    case (Running r)
    then show ?thesis using f by (cases "cd_auto w r") (simp_all add: holds_def auto)
  qed (simp_all add: holds_def same)
  have e: "holds w fs c (Entry h)" using res by (simp add: holds_def)
  have "refs_ok w' fs" by (rule refs_ok_lose [OF cdev_okD(1) [OF ok] e]) (use h k in simp_all)
  moreover have "objects_ok w'"
    unfolding objects_ok_def
  proof (intro conjI allI impI)
    show "xa_ok (the_xa w' i)" for i using xa o(1) by simp
    show "xa_load (the_xa w' (oe_client t)) (oe_handle t) = Some (Outbound_transaction e)" if "cd_outbound w' e = Some t" for e t
    proof -
      have t: "cd_outbound w e = Some t" "res \<noteq> Outbound_transaction e"
        using that unfolding out by (auto split: client_resource.splits if_splits)
      from o(2) [OF t(1)] show ?thesis using t(2) res xa by auto
    qed
    fix i j
    show "\<exists>t. cd_outbound w' e = Some t \<and> oe_client t = i \<and> oe_handle t = j" if "xa_load (the_xa w' i) j = Some (Outbound_transaction e)" for e
    proof -
      have e: "xa_load (the_xa w i) j = Some (Outbound_transaction e)" "(i, j) \<noteq> (c, h)" using that xa by (auto split: if_splits)
      from o(3) [OF e(1)] obtain t where t: "cd_outbound w e = Some t" "oe_client t = i" "oe_handle t = j" by blast
      moreover have "res \<noteq> Outbound_transaction e" using o(3) [of c h e] res t e(2) by auto
      ultimately show ?thesis by (auto simp: out split: client_resource.splits)
    qed
    show "\<exists>a. cd_auto w' r = Some a \<and> a_client a = i \<and> a_handle a = j \<and> a_todo a \<noteq> ISO_RES_AUTO_DEALLOC \<and> \<not> run_frees (a_run a)"
      if "xa_load (the_xa w' i) j = Some (Iso_resource_auto r)" for r
    proof -
      have e: "xa_load (the_xa w i) j = Some (Iso_resource_auto r)" "(i, j) \<noteq> (c, h)" using that xa by (auto split: if_splits)
      from o(4) [OF e(1)] obtain a where a: "cd_auto w r = Some a" "a_client a = i" "a_handle a = j" "a_todo a \<noteq> ISO_RES_AUTO_DEALLOC" "\<not> run_frees (a_run a)"
        by blast
      moreover have "res \<noteq> Iso_resource_auto r" using o(4) [of c h r] res a e(2) by auto
      ultimately show ?thesis by (simp add: auto)
    qed
  qed
  ultimately show ?thesis by (simp add: cdev_ok_def)
qed

text \<open>A new resource in the array.\<close>

lemma add_entry_ok:
  assumes ok: "cdev_ok w fs" and new: "xa_load (the_xa w c) h = None"
    and k: "\<And>i. kref_of w' i = (if i = c then kref_of w i + 1 else kref_of w i)"
    and xa: "\<And>i. the_xa w' i = (if i = c then xa' else the_xa w i)" "xa_ok xa'" "xa_load xa' = (xa_load (the_xa w c))(h \<mapsto> res)"
    and out: "case res of Outbound_transaction e \<Rightarrow> cd_outbound w e = None \<and> (\<exists>t. cd_outbound w' = (cd_outbound w)(e \<mapsto> t) \<and> oe_client t = c \<and> oe_handle t = h)
               | _ \<Rightarrow> cd_outbound w' = cd_outbound w"
    and auto: "case res of Iso_resource_auto r \<Rightarrow> cd_auto w r = None \<and> (\<exists>a. cd_auto w' = (cd_auto w)(r \<mapsto> a) \<and> a_client a = c \<and> a_handle a = h \<and>
                 a_todo a \<noteq> ISO_RES_AUTO_DEALLOC \<and> a_run a = Auto_idle \<and> \<not> a_pending a)
               | _ \<Rightarrow> cd_auto w' = cd_auto w"
    and same: "cd_once w' = cd_once w" "cd_phy_out w' = cd_phy_out w"
  shows "cdev_ok w' fs"
proof -
  note o = objects_okD [OF cdev_okD(2) [OF ok]]
  have a: "cd_auto w' r = cd_auto w r \<or> cd_auto w r = None \<and> res = Iso_resource_auto r \<and>
      (\<exists>a. cd_auto w' r = Some a \<and> a_client a = c \<and> a_handle a = h \<and> a_todo a \<noteq> ISO_RES_AUTO_DEALLOC \<and> a_run a = Auto_idle \<and> \<not> a_pending a)" for r
    using auto by (cases res) (auto simp: fun_upd_apply split: if_splits)
  have t: "cd_outbound w' e = cd_outbound w e \<or> cd_outbound w e = None \<and> res = Outbound_transaction e \<and>
      (\<exists>t. cd_outbound w' e = Some t \<and> oe_client t = c \<and> oe_handle t = h)" for e
    using out by (cases res) (auto simp: fun_upd_apply split: if_splits)
  have "holds w' fs i x \<longleftrightarrow> holds w fs i x \<or> i = c \<and> x = Entry h" for i x
  proof (cases x)
    case (Entry j)
    then show ?thesis using xa(1,3) by (simp add: holds_def)
  next
    case (Pending r)
    then show ?thesis using a [of r] by (auto simp: holds_def)
  next
    case (Running r)
    then show ?thesis using a [of r] by (auto simp: holds_def)
  qed (simp_all add: holds_def same)
  then have "refs_ok w' fs" using k by (intro refs_ok_gain [OF cdev_okD(1) [OF ok], where c = c and x = "Entry h"]) simp_all
  moreover have "objects_ok w'"
    unfolding objects_ok_def
  proof (intro conjI allI impI)
    show "xa_ok (the_xa w' i)" for i using xa o(1) by simp
    show "xa_load (the_xa w' (oe_client y)) (oe_handle y) = Some (Outbound_transaction e)" if "cd_outbound w' e = Some y" for e y
      using t [of e] that o(2) [of e y] xa new by auto
    fix i j
    show "\<exists>t. cd_outbound w' e = Some t \<and> oe_client t = i \<and> oe_handle t = j" if "xa_load (the_xa w' i) j = Some (Outbound_transaction e)" for e
    proof (cases "(i, j) = (c, h)")
      case True
      then have "res = Outbound_transaction e" using that xa by simp
      then show ?thesis using out True by auto
    next
      case False
      then have "xa_load (the_xa w i) j = Some (Outbound_transaction e)" using that xa by (auto split: if_splits)
      then show ?thesis using o(3) t [of e] by fastforce
    qed
    show "\<exists>a. cd_auto w' r = Some a \<and> a_client a = i \<and> a_handle a = j \<and> a_todo a \<noteq> ISO_RES_AUTO_DEALLOC \<and> \<not> run_frees (a_run a)"
      if "xa_load (the_xa w' i) j = Some (Iso_resource_auto r)" for r
    proof (cases "(i, j) = (c, h)")
      case True
      then have "res = Iso_resource_auto r" using that xa by simp
      then show ?thesis using auto True by auto
    next
      case False
      then have "xa_load (the_xa w i) j = Some (Iso_resource_auto r)" using that xa by (auto split: if_splits)
      then show ?thesis using o(4) a [of r] by fastforce
    qed
  qed
  ultimately show ?thesis by (simp add: cdev_ok_def)
qed

section \<open>Operations of the device\<close>

text \<open>The address of a new object is not in use.\<close>

definition fresh_ptr :: "cdev \<Rightarrow> nat \<Rightarrow> bool" where
  "fresh_ptr w p \<longleftrightarrow> cd_outbound w p = None \<and> cd_auto w p = None \<and> cd_once w p = None \<and> cd_phy_out w p = None"

lemma add_client_resource_cases:
  assumes "add_client_resource env w c res = (r, w')"
  obtains err where "r = Inl err" "w' = w"
  | h xa where "r = Inr h" "xa_alloc res (the_xa w c) = (h, xa)" "\<And>i. the_xa w' i = (if i = c then xa else the_xa w i)"
      "\<And>i. kref_of w' i = (if i = c then kref_of w i + 1 else kref_of w i)" "cd_outbound w' = cd_outbound w" "cd_auto w' = cd_auto w"
      "cd_once w' = cd_once w" "cd_phy_out w' = cd_phy_out w"
  using assms by (auto simp: add_client_resource_def split: if_splits option.splits prod.splits)

lemma alloc_facts:
  assumes "cdev_ok w fs" "xa_alloc res (the_xa w c) = (h, xa)"
  shows "xa_load (the_xa w c) h = None" "xa_ok xa" "xa_load xa = (xa_load (the_xa w c))(h \<mapsto> res)"
  using xa_alloc_spec(2,4,5) [OF objects_okD(1) [OF cdev_okD(2) [OF assms(1)], of c], where r = res] assms(2) by simp_all

lemma add_plain_ok:
  assumes "cdev_ok w fs" "add_client_resource env w c res = (r, w')"
    and "release_of res \<noteq> Release_transaction" "release_of res \<noteq> Release_iso_resource_auto"
  shows "cdev_ok w' fs"
  using assms(2)
proof (cases rule: add_client_resource_cases)
  case (2 h xa)
  note a = alloc_facts [OF assms(1) 2(2)]
  show ?thesis by (rule add_entry_ok [OF assms(1) a(1) 2(4) 2(3) a(2,3)]) (use assms(3,4) 2 in \<open>cases res; simp\<close>)+
qed (use assms(1) in simp)

lemma init_request_ok:
  assumes "cdev_ok w fs" "fresh_ptr w (en_ptr env)"
  shows "cdev_ok (snd (init_request env w c a dest speed)) fs"
proof -
  obtain r w1 where q: "add_client_resource env w c (Outbound_transaction (en_ptr env)) = (r, w1)" by fastforce
  have "cdev_ok (cd_emit (w1\<lparr>cd_outbound := (cd_outbound w1)(en_ptr env \<mapsto> t)\<rparr>) ev) fs"
    if "r = Inr h" "oe_client t = c" "oe_handle t = h" for h t ev
    using q
  proof (cases rule: add_client_resource_cases)
    case (2 h' xa)
    note al = alloc_facts [OF assms(1) 2(2)]
    show ?thesis
      by (rule add_entry_ok [OF assms(1) al(1) _ _ al(2,3)]) (use 2 that assms(2) in \<open>auto simp: cd_emit_def fresh_ptr_def\<close>)
  qed (use that in simp)
  moreover have "cdev_ok w1 fs" if "r = Inl err" for err using q that assms(1) by (cases rule: add_client_resource_cases) simp_all
  ultimately show ?thesis using assms(1) q by (cases r) (auto simp: init_request_def Let_def)
qed

lemma take_client_resource_cases:
  assumes "take_client_resource w c h f = Some (res, w')"
  shows "xa_load (the_xa w c) h = Some res" "release_of res = f" "w' = erase_resource w c h"
  using assms by (auto simp: take_client_resource_def erase_resource_def split: if_splits option.splits)

lemma erase_facts: "cdev_ok w fs \<Longrightarrow> xa_ok (xa_erase h (the_xa w c)) \<and> xa_load (xa_erase h (the_xa w c)) = (xa_load (the_xa w c))(h := None)"
  using xa_erase_spec objects_okD(1) cdev_okD(2) by metis

text \<open>An entry that is taken out, with the operation that follows and does not touch clients.\<close>

lemma take_plain_ok:
  assumes ok: "cdev_ok w fs" and t: "xa_load (the_xa w c) h = Some res" "release_of res \<noteq> Release_transaction"
    and w': "core w' = core (client_put (erase_resource w c h) c)"
  shows "cdev_ok w' fs"
proof -
  note e = erase_facts [OF ok, of h c]
  have "cdev_ok (client_put (erase_resource w c h) c) fs"
    by (rule drop_entry_ok [OF ok t(1), where xa' = "xa_erase h (the_xa w c)" and f = "\<lambda>a. a"])
      (use e t(2) in \<open>auto simp: option.map_ident split: client_resource.splits\<close>)
  then show ?thesis using w' cdev_ok_cong by metis
qed

lemma core_put: "core (client_put v c) = core (client_put w c)" if "core v = core w" for v w
  using that by (simp add: core_eq)

lemma core_cd_upd: "core (cd_upd w c (\<lambda>x. x\<lparr>c_version := n\<rparr>)) = core w" "core (cd_upd w c (\<lambda>x. x\<lparr>c_bus_reset_closure := cl\<rparr>)) = core w"
  "core (cd_upd w c (\<lambda>x. x\<lparr>c_buffer := b\<rparr>)) = core w" "core (cd_upd w c (\<lambda>x. x\<lparr>c_vm_start := vs\<rparr>)) = core w"
  "core (cd_upd w c (\<lambda>x. x\<lparr>c_phy_receiver_closure := cl\<rparr>)) = core w" "core (cd_upd w c (\<lambda>x. x\<lparr>c_in_shutdown := True\<rparr>)) = core w"
  "core (cd_upd w c (\<lambda>x. x\<lparr>c_event_list := es\<rparr>)) = core w"
  "core (cd_upd w c (\<lambda>x. x\<lparr>c_buffer := b, c_iso_closure := cl, c_iso_context := ctx\<rparr>)) = core w"
  by (rule core_upd, simp)+

declare core_cd_upd [simp]

lemma core_cd [simp]:
  "core (cd_card_get w) = core w" "core (cd_card_put w) = core w" "core (release_address_handler w p) = core w"
  "core (release_descriptor crc w d) = core w"
  "cd_send_response w q rcode = Some w' \<Longrightarrow> core w' = core w" "cd_request_put w q = Some w' \<Longrightarrow> core w' = core w"
  by (auto simp: cd_card_get_def cd_card_put_def release_address_handler_def release_descriptor_def cd_send_response_def cd_request_put_def
      split: option.splits if_splits)

subsection \<open>Operations that leave clients alone\<close>

lemma core_get_info: "ioctl_get_info ro eo w c a = Some (r, w') \<Longrightarrow> core w' = core w"
  by (auto simp: ioctl_get_info_def Let_def split: if_splits option.splits)

lemma core_destroy_buffer [simp]: "core (destroy_buffer w c) = core w"
  by (simp add: destroy_buffer_def split: prod.split)

lemma core_create_iso_context [simp]: "core (snd (ioctl_create_iso_context ie w c a)) = core w"
  by (simp add: ioctl_create_iso_context_def Let_def split: option.split prod.split)

lemma core_queue_iso [simp]: "core (snd (ioctl_queue_iso user drv w c a)) = core w"
  by (simp add: ioctl_queue_iso_def Let_def split: option.split prod.split)

lemma core_iso_context_ops [simp]:
  "core (snd (ioctl_set_iso_channels drv w c h ch)) = core w" "core (snd (ioctl_start_iso drv w c h cycle sync tags)) = core w"
  "core (snd (ioctl_stop_iso drv w c h)) = core w" "core (snd (ioctl_flush_iso drv w c h)) = core w"
  "core (snd (ioctl_get_speed w c)) = core w" "core (snd (ioctl_initiate_bus_reset w c short)) = core w"
  "core (snd (ioctl_receive_phy_packets w c cl)) = core w"
  by (simp_all add: ioctl_set_iso_channels_def ioctl_start_iso_def ioctl_stop_iso_def ioctl_flush_iso_def ioctl_get_speed_def
      ioctl_initiate_bus_reset_def ioctl_receive_phy_packets_def split: option.split)

lemma core_mmap [simp]: "core (snd (fw_device_op_mmap ie w c v)) = core w"
  by (simp add: fw_device_op_mmap_def Let_def split: option.split prod.split)

lemma core_dequeue_event [simp]: "core (snd (dequeue_event intr ok w c n)) = core w"
  by (simp add: dequeue_event_def Let_def split: list.split)

lemma core_iso_callbacks [simp]: "core (iso_callback al w c cycle hdr) = core w" "core (iso_mc_callback al w c compl) = core w"
  by (simp_all add: iso_callback_def iso_mc_callback_def)

lemma core_deliver_phy_packet [simp]: "core (deliver_phy_packet al ts dat w cs) = core w"
  by (induction al ts dat w cs rule: deliver_phy_packet.induct) (simp_all add: Let_def)

lemma core_release_begin [simp]: "core (release_begin w c) = core w"
  by (simp add: release_begin_def Let_def)

subsection \<open>Operations on resources\<close>

lemma add_other_ok:
  assumes "cdev_ok w fs" "core v = core w" "add_client_resource env v c res = (q, v')"
    and "release_of res \<noteq> Release_transaction" "release_of res \<noteq> Release_iso_resource_auto" "core w' = core v'"
  shows "cdev_ok w' fs"
  using add_plain_ok [OF _ assms(3-5)] assms(1,2,6) cdev_ok_cong by metis

lemma ioctl_allocate_ok:
  assumes "cdev_ok w fs" "ioctl_allocate env w c a = Some (r, w')"
  shows "cdev_ok w' fs"
proof (cases "en_alloc env")
  case True
  define h where "h = \<lparr>h_ptr = en_ptr env, h_offset = 0, h_length = of_nat (al_length a), h_callback = Handle_other (en_ptr env), h_kref = 0,
    h_done = False\<rparr>"
  define reg where "reg = \<lparr>region_start = al_offset a,
    region_end = (if c_version (cd_client w c) < 4 then al_offset a + of_nat (al_length a) else al_region_end a)\<rparr>"
  note d = assms(2) [unfolded ioctl_allocate_def Let_def, folded h_def reg_def]
  show ?thesis
  proof (cases "fw_core_add_address_handler (rq_handlers (cd_rq w)) h reg")
    case None
    then show ?thesis using d True by simp
  next
    case (Some t)
    then obtain err h' hs where t: "fw_core_add_address_handler (rq_handlers (cd_rq w)) h reg = Some (err, h', hs)" by (cases t) auto
    let ?v = "w\<lparr>cd_rq := (cd_rq w)\<lparr>rq_handlers := hs\<rparr>, cd_closures := (cd_closures w)(en_ptr env := (al_closure a, c))\<rparr>"
    obtain q w2 where q: "add_client_resource env ?v c (Address_handler (en_ptr env)) = (q, w2)" by fastforce
    have "core w' = core (if err = None then w2 else w)" using d True t q by (cases err; cases q) auto
    moreover have "cdev_ok w2 fs" by (rule add_other_ok [OF assms(1) _ q]) simp_all
    ultimately show ?thesis using assms(1) cdev_ok_cong by (metis (full_types))
  qed
qed (use assms in \<open>auto simp: ioctl_allocate_def\<close>)

lemma ioctl_add_descriptor_ok:
  assumes "cdev_ok w fs"
  shows "cdev_ok (snd (ioctl_add_descriptor crc env w c a)) fs"
proof (cases "ad_data a")
  case (Some dat)
  define d where "d = \<lparr>desc_length = ad_length a, immediate = ad_immediate a, key = ad_key a, data = dat\<rparr>"
  show ?thesis
  proof (cases "fw_core_add_descriptor crc (cd_rom w) d")
    case (Inr rom)
    obtain q w2 where q: "add_client_resource env (w\<lparr>cd_rom := rom\<rparr>) c (Descriptor d) = (q, w2)" by fastforce
    have "cdev_ok w2 fs" by (rule add_other_ok [OF assms(1) _ q]) simp_all
    moreover have "snd (ioctl_add_descriptor crc env w c a) \<in> {w, w2, release_descriptor crc w2 d}"
      unfolding ioctl_add_descriptor_def Some option.case Let_def d_def [symmetric] Inr sum.case q prod.case by (cases q) simp_all
    moreover have "cdev_ok (release_descriptor crc w2 d) fs = cdev_ok w2 fs" by (rule cdev_ok_cong) simp
    ultimately show ?thesis using assms(1) by fastforce
  qed (use assms Some in \<open>simp add: ioctl_add_descriptor_def d_def Let_def\<close>)
qed (use assms in \<open>simp add: ioctl_add_descriptor_def\<close>)

lemma take_cases:
  assumes "take_client_resource w c h f = Some (res, w')" "cdev_ok w fs" "f \<noteq> Release_transaction" "core v = core (client_put w' c)"
  shows "cdev_ok v fs"
  using take_plain_ok [OF assms(2)] take_client_resource_cases [OF assms(1)] assms(3,4) by simp

lemma ioctl_deallocate_ok:
  assumes "cdev_ok w fs"
  shows "cdev_ok (snd (ioctl_deallocate w c h)) fs"
proof (cases "take_client_resource w c h Release_address_handler")
  case (Some t)
  then obtain res v where t: "take_client_resource w c h Release_address_handler = Some (res, v)" by (cases t) simp
  have "release_of res = Release_address_handler" by (rule take_client_resource_cases [OF t])
  then obtain p where p: "res = Address_handler p" by (cases res) simp_all
  show ?thesis by (rule take_cases [OF t assms]) (simp_all add: ioctl_deallocate_def t p core_put [OF core_cd(3)])
qed (use assms in \<open>simp add: ioctl_deallocate_def\<close>)

lemma ioctl_remove_descriptor_ok:
  assumes "cdev_ok w fs"
  shows "cdev_ok (snd (ioctl_remove_descriptor crc w c h)) fs"
proof (cases "take_client_resource w c h Release_descriptor")
  case (Some t)
  then obtain res v where t: "take_client_resource w c h Release_descriptor = Some (res, v)" by (cases t) simp
  have "release_of res = Release_descriptor" by (rule take_client_resource_cases [OF t])
  then obtain p where p: "res = Descriptor p" by (cases res) simp_all
  show ?thesis by (rule take_cases [OF t assms]) (simp_all add: ioctl_remove_descriptor_def t p core_put [OF core_cd(4)])
qed (use assms in \<open>simp add: ioctl_remove_descriptor_def\<close>)

lemma ioctl_send_response_ok:
  assumes "cdev_ok w fs" "ioctl_send_response env w c a = Some (r, w')"
  shows "cdev_ok w' fs"
proof (cases "take_client_resource w c (sp_handle a) Release_request")
  case (Some t)
  then obtain res v where t: "take_client_resource w c (sp_handle a) Release_request = Some (res, v)" by (cases t) simp
  have "release_of res = Release_request" by (rule take_client_resource_cases [OF t])
  then obtain p where p: "res = Inbound_transaction p" by (cases res) simp_all
  have s: "core w2 = core v2" if "cd_send_response (v2\<lparr>cd_rq := rq\<rparr>) q rc = Some w2" for w2 v2 rq q rc using core_cd(5) [OF that] by simp
  have "core w' = core (client_put v c)"
    using assms(2) by (auto simp: ioctl_send_response_def t p Let_def dest!: s split: if_splits option.splits)
  then show ?thesis by (rule take_cases [OF t assms(1), rotated]) simp
qed (use assms in \<open>simp add: ioctl_send_response_def\<close>)

subsection \<open>Isochronous resources\<close>

lemma ioctl_allocate_iso_resource_ok:
  assumes "cdev_ok w fs" "fresh_ptr w (en_ptr env)"
  shows "cdev_ok (snd (ioctl_allocate_iso_resource env w c a)) fs"
proof (cases "en_alloc env \<and> fill_iso_resource_params a \<noteq> None")
  case True
  then obtain ch bw where p: "fill_iso_resource_params a = Some (ch, bw)" by auto
  obtain q w1 where q: "add_client_resource env w c (Iso_resource_auto (en_ptr env)) = (q, w1)" by fastforce
  show ?thesis
    using q
  proof (cases rule: add_client_resource_cases)
    case (1 err)
    then show ?thesis using True p q assms(1) by (simp add: ioctl_allocate_iso_resource_def)
  next
    case (2 h xa)
    note al = alloc_facts [OF assms(1) 2(2)]
    let ?r = "\<lparr>a_client = c, a_handle = h, a_todo = ISO_RES_AUTO_ALLOC, a_generation = en_generation env, a_channels_mask = ch,
      a_bandwidth = bw, a_closure = ir_closure a, a_e_alloc = True, a_e_dealloc = True, a_pending = False, a_run = Auto_idle\<rparr>"
    let ?w = "w1\<lparr>cd_auto := (cd_auto w1)(en_ptr env \<mapsto> ?r)\<rparr>"
    have "cdev_ok ?w fs"
      by (rule add_entry_ok [OF assms(1) al(1) _ _ al(2,3)]) (use 2 assms(2) in \<open>auto simp: fresh_ptr_def\<close>)
    then have "cdev_ok (schedule_iso_resource_auto ?w (en_ptr env)) fs" by (rule schedule_ok)
    moreover have "snd (ioctl_allocate_iso_resource env w c a) = schedule_iso_resource_auto ?w (en_ptr env)"
      using True p q 2(1) by (simp add: ioctl_allocate_iso_resource_def Let_def)
    ultimately show ?thesis by simp
  qed
qed (use assms in \<open>cases "fill_iso_resource_params a"; simp add: ioctl_allocate_iso_resource_def\<close>)

lemma schedule_sel:
  assumes "cd_auto w r = Some a"
  shows "the_xa (schedule_iso_resource_auto w r) i = the_xa w i" "cd_once (schedule_iso_resource_auto w r) = cd_once w"
    "cd_phy_out (schedule_iso_resource_auto w r) = cd_phy_out w" "cd_outbound (schedule_iso_resource_auto w r) = cd_outbound w"
    "cd_auto (schedule_iso_resource_auto w r) = (cd_auto w)(r \<mapsto> a\<lparr>a_pending := True\<rparr>)"
    "kref_of (schedule_iso_resource_auto w r) i = (if i = a_client a \<and> \<not> a_pending a then kref_of w i + 1 else kref_of w i)"
proof -
  have "a\<lparr>a_pending := True\<rparr> = a" if "a_pending a" using that by (cases a) simp
  then show "the_xa (schedule_iso_resource_auto w r) i = the_xa w i" "cd_once (schedule_iso_resource_auto w r) = cd_once w"
    "cd_phy_out (schedule_iso_resource_auto w r) = cd_phy_out w" "cd_outbound (schedule_iso_resource_auto w r) = cd_outbound w"
    "cd_auto (schedule_iso_resource_auto w r) = (cd_auto w)(r \<mapsto> a\<lparr>a_pending := True\<rparr>)"
    "kref_of (schedule_iso_resource_auto w r) i = (if i = a_client a \<and> \<not> a_pending a then kref_of w i + 1 else kref_of w i)"
    using assms by (auto simp: schedule_iso_resource_auto_def Let_def)
qed

lemma core_put_schedule:
  assumes "0 < kref_of w c"
  shows "core (client_put (schedule_iso_resource_auto w r) c) = core (schedule_iso_resource_auto (client_put w c) r)"
proof (cases "cd_auto w r")
  case None
  then show ?thesis by (simp add: schedule_iso_resource_auto_def)
next
  case (Some a)
  then have "cd_auto (client_put w c) r = Some a" by simp
  then show ?thesis using assms by (auto simp: core_eq schedule_sel Some)
qed

text \<open>A resource that is out of the array is marked and its work item scheduled, whatever the new array is.\<close>

lemma release_iso_ok:
  assumes ok: "cdev_ok w fs" and res: "xa_load (the_xa w c) h = Some (Iso_resource_auto r)"
    and w': "\<And>i. kref_of w' i = kref_of w i" "\<And>i. the_xa w' i = (if i = c then xa' else the_xa w i)" "cd_auto w' = cd_auto w"
      "cd_once w' = cd_once w" "cd_phy_out w' = cd_phy_out w" "cd_outbound w' = cd_outbound w"
    and xa: "xa_ok xa'" "xa_load xa' = (xa_load (the_xa w c))(h := None)"
  shows "cdev_ok (client_put (release_iso_resource_auto w' r) c) fs"
proof -
  let ?f = "\<lambda>a. a\<lparr>a_todo := ISO_RES_AUTO_DEALLOC\<rparr>"
  have "holds w fs c (Entry h)" using res by (simp add: holds_def)
  then have k: "0 < kref_of (upd_auto w' r ?f) c" using refs_ok_positive [OF cdev_okD(1) [OF ok]] w'(1) by simp
  have "cdev_ok (client_put (upd_auto w' r ?f) c) fs"
    by (rule drop_entry_ok [OF ok res _ _ xa, where f = ?f]) (use w' in auto)
  then have "cdev_ok (schedule_iso_resource_auto (client_put (upd_auto w' r ?f) c) r) fs" by (rule schedule_ok)
  then show ?thesis unfolding release_iso_resource_auto_def using core_put_schedule [OF k] cdev_ok_cong by metis
qed

lemma ioctl_deallocate_iso_resource_ok:
  assumes "cdev_ok w fs"
  shows "cdev_ok (snd (ioctl_deallocate_iso_resource w c h)) fs"
proof (cases "take_client_resource w c h Release_iso_resource_auto")
  case (Some t)
  then obtain res v where t: "take_client_resource w c h Release_iso_resource_auto = Some (res, v)" by (cases t) simp
  note tc = take_client_resource_cases [OF t]
  obtain r where r: "res = Iso_resource_auto r" using tc(2) by (cases res) simp_all
  note e = erase_facts [OF assms, of h c]
  have "cdev_ok (client_put (release_iso_resource_auto v r) c) fs"
    by (rule release_iso_ok [OF assms tc(1) [unfolded r], where xa' = "xa_erase h (the_xa w c)"]) (use e tc(3) in simp_all)
  then show ?thesis by (simp add: ioctl_deallocate_iso_resource_def t r)
qed (use assms in \<open>simp add: ioctl_deallocate_iso_resource_def\<close>)

lemma init_iso_resource_once_ok:
  assumes "cdev_ok w fs" "fresh_ptr w (en_ptr env)"
  shows "cdev_ok (snd (init_iso_resource_once env w c a al)) fs"
proof (cases "en_alloc env \<and> fill_iso_resource_params a \<noteq> None")
  case True
  then obtain ch bw where p: "fill_iso_resource_params a = Some (ch, bw)" by auto
  let ?w = "snd (init_iso_resource_once env w c a al)"
  have w: "kref_of ?w i = (if i = c then kref_of w i + 1 else kref_of w i)" "the_xa ?w i = the_xa w i" "cd_auto ?w = cd_auto w"
    "\<exists>x. cd_once ?w = (cd_once w)(en_ptr env \<mapsto> x) \<and> o_client x = c" "cd_phy_out ?w = cd_phy_out w" "cd_outbound ?w = cd_outbound w" for i
    using True p by (simp_all add: init_iso_resource_once_def Let_def) (metis iso_resource_once.select_convs(1))
  obtain x where x: "cd_once ?w = (cd_once w)(en_ptr env \<mapsto> x)" "o_client x = c" using w(4) by blast
  have "refs_ok ?w fs"
  proof (rule refs_ok_gain [OF cdev_okD(1) [OF assms(1)] _ w(1)])
    show "holds w fs i y \<or> i = c \<and> y = Once (en_ptr env)" if "holds ?w fs i y" for i y
      using that x by (cases y) (auto simp: holds_def w split: if_splits)
  qed
  moreover have "objects_ok ?w" by (rule objects_ok_auto [OF cdev_okD(2) [OF assms(1)]]) (use w in auto)
  ultimately show ?thesis by (simp add: cdev_ok_def)
qed (use assms in \<open>cases "fill_iso_resource_params a"; simp add: init_iso_resource_once_def\<close>)

lemma ioctl_send_phy_packet_ok:
  assumes "cdev_ok w fs" "fresh_ptr w (en_ptr env)"
  shows "cdev_ok (snd (ioctl_send_phy_packet env w c cl dat g)) fs"
proof (cases "dev_is_local (the_device w c) \<and> en_alloc env")
  case True
  let ?w = "snd (ioctl_send_phy_packet env w c cl dat g)"
  have w: "kref_of ?w i = (if i = c then kref_of w i + 1 else kref_of w i)" "the_xa ?w i = the_xa w i" "cd_auto ?w = cd_auto w"
    "\<exists>x. cd_phy_out ?w = (cd_phy_out w)(en_ptr env \<mapsto> x) \<and> ope_client x = c" "cd_once ?w = cd_once w" "cd_outbound ?w = cd_outbound w" for i
    using True by (simp_all add: ioctl_send_phy_packet_def Let_def cd_emit_def) (metis outbound_phy_packet_event.select_convs(1))
  obtain x where x: "cd_phy_out ?w = (cd_phy_out w)(en_ptr env \<mapsto> x)" "ope_client x = c" using w(4) by blast
  have "refs_ok ?w fs"
  proof (rule refs_ok_gain [OF cdev_okD(1) [OF assms(1)] _ w(1)])
    show "holds w fs i y \<or> i = c \<and> y = Phy (en_ptr env)" if "holds ?w fs i y" for i y
      using that x by (cases y) (auto simp: holds_def w split: if_splits)
  qed
  moreover have "objects_ok ?w" by (rule objects_ok_auto [OF cdev_okD(2) [OF assms(1)]]) (use w in auto)
  ultimately show ?thesis by (simp add: cdev_ok_def)
qed (use assms in \<open>auto simp: ioctl_send_phy_packet_def\<close>)

section \<open>Callbacks and work items\<close>

lemma complete_transaction_ok:
  assumes "cdev_ok w fs"
  shows "cdev_ok (complete_transaction w rcode t1 t2 payload e) fs"
proof (cases "cd_outbound w e")
  case (Some t)
  let ?c = "oe_client t" and ?w = "complete_transaction w rcode t1 t2 payload e"
  let ?v = "client_put ((erase_resource w ?c (oe_handle t))\<lparr>cd_outbound := (cd_outbound w)(e := None)\<rparr>) ?c"
  note r = objects_okD(2) [OF cdev_okD(2) [OF assms] Some]
  note x = erase_facts [OF assms, of "oe_handle t" ?c]
  have "\<exists>ev. ?w = client_put (queue_event ((erase_resource w ?c (oe_handle t))\<lparr>cd_outbound := (cd_outbound w)(e := None)\<rparr>) ?c ev) ?c"
    unfolding complete_transaction_def Some option.case Let_def erase_sel by (rule exI) (rule refl)
  then obtain ev where ev: "?w = client_put (queue_event ((erase_resource w ?c (oe_handle t))\<lparr>cd_outbound := (cd_outbound w)(e := None)\<rparr>) ?c ev) ?c" ..
  have "core ?w = core ?v" unfolding ev by (rule core_put) (rule core_queue_event)
  moreover have "cdev_ok ?v fs"
    by (rule drop_entry_ok [OF assms r, where xa' = "xa_erase (oe_handle t) (the_xa w ?c)" and f = "\<lambda>a. a"]) (use x in simp_all)
  ultimately show ?thesis using cdev_ok_cong [of ?w ?v fs] by blast
qed (use assms in \<open>simp add: complete_transaction_def\<close>)

lemma handle_request_ok:
  assumes "cdev_ok w fs" "handle_request env w p a = Some w'"
  shows "cdev_ok w' fs"
proof -
  obtain cl c where pc: "cd_closures w p = (cl, c)" by fastforce
  define fcp where "fcp = is_in_fcp_region (ib_offset a) (of_nat (ib_length a))"
  define v where "v = (if fcp then (cd_card_get w)\<lparr>cd_rq := fw_request_get (cd_rq (cd_card_get w)) (ib_request a)\<rparr> else cd_card_get w)"
  let ?r = "\<lparr>in_request = ib_request a, in_is_fcp = fcp, in_length = ib_length a\<rparr>"
  let ?failed = "\<lambda>w. case (if \<not> fcp then cd_send_response w (ib_request a) RCODE_CONFLICT_ERROR else cd_request_put w (ib_request a)) of
      None \<Rightarrow> None | Some w \<Rightarrow> Some (cd_card_put w)"
  obtain q w2 where q: "add_client_resource env v c (Inbound_transaction ?r) = (q, w2)" by fastforce
  define re where "re = (\<lambda>h. request_event (c_version (cd_client w2 c)) (card_index (cd_card w2)) cl h
      (rq_timestamp (requests (cd_rq w2) ! ib_request a)) a)"
  have w': "Some w' = (if \<not> en_alloc env \<or> \<not> en_alloc2 env then ?failed v
     else case q of Inl err \<Rightarrow> ?failed w2 | Inr h \<Rightarrow> Some (queue_event w2 c \<lparr>ev_body = fst (re h), ev_size0 = snd (re h),
       ev_data1 = Request_data (ib_request a), ev_size1 = ib_length a\<rparr>))"
    unfolding assms(2) [symmetric] handle_request_def pc prod.case Let_def fcp_def [symmetric] v_def [symmetric] q re_def by (cases q) (simp_all add: split_beta)
  have v: "core v = core w" by (simp add: v_def)
  have f: "core w3 = core u" if "?failed u = Some w3" for u w3 using that core_cd(5,6) by (auto split: if_splits option.splits)
  have w2: "cdev_ok w2 fs" by (rule add_other_ok [OF assms(1) v q]) simp_all
  have "core w' = core v \<or> core w' = core w2" using w' f [of v w'] f [of w2 w'] by (cases q) (simp_all split: if_splits)
  then show ?thesis using w2 v assms(1) cdev_ok_cong by metis
qed

lemma update_clients_ok: "cdev_ok w fs \<Longrightarrow> update_clients al w cs = Some w' \<Longrightarrow> cdev_ok w' fs"
proof (induction al w cs rule: update_clients.induct)
  case (2 al w c cs)
  then obtain v where v: "queue_bus_reset_event (al c) w c = Some v" by (auto split: option.splits)
  have "cdev_ok (queue_event w c e) fs = cdev_ok w fs" for e by (rule cdev_ok_cong) simp
  then have "cdev_ok v fs" using v "2.prems"(1) by (auto simp: queue_bus_reset_event_def Let_def schedule_resources_ok split: if_splits option.splits)
  then show ?case using 2 v by simp
qed simp

lemma refs_ok_same:
  assumes "refs_ok w fs" "\<And>i y. holds w' fs i y \<Longrightarrow> holds w fs i y" "\<And>i. kref_of w' i = kref_of w i"
  shows "refs_ok w' fs"
  by (rule refs_ok_step [OF assms(1), where L = "\<lambda>i. {}" and G = "\<lambda>i. {}"]) (use assms(2,3) in \<open>auto simp: holders_def\<close>)

lemma if3_cases:
  obtains "(if P then x else if Q then y else z) = x" | "(if P then x else if Q then y else z) = y" | "(if P then x else if Q then y else z) = z"
  by presburger

lemma auto_work_start_ok:
  assumes ok: "cdev_ok w fs" and a: "cd_auto w r = Some a" "a_pending a" "a_run a = Auto_idle"
  shows "cdev_ok (auto_work_start env w r) fs"
proof -
  let ?c = "a_client a" and ?g = "dev_generation (the_device w (a_client a))"
  let ?v = "upd_auto w r (\<lambda>a. a\<lparr>a_pending := False, a_generation := ?g\<rparr>)" and ?w = "auto_work_start env w r"
  have p: "holds w fs ?c (Pending r)" using a by (simp add: holds_def)
  have k: "0 < kref_of w ?c" by (rule refs_ok_positive [OF cdev_okD(1) [OF ok] p])
  consider (again) "?w = client_put (schedule_iso_resource_auto ?v r) ?c" | (finished) "?w = client_put ?v ?c"
    | (run) "?w = upd_auto ?v r (\<lambda>x. x\<lparr>a_run := Auto_managing (a_todo a) ?g\<rparr>)"
    unfolding auto_work_start_def a option.case Let_def by (rule if3_cases)
  then show ?thesis
  proof cases
    case again
    have v: "cd_auto ?v r = Some (a\<lparr>a_pending := False, a_generation := ?g\<rparr>)" using a by simp
    note s = schedule_sel [OF v]
    have "kref_of ?w i = kref_of w i" for i by (simp add: again s)
    moreover have "holds w fs i y" if "holds ?w fs i y" for i y
      using that a by (cases y) (auto simp: again holds_def s split: if_splits)
    ultimately have "refs_ok ?w fs" using refs_ok_same [OF cdev_okD(1) [OF ok]] by metis
    moreover have "objects_ok ?w" by (rule objects_ok_auto [OF cdev_okD(2) [OF ok]]) (use a in \<open>auto simp: again s\<close>)
    ultimately show ?thesis by (simp add: cdev_ok_def)
  next
    case finished
    have "refs_ok ?w fs"
      by (rule refs_ok_lose [OF cdev_okD(1) [OF ok] p])
        (use a in \<open>auto simp: finished holds_def split: holder.splits if_splits option.splits\<close>)
    moreover have "objects_ok ?w" by (rule objects_ok_auto [OF cdev_okD(2) [OF ok]]) (use a in \<open>auto simp: finished\<close>)
    ultimately show ?thesis by (simp add: cdev_ok_def)
  next
    case run
    have "refs_ok ?w fs"
      by (rule refs_ok_move [OF cdev_okD(1) [OF ok] p, where z = "Running r"])
        (use a in \<open>auto simp: run holds_def split: holder.splits if_splits option.splits\<close>)
    moreover have "objects_ok ?w" by (rule objects_ok_auto [OF cdev_okD(2) [OF ok]]) (use a in \<open>auto simp: run\<close>)
    ultimately show ?thesis by (simp add: cdev_ok_def)
  qed
qed

lemma auto_work_manage_ok:
  assumes ok: "cdev_ok w fs"
  shows "cdev_ok (auto_work_manage irm w r) fs"
proof (cases "\<exists>a todo g. cd_auto w r = Some a \<and> a_run a = Auto_managing todo g")
  case True
  then obtain a todo g where a: "cd_auto w r = Some a" "a_run a = Auto_managing todo g" by blast
  let ?w = "auto_work_manage irm w r"
  obtain ch bw h where m: "fw_iso_resource_manage irm (cd_irm_log w) (a_channels_mask a) (a_bandwidth a) (todo \<noteq> ISO_RES_AUTO_DEALLOC) = (ch, bw, h)"
    by (metis prod.collapse)
  have w: "?w = upd_auto (w\<lparr>cd_irm_log := h\<rparr>) r (\<lambda>x. x\<lparr>a_run := Auto_managed todo ch bw\<rparr>)" by (simp add: auto_work_manage_def a m)
  have "refs_ok ?w fs"
    by (rule refs_ok_same [OF cdev_okD(1) [OF ok]]) (use a in \<open>auto simp: w holds_def split: holder.splits if_splits option.splits\<close>)
  moreover have "objects_ok ?w" by (rule objects_ok_auto [OF cdev_okD(2) [OF ok]]) (use a in \<open>auto simp: w\<close>)
  ultimately show ?thesis by (simp add: cdev_ok_def)
qed (use ok in \<open>auto simp: auto_work_manage_def split: option.split auto_run.split\<close>)

text \<open>The failing work item removes what is behind its handle, which is not its own resource if that has been deallocated and the handle
  given out again.\<close>

definition takes_other :: "cdev \<Rightarrow> nat \<Rightarrow> bool" where
  "takes_other w r =
    (case cd_auto w r of
       None \<Rightarrow> False
     | Some a \<Rightarrow>
         (case a_run a of
            Auto_managed todo channel bandwidth \<Rightarrow>
              todo \<noteq> ISO_RES_AUTO_DEALLOC \<and> channel \<noteq> Inl EAGAIN \<and> isl channel \<and> \<not> bandwidth > 0 \<and> \<not> c_in_shutdown (cd_client w (a_client a)) \<and>
              xa_load (the_xa w (a_client a)) (a_handle a) \<notin> {None, Some (Iso_resource_auto r)}
          | _ \<Rightarrow> False))"

lemma auto_work_notify_ok:
  assumes ok: "cdev_ok w fs" and a: "cd_auto w r = Some a" "a_run a \<noteq> Auto_idle" "free \<longrightarrow> run_frees (a_run a)"
    and n: "auto_work_notify w r a todo channel bandwidth free = Some w'"
  shows "cdev_ok w' fs"
proof -
  let ?c = "a_client a"
  obtain ev a' where w': "w' = client_put ((queue_event w ?c ev)\<lparr>cd_auto := (cd_auto w)(r := if free then None else Some a')\<rparr>) ?c"
    and a': "a_client a' = ?c" "a_handle a' = a_handle a" "a_run a' = Auto_idle" "a_pending a' = a_pending a"
      "a_todo a \<noteq> ISO_RES_AUTO_DEALLOC \<Longrightarrow> a_todo a' \<noteq> ISO_RES_AUTO_DEALLOC"
  proof
    let ?a = "(if todo = ISO_RES_AUTO_ALLOC then a\<lparr>a_todo := ISO_RES_AUTO_REALLOC, a_e_alloc := False,
      a_channels_mask := (case channel of Inr ch \<Rightarrow> push_bit ch 1 | Inl _ \<Rightarrow> a_channels_mask a)\<rparr> else a\<lparr>a_e_dealloc := False\<rparr>)\<lparr>a_run := Auto_idle\<rparr>"
    show "w' = client_put ((queue_event w ?c \<lparr>ev_body = Ev_iso_resource (todo = ISO_RES_AUTO_ALLOC) (a_closure a) (int (a_handle a)) channel bandwidth,
        ev_size0 = 24, ev_data1 = No_data, ev_size1 = 0\<rparr>)\<lparr>cd_auto := (cd_auto w)(r := if free then None else Some ?a)\<rparr>) ?c"
      using n by (simp add: auto_work_notify_def Let_def split: if_split_asm)
  qed auto
  have run: "holds w fs ?c (Running r)" using a by (simp add: holds_def)
  have sel: "the_xa w' i = the_xa w i" "kref_of w' i = (if i = ?c then kref_of w i - 1 else kref_of w i)" "cd_once w' = cd_once w"
    "cd_phy_out w' = cd_phy_out w" "cd_outbound w' = cd_outbound w" "cd_auto w' = (cd_auto w)(r := if free then None else Some a')" for i
    by (simp_all add: w')
  have "refs_ok w' fs"
  proof (rule refs_ok_lose [OF cdev_okD(1) [OF ok] run _ _ sel(2)])
    show "\<not> holds w' fs ?c (Running r)" using a' by (simp add: holds_def sel)
    show "holds w fs i y" if "holds w' fs i y" for i y
      using that a a' by (cases y) (auto simp: holds_def sel split: if_splits)
  qed
  moreover have "objects_ok w'"
    by (rule objects_ok_auto [OF cdev_okD(2) [OF ok] sel(1) sel(5)]) (use a a' in \<open>auto simp: sel\<close>)
  ultimately show ?thesis by (simp add: cdev_ok_def)
qed

lemma auto_work_decide_ok:
  assumes ok: "cdev_ok w fs" and d: "auto_work_decide w r = Some w'" and own: "\<not> takes_other w r"
  shows "cdev_ok w' fs"
proof (cases "cd_auto w r")
  case None
  then show ?thesis using assms by (simp add: auto_work_decide_def)
next
  case (Some a)
  let ?c = "a_client a"
  show ?thesis
  proof (cases "a_run a")
    case Auto_idle
    then show ?thesis using assms Some by (simp add: auto_work_decide_def)
  next
    case (Auto_managing todo g)
    then show ?thesis using assms Some by (simp add: auto_work_decide_def)
  next
    case (Auto_failed todo channel bandwidth free)
    then have "auto_work_notify w r a todo channel bandwidth free = Some w'" using d Some by (simp add: auto_work_decide_def)
    then show ?thesis by (rule auto_work_notify_ok [OF ok Some, rotated 2]) (simp_all add: Auto_failed)
  next
    case (Auto_managed todo channel bandwidth)
    note d' = d [unfolded auto_work_decide_def Some option.case Auto_managed auto_run.case Let_def]
    have out: "cdev_ok (client_put (upd_auto w r (\<lambda>x. x\<lparr>a_run := Auto_idle\<rparr>)) ?c) fs"
    proof -
      let ?w = "client_put (upd_auto w r (\<lambda>x. x\<lparr>a_run := Auto_idle\<rparr>)) ?c"
      have run: "holds w fs ?c (Running r)" using Some Auto_managed by (simp add: holds_def)
      have "refs_ok ?w fs"
        by (rule refs_ok_lose [OF cdev_okD(1) [OF ok] run])
          (use Some in \<open>auto simp: holds_def split: holder.splits if_splits option.splits\<close>)
      moreover have "objects_ok ?w" by (rule objects_ok_auto [OF cdev_okD(2) [OF ok]]) (use Some in auto)
      ultimately show ?thesis by (simp add: cdev_ok_def)
    qed
    have keep: "cdev_ok (upd_auto w r (\<lambda>x. x\<lparr>a_run := Auto_failed todo channel bandwidth False\<rparr>)) fs" (is "cdev_ok ?w fs")
    proof -
      have "refs_ok ?w fs"
        by (rule refs_ok_same [OF cdev_okD(1) [OF ok]])
          (use Some Auto_managed in \<open>auto simp: holds_def split: holder.splits if_splits option.splits\<close>)
      moreover have "objects_ok ?w" by (rule objects_ok_auto [OF cdev_okD(2) [OF ok]]) (use Some in auto)
      ultimately show ?thesis by (simp add: cdev_ok_def)
    qed
    have pull: "cdev_ok (client_put (upd_auto (erase_resource w ?c (a_handle a)) r (\<lambda>x. x\<lparr>a_run := Auto_failed todo channel bandwidth True\<rparr>)) ?c) fs"
      if l: "xa_load (the_xa w ?c) (a_handle a) = Some (Iso_resource_auto r)"
      by (rule drop_entry_ok [OF ok l, where xa' = "xa_erase (a_handle a) (the_xa w ?c)" and f = "\<lambda>x. x\<lparr>a_run := Auto_failed todo channel bandwidth True\<rparr>"])
        (use erase_facts [OF ok, of "a_handle a" ?c] Some Auto_managed in auto)
    have note1: "auto_work_notify w r a todo channel bandwidth True = Some w' \<Longrightarrow> todo = ISO_RES_AUTO_DEALLOC \<Longrightarrow> cdev_ok w' fs"
      by (rule auto_work_notify_ok [OF ok Some]) (simp_all add: Auto_managed)
    have note2: "auto_work_notify w r a todo channel bandwidth False = Some w' \<Longrightarrow> cdev_ok w' fs"
      by (rule auto_work_notify_ok [OF ok Some]) (simp_all add: Auto_managed)
    show ?thesis
    proof (cases "todo = ISO_RES_AUTO_DEALLOC")
      case True
      then show ?thesis using d' note1 by simp
    next
      case False
      show ?thesis
      proof (cases "channel \<noteq> Inl EAGAIN \<and> isl channel \<and> \<not> bandwidth > 0")
        case True
        then show ?thesis using d' False keep pull own by (auto simp: takes_other_def Some Auto_managed split: if_splits)
      next
        case no: False
        then show ?thesis using d' False out note2 by (auto split: if_splits)
      qed
    qed
  qed
qed

lemma iso_resource_once_work_ok:
  assumes ok: "cdev_ok w fs"
  shows "cdev_ok (iso_resource_once_work irm w r) fs"
proof (cases "cd_once w r")
  case (Some x)
  let ?w = "iso_resource_once_work irm w r"
  obtain ch bw h where m: "fw_iso_resource_manage irm (cd_irm_log w) (o_channels_mask x) (o_bandwidth x) (o_alloc x) = (ch, bw, h)"
    by (metis prod.collapse)
  have sel: "the_xa ?w i = the_xa w i" "kref_of ?w i = (if i = o_client x then kref_of w i - 1 else kref_of w i)" "cd_auto ?w = cd_auto w"
    "cd_phy_out ?w = cd_phy_out w" "cd_outbound ?w = cd_outbound w" "cd_once ?w = (cd_once w)(r := None)" for i
    by (simp_all add: iso_resource_once_work_def Some m Let_def)
  have h: "holds w fs (o_client x) (Once r)" using Some by (simp add: holds_def)
  have "refs_ok ?w fs"
  proof (rule refs_ok_lose [OF cdev_okD(1) [OF ok] h _ _ sel(2)])
    show "\<not> holds ?w fs (o_client x) (Once r)" by (simp add: holds_def sel)
    show "holds w fs i y" if "holds ?w fs i y" for i y using that by (cases y) (auto simp: holds_def sel split: if_splits)
  qed
  moreover have "objects_ok ?w" by (rule objects_ok_auto [OF cdev_okD(2) [OF ok] sel(1) sel(5)]) (simp add: sel)
  ultimately show ?thesis by (simp add: cdev_ok_def)
qed (use ok in \<open>simp add: iso_resource_once_work_def\<close>)

lemma outbound_phy_packet_callback_ok:
  assumes ok: "cdev_ok w fs"
  shows "cdev_ok (outbound_phy_packet_callback w e status ts) fs"
proof (cases "cd_phy_out w e")
  case (Some p)
  let ?w = "outbound_phy_packet_callback w e status ts"
  have sel: "the_xa ?w i = the_xa w i" "kref_of ?w i = (if i = ope_client p then kref_of w i - 1 else kref_of w i)" "cd_auto ?w = cd_auto w"
    "cd_once ?w = cd_once w" "cd_outbound ?w = cd_outbound w" "cd_phy_out ?w = (cd_phy_out w)(e := None)" for i
    by (simp_all add: outbound_phy_packet_callback_def Some Let_def)
  have h: "holds w fs (ope_client p) (Phy e)" using Some by (simp add: holds_def)
  have "refs_ok ?w fs"
  proof (rule refs_ok_lose [OF cdev_okD(1) [OF ok] h _ _ sel(2)])
    show "\<not> holds ?w fs (ope_client p) (Phy e)" by (simp add: holds_def sel)
    show "holds w fs i y" if "holds ?w fs i y" for i y using that by (cases y) (auto simp: holds_def sel split: if_splits)
  qed
  moreover have "objects_ok ?w" by (rule objects_ok_auto [OF cdev_okD(2) [OF ok] sel(1) sel(5)]) (simp add: sel)
  ultimately show ?thesis by (simp add: cdev_ok_def)
qed (use ok in \<open>simp add: outbound_phy_packet_callback_def\<close>)

section \<open>Opening and closing\<close>

lemma unreferenced:
  assumes "refs_ok w fs" "kref_of w c = 0"
  shows "\<not> holds w fs c x"
  using refs_ok_positive [OF assms(1), of c x] assms(2) by auto

lemma fw_device_op_open_ok:
  assumes ok: "cdev_ok w fs" and c: "kref_of w c = 0" and op: "fw_device_op_open env w dev c = (None, w')"
  shows "cdev_ok w' (insert c fs)"
proof -
  note no = unreferenced [OF cdev_okD(1) [OF ok] c]
  have sel: "the_xa w' i = (if i = c then [] else the_xa w i)" "kref_of w' i = (if i = c then 1 else kref_of w i)" "cd_auto w' = cd_auto w"
    "cd_once w' = cd_once w" "cd_outbound w' = cd_outbound w" "cd_phy_out w' = cd_phy_out w" for i
    using op by (auto simp: fw_device_op_open_def split: option.splits if_splits)
  have [simp]: "xa_load [] h = None" for h by (simp add: xa_load_def)
  have "refs_ok w' (insert c fs)"
  proof (rule refs_ok_gain [OF cdev_okD(1) [OF ok]])
    show "holds w fs i y \<or> i = c \<and> y = File" if "holds w' (insert c fs) i y" for i y
      using that by (cases y) (auto simp: holds_def sel split: if_splits)
    show "kref_of w' i = (if i = c then kref_of w i + 1 else kref_of w i)" for i by (simp add: sel c)
  qed
  moreover have n: "xa_load (the_xa w c) h = None" for h using no [of "Entry h"] by (simp add: holds_def)
  have "oe_client t \<noteq> c" if "cd_outbound w e = Some t" for e t using objects_okD(2) [OF cdev_okD(2) [OF ok] that] n by auto
  then have "objects_ok w'"
    using objects_okD [OF cdev_okD(2) [OF ok]] n unfolding objects_ok_def sel by (auto simp: xa_ok_def)
  ultimately show ?thesis by (simp add: cdev_ok_def)
qed

definition with_xa :: "cdev \<Rightarrow> nat \<Rightarrow> client_resource xarray \<Rightarrow> cdev" where
  "with_xa w c xa = cd_upd w c (\<lambda>x. x\<lparr>c_resource_xa := xa\<rparr>)"

lemma with_xa_sel [simp]:
  "kref_of (with_xa w c xa) i = kref_of w i" "the_xa (with_xa w c xa) i = (if i = c then xa else the_xa w i)"
  "cd_auto (with_xa w c xa) = cd_auto w" "cd_once (with_xa w c xa) = cd_once w" "cd_phy_out (with_xa w c xa) = cd_phy_out w"
  "cd_outbound (with_xa w c xa) = cd_outbound w"
  by (simp_all add: with_xa_def)

lemma xa_tail:
  assumes "xa_ok ((h, r) # es)"
  shows "xa_ok es" "xa_load es = (xa_load ((h, r) # es))(h := None)" "xa_load ((h, r) # es) h = Some r"
proof -
  have "\<forall>x \<in> set es. h < fst x" using assms by (simp add: xa_ok_def)
  then have "map_of es h = None" by (auto simp: map_of_eq_None_iff)
  then show "xa_load es = (xa_load ((h, r) # es))(h := None)" by (auto simp: xa_load_def fun_eq_iff)
qed (use assms in \<open>simp_all add: xa_ok_def xa_load_def\<close>)

lemma release_step_ok:
  assumes ok: "cdev_ok (with_xa w c ((h, res) # es)) fs" and no: "release_of res \<noteq> Release_transaction"
    and r: "release_resource crc w res = Some u"
  shows "cdev_ok (with_xa (client_put u c) c es) fs"
proof -
  let ?v = "with_xa w c ((h, res) # es)"
  have x: "xa_ok ((h, res) # es)" using objects_okD(1) [OF cdev_okD(2) [OF ok], of c] by simp
  have l: "xa_load (the_xa ?v c) h = Some res" using xa_tail(3) [OF x] by simp
  show ?thesis
  proof (cases "\<exists>r. res = Iso_resource_auto r")
    case True
    then obtain r where r': "res = Iso_resource_auto r" by blast
    then obtain a where a: "cd_auto w r = Some a" "a_client a = c" using objects_okD(4) [OF cdev_okD(2) [OF ok]] l by fastforce
    have u: "u = release_iso_resource_auto w r" using assms(3) r' by (simp add: release_resource_def)
    let ?t = "client_put (release_iso_resource_auto (with_xa w c es) r) c"
    have "cdev_ok ?t fs"
      by (rule release_iso_ok [OF ok, where xa' = es and h = h]) (use l r' xa_tail [OF x] in simp_all)
    moreover have "cd_auto (upd_auto w r f) r = Some (f a)" "cd_auto (upd_auto (with_xa w c es) r f) r = Some (f a)" for f
      using a by simp_all
    note s = schedule_sel [OF this(1)] schedule_sel [OF this(2)]
    have "core (with_xa (client_put u c) c es) = core ?t"
      using s by (simp add: core_eq u release_iso_resource_auto_def fun_eq_iff)
    ultimately show ?thesis using cdev_ok_cong [of "with_xa (client_put u c) c es" ?t fs] by blast
  next
    case False
    have "core u = core w"
      using r no False core_cd(5,6) by (cases res) (auto simp: release_resource_def release_request_def split: option.splits if_splits)
    then show ?thesis
      by (intro drop_entry_ok [OF ok l, where xa' = es and f = "\<lambda>a. a"])
        (use no False xa_tail [OF x] in \<open>auto simp: core_eq split: client_resource.splits\<close>)
  qed
qed

lemma release_resources_ok:
  assumes "cdev_ok (with_xa w c es) fs" "\<forall>(h, res) \<in> set es. release_of res \<noteq> Release_transaction"
    and "release_resources crc w c (map snd es) = Some w'"
  shows "cdev_ok (with_xa w' c []) fs"
  using assms
proof (induction es arbitrary: w)
  case (Cons e es)
  obtain h res where e: "e = (h, res)" by fastforce
  obtain w1 where w1: "release_resource crc w res = Some w1" "release_resources crc (client_put w1 c) c (map snd es) = Some w'"
    using Cons.prems(3) e by (auto split: option.splits)
  have "cdev_ok (with_xa (client_put w1 c) c es) fs" by (rule release_step_ok [OF _ _ w1(1)]) (use Cons.prems e in auto)
  then show ?case using Cons.IH [OF _ _ w1(2)] Cons.prems(2) by simp
qed simp

lemma release_end_ok:
  assumes ok: "cdev_ok w fs" and c: "c \<in> fs" and no: "\<not> has_outbound_transactions w c" and r: "release_end crc w c = Some w'"
  shows "cdev_ok w' (fs - {c})"
proof -
  obtain v where v: "release_resources crc w c (map snd (the_xa w c)) = Some v"
    "w' = client_put (cd_upd v c (\<lambda>x. x\<lparr>c_resource_xa := [], c_event_list := []\<rparr>)) c"
    using r by (auto simp: release_end_def split: option.splits)
  have n: "\<forall>(h, res) \<in> set (the_xa w c). release_of res \<noteq> Release_transaction"
    using no by (auto simp: has_outbound_transactions_def list_ex_iff)
  have "core (with_xa w c (the_xa w c)) = core w" by (simp add: core_eq)
  then have "cdev_ok (with_xa w c (the_xa w c)) fs" using ok cdev_ok_cong by metis
  then have u: "cdev_ok (with_xa v c []) fs" by (rule release_resources_ok [OF _ n v(1)])
  have h: "holds (with_xa v c []) fs c File" using c by (simp add: holds_def)
  have sel: "kref_of w' i = (if i = c then kref_of (with_xa v c []) i - 1 else kref_of (with_xa v c []) i)" "the_xa w' i = the_xa (with_xa v c []) i"
    "cd_auto w' = cd_auto v" "cd_once w' = cd_once v" "cd_phy_out w' = cd_phy_out v" "cd_outbound w' = cd_outbound v" for i
    by (simp_all add: v(2))
  have "refs_ok w' (fs - {c})"
  proof (rule refs_ok_lose [OF cdev_okD(1) [OF u] h _ _ sel(1)])
    show "\<not> holds w' (fs - {c}) c File" by (simp add: holds_def)
    show "holds (with_xa v c []) fs i y" if "holds w' (fs - {c}) i y" for i y
      using that by (cases y) (auto simp: holds_def sel)
  qed
  moreover have "objects_ok w'" by (rule objects_ok_auto [OF cdev_okD(2) [OF u] sel(2)]) (simp_all add: sel)
  ultimately show ?thesis by (simp add: cdev_ok_def)
qed

section \<open>All interleavings\<close>

lemma out_number_ok: "cdev_ok (snd r) fs \<Longrightarrow> out_number r = Some (q, w') \<Longrightarrow> cdev_ok w' fs"
  by (auto simp: out_number_def)

lemma ioctl_handlers_ok:
  assumes ok: "cdev_ok w fs" and p: "fresh_ptr w (en_ptr env)" and h: "ioctl_handlers crc env w c arg = Some (r, w')"
  shows "cdev_ok w' fs"
proof -
  have same: "cdev_ok w' fs" if "core w' = core w" using cdev_ok_cong [OF that] ok by simp
  have out: "cdev_ok w' fs" if "out_number q = Some (r, w')" "core (snd q) = core w" for q
    using that same by (auto simp: out_number_def)
  note init = init_request_ok [OF ok p]
  show ?thesis
  proof (cases arg)
    case (Io_get_info a b x)
    then show ?thesis using h core_get_info same by auto
  next
    case (Io_send_request a)
    then have "out_number (ioctl_send_request env w c a) = Some (r, w')" using h by simp
    then show ?thesis by (rule out_number_ok [rotated]) (simp add: ioctl_send_request_def init ok)
  next
    case (Io_allocate a)
    then show ?thesis using h ioctl_allocate_ok [OF ok] by auto
  next
    case (Io_deallocate a)
    then have "out_number (ioctl_deallocate w c a) = Some (r, w')" using h by simp
    then show ?thesis by (rule out_number_ok [OF ioctl_deallocate_ok [OF ok]])
  next
    case (Io_send_response a)
    then obtain q v where q: "ioctl_send_response env w c a = Some (q, v)" "out_number (q, v) = Some (r, w')"
      using h by (auto split: option.splits)
    have "cdev_ok (snd (q, v)) fs" using ioctl_send_response_ok [OF ok q(1)] by simp
    then show ?thesis by (rule out_number_ok [OF _ q(2)])
  next
    case (Io_add_descriptor a)
    then have "out_number (ioctl_add_descriptor crc env w c a) = Some (r, w')" using h by simp
    then show ?thesis by (rule out_number_ok [OF ioctl_add_descriptor_ok [OF ok]])
  next
    case (Io_remove_descriptor a)
    then have "out_number (ioctl_remove_descriptor crc w c a) = Some (r, w')" using h by simp
    then show ?thesis by (rule out_number_ok [OF ioctl_remove_descriptor_ok [OF ok]])
  next
    case (Io_queue_iso user drv a)
    have "w' = snd (ioctl_queue_iso user drv w c a)" using h by (simp add: Io_queue_iso split: prod.splits)
    then have "core w' = core w" by (simp only: core_queue_iso)
    then show ?thesis by (rule same)
  next
    case (Io_get_cycle_timer j t k)
    then show ?thesis using h ok by (auto split: prod.splits)
  next
    case (Io_allocate_iso_resource a)
    then have "out_number (ioctl_allocate_iso_resource env w c a) = Some (r, w')" using h by simp
    then show ?thesis by (rule out_number_ok [OF ioctl_allocate_iso_resource_ok [OF ok p]])
  next
    case (Io_deallocate_iso_resource a)
    then have "out_number (ioctl_deallocate_iso_resource w c a) = Some (r, w')" using h by simp
    then show ?thesis by (rule out_number_ok [OF ioctl_deallocate_iso_resource_ok [OF ok]])
  next
    case (Io_allocate_iso_resource_once a)
    have "w' = snd (init_iso_resource_once env w c a True)" using h by (simp add: Io_allocate_iso_resource_once split: prod.splits)
    then show ?thesis by (simp add: init_iso_resource_once_ok [OF ok p])
  next
    case (Io_deallocate_iso_resource_once a)
    have "w' = snd (init_iso_resource_once env w c a False)" using h by (simp add: Io_deallocate_iso_resource_once split: prod.splits)
    then show ?thesis by (simp add: init_iso_resource_once_ok [OF ok p])
  next
    case (Io_send_broadcast_request a)
    then have "out_number (ioctl_send_broadcast_request env w c a) = Some (r, w')" using h by simp
    then show ?thesis by (rule out_number_ok [rotated]) (simp add: ioctl_send_broadcast_request_def init ok)
  next
    case (Io_send_stream_packet a j)
    then have "out_number (ioctl_send_stream_packet env w c a j) = Some (r, w')" using h by simp
    then show ?thesis by (rule out_number_ok [rotated]) (simp add: ioctl_send_stream_packet_def Let_def init ok)
  next
    case (Io_send_phy_packet cl dat g)
    then have "out_number (ioctl_send_phy_packet env w c cl dat g) = Some (r, w')" using h by simp
    then show ?thesis by (rule out_number_ok [OF ioctl_send_phy_packet_ok [OF ok p]])
  qed (use h out ok in \<open>simp; fail\<close>)+
qed

lemma dispatch_ioctl_ok:
  assumes "cdev_ok w fs" "fresh_ptr w (en_ptr env)" "dispatch_ioctl crc env ci co w c cmd arg = Some (r, w')"
  shows "cdev_ok w' fs"
proof -
  consider "w' = w" | q where "ioctl_handlers crc env w c (the arg) = Some (q, w')"
    using assms(3) by (auto simp: dispatch_ioctl_def split: if_splits option.splits sum.splits)
  then show ?thesis using assms(1) ioctl_handlers_ok [OF assms(1,2)] by cases auto
qed

text \<open>The steps, with the set of open files.  The operations of a file do not overlap its release, a work item runs when it is pending and not
  running, and the rest of the world may change the state of the card, the devices and the core at any time.  With the flag a failing work item
  does not remove what belongs to others.\<close>

inductive cdev_step :: "bool \<Rightarrow> (u16 \<Rightarrow> u8 list \<Rightarrow> u16) \<Rightarrow> cdev \<times> nat set \<Rightarrow> cdev \<times> nat set \<Rightarrow> bool" for own crc where
  open_file: "kref_of w c = 0 \<Longrightarrow> fw_device_op_open env w dev c = (None, w') \<Longrightarrow> cdev_step own crc (w, fs) (w', insert c fs)"
| ioctl: "c \<in> fs \<Longrightarrow> \<not> c_in_shutdown (cd_client w c) \<Longrightarrow> fresh_ptr w (en_ptr env) \<Longrightarrow>
    dispatch_ioctl crc env ci co w c cmd arg = Some (r, w') \<Longrightarrow> cdev_step own crc (w, fs) (w', fs)"
| read_file: "c \<in> fs \<Longrightarrow> \<not> c_in_shutdown (cd_client w c) \<Longrightarrow> dequeue_event intr copy w c n = (res, w') \<Longrightarrow> cdev_step own crc (w, fs) (w', fs)"
| mmap_file: "c \<in> fs \<Longrightarrow> \<not> c_in_shutdown (cd_client w c) \<Longrightarrow> fw_device_op_mmap ie w c v = (err, w') \<Longrightarrow> cdev_step own crc (w, fs) (w', fs)"
| close_begin: "c \<in> fs \<Longrightarrow> \<not> c_in_shutdown (cd_client w c) \<Longrightarrow> cdev_step own crc (w, fs) (release_begin w c, fs)"
| close_end: "c \<in> fs \<Longrightarrow> c_in_shutdown (cd_client w c) \<Longrightarrow> \<not> has_outbound_transactions w c \<Longrightarrow> release_end crc w c = Some w' \<Longrightarrow>
    cdev_step own crc (w, fs) (w', fs - {c})"
| response: "cdev_step own crc (w, fs) (complete_transaction w rcode t1 t2 payload e, fs)"
| request: "snd (cd_closures w p) \<in> fs \<Longrightarrow> handle_request env w p a = Some w' \<Longrightarrow> cdev_step own crc (w, fs) (w', fs)"
| iso_packets: "c \<in> fs \<Longrightarrow> cdev_step own crc (w, fs) (iso_callback al w c cycle hdr, fs)"
| iso_buffers: "c \<in> fs \<Longrightarrow> cdev_step own crc (w, fs) (iso_mc_callback al w c compl, fs)"
| phy_received: "cdev_step own crc (w, fs) (fw_cdev_handle_phy_packet als w ts dat, fs)"
| phy_sent: "cdev_step own crc (w, fs) (outbound_phy_packet_callback w e status ts, fs)"
| bus_reset: "fw_device_cdev_update als w d = Some w' \<Longrightarrow> cdev_step own crc (w, fs) (w', fs)"
| work_starts: "cd_auto w r = Some a \<Longrightarrow> a_pending a \<Longrightarrow> a_run a = Auto_idle \<Longrightarrow> cdev_step own crc (w, fs) (auto_work_start env w r, fs)"
| work_manages: "cdev_step own crc (w, fs) (auto_work_manage irm w r, fs)"
| work_decides: "auto_work_decide w r = Some w' \<Longrightarrow> (if own then \<not> takes_other w r else True) \<Longrightarrow> cdev_step own crc (w, fs) (w', fs)"
| work_once: "cdev_step own crc (w, fs) (iso_resource_once_work irm w r, fs)"
| world: "cdev_step own crc (w, fs) (w\<lparr>cd_rq := rq, cd_rom := rom, cd_irm_log := log, cd_card := crd, cd_device := dev\<rparr>, fs)"

lemma world_ok: "cdev_ok (w\<lparr>cd_rq := rq, cd_rom := rom, cd_irm_log := log, cd_card := crd, cd_device := dev\<rparr>) fs = cdev_ok w fs"
  by (rule cdev_ok_cong) simp

lemma cdev_step_ok: "cdev_step True crc s s' \<Longrightarrow> cdev_ok (fst s) (snd s) \<Longrightarrow> cdev_ok (fst s') (snd s')"
proof (induction rule: cdev_step.induct)
  case (open_file w c env dev w' fs)
  then show ?case using fw_device_op_open_ok by simp
next
  case (ioctl c fs w env ci co cmd arg r w')
  then show ?case using dispatch_ioctl_ok by simp
next
  case (read_file c fs w intr copy n res w')
  have "core w' = core w" using core_dequeue_event [of intr copy w c n] read_file(3) by simp
  then show ?case using read_file cdev_ok_cong [of w' w fs] by simp
next
  case (mmap_file c fs w ie v err w')
  have "core w' = core w" using core_mmap [of ie w c v] mmap_file(3) by simp
  then show ?case using mmap_file cdev_ok_cong [of w' w fs] by simp
next
  case (close_begin c fs w)
  then show ?case using cdev_ok_cong [OF core_release_begin] by simp
next
  case (close_end c fs w w')
  then show ?case using release_end_ok by simp
next
  case (request w p fs env a w')
  then show ?case using handle_request_ok by simp
next
  case (bus_reset als w d w' fs)
  then show ?case using update_clients_ok by (simp add: fw_device_cdev_update_def)
next
  case (iso_packets c fs w al cycle hdr)
  then show ?case using cdev_ok_cong [OF core_iso_callbacks(1)] by simp
next
  case (iso_buffers c fs w al compl)
  then show ?case using cdev_ok_cong [OF core_iso_callbacks(2)] by simp
next
  case (phy_received w fs als ts dat)
  then show ?case using cdev_ok_cong [OF core_deliver_phy_packet] by (simp add: fw_cdev_handle_phy_packet_def)
qed (simp_all add: complete_transaction_ok outbound_phy_packet_callback_ok auto_work_start_ok auto_work_manage_ok auto_work_decide_ok
  iso_resource_once_work_ok world_ok)

text \<open>No file is open, and nothing is on its way.\<close>

definition cdev_idle :: "cdev \<Rightarrow> bool" where
  "cdev_idle w \<longleftrightarrow> (\<forall>c. kref_of w c = 0 \<and> the_xa w c = []) \<and> cd_auto w = Map.empty \<and> cd_once w = Map.empty \<and> cd_phy_out w = Map.empty \<and>
     cd_outbound w = Map.empty"

lemma cdev_idle_ok:
  assumes "cdev_idle w"
  shows "cdev_ok w {}"
proof -
  have "\<not> holds w {} c x" for c x using assms by (cases x) (simp_all add: holds_def cdev_idle_def xa_load_def)
  then have "holders w {} c = {}" for c by (simp add: holders_def)
  then have "refs_ok w {}" by (simp add: refs_ok_def)
  moreover have "objects_ok w" using assms by (simp add: objects_ok_def cdev_idle_def xa_load_def xa_ok_def)
  ultimately show ?thesis by (simp add: cdev_ok_def)
qed

lemma cdev_steps_ok:
  assumes "cdev_idle v" "(cdev_step True crc)\<^sup>*\<^sup>* (v, {}) (w, fs)"
  shows "cdev_ok w fs"
proof -
  have "cdev_ok (fst s) (snd s)" if "(cdev_step True crc)\<^sup>*\<^sup>* (v, {}) s" for s
    using that by (induction rule: rtranclp_induct) (simp_all add: cdev_idle_ok [OF assms(1)] cdev_step_ok)
  from this [OF assms(2)] show ?thesis by simp
qed


end
