(* ===== verification/Cdev_Races.thy ===== *)
theory Cdev_Races
  imports Cdev_Refs
begin

text \<open>
  Where the work items of isochronous resources go wrong.  Each run is executed step by step: a client that is freed while its file
  is open, and an event that is used a second time.
\<close>

section \<open>A client that is freed while its file is open\<close>

text \<open>An isochronous resource is deallocated while its allocation is under way; a transaction gets its handle; after a bus reset the work
  item, which has forgotten the deallocation, fails and removes the transaction.\<close>

definition irm_grants :: irm where "irm_grants h offset old new = (RCODE_COMPLETE, old)"
definition irm_fails :: irm where "irm_fails h offset old new = (RCODE_SEND_ERROR, 0)"

definition iso_arg :: iso_resource_arg where "iso_arg = \<lparr>ir_closure = 0, ir_channels = 0, ir_bandwidth = 100\<rparr>"
definition read_arg :: send_request_arg where
  "read_arg = \<lparr>sr_tcode = TCODE_READ_QUADLET_REQUEST, sr_length = 4, sr_offset = 0xfffff0000400, sr_closure = 0, sr_data = 0, sr_generation = 1\<rparr>"

definition any_cmd :: ioctl_cmd where "any_cmd = \<lparr>ioc_type = 0x23, ioc_size = 40, ioc_write = True, ioc_read = True\<rparr>"

definition stale1 :: cdev where "stale1 = snd (fw_device_op_open file_env example_cdev (Some 0) 5)"
definition do_ioctl :: "nat \<Rightarrow> cdev \<Rightarrow> ioctl_arg \<Rightarrow> cdev" where
  "do_ioctl p w arg = snd (the (dispatch_ioctl (\<lambda>c b. c) (file_env\<lparr>en_ptr := p\<rparr>) True True w 5 any_cmd (Some arg)))"
definition stale2 :: cdev where "stale2 = do_ioctl 1 stale1 (Io_allocate_iso_resource iso_arg)"
definition stale3 :: cdev where "stale3 = auto_work_start (file_env\<lparr>en_jiffies := 2000\<rparr>) stale2 1"
definition stale4 :: cdev where "stale4 = do_ioctl 2 stale3 (Io_deallocate_iso_resource 1)"
definition stale5 :: cdev where "stale5 = auto_work_manage irm_grants stale4 1"
definition stale6 :: cdev where "stale6 = the (auto_work_decide stale5 1)"
definition stale7 :: cdev where "stale7 = do_ioctl 2 stale6 (Io_send_request read_arg)"
definition stale8 :: cdev where "stale8 = stale7\<lparr>cd_device := (\<lambda>d. (cd_device stale7 d)\<lparr>dev_generation := 2\<rparr>)\<rparr>"
definition stale9 :: cdev where "stale9 = auto_work_manage irm_fails (auto_work_start (file_env\<lparr>en_jiffies := 2000\<rparr>) stale8 1) 1"
definition stale10 :: cdev where "stale10 = the (auto_work_decide (the (auto_work_decide stale9 1)) 1)"
definition stale11 :: cdev where "stale11 = complete_transaction stale10 RCODE_COMPLETE 0 0 [0, 0, 0, 0] 2"

lemma do_ioctl_step:
  assumes "\<not> c_in_shutdown (cd_client w 5)" "fresh_ptr w p" "5 \<in> fs"
    and "\<not> Option.is_none (dispatch_ioctl (\<lambda>c b. c) (file_env\<lparr>en_ptr := p\<rparr>) True True w 5 any_cmd (Some arg))"
  shows "cdev_step own (\<lambda>c b. c) (w, fs) (do_ioctl p w arg, fs)"
proof -
  obtain r v where d: "dispatch_ioctl (\<lambda>c b. c) (file_env\<lparr>en_ptr := p\<rparr>) True True w 5 any_cmd (Some arg) = Some (r, v)"
    using assms(4) by (auto simp: Option.is_none_def)
  show ?thesis unfolding do_ioctl_def d option.sel snd_conv by (rule cdev_step.ioctl [OF assms(3,1) _ d]) (use assms(2) in simp)
qed

lemma decide_step:
  assumes "\<not> Option.is_none (auto_work_decide w r)"
  shows "cdev_step False crc (w, fs) (the (auto_work_decide w r), fs)"
  by (rule cdev_step.work_decides) (use assms in \<open>auto simp: Option.is_none_def\<close>)

lemma start_step:
  assumes "case cd_auto w r of None \<Rightarrow> False | Some a \<Rightarrow> a_pending a \<and> (case a_run a of Auto_idle \<Rightarrow> True | _ \<Rightarrow> False)"
  shows "cdev_step own crc (w, fs) (auto_work_start env w r, fs)"
  using assms by (auto intro!: cdev_step.work_starts split: option.splits auto_run.splits)

lemma stale_steps:
  "cdev_step own (\<lambda>c b. c) (example_cdev, {}) (stale1, {5})"
  "cdev_step own (\<lambda>c b. c) (stale1, {5}) (stale2, {5})"
  "cdev_step own (\<lambda>c b. c) (stale2, {5}) (stale3, {5})"
  "cdev_step own (\<lambda>c b. c) (stale3, {5}) (stale4, {5})"
  "cdev_step own (\<lambda>c b. c) (stale4, {5}) (stale5, {5})"
  "cdev_step False (\<lambda>c b. c) (stale5, {5}) (stale6, {5})"
  "cdev_step own (\<lambda>c b. c) (stale6, {5}) (stale7, {5})"
  "cdev_step own (\<lambda>c b. c) (stale7, {5}) (stale8, {5})"
proof -
  show "cdev_step own (\<lambda>c b. c) (example_cdev, {}) (stale1, {5})" unfolding stale1_def
    by (rule cdev_step.open_file [where env = file_env and dev = "Some 0"]) (simp_all add: example_cdev_def no_client_def fw_device_op_open_def file_env_def)
  show "cdev_step own (\<lambda>c b. c) (stale1, {5}) (stale2, {5})" unfolding stale2_def
    by (rule do_ioctl_step) code_simp+
  show "cdev_step own (\<lambda>c b. c) (stale2, {5}) (stale3, {5})" unfolding stale3_def
    by (rule start_step) code_simp
  show "cdev_step own (\<lambda>c b. c) (stale3, {5}) (stale4, {5})" unfolding stale4_def
    by (rule do_ioctl_step) code_simp+
  show "cdev_step own (\<lambda>c b. c) (stale4, {5}) (stale5, {5})" unfolding stale5_def by (rule cdev_step.work_manages)
  show "cdev_step False (\<lambda>c b. c) (stale5, {5}) (stale6, {5})" unfolding stale6_def by (rule decide_step) code_simp
  show "cdev_step own (\<lambda>c b. c) (stale6, {5}) (stale7, {5})" unfolding stale7_def
    by (rule do_ioctl_step) code_simp+
  have "stale8 = stale7\<lparr>cd_rq := cd_rq stale7, cd_rom := cd_rom stale7, cd_irm_log := cd_irm_log stale7, cd_card := cd_card stale7,
      cd_device := (\<lambda>d. (cd_device stale7 d)\<lparr>dev_generation := 2\<rparr>)\<rparr>"
    by (simp add: stale8_def)
  then show "cdev_step own (\<lambda>c b. c) (stale7, {5}) (stale8, {5})" by (metis cdev_step.world)
qed

lemma stale_steps2: "(cdev_step False (\<lambda>c b. c))\<^sup>*\<^sup>* (stale8, {5}) (stale11, {5})"
proof -
  let ?step = "cdev_step False (\<lambda>c b. c)"
  let ?v = "auto_work_start (file_env\<lparr>en_jiffies := 2000\<rparr>) stale8 1" and ?u = "the (auto_work_decide stale9 1)"
  have "?step (stale8, {5}) (?v, {5})" by (rule start_step) code_simp
  moreover have "?step (?v, {5}) (stale9, {5})" unfolding stale9_def by (rule cdev_step.work_manages)
  moreover have "?step (stale9, {5}) (?u, {5})" by (rule decide_step) code_simp
  moreover have "?step (?u, {5}) (stale10, {5})" unfolding stale10_def by (rule decide_step) code_simp
  moreover have "?step (stale10, {5}) (stale11, {5})" unfolding stale11_def by (rule cdev_step.response)
  ultimately show ?thesis by (meson converse_rtranclp_into_rtranclp rtranclp.rtrancl_refl)
qed

lemma released_iff: "Call_client_released c \<in> set log \<longleftrightarrow> list_ex (\<lambda>e. case e of Call_client_released d \<Rightarrow> d = c | _ \<Rightarrow> False) log"
  by (induction log) (auto split: cdev_call.splits)

text \<open>C32. A client can be freed while its file is open: the work item of an isochronous resource writes the state back over a deallocation that
  was requested while it ran, runs again after a bus reset, fails, and removes what is behind its old handle by then, a pending
  transaction.  The reference of the transaction is dropped twice, the count becomes zero and the client is released.\<close>

theorem client_freed_while_open:
  "\<exists>w. (cdev_step False (\<lambda>c b. c))\<^sup>*\<^sup>* (example_cdev, {}) (w, {5}) \<and> c_kref (cd_client w 5) = 0 \<and> Call_client_released 5 \<in> set (cd_log w)"
proof (intro exI conjI)
  let ?step = "cdev_step False (\<lambda>c b. c)"
  have "?step\<^sup>*\<^sup>* (example_cdev, {}) (stale8, {5})"
    using stale_steps(1-5,7,8) [where own = False] stale_steps(6) by (meson converse_rtranclp_into_rtranclp rtranclp.rtrancl_refl)
  then show "?step\<^sup>*\<^sup>* (example_cdev, {}) (stale11, {5})" using stale_steps2 by (rule rtranclp_trans)
  show "kref_of stale11 5 = 0" by code_simp
  show "Call_client_released 5 \<in> set (cd_log stale11)" unfolding released_iff by code_simp
qed

lemma kref_stale4: "kref_of stale4 5 = 3"
  by code_simp


section \<open>An event that is used twice\<close>

text \<open>An allocated resource is deallocated while its reallocation after a bus reset is under way.  The reallocation fails and reports with
  the event of the deallocation; the deallocation finds it gone.\<close>

definition twice1 :: cdev where
  "twice1 = the (auto_work_decide (auto_work_manage irm_grants (auto_work_start (file_env\<lparr>en_jiffies := 2000\<rparr>) stale2 1) 1) 1)"
definition twice2 :: cdev where "twice2 = twice1\<lparr>cd_device := (\<lambda>d. (cd_device twice1 d)\<lparr>dev_generation := 2, dev_client_list := [5]\<rparr>)\<rparr>"
definition twice3 :: cdev where "twice3 = the (fw_device_cdev_update (\<lambda>c. True) twice2 0)"
definition twice4 :: cdev where "twice4 = do_ioctl 2 (auto_work_start (file_env\<lparr>en_jiffies := 2000\<rparr>) twice3 1) (Io_deallocate_iso_resource 1)"
definition twice5 :: cdev where "twice5 = the (auto_work_decide (the (auto_work_decide (auto_work_manage irm_fails twice4 1) 1)) 1)"
definition twice6 :: cdev where "twice6 = auto_work_manage irm_grants (auto_work_start (file_env\<lparr>en_jiffies := 2000\<rparr>) twice5 1) 1"

lemma decide_own_step:
  assumes "\<not> Option.is_none (auto_work_decide w r)" "\<not> takes_other w r"
  shows "cdev_step True crc (w, fs) (the (auto_work_decide w r), fs)"
  by (rule cdev_step.work_decides) (use assms in \<open>auto simp: Option.is_none_def\<close>)

lemma twice_steps:
  "(cdev_step True (\<lambda>c b. c))\<^sup>*\<^sup>* (stale2, {5}) (twice3, {5})"
  "(cdev_step True (\<lambda>c b. c))\<^sup>*\<^sup>* (twice3, {5}) (twice6, {5})"
proof -
  let ?step = "cdev_step True (\<lambda>c b. c)" and ?env = "file_env\<lparr>en_jiffies := 2000\<rparr>"
  let ?u = "auto_work_start ?env stale2 1"
  have "?step (stale2, {5}) (?u, {5})" by (rule start_step) code_simp
  moreover have "?step (?u, {5}) (auto_work_manage irm_grants ?u 1, {5})" by (rule cdev_step.work_manages)
  moreover have "?step (auto_work_manage irm_grants ?u 1, {5}) (twice1, {5})" unfolding twice1_def by (rule decide_own_step) code_simp+
  moreover have "twice2 = twice1\<lparr>cd_rq := cd_rq twice1, cd_rom := cd_rom twice1, cd_irm_log := cd_irm_log twice1, cd_card := cd_card twice1,
      cd_device := (\<lambda>d. (cd_device twice1 d)\<lparr>dev_generation := 2, dev_client_list := [5]\<rparr>)\<rparr>"
    by (simp add: twice2_def)
  then have "?step (twice1, {5}) (twice2, {5})" by (metis cdev_step.world)
  moreover have "\<not> Option.is_none (fw_device_cdev_update (\<lambda>c. True) twice2 0)" by code_simp
  then have "?step (twice2, {5}) (twice3, {5})"
    unfolding twice3_def by (intro cdev_step.bus_reset [where als = "\<lambda>c. True" and d = 0]) (auto simp: Option.is_none_def)
  ultimately show "?step\<^sup>*\<^sup>* (stale2, {5}) (twice3, {5})" by (meson converse_rtranclp_into_rtranclp rtranclp.rtrancl_refl)
  let ?x = "auto_work_start ?env twice3 1" and ?y = "auto_work_manage irm_fails twice4 1"
  have "?step (twice3, {5}) (?x, {5})" by (rule start_step) code_simp
  moreover have "?step (?x, {5}) (twice4, {5})" unfolding twice4_def by (rule do_ioctl_step) code_simp+
  moreover have "?step (twice4, {5}) (?y, {5})" by (rule cdev_step.work_manages)
  moreover have "?step (?y, {5}) (the (auto_work_decide ?y 1), {5})" by (rule decide_own_step) code_simp+
  moreover have "?step (the (auto_work_decide ?y 1), {5}) (twice5, {5})" unfolding twice5_def by (rule decide_own_step) code_simp+
  moreover have "?step (twice5, {5}) (auto_work_start ?env twice5 1, {5})" by (rule start_step) code_simp
  moreover have "?step (auto_work_start ?env twice5 1, {5}) (twice6, {5})" unfolding twice6_def by (rule cdev_step.work_manages)
  ultimately show "?step\<^sup>*\<^sup>* (twice3, {5}) (twice6, {5})" by (meson converse_rtranclp_into_rtranclp rtranclp.rtrancl_refl)
qed

text \<open>C33. The work item of an isochronous resource can use a null pointer: a reallocation that fails while the resource is being deallocated reports
  with the event that was set aside for the deallocation and leaves the resource to the pending work item, which then has no event left.\<close>

theorem deallocation_event_used_twice:
  "\<exists>w. (cdev_step True (\<lambda>c b. c))\<^sup>*\<^sup>* (example_cdev, {}) (w, {5}) \<and> auto_work_decide w 1 = None"
proof (intro exI conjI)
  let ?step = "cdev_step True (\<lambda>c b. c)"
  have "?step\<^sup>*\<^sup>* (example_cdev, {}) (stale2, {5})"
    using stale_steps(1,2) [where own = True] by (meson converse_rtranclp_into_rtranclp rtranclp.rtrancl_refl)
  then show "?step\<^sup>*\<^sup>* (example_cdev, {}) (twice6, {5})" using twice_steps by (meson rtranclp_trans)
  have "Option.is_none (auto_work_decide twice6 1)" by code_simp
  then show "auto_work_decide twice6 1 = None" by (simp add: Option.is_none_def)
qed

end
