(* ===== verification/Cdev_Clients.thy ===== *)
theory Cdev_Clients
  imports Cdev_Races
begin

text \<open>
  What a client of the character device gets: inbound requests that it answers, an answer that comes too early, and isochronous packets that are
  queued from user memory.
\<close>

section \<open>Requests answered by a client\<close>

lemma request_eventE:
  assumes "cd_closures w p = (cl, c)" "\<not> is_in_fcp_region (ib_offset a) (of_nat (ib_length a))" "en_alloc env" "en_alloc2 env" "en_xa env = None"
    and "\<not> c_in_shutdown (cd_client w c)"
  obtains v h xa e where "handle_request env w p a = Some v"
    "xa_alloc (Inbound_transaction \<lparr>in_request = ib_request a, in_is_fcp = False, in_length = ib_length a\<rparr>) (the_xa w c) = (h, xa)"
    "ev_body e = fst (request_event (c_version (cd_client w c)) (card_index (cd_card w)) cl h (rq_timestamp (requests (cd_rq w) ! ib_request a)) a)"
    "ev_data1 e = Request_data (ib_request a)" "ev_size1 e = ib_length a"
    "ev_size0 e = snd (request_event (c_version (cd_client w c)) (card_index (cd_card w)) cl h (rq_timestamp (requests (cd_rq w) ! ib_request a)) a)"
    "cd_client v c = (cd_client w c)\<lparr>c_resource_xa := xa, c_kref := c_kref (cd_client w c) + 1, c_event_list := c_event_list (cd_client w c) @ [e]\<rparr>"
    "cd_rq v = cd_rq w" "cd_card_refs v = cd_card_refs w + 1" "cd_device v = cd_device w"
proof -
  let ?r = "Inbound_transaction \<lparr>in_request = ib_request a, in_is_fcp = False, in_length = ib_length a\<rparr>"
  obtain h xa where x: "xa_alloc ?r (the_xa w c) = (h, xa)" by fastforce
  obtain b n where e: "request_event (c_version (cd_client w c)) (card_index (cd_card w)) cl h (rq_timestamp (requests (cd_rq w) ! ib_request a)) a = (b, n)"
    by fastforce
  let ?e = "\<lparr>ev_body = b, ev_size0 = n, ev_data1 = Request_data (ib_request a), ev_size1 = ib_length a\<rparr>"
  let ?u = "client_get (cd_upd (cd_card_get w) c (\<lambda>x. x\<lparr>c_resource_xa := xa\<rparr>)) c"
  have "add_client_resource env (cd_card_get w) c ?r = (Inr h, ?u)"
    using assms(5,6) x by (simp add: add_client_resource_def cd_card_get_def)
  moreover have "cd_client ?u c = (cd_client w c)\<lparr>c_resource_xa := xa, c_kref := c_kref (cd_client w c) + 1\<rparr>" "cd_rq ?u = cd_rq w"
    "cd_card ?u = cd_card w" "cd_card_refs ?u = cd_card_refs w + 1" "cd_device ?u = cd_device w"
    by (simp_all add: cd_card_get_def client_get_def cd_upd_def)
  moreover have "handle_request env w p a = Some (queue_event ?u c ?e)"
    using assms(1-4) calculation e by (simp add: handle_request_def Let_def)
  ultimately show ?thesis
    using that [of "queue_event ?u c ?e" h xa ?e] x e assms(6) by (simp add: queue_event_def cd_upd_def)
qed


definition asked_cdev :: cdev where
  "asked_cdev = stale1\<lparr>cd_rq := (cd_rq stale1)\<lparr>requests := [\<lparr>rq_kref = 1, rq_response = t_packet idle_transaction,
     rq_header = p_header example_request_packet, rq_ack = ACK_PENDING, rq_timestamp = 0, rq_length = 4, rq_data = [0, 0, 0, 0]\<rparr>]\<rparr>,
     cd_closures := (\<lambda>p. (7, 5))\<rparr>"

definition read_request :: inbound_arg where
  "read_request = \<lparr>ib_request = 0, ib_tcode = TCODE_READ_QUADLET_REQUEST, ib_destination = 0xffc1, ib_source = 0xffc0, ib_generation = 1,
     ib_offset = 0x1000, ib_length = 4\<rparr>"

lemma asked_facts:
  "cd_client asked_cdev 5 = no_client\<lparr>c_kref := 1\<rparr>" "cd_closures asked_cdev 3 = (7, 5)"
  "requests (cd_rq asked_cdev) = [\<lparr>rq_kref = 1, rq_response = t_packet idle_transaction, rq_header = p_header example_request_packet,
     rq_ack = ACK_PENDING, rq_timestamp = 0, rq_length = 4, rq_data = [0, 0, 0, 0]\<rparr>]"
  "\<not> is_in_fcp_region (ib_offset read_request) (of_nat (ib_length read_request))" "rq_log (cd_rq asked_cdev) = []"
  by (simp_all add: asked_cdev_def stale1_def fw_device_op_open_def file_env_def example_cdev_def no_client_def read_request_def is_in_fcp_region_def)


section \<open>An answer that comes too early\<close>

text \<open>C35. The event of a request refers to the data of the request, which is freed by the answer: if a client answers before it has read the
  event, with a wrong length or to a request that needs no response packet, the next read copies freed memory to user space.  The handles
  are numbers that the client can guess.\<close>

theorem early_answer_frees_event_data:
  assumes "cd_closures w p = (cl, c)" "\<not> is_in_fcp_region (ib_offset a) (of_nat (ib_length a))" "en_alloc env" "en_alloc2 env" "en_xa env = None"
    and "\<not> c_in_shutdown (cd_client w c)" "xa_ok (c_resource_xa (cd_client w c))" "0 < c_kref (cd_client w c)" "c_event_list (cd_client w c) = []"
    and "ib_request a < length (requests (cd_rq w))" "rq_kref (requests (cd_rq w) ! ib_request a) = 1" "0 < ib_length a"
    and "len \<noteq> fw_get_response_length (rq_header (requests (cd_rq w) ! ib_request a)) \<or> \<not> needs_response (requests (cd_rq w) ! ib_request a)"
    and "en_copy env' \<noteq> None" "\<And>i. copy_ok i"
  shows "\<exists>v h u res e m k. handle_request env w p a = Some v \<and>
    ioctl_send_response env' v c \<lparr>sp_rcode = rcode, sp_length = len, sp_handle = h\<rparr> = Some (res, u) \<and>
    fst (dequeue_event False copy_ok u c (ev_size0 e + ev_size1 e)) = Read_bytes e m k True \<and> ev_data1 e = Request_data (ib_request a)"
proof -
  let ?q = "ib_request a" and ?r = "Inbound_transaction \<lparr>in_request = ib_request a, in_is_fcp = False, in_length = ib_length a\<rparr>"
  obtain v h xa e where v: "handle_request env w p a = Some v" "xa_alloc ?r (the_xa w c) = (h, xa)"
    "ev_data1 e = Request_data ?q" "ev_size1 e = ib_length a"
    "cd_client v c = (cd_client w c)\<lparr>c_resource_xa := xa, c_kref := c_kref (cd_client w c) + 1, c_event_list := c_event_list (cd_client w c) @ [e]\<rparr>"
    "cd_rq v = cd_rq w" "cd_card_refs v = cd_card_refs w + 1"
    using request_eventE [OF assms(1-6)] by metis
  have h: "xa_load xa h = Some ?r" using handles.load_alloc [OF assms(7), of ?r] v(2) by simp
  let ?t = "client_put (cd_upd v c (\<lambda>x. x\<lparr>c_resource_xa := xa_erase h (c_resource_xa x)\<rparr>)) c"
  have take: "take_client_resource v c h Release_request = Some (?r, cd_upd v c (\<lambda>x. x\<lparr>c_resource_xa := xa_erase h (c_resource_xa x)\<rparr>))"
    using h v(5) assms(6) by (simp add: take_client_resource_def)
  have live: "rq_live (cd_rq w) ?q" using assms(10,11) by (simp add: rq_live_def)
  have dead: "\<not> rq_live (fw_request_put rq ?q) ?q" if "rq_kref (requests rq ! ?q) = 1" for rq
    using that by (auto simp: rq_live_def fw_request_put_def rq_upd_def nth_list_update)
  have t: "cd_rq ?t = cd_rq w" "c_event_list (cd_client ?t c) = [e]" using v(5,6) assms(9) by (simp_all add: cd_upd_def)
  obtain res u where u: "ioctl_send_response env' v c \<lparr>sp_rcode = rcode, sp_length = len, sp_handle = h\<rparr> = Some (res, u)"
    "\<not> rq_live (cd_rq u) ?q" "c_event_list (cd_client u c) = [e]"
  proof (cases "len = fw_get_response_length (rq_header (requests (cd_rq w) ! ?q))")
    case False
    let ?u = "cd_card_put (?t\<lparr>cd_rq := fw_request_put (cd_rq w) ?q\<rparr>)"
    have "ioctl_send_response env' v c \<lparr>sp_rcode = rcode, sp_length = len, sp_handle = h\<rparr> = Some (Inl EINVAL, ?u)"
      using False live take t by (simp add: ioctl_send_response_def Let_def cd_request_put_def)
    then show ?thesis using that dead [OF assms(11)] t(2) by (simp add: cd_card_put_def)
  next
    case True
    then have nr: "\<not> needs_response (requests (cd_rq w) ! ?q)" using assms(13) by simp
    obtain dat where dat: "en_copy env' = Some dat" using assms(14) by blast
    let ?rq = "rq_store (cd_rq w) ?q dat"
    have k: "rq_kref (requests ?rq ! ?q) = 1" "rq_live ?rq ?q" "\<not> needs_response (requests ?rq ! ?q)"
      using assms(10,11) nr by (simp_all add: rq_store_def rq_upd_def rq_live_def needs_response_def)
    have s: "fw_send_response ?rq ?q rcode = Some (fw_request_put ?rq ?q)"
      using k by (simp add: fw_send_response_def needs_response_def Let_def)
    let ?u = "cd_card_put (?t\<lparr>cd_rq := fw_request_put ?rq ?q\<rparr>)"
    have "ioctl_send_response env' v c \<lparr>sp_rcode = rcode, sp_length = len, sp_handle = h\<rparr> = Some (Inr 0, ?u)"
      using True live take t dat s by (simp add: ioctl_send_response_def Let_def cd_send_response_def)
    then show ?thesis using that dead [OF k(1)] t(2) by (simp add: cd_card_put_def)
  qed
  have "fst (dequeue_event False copy_ok u c (ev_size0 e + ev_size1 e)) = Read_bytes e [ev_size0 e, ev_size1 e] (ev_size0 e + ev_size1 e) True"
    using u(2,3) assms(12,15) v(3,4) by (simp add: dequeue_event_def Let_def data_alive_def)
  then show ?thesis using v(1,3) u(1) by blast
qed

theorem early_answer_frees_event_data_witness:
  "\<exists>v h u res e m k. handle_request file_env asked_cdev 3 read_request = Some v \<and>
    ioctl_send_response file_env v 5 \<lparr>sp_rcode = RCODE_COMPLETE, sp_length = 0, sp_handle = h\<rparr> = Some (res, u) \<and>
    fst (dequeue_event False (\<lambda>i. True) u 5 (ev_size0 e + ev_size1 e)) = Read_bytes e m k True"
proof -
  have l: "0 \<noteq> fw_get_response_length (rq_header (requests (cd_rq asked_cdev) ! ib_request read_request)) \<or>
      \<not> needs_response (requests (cd_rq asked_cdev) ! ib_request read_request)"
    by (simp add: asked_facts read_request_def) code_simp
  have r: "ib_request read_request < length (requests (cd_rq asked_cdev))" "rq_kref (requests (cd_rq asked_cdev) ! ib_request read_request) = 1"
    "0 < ib_length read_request"
    by (simp_all add: asked_facts read_request_def)
  have e: "en_alloc file_env" "en_alloc2 file_env" "en_xa file_env = None" "en_copy file_env \<noteq> None" by (simp_all add: file_env_def)
  have c: "\<not> c_in_shutdown (cd_client asked_cdev 5)" "xa_ok (the_xa asked_cdev 5)" "0 < kref_of asked_cdev 5" "c_event_list (cd_client asked_cdev 5) = []"
    by (simp_all add: asked_facts no_client_def xa_ok_def)
  from early_answer_frees_event_data [OF asked_facts(2,4) e(1-3) c r l e(4) TrueI, where rcode = RCODE_COMPLETE]
  obtain v h u res e m k where 1: "handle_request file_env asked_cdev 3 read_request = Some v"
    "ioctl_send_response file_env v 5 \<lparr>sp_rcode = RCODE_COMPLETE, sp_length = 0, sp_handle = h\<rparr> = Some (res, u)"
    "fst (dequeue_event False (\<lambda>i. True) u 5 (ev_size0 e + ev_size1 e)) = Read_bytes e m k True" "ev_data1 e = Request_data (ib_request read_request)"
    by (elim exE conjE) (use e in blast)
  show ?thesis using 1(1-3) by blast
qed

section \<open>Packets from user memory\<close>

text \<open>The payloads lie one behind the other from \<open>a\<close> to \<open>b\<close>.\<close>

fun payloads_from :: "nat \<Rightarrow> (fw_iso_packet \<times> nat) list \<Rightarrow> nat \<Rightarrow> bool" where
  "payloads_from a [] b \<longleftrightarrow> b = a"
| "payloads_from a ((u, p) # ps) b \<longleftrightarrow> p = a \<and> payloads_from (a + payload_length u) ps b"

definition packet_fits :: "iso_context \<Rightarrow> nat \<Rightarrow> fw_iso_packet \<times> nat \<Rightarrow> bool" where
  "packet_fits ctx buffer_end = (\<lambda>(u, p). p + payload_length u \<le> buffer_end \<and> iso_packet_ok ctx u \<and>
     (ic_type ctx = FW_ISO_CONTEXT_TRANSMIT \<longrightarrow> 4 * length (pk_header u) = header_length u))"

lemma copy_quadlets_length: "copy_quadlets user p n = Some qs \<Longrightarrow> length qs = n"
  by (auto simp: copy_quadlets_def split: if_splits)

lemma queue_iso_loop_fits:
  assumes "queue_iso_loop user drv ctx pend buffer_end p payload queued = (err, p', payload', queued')" "p \<le> pend"
  shows "\<exists>ps. queued' = queued @ ps \<and> payloads_from payload ps payload' \<and> list_all (packet_fits ctx buffer_end) ps \<and>
    p + 4 * length ps \<le> p' \<and> p' \<le> pend"
  using assms
proof (induction user drv ctx pend buffer_end p payload queued rule: queue_iso_loop.induct)
  case (1 user drv ctx pend buffer_end p payload queued)
  note eq = "1.prems"(1) [unfolded queue_iso_loop.simps [of user drv ctx pend buffer_end p payload queued]]
  show ?case
  proof (cases "p \<ge> pend \<or> user p = None")
    case True
    then show ?thesis using eq "1.prems"(2) by (auto split: if_splits)
  next
    case False
    then obtain control where p: "\<not> p \<ge> pend" "user p = Some control" by auto
    define n where "n = (if ic_type ctx = FW_ISO_CONTEXT_TRANSMIT then header_length (decode_control control) else 0)"
    define nxt where "nxt = p + 4 + 4 * (n div 4)"
    show ?thesis
    proof (cases "\<not> iso_packet_ok ctx (decode_control control) \<or> nxt > pend")
      case True
      then show ?thesis using eq "1.prems"(2) p by (auto simp: Let_def n_def nxt_def)
    next
      case ok: False
      show ?thesis
      proof (cases "copy_quadlets user (p + 4) (n div 4)")
        case None
        then show ?thesis using eq "1.prems"(2) p ok by (auto simp: Let_def n_def nxt_def)
      next
        case (Some hdr)
        define u where "u = (decode_control control)\<lparr>pk_header := hdr\<rparr>"
        have u: "payload_length (decode_control control) = payload_length u" "header_length (decode_control control) = header_length u"
          "pk_skip (decode_control control) = pk_skip u" "iso_packet_ok ctx u = iso_packet_ok ctx (decode_control control)"
          by (simp_all add: u_def iso_packet_ok_def split: iso_context_type.split)
        let ?bad = "pk_skip u \<and> ic_type ctx = FW_ISO_CONTEXT_TRANSMIT \<and> header_length u + payload_length u > 0 \<or> payload + payload_length u > buffer_end"
        have body: "(if ?bad then (Some EINVAL, p, payload, queued) else if \<not> drv queued then (None, p, payload, queued)
            else queue_iso_loop user drv ctx pend buffer_end nxt (payload + payload_length u) (queued @ [(u, payload)])) = (err, p', payload', queued')"
          using eq p ok Some by (simp add: Let_def n_def nxt_def u_def cong: if_cong)
        show ?thesis
        proof (cases "?bad \<or> \<not> drv queued")
          case True
          then show ?thesis using body "1.prems"(2) by (auto split: if_splits)
        next
          case False
          then have rest: "queue_iso_loop user drv ctx pend buffer_end nxt (payload + payload_length u) (queued @ [(u, payload)]) = (err, p', payload', queued')"
            using body by auto
          have le: "nxt \<le> pend" using ok by simp
          have nbad: "\<not> ?bad" "\<not> \<not> drv queued" using False by blast+
          have "\<exists>ps. queued' = (queued @ [(u, payload)]) @ ps \<and> payloads_from (payload + payload_length u) ps payload' \<and>
              list_all (packet_fits ctx buffer_end) ps \<and> nxt + 4 * length ps \<le> p' \<and> p' \<le> pend"
            using "1.IH" [OF p refl refl refl ok [unfolded n_def nxt_def] Some [unfolded n_def] refl] nbad rest le
            by (auto simp: n_def nxt_def u_def)
          then obtain ps where ps: "queued' = queued @ (u, payload) # ps" "payloads_from (payload + payload_length u) ps payload'"
            "list_all (packet_fits ctx buffer_end) ps" "nxt + 4 * length ps \<le> p'" "p' \<le> pend" by auto
          have "4 * length (pk_header u) = header_length u" if t: "ic_type ctx = FW_ISO_CONTEXT_TRANSMIT"
          proof -
            have "header_length u mod 4 = 0" using ok t u(4) by (simp add: iso_packet_ok_def u(2))
            moreover have "length hdr = header_length u div 4" using copy_quadlets_length [OF Some] t u(2) by (simp add: n_def)
            ultimately show ?thesis by (simp add: u_def) presburger
          qed
          then have "packet_fits ctx buffer_end (u, payload)" using nbad(1) ok u(4) by (simp add: packet_fits_def)
          then show ?thesis using ps by (intro exI [of _ "(u, payload) # ps"]) (simp add: nxt_def)
        qed
      qed
    qed
  qed
qed

text \<open>C36. Whatever is in user memory, and whether or not the call succeeds, the packets that are queued are well formed for the context, have as
  many header quadlets as they say, are not more than the argument has room for, and their payloads lie inside the mapped buffer, one behind
  the other from the place that the argument names.\<close>

theorem queued_packets_fit:
  assumes "c_iso_context (cd_client w c) = Some ctx" "ioctl_queue_iso user drv w c a = (r, w')"
  shows "\<exists>ps rest. cd_log w' = cd_log w @ map (\<lambda>(u, p). Call_iso_queue c u p) ps @ rest \<and> rest \<in> {[], [Call_iso_flush c]} \<and>
    (\<exists>b. payloads_from (fst (queue_iso_payload (cd_client w c) (qi_data a))) ps b) \<and>
    (\<forall>(u, p) \<in> set ps. p + payload_length u \<le> page_count (c_buffer (cd_client w c)) * 4096 \<and> iso_packet_ok ctx u \<and>
      (ic_type ctx = FW_ISO_CONTEXT_TRANSMIT \<longrightarrow> 4 * length (pk_header u) = header_length u)) \<and>
    4 * length ps \<le> qi_size a"
proof -
  obtain payload buffer_end where pb: "queue_iso_payload (cd_client w c) (qi_data a) = (payload, buffer_end)" by fastforce
  have be: "buffer_end \<le> page_count (c_buffer (cd_client w c)) * 4096"
    using pb by (auto simp: queue_iso_payload_def Let_def split: if_splits)
  show ?thesis
  proof (cases "qi_handle a \<noteq> 0 \<or> ic_type ctx = FW_ISO_CONTEXT_RECEIVE_MULTICHANNEL \<and> payload mod 4 \<noteq> 0")
    case True
    then have "cd_log w' = cd_log w" using assms pb by (auto simp: ioctl_queue_iso_def Let_def split: if_splits)
    then show ?thesis by (intro exI [of _ "[]"]) simp
  next
    case False
    obtain err p' payload' queued where l: "queue_iso_loop user drv ctx (qi_packets a + qi_size a) buffer_end (qi_packets a) payload [] =
        (err, p', payload', queued)"
      by (metis prod.collapse)
    from queue_iso_loop_fits [OF l] have f: "payloads_from payload queued payload'" "list_all (packet_fits ctx buffer_end) queued"
      "4 * length queued \<le> qi_size a" by auto
    have "\<exists>rest \<in> {[], [Call_iso_flush c]}. cd_log w' = cd_log w @ map (\<lambda>(u, p). Call_iso_queue c u p) queued @ rest"
      using assms pb False l by (cases err) (auto simp: ioctl_queue_iso_def cd_emit_def)
    then obtain rest where rest: "rest \<in> {[], [Call_iso_flush c]}" "cd_log w' = cd_log w @ map (\<lambda>(u, p). Call_iso_queue c u p) queued @ rest" by blast
    have "\<forall>(u, p) \<in> set queued. p + payload_length u \<le> page_count (c_buffer (cd_client w c)) * 4096 \<and> iso_packet_ok ctx u \<and>
        (ic_type ctx = FW_ISO_CONTEXT_TRANSMIT \<longrightarrow> 4 * length (pk_header u) = header_length u)"
      using f(2) be by (auto simp: list_all_iff packet_fits_def)
    then show ?thesis using rest f(1,3) pb by (intro exI [of _ queued] exI [of _ rest]) auto
  qed
qed

definition iso_cdev :: cdev where
  "iso_cdev = cd_upd stale1 5 (\<lambda>x. x\<lparr>c_iso_context := Some \<lparr>ic_type = FW_ISO_CONTEXT_TRANSMIT, ic_channel = 1, ic_speed = 2, ic_header_size = 0,
     ic_drop_overflow_headers = True\<rparr>, c_buffer := \<lparr>direction = DMA_TO_DEVICE, pages = Some [1], dma_addrs = Some [0x1000], page_count = 1\<rparr>\<rparr>)"

theorem queued_packets_fit_witness:
  "\<exists>ps rest. cd_log (snd (ioctl_queue_iso (\<lambda>p. Some (of_nat p)) (\<lambda>q. True) iso_cdev 5 \<lparr>qi_packets = 0, qi_data = 0, qi_size = 8, qi_handle = 0\<rparr>)) =
     cd_log iso_cdev @ map (\<lambda>(u, p). Call_iso_queue 5 u p) ps @ rest \<and> 4 * length ps \<le> 8"
proof -
  let ?a = "\<lparr>qi_packets = 0, qi_data = 0, qi_size = 8, qi_handle = 0\<rparr>"
  obtain r w' where q: "ioctl_queue_iso (\<lambda>p. Some (of_nat p)) (\<lambda>q. True) iso_cdev 5 ?a = (r, w')" by fastforce
  have "c_iso_context (cd_client iso_cdev 5) = Some \<lparr>ic_type = FW_ISO_CONTEXT_TRANSMIT, ic_channel = 1, ic_speed = 2, ic_header_size = 0,
     ic_drop_overflow_headers = True\<rparr>" by (simp add: iso_cdev_def)
  from queued_packets_fit [OF this q] show ?thesis unfolding q by (elim exE conjE) auto
qed

end
