(* ===== verification/Device_Rom.thy ===== *)
theory Device_Rom
  imports Address_Handler "HOL-Library.Monad_Syntax"
begin

text \<open>
  The configuration ROM of a remote node as the device layer sees it, after
  \<^verbatim>\<open>drivers/firewire/core-device.c\<close>: the iterator over the entries of a directory and the
  functions built on it (search for directories and textual leaves, identifiers of units, attributes in
  sysfs), and the reader that fetches the ROM quadlet by quadlet over the bus.

  The ROM is the list of quadlets of the buffer \<open>config_rom\<close>; a pointer into it is an index.  Every read
  through a pointer goes through \<open>rom_at\<close>, so that the value \<open>None\<close> of a function means that it has
  read outside of the buffer.
\<close>

section \<open>The iterator\<close>

abbreviation (input) CSR_LEAF :: u32 where "CSR_LEAF \<equiv> 0x80"
abbreviation (input) CSR_DIRECTORY :: u32 where "CSR_DIRECTORY \<equiv> 0xc0"
abbreviation (input) CSR_DESCRIPTOR :: u32 where "CSR_DESCRIPTOR \<equiv> 0x01"
abbreviation (input) CSR_VENDOR :: u32 where "CSR_VENDOR \<equiv> 0x03"
abbreviation (input) CSR_HARDWARE_VERSION :: u32 where "CSR_HARDWARE_VERSION \<equiv> 0x04"
abbreviation (input) CSR_UNIT :: u32 where "CSR_UNIT \<equiv> 0x11"
abbreviation (input) CSR_SPECIFIER_ID :: u32 where "CSR_SPECIFIER_ID \<equiv> 0x12"
abbreviation (input) CSR_VERSION :: u32 where "CSR_VERSION \<equiv> 0x13"
abbreviation (input) CSR_MODEL :: u32 where "CSR_MODEL \<equiv> 0x17"
abbreviation (input) ROOT_DIR_OFFSET :: nat where "ROOT_DIR_OFFSET \<equiv> 5"

type_synonym rom_ptr = nat

definition rom_at :: "u32 list \<Rightarrow> rom_ptr \<Rightarrow> u32 option" where
  "rom_at rom p = (if p < length rom then Some (rom ! p) else None)"

record fw_csr_iterator =
  ci_p :: rom_ptr
  ci_end :: rom_ptr

definition fw_csr_iterator_init :: "u32 list \<Rightarrow> rom_ptr \<Rightarrow> fw_csr_iterator option" where
  "fw_csr_iterator_init rom p =
    do {
      q \<leftarrow> rom_at rom p;
      Some \<lparr>ci_p = p + 1, ci_end = p + 1 + unat (drop_bit 16 q)\<rparr>
    }"

text \<open>The key, the value and whether there was an entry left; the quadlet is read before the test.\<close>

definition fw_csr_iterator_next ::
  "u32 list \<Rightarrow> fw_csr_iterator \<Rightarrow> (fw_csr_iterator \<times> u32 \<times> u32 \<times> bool) option" where
  "fw_csr_iterator_next rom ci =
    do {
      q \<leftarrow> rom_at rom (ci_p ci);
      Some (ci\<lparr>ci_p := ci_p ci + 1\<rparr>, drop_bit 24 q, q AND 0xffffff, ci_p ci < ci_end ci)
    }"

text \<open>The shape of all loops over a directory: the body leaves the loop with \<open>Inl\<close> or goes on with
  \<open>Inr\<close>.\<close>

function csr_walk ::
  "u32 list \<Rightarrow> (fw_csr_iterator \<Rightarrow> u32 \<Rightarrow> u32 \<Rightarrow> 's \<Rightarrow> 'r + 's) \<Rightarrow> fw_csr_iterator \<Rightarrow> 's \<Rightarrow> ('r + 's) option" where
  "csr_walk rom body ci s =
    (case fw_csr_iterator_next rom ci of
       None \<Rightarrow> None
     | Some (ci', key, val, left) \<Rightarrow>
         if left then
           (case body ci' key val s of
              Inl r \<Rightarrow> Some (Inl r)
            | Inr s' \<Rightarrow> csr_walk rom body ci' s')
         else Some (Inr s))"
  by pat_completeness auto
termination
  by (relation "measure (\<lambda>(rom, body, ci, s). ci_end ci - ci_p ci)")
    (auto simp: fw_csr_iterator_next_def bind_eq_Some_conv)

declare csr_walk.simps [simp del]

text \<open>A loop without a way out but its end.\<close>

definition csr_scan ::
  "u32 list \<Rightarrow> (fw_csr_iterator \<Rightarrow> u32 \<Rightarrow> u32 \<Rightarrow> 's \<Rightarrow> 's) \<Rightarrow> rom_ptr \<Rightarrow> 's \<Rightarrow> 's option" where
  "csr_scan rom body directory s =
    do {
      ci \<leftarrow> fw_csr_iterator_init rom directory;
      r \<leftarrow> csr_walk rom (\<lambda>ci key val s. Inr (body ci key val s) :: unit + 's) ci s;
      (case r of Inl _ \<Rightarrow> None | Inr s \<Rightarrow> Some s)
    }"

section \<open>Directories, leaves and strings\<close>

text \<open>The inner option is the pointer that is returned, with \<open>None\<close> for \<open>NULL\<close>.\<close>

definition search_directory :: "u32 list \<Rightarrow> rom_ptr \<Rightarrow> u32 \<Rightarrow> rom_ptr option option" where
  "search_directory rom directory search_key =
    do {
      let search_key = search_key OR CSR_DIRECTORY;
      ci \<leftarrow> fw_csr_iterator_init rom directory;
      r \<leftarrow> csr_walk rom (\<lambda>ci key val _. if key = search_key then Inl (ci_p ci - 1 + unat val) else Inr ()) ci ();
      Some (case r of Inl p \<Rightarrow> Some p | Inr _ \<Rightarrow> None)
    }"

definition search_leaf :: "u32 list \<Rightarrow> rom_ptr \<Rightarrow> u32 \<Rightarrow> rom_ptr option option" where
  "search_leaf rom directory search_key =
    do {
      ci \<leftarrow> fw_csr_iterator_init rom directory;
      r \<leftarrow> csr_walk rom (\<lambda>ci key val last_key.
             if last_key = search_key \<and> key = (CSR_DESCRIPTOR OR CSR_LEAF)
             then Inl (ci_p ci - 1 + unat val) else Inr key) ci 0;
      Some (case r of Inl p \<Rightarrow> Some p | Inr _ \<Rightarrow> None)
    }"

text \<open>A buffer for characters is the list of the bytes it holds; to write behind its end is \<open>None\<close>
  again.\<close>

definition buf_put :: "string \<Rightarrow> nat \<Rightarrow> char \<Rightarrow> string option" where
  "buf_put buf i c = (if i < length buf then Some (buf[i := c]) else None)"

function textual_leaf_copy ::
  "u32 list \<Rightarrow> rom_ptr \<Rightarrow> nat \<Rightarrow> nat \<Rightarrow> nat \<Rightarrow> string \<Rightarrow> (nat \<times> string) option" where
  "textual_leaf_copy rom block quadlets size' i buf =
    (if i < quadlets * 4 \<and> i < size' - 1 then
       (case rom_at rom (block + i div 4) of
          None \<Rightarrow> None
        | Some q \<Rightarrow>
            let c = char_of (unat (drop_bit (24 - 8 * (i mod 4)) q AND 0xff)) in
            if c = CHR 0x00 then Some (i, buf)
            else (case buf_put buf i c of
                    None \<Rightarrow> None
                  | Some buf \<Rightarrow> textual_leaf_copy rom block quadlets size' (i + 1) buf))
     else Some (i, buf))"
  by pat_completeness auto
termination
  by (relation "measure (\<lambda>(rom, block, quadlets, sz, i, buf). quadlets * 4 - i)") auto

declare textual_leaf_copy.simps [simp del]

definition textual_leaf_to_string ::
  "u32 list \<Rightarrow> rom_ptr \<Rightarrow> string option \<Rightarrow> nat \<Rightarrow> ((errno + nat) \<times> string option) option" where
  "textual_leaf_to_string rom block buf size' =
    (case buf of
       None \<Rightarrow> Some (Inl EINVAL, buf)
     | Some b \<Rightarrow>
         if size' = 0 then Some (Inl EINVAL, buf)
         else do {
           q0 \<leftarrow> rom_at rom block;
           let quadlets = min (unat (drop_bit 16 q0)) 256;
           if quadlets < 2 then Some (Inl ENODATA, buf)
           else do {
             q1 \<leftarrow> rom_at rom (block + 1);
             q2 \<leftarrow> (if q1 \<noteq> 0 then Some 0 else rom_at rom (block + 2));
             if q1 \<noteq> 0 \<or> q2 \<noteq> 0 then Some (Inl ENODATA, buf)
             else do {
               (i, b) \<leftarrow> textual_leaf_copy rom (block + 3) (quadlets - 2) size' 0 b;
               b \<leftarrow> buf_put b i (CHR 0x00);
               Some (Inr i, Some b)
             }
           }
         })"

definition fw_csr_string ::
  "u32 list \<Rightarrow> rom_ptr \<Rightarrow> u32 \<Rightarrow> string option \<Rightarrow> nat \<Rightarrow> ((errno + nat) \<times> string option) option" where
  "fw_csr_string rom directory key buf size' =
    do {
      leaf \<leftarrow> search_leaf rom directory key;
      (case leaf of
         None \<Rightarrow> Some (Inl ENOENT, buf)
       | Some leaf \<Rightarrow> textual_leaf_to_string rom leaf buf size')
    }"

section \<open>Identifiers of a unit and the drivers they match\<close>

text \<open>The array \<open>id\<close> of four integers.\<close>

definition get_ids :: "u32 list \<Rightarrow> rom_ptr \<Rightarrow> u32 list \<Rightarrow> u32 list option" where
  "get_ids rom directory ids =
    csr_scan rom (\<lambda>ci key val ids.
      if key = CSR_VENDOR then ids[0 := val]
      else if key = CSR_MODEL then ids[1 := val]
      else if key = CSR_SPECIFIER_ID then ids[2 := val]
      else if key = CSR_VERSION then ids[3 := val]
      else ids) directory ids"

fun get_ids_of :: "u32 list \<Rightarrow> rom_ptr option list \<Rightarrow> u32 list \<Rightarrow> u32 list option" where
  "get_ids_of rom (Some d # ds) ids = do { ids \<leftarrow> get_ids rom d ids; get_ids_of rom ds ids }"
| "get_ids_of rom (None # ds) ids = Some ids"
| "get_ids_of rom [] ids = Some ids"

text \<open>A unit is given by the ROM of its device and the pointer to its directory.\<close>

definition get_modalias_ids :: "u32 list \<Rightarrow> rom_ptr \<Rightarrow> u32 list \<Rightarrow> u32 list option" where
  "get_modalias_ids rom unit_directory ids =
    do {
      vendor_directory \<leftarrow> search_directory rom ROOT_DIR_OFFSET CSR_VENDOR;
      get_ids_of rom
        (case vendor_directory of
           None \<Rightarrow> [Some ROOT_DIR_OFFSET, Some unit_directory, None]
         | Some v \<Rightarrow> [Some ROOT_DIR_OFFSET, Some v, Some unit_directory]) ids
    }"

text \<open>The flags of a table entry are bits of \<^verbatim>\<open>mod_devicetable.h\<close>; here they are a set.\<close>

datatype match_flag = IEEE1394_MATCH_VENDOR_ID | IEEE1394_MATCH_MODEL_ID
  | IEEE1394_MATCH_SPECIFIER_ID | IEEE1394_MATCH_VERSION

record ieee1394_device_id =
  match_flags :: "match_flag set"
  vendor_id :: u32
  model_id :: u32
  specifier_id :: u32
  version_id :: u32

definition match_ids :: "ieee1394_device_id \<Rightarrow> u32 list \<Rightarrow> bool" where
  "match_ids id_table ids =
    (let matched = (if ids ! 0 = vendor_id id_table then {IEEE1394_MATCH_VENDOR_ID} else {}) \<union>
                   (if ids ! 1 = model_id id_table then {IEEE1394_MATCH_MODEL_ID} else {}) \<union>
                   (if ids ! 2 = specifier_id id_table then {IEEE1394_MATCH_SPECIFIER_ID} else {}) \<union>
                   (if ids ! 3 = version_id id_table then {IEEE1394_MATCH_VERSION} else {})
     in matched \<inter> match_flags id_table = match_flags id_table)"

text \<open>The table of a driver ends with an entry without flags; to run past the end of the array is
  \<open>None\<close>.\<close>

fun match_table :: "ieee1394_device_id list \<Rightarrow> u32 list \<Rightarrow> ieee1394_device_id option option" where
  "match_table [] ids = None"
| "match_table (e # es) ids =
    (if match_flags e = {} then Some None
     else if match_ids e ids then Some (Some e)
     else match_table es ids)"

definition unit_match ::
  "u32 list \<Rightarrow> rom_ptr \<Rightarrow> ieee1394_device_id list \<Rightarrow> ieee1394_device_id option option" where
  "unit_match rom unit_directory id_table =
    do {
      ids \<leftarrow> get_modalias_ids rom unit_directory [0, 0, 0, 0];
      match_table id_table ids
    }"

section \<open>Formatted output\<close>

text \<open>The conversions of \<open>printf\<close> the code uses: hexadecimal digits padded with zeros to a width, and
  decimal digits.\<close>

definition hex_char :: "bool \<Rightarrow> nat \<Rightarrow> char" where
  "hex_char upper d = (if d < 10 then char_of (48 + d) else char_of ((if upper then 55 else 87) + d))"

fun hex_digits :: "bool \<Rightarrow> nat \<Rightarrow> string" where
  "hex_digits upper n =
    (if n < 16 then [hex_char upper n] else hex_digits upper (n div 16) @ [hex_char upper (n mod 16)])"

declare hex_digits.simps [simp del]

definition format_hex :: "bool \<Rightarrow> nat \<Rightarrow> u32 \<Rightarrow> string" where
  "format_hex upper width v =
    (let ds = hex_digits upper (unat v) in replicate (width - length ds) (CHR ''0'') @ ds)"

fun dec_digits :: "nat \<Rightarrow> string" where
  "dec_digits n = (if n < 10 then [char_of (48 + n)] else dec_digits (n div 10) @ [char_of (48 + n mod 10)])"

declare dec_digits.simps [simp del]

text \<open>\<open>sprintf\<close> and \<open>strcpy\<close> write the characters and the zero byte, \<open>snprintf\<close> at most \<open>n\<close> bytes;
  it returns the length the output would have.\<close>

definition buf_puts :: "string \<Rightarrow> nat \<Rightarrow> string \<Rightarrow> string option" where
  "buf_puts buf i s =
    (if i + length s < length buf then Some (take i buf @ s @ [CHR 0x00] @ drop (i + length s + 1) buf) else None)"

definition snprintf :: "string \<Rightarrow> nat \<Rightarrow> string \<Rightarrow> (nat \<times> string) option" where
  "snprintf buf n s =
    (if n = 0 then Some (length s, buf)
     else do { buf \<leftarrow> buf_puts buf 0 (take (n - 1) s); Some (length s, buf) })"

definition newline :: char where "newline = CHR 0x0A"

definition get_modalias :: "u32 list \<Rightarrow> rom_ptr \<Rightarrow> string \<Rightarrow> nat \<Rightarrow> (nat \<times> string) option" where
  "get_modalias rom unit_directory buffer buffer_size =
    do {
      ids \<leftarrow> get_modalias_ids rom unit_directory [0, 0, 0, 0];
      snprintf buffer buffer_size
        (''ieee1394:ven'' @ format_hex True 8 (ids ! 0) @ ''mo'' @ format_hex True 8 (ids ! 1) @
         ''sp'' @ format_hex True 8 (ids ! 2) @ ''ver'' @ format_hex True 8 (ids ! 3))
    }"

definition modalias_show :: "u32 list \<Rightarrow> rom_ptr \<Rightarrow> string \<Rightarrow> nat \<Rightarrow> (nat \<times> string) option" where
  "modalias_show rom unit_directory buf page_size =
    do {
      (len, buf) \<leftarrow> get_modalias rom unit_directory buf page_size;
      buf \<leftarrow> buf_puts buf len [newline];
      Some (len + 1, buf)
    }"

section \<open>Attributes in sysfs\<close>

datatype attr_dev = Attr_device | Attr_unit rom_ptr

text \<open>\<open>show_immediate\<close>; without a buffer it only says whether there is a value.\<close>

fun scan_directories :: "u32 list \<Rightarrow> rom_ptr option list \<Rightarrow> u32 \<Rightarrow> int \<Rightarrow> int option" where
  "scan_directories rom (Some d # ds) key val =
    do {
      val \<leftarrow> csr_scan rom (\<lambda>ci k v val. if key = k then uint v else val) d val;
      scan_directories rom ds key val
    }"
| "scan_directories rom (None # ds) key val = Some val"
| "scan_directories rom [] key val = Some val"

definition show_immediate :: "u32 list \<Rightarrow> attr_dev \<Rightarrow> u32 \<Rightarrow> bool \<Rightarrow> (errno + string) option" where
  "show_immediate rom dev key has_buf =
    do {
      directories \<leftarrow> (case dev of
          Attr_unit directory \<Rightarrow> Some [Some directory, None]
        | Attr_device \<Rightarrow> do {
            vendor_directory \<leftarrow> search_directory rom ROOT_DIR_OFFSET CSR_VENDOR;
            Some (case vendor_directory of
                    None \<Rightarrow> [Some ROOT_DIR_OFFSET, None]
                  | Some v \<Rightarrow> [Some v, Some ROOT_DIR_OFFSET])
          });
      val \<leftarrow> scan_directories rom directories key (- 1);
      Some (if val < 0 then Inl ENOENT
            else if has_buf then Inr (''0x'' @ format_hex False 6 (word_of_int val) @ [newline])
            else Inr [])
    }"

text \<open>The loop of \<open>show_text_leaf\<close> over at most two directories; \<open>i\<close> is its counter.\<close>

definition text_of_directory ::
  "u32 list \<Rightarrow> rom_ptr \<Rightarrow> nat \<Rightarrow> u32 \<Rightarrow> string option \<Rightarrow> nat \<Rightarrow> errno + nat \<Rightarrow>
     ((errno + nat) \<times> string option) option" where
  "text_of_directory rom d i key buf bufsize ret =
    do {
      (res, buf) \<leftarrow> fw_csr_string rom d key buf bufsize;
      (case res of
         Inr n \<Rightarrow> Some (Inr n, buf)
       | Inl _ \<Rightarrow>
           if i = 0 \<and> key = CSR_VENDOR then do {
             (res, buf) \<leftarrow> fw_csr_string rom d (CSR_DIRECTORY OR key) buf bufsize;
             Some (case res of Inr n \<Rightarrow> Inr n | Inl _ \<Rightarrow> ret, buf)
           } else Some (ret, buf))
    }"

fun text_of_directories ::
  "u32 list \<Rightarrow> rom_ptr option list \<Rightarrow> nat \<Rightarrow> u32 \<Rightarrow> string option \<Rightarrow> nat \<Rightarrow> errno + nat \<Rightarrow>
     ((errno + nat) \<times> string option) option" where
  "text_of_directories rom (Some d # ds) i key buf bufsize ret =
    do {
      (ret, buf) \<leftarrow> text_of_directory rom d i key buf bufsize ret;
      text_of_directories rom ds (i + 1) key buf bufsize ret
    }"
| "text_of_directories rom (None # ds) i key buf bufsize ret = Some (ret, buf)"
| "text_of_directories rom [] i key buf bufsize ret = Some (ret, buf)"

text \<open>Trailing white space, with the predicate of the kernel library as a parameter.\<close>

primrec strip_space :: "(char \<Rightarrow> bool) \<Rightarrow> string \<Rightarrow> nat \<Rightarrow> nat" where
  "strip_space isspace buf 0 = 0"
| "strip_space isspace buf (Suc n) = (if isspace (buf ! n) then strip_space isspace buf n else Suc n)"

definition show_text_leaf ::
  "(char \<Rightarrow> bool) \<Rightarrow> nat \<Rightarrow> u32 list \<Rightarrow> attr_dev \<Rightarrow> u32 \<Rightarrow> string option \<Rightarrow> ((errno + nat) \<times> string option) option" where
  "show_text_leaf isspace page_size rom dev key buf =
    do {
      directories \<leftarrow> (case dev of
          Attr_unit directory \<Rightarrow> Some [Some directory, None]
        | Attr_device \<Rightarrow> do {
            vendor_directory \<leftarrow> search_directory rom ROOT_DIR_OFFSET CSR_VENDOR;
            Some (case vendor_directory of
                    None \<Rightarrow> [Some ROOT_DIR_OFFSET, None]
                  | Some v \<Rightarrow> [Some ROOT_DIR_OFFSET, Some v])
          });
      let (b, bufsize) = (case buf of Some b \<Rightarrow> (b, page_size - 1) | None \<Rightarrow> (replicate 2 (CHR 0x00), 1));
      (ret, b') \<leftarrow> text_of_directories rom directories 0 key (Some b) bufsize (Inl ENOENT);
      b \<leftarrow> b';
      (case ret of
         Inl e \<Rightarrow> Some (Inl e, map_option (\<lambda>_. b) buf)
       | Inr n \<Rightarrow> do {
           let n = strip_space isspace b n;
           b \<leftarrow> buf_puts b n [newline];
           Some (Inr (n + 1), map_option (\<lambda>_. b) buf)
         })
    }"

datatype rom_attribute = Immediate_attr string u32 | Text_leaf_attr string u32

definition config_rom_attributes :: "rom_attribute list" where
  "config_rom_attributes =
    [Immediate_attr ''vendor'' CSR_VENDOR,
     Immediate_attr ''hardware_version'' CSR_HARDWARE_VERSION,
     Immediate_attr ''specifier_id'' CSR_SPECIFIER_ID,
     Immediate_attr ''version'' CSR_VERSION,
     Immediate_attr ''model'' CSR_MODEL,
     Text_leaf_attr ''vendor_name'' CSR_VENDOR,
     Text_leaf_attr ''model_name'' CSR_MODEL,
     Text_leaf_attr ''hardware_version_name'' CSR_HARDWARE_VERSION]"

fun attr_name :: "rom_attribute \<Rightarrow> string" where
  "attr_name (Immediate_attr n key) = n"
| "attr_name (Text_leaf_attr n key) = n"

text \<open>Whether the attribute is to be shown is asked by calling its function without a buffer.\<close>

fun attr_present :: "(char \<Rightarrow> bool) \<Rightarrow> nat \<Rightarrow> u32 list \<Rightarrow> attr_dev \<Rightarrow> rom_attribute \<Rightarrow> bool option" where
  "attr_present isspace page_size rom dev (Immediate_attr n key) =
    map_option (\<lambda>r. case r of Inl _ \<Rightarrow> False | Inr _ \<Rightarrow> True) (show_immediate rom dev key False)"
| "attr_present isspace page_size rom dev (Text_leaf_attr n key) =
    map_option (\<lambda>r. case fst r of Inl _ \<Rightarrow> False | Inr _ \<Rightarrow> True) (show_text_leaf isspace page_size rom dev key None)"

fun present_attributes ::
  "(char \<Rightarrow> bool) \<Rightarrow> nat \<Rightarrow> u32 list \<Rightarrow> attr_dev \<Rightarrow> rom_attribute list \<Rightarrow> string list option" where
  "present_attributes isspace page_size rom dev [] = Some []"
| "present_attributes isspace page_size rom dev (a # as) =
    do {
      p \<leftarrow> attr_present isspace page_size rom dev a;
      ns \<leftarrow> present_attributes isspace page_size rom dev as;
      Some (if p then attr_name a # ns else ns)
    }"

text \<open>The group holds the attributes of the table of the device or unit, then those that are present.\<close>

definition init_fw_attribute_group ::
  "(char \<Rightarrow> bool) \<Rightarrow> nat \<Rightarrow> u32 list \<Rightarrow> attr_dev \<Rightarrow> string list \<Rightarrow> string list option" where
  "init_fw_attribute_group isspace page_size rom dev attrs =
    do {
      ns \<leftarrow> present_attributes isspace page_size rom dev config_rom_attributes;
      Some (attrs @ ns)
    }"

definition fw_unit_attributes :: "string list" where
  "fw_unit_attributes = [''modalias'', ''rom_index'']"

definition fw_device_attributes :: "string list" where
  "fw_device_attributes = [''config_rom'', ''guid'', ''is_local'', ''units'']"

definition rom_index_show :: "rom_ptr \<Rightarrow> string" where
  "rom_index_show unit_directory = dec_digits unit_directory @ [newline]"

text \<open>The bytes of a quadlet in memory depend on the byte order of the machine and are a parameter.\<close>

definition config_rom_show ::
  "(u32 \<Rightarrow> string) \<Rightarrow> u32 list \<Rightarrow> nat \<Rightarrow> string \<Rightarrow> (nat \<times> string) option" where
  "config_rom_show quadlet_bytes rom rom_length buf =
    (let len = rom_length * 4
     in if rom_length \<le> length rom \<and> len \<le> length buf
        then Some (len, concat (map quadlet_bytes (take rom_length rom)) @ drop len buf)
        else None)"

definition guid_show :: "u32 list \<Rightarrow> string option" where
  "guid_show rom =
    do {
      hi \<leftarrow> rom_at rom 3;
      lo \<leftarrow> rom_at rom 4;
      Some (''0x'' @ format_hex False 8 hi @ format_hex False 8 lo @ [newline])
    }"

definition is_local_show :: "bool \<Rightarrow> string" where
  "is_local_show is_local = dec_digits (of_bool is_local) @ [newline]"

definition units_sprintf :: "u32 list \<Rightarrow> string \<Rightarrow> nat \<Rightarrow> rom_ptr \<Rightarrow> (nat \<times> string) option" where
  "units_sprintf rom buf i directory =
    do {
      (specifier, version) \<leftarrow> csr_scan rom (\<lambda>ci key val (specifier, version).
        if key = CSR_SPECIFIER_ID then (val, version)
        else if key = CSR_VERSION then (specifier, val)
        else (specifier, version)) directory (0, 0);
      let s = ''0x'' @ format_hex False 6 specifier @ '':0x'' @ format_hex False 6 version @ '' '';
      buf \<leftarrow> buf_puts buf i s;
      Some (length s, buf)
    }"

text \<open>A fault inside of the loop body leaves the loop with \<open>Inl None\<close>, \<open>break\<close> with \<open>Inl (Some _)\<close>.\<close>

definition units_show :: "u32 list \<Rightarrow> nat \<Rightarrow> string \<Rightarrow> (nat \<times> string) option" where
  "units_show rom page_size buf =
    do {
      ci \<leftarrow> fw_csr_iterator_init rom ROOT_DIR_OFFSET;
      r \<leftarrow> csr_walk rom (\<lambda>ci key val (i, buf).
             if key \<noteq> (CSR_UNIT OR CSR_DIRECTORY) then Inr (i, buf)
             else (case units_sprintf rom buf i (ci_p ci + unat val - 1) of
                     None \<Rightarrow> Inl None
                   | Some (n, buf) \<Rightarrow>
                       if i + n \<ge> page_size - (8 + 1 + 8 + 1) then Inl (Some (i + n, buf))
                       else Inr (i + n, buf))) ci (0, buf);
      (i, buf) \<leftarrow> (case r of Inl x \<Rightarrow> x | Inr x \<Rightarrow> Some x);
      (if i > 0 then do { buf \<leftarrow> buf_put buf (i - 1) newline; Some (i, buf) } else Some (i, buf))
    }"

end
