(* ===== verification/Device_Read.thy ===== *)
theory Device_Read
  imports Device_Rom
begin

text \<open>
  Reading the configuration ROM of a remote node over the bus, after
  \<^verbatim>\<open>drivers/firewire/core-device.c\<close>: \<open>read_rom\<close> with its retries, \<open>read_config_rom\<close> with its stack of
  blocks, the quirks it detects and the speed probe, \<open>reread_config_rom\<close>, and the broadcast channel
  register of the node.

  What the node answers is the parameter \<open>answer\<close>: it may depend on all requests sent so far, so that
  nothing is assumed about the node.
\<close>

section \<open>Transactions\<close>

abbreviation (input) MAX_CONFIG_ROM_SIZE :: nat where "MAX_CONFIG_ROM_SIZE \<equiv> 256"
abbreviation (input) SCODE_200 :: u32 where "SCODE_200 \<equiv> 0x1"

text \<open>\<open>fw_run_transaction\<close> sends a request and waits until it is completed, which happens exactly once
  (theory \<^verbatim>\<open>Transaction_Proofs\<close>) with a response code that depends on the node and the bus; the
  history of requests, the latest first, stands for the time.  The outcome is the response code and, for a read, the quadlet.\<close>

datatype rom_request = Read_quadlet (req_speed: u32) u64 | Write_quadlet (req_speed: u32) u64 u32

type_synonym rom_node = "rom_request list \<Rightarrow> rom_request \<Rightarrow> u32 \<times> u32"

definition node_transaction :: "rom_node \<Rightarrow> rom_request \<Rightarrow> rom_request list \<Rightarrow> u32 \<times> u32 \<times> rom_request list" where
  "node_transaction answer req h = (let (rcode, q) = answer h req in (rcode, q, req # h))"

text \<open>The loop of \<open>read_rom\<close> with its variable \<open>i\<close>, which is also the time it sleeps; \<open>rcode\<close> is the one
  of the try before.\<close>

function read_rom_tries ::
  "rom_node \<Rightarrow> rom_request \<Rightarrow> nat \<Rightarrow> u32 \<times> u32 \<times> rom_request list \<Rightarrow> u32 \<times> u32 \<times> rom_request list" where
  "read_rom_tries answer req i (rcode, q, h) =
    (if i < 100 then
       let (rcode, q, h) = node_transaction answer req h
       in if rcode \<noteq> RCODE_BUSY then (rcode, q, h)
          else read_rom_tries answer req (i + 10) (rcode, q, h)
     else (rcode, q, h))"
  by pat_completeness auto
termination
  by (relation "measure (\<lambda>(answer, req, i, s). 100 - i)") auto

declare read_rom_tries.simps [simp del]

definition rom_offset :: "nat \<Rightarrow> u64" where
  "rom_offset index = (CSR_REGISTER_BASE OR CSR_CONFIG_ROM) + of_nat (index * 4)"

definition read_rom :: "rom_node \<Rightarrow> u32 \<Rightarrow> nat \<Rightarrow> rom_request list \<Rightarrow> u32 \<times> u32 \<times> rom_request list" where
  "read_rom answer speed index h =
    read_rom_tries answer (Read_quadlet speed (rom_offset index)) 10 (0, 0, h)"

section \<open>Quirks\<close>

abbreviation (input) FW_DEVICE_QUIRK_IRM_IS_1394_1995_ONLY :: u32 where "FW_DEVICE_QUIRK_IRM_IS_1394_1995_ONLY \<equiv> 0x1"
abbreviation (input) FW_DEVICE_QUIRK_IRM_IGNORES_BUS_MANAGER :: u32 where "FW_DEVICE_QUIRK_IRM_IGNORES_BUS_MANAGER \<equiv> 0x2"
abbreviation (input) FW_DEVICE_QUIRK_ACK_PACKET_WITH_INVALID_PENDING_CODE :: u32 where
  "FW_DEVICE_QUIRK_ACK_PACKET_WITH_INVALID_PENDING_CODE \<equiv> 0x4"
abbreviation (input) FW_DEVICE_QUIRK_UNSTABLE_AT_S400 :: u32 where "FW_DEVICE_QUIRK_UNSTABLE_AT_S400 \<equiv> 0x8"
abbreviation (input) CANON_OUI :: u32 where "CANON_OUI \<equiv> 0x85"

definition detect_quirks_by_bus_information_block :: "u32 list \<Rightarrow> u32" where
  "detect_quirks_by_bus_information_block block =
    (let quirks = (if (block ! 2 AND 0xf0) = 0 then FW_DEVICE_QUIRK_IRM_IS_1394_1995_ONLY else 0);
         quirks = (if drop_bit 8 (block ! 3) = CANON_OUI
                   then quirks OR FW_DEVICE_QUIRK_IRM_IGNORES_BUS_MANAGER else quirks)
     in quirks)"

definition motu_audio_express_matches :: "(nat \<times> u32) list" where
  "motu_audio_express_matches =
    [(1, 0x030001f2), (3, 0xd1000002), (4, 0x8d000005), (6, 0x120001f2), (7, 0x13000033), (8, 0x17104800)]"

definition tascam_fw_series_matches :: "(nat \<times> u32) list" where
  "tascam_fw_series_matches =
    [(1, 0x0300022e), (3, 0x8d000006), (4, 0xd1000001), (6, 0x1200022e), (8, 0xd4000004)]"

text \<open>The inner loop: all entries of the table are at their places in the directory of \<open>len\<close>
  quadlets.\<close>

fun entries_match :: "u32 list \<Rightarrow> nat \<Rightarrow> (nat \<times> u32) list \<Rightarrow> bool" where
  "entries_match root_directory len [] = True"
| "entries_match root_directory len ((index, val) # ms) =
    (if len < index \<or> root_directory ! index \<noteq> val then False
     else entries_match root_directory len ms)"

fun detect_quirks_loop :: "u32 list \<Rightarrow> nat \<Rightarrow> (u32 \<times> (nat \<times> u32) list) list \<Rightarrow> u32 \<Rightarrow> u32" where
  "detect_quirks_loop root_directory len [] quirks = quirks"
| "detect_quirks_loop root_directory len ((quirk, ms) # es) quirks =
    detect_quirks_loop root_directory len es
      (if entries_match root_directory len ms then quirks OR quirk else quirks)"

definition detect_quirks_by_root_directory :: "u32 list \<Rightarrow> nat \<Rightarrow> u32" where
  "detect_quirks_by_root_directory root_directory len =
    detect_quirks_loop root_directory len
      [(FW_DEVICE_QUIRK_ACK_PACKET_WITH_INVALID_PENDING_CODE, motu_audio_express_matches),
       (FW_DEVICE_QUIRK_UNSTABLE_AT_S400, tascam_fw_series_matches)] 0"

section \<open>The blocks of the ROM\<close>

text \<open>The outcome of a loop over the bus: the loop went through, the function returns an error or a
  response code, or it has accessed memory outside of the two buffers.\<close>

datatype 'a rom_outcome = Rom_done 'a | Rom_ret "errno + u32" "rom_request list" | Rom_fault

text \<open>The buffer of the image and the stack above it, with the top of the stack first.\<close>

record rom_reader =
  rr_rom :: "u32 list"
  rr_stack :: "u32 list"
  rr_history :: "rom_request list"

text \<open>Reads quadlet \<open>i\<close> into \<open>rom[i]\<close>.\<close>

definition fetch_quadlet :: "rom_node \<Rightarrow> u32 \<Rightarrow> nat \<Rightarrow> rom_reader \<Rightarrow> rom_reader rom_outcome" where
  "fetch_quadlet answer speed i st =
    (if i < length (rr_rom st) then
       let (ret, q, h) = read_rom answer speed i (rr_history st)
       in if ret \<noteq> RCODE_COMPLETE then Rom_ret (Inr ret) h
          else Rom_done (st\<lparr>rr_rom := (rr_rom st)[i := q], rr_history := h\<rparr>)
     else Rom_fault)"

text \<open>The loop that reads the bus information block.\<close>

function read_bus_info :: "rom_node \<Rightarrow> u32 \<Rightarrow> nat \<Rightarrow> rom_reader \<Rightarrow> rom_reader rom_outcome" where
  "read_bus_info answer speed i st =
    (if i < 5 then
       (case fetch_quadlet answer speed i st of
          Rom_done st \<Rightarrow>
            if i = 0 \<and> rr_rom st ! 0 = 0 then Rom_ret (Inr RCODE_BUSY) (rr_history st)
            else read_bus_info answer speed (i + 1) st
        | res \<Rightarrow> res)
     else Rom_done st)"
  by pat_completeness auto
termination
  by (relation "measure (\<lambda>(answer, speed, i, st). 5 - i)") auto

declare read_bus_info.simps [simp del]

text \<open>What is done with an entry of a block once it has been read.\<close>

definition check_entry :: "u32 \<Rightarrow> nat \<Rightarrow> rom_reader \<Rightarrow> rom_reader rom_outcome" where
  "check_entry key i st =
    (let q = rr_rom st ! i
     in if drop_bit 30 key \<noteq> 3 \<or> drop_bit 30 q < 2 then Rom_done st
        else if of_nat i + (q AND 0xffffff) \<ge> (of_nat MAX_CONFIG_ROM_SIZE :: u32)
             then Rom_done (st\<lparr>rr_rom := (rr_rom st)[i := 0]\<rparr>)
        else if length (rr_stack st) < MAX_CONFIG_ROM_SIZE
             then Rom_done (st\<lparr>rr_stack := (of_nat i + q) # rr_stack st\<rparr>)
        else Rom_fault)"

function read_entries :: "rom_node \<Rightarrow> u32 \<Rightarrow> u32 \<Rightarrow> nat \<Rightarrow> nat \<Rightarrow> rom_reader \<Rightarrow> rom_reader rom_outcome" where
  "read_entries answer speed key i end' st =
    (if i < end' then
       (case fetch_quadlet answer speed i st of
          Rom_done st \<Rightarrow>
            (case check_entry key i st of
               Rom_done st \<Rightarrow> read_entries answer speed key (i + 1) end' st
             | res \<Rightarrow> res)
        | res \<Rightarrow> res)
     else Rom_done st)"
  by pat_completeness auto
termination
  by (relation "measure (\<lambda>(answer, speed, key, i, end', st). end' - i)") auto

declare read_entries.simps [simp del]

text \<open>One round of the outer loop: the block that \<open>key\<close>, just popped, refers to.  The result includes
  the value of \<open>i\<close> at the end of the round.\<close>

definition read_block :: "rom_node \<Rightarrow> u32 \<Rightarrow> u32 \<Rightarrow> rom_reader \<Rightarrow> (rom_reader \<times> nat) rom_outcome" where
  "read_block answer speed key st =
    (let i = unat (key AND 0xffffff)
     in if i \<ge> MAX_CONFIG_ROM_SIZE then Rom_ret (Inl ENXIO) (rr_history st)
        else (case fetch_quadlet answer speed i st of
            Rom_done st \<Rightarrow>
              let end' = i + unat (drop_bit 16 (rr_rom st ! i)) + 1;
                  (st, end') = (if end' > MAX_CONFIG_ROM_SIZE
                                then (st\<lparr>rr_rom := (rr_rom st)[i := 0]\<rparr>, i) else (st, end'))
              in (case read_entries answer speed key (i + 1) end' st of
                    Rom_done st \<Rightarrow> Rom_done (st, max (i + 1) end')
                  | Rom_ret r h \<Rightarrow> Rom_ret r h | Rom_fault \<Rightarrow> Rom_fault)
          | Rom_ret r h \<Rightarrow> Rom_ret r h | Rom_fault \<Rightarrow> Rom_fault))"

text \<open>
  The outer loop ends because an entry refers to a block behind itself: a block at \<open>i\<close> weighs
  \<open>2 ^ (256 - i)\<close>, more than all blocks that its entries can refer to.
\<close>

definition block_start :: "u32 \<Rightarrow> nat" where
  "block_start key = unat (key AND 0xffffff)"

definition stack_weight :: "u32 list \<Rightarrow> nat" where
  "stack_weight stack = (\<Sum>key \<leftarrow> stack. 2 ^ (256 - block_start key))"

lemma stack_weight_simps [simp]:
  "stack_weight [] = 0"
  "stack_weight (key # ks) = 2 ^ (256 - block_start key) + stack_weight ks"
  by (simp_all add: stack_weight_def)

lemma word_mask24: "(q :: u32) AND 0xffffff = take_bit 24 q"
proof -
  have "(0xffffff :: u32) = mask 24" by (simp add: mask_eq_exp_minus_1)
  then show ?thesis by (simp only: take_bit_eq_mask)
qed

lemma unat_mask24_less: "unat ((q :: u32) AND 0xffffff) < 2 ^ 24"
  unfolding word_mask24 unsigned_take_bit_eq by (rule take_bit_nat_less_exp)

lemma block_start_less: "block_start key < 2 ^ 24"
  unfolding block_start_def by (rule unat_mask24_less)

text \<open>The reference that an entry at \<open>i\<close> puts on the stack points to \<open>i\<close> or behind, within the ROM.\<close>

lemma entry_target:
  assumes i: "i < 256" and t: "\<not> of_nat i + (q AND 0xffffff) \<ge> (256 :: u32)"
  shows "block_start (of_nat i + q) = i + unat (q AND 0xffffff)" and "block_start (of_nat i + q) < 256"
proof -
  let ?off = "q AND 0xffffff :: u32"
  have o: "unat ?off < 2 ^ 24" by (rule unat_mask24_less)
  have ui: "unat (of_nat i :: u32) = i" using i by (simp add: unat_of_nat take_bit_nat_eq_self)
  have s: "unat (of_nat i + ?off) = i + unat ?off"
    using o i ui by (subst unat_add_lem [THEN iffD1]) simp_all
  have l: "i + unat ?off < 256"
    using t s by (simp add: word_less_nat_alt not_le)
  have o': "unat ?off = unat q mod 2 ^ 24"
    unfolding word_mask24 unsigned_take_bit_eq by (simp add: take_bit_eq_mod)
  have "unat ((of_nat i + q) AND 0xffffff) = (i + unat q) mod 2 ^ 32 mod 2 ^ 24"
    unfolding word_mask24 unsigned_take_bit_eq by (simp add: unat_word_ariths ui take_bit_eq_mod)
  also have "\<dots> = (i + unat q) mod 2 ^ 24" by (simp add: mod_mod_cancel)
  also have "\<dots> = (i + unat ?off) mod 2 ^ 24" unfolding o' by (simp add: mod_simps)
  also have "\<dots> = i + unat ?off" using l by simp
  finally have "unat ((of_nat i + q) AND 0xffffff) = i + unat ?off" .
  then show "block_start (of_nat i + q) = i + unat ?off" by (simp add: block_start_def)
  then show "block_start (of_nat i + q) < 256" using l by simp
qed

lemma check_entry_stack:
  assumes "check_entry key i st = Rom_done st'" "i < 256"
  shows "rr_stack st' = rr_stack st \<or>
    (\<exists>k. rr_stack st' = k # rr_stack st \<and> i \<le> block_start k \<and> block_start k < 256)"
  using assms entry_target [OF assms(2), of "rr_rom st ! i"]
  by (auto simp: check_entry_def Let_def split: if_splits)

lemma fetch_quadlet_done:
  assumes "fetch_quadlet answer speed i st = Rom_done st'"
  shows "rr_stack st' = rr_stack st" "length (rr_rom st') = length (rr_rom st)" "i < length (rr_rom st)"
  using assms by (auto simp: fetch_quadlet_def split: if_splits prod.splits)

lemma read_entries_weight:
  "read_entries answer speed key i end' st = Rom_done st' \<Longrightarrow> i \<le> end' \<Longrightarrow> end' \<le> 256 \<Longrightarrow>
    stack_weight (rr_stack st') + 2 ^ (257 - end') \<le> stack_weight (rr_stack st) + 2 ^ (257 - i)"
proof (induction answer speed key i end' st rule: read_entries.induct)
  case (1 answer speed key i end' st)
  show ?case
  proof (cases "i < end'")
    case False
    then show ?thesis using 1(2,3) by (simp add: read_entries.simps)
  next
    case True
    obtain s1 where f: "fetch_quadlet answer speed i st = Rom_done s1"
      using 1(2) True by (subst (asm) read_entries.simps) (simp split: rom_outcome.splits)
    obtain s2 where c: "check_entry key i s1 = Rom_done s2"
      using 1(2) True f by (subst (asm) read_entries.simps) (simp split: rom_outcome.splits)
    have r: "read_entries answer speed key (i + 1) end' s2 = Rom_done st'"
      using 1(2) True f c by (subst (asm) read_entries.simps) simp
    have le: "stack_weight (rr_stack st') + 2 ^ (257 - end') \<le> stack_weight (rr_stack s2) + 2 ^ (257 - (i + 1))"
      using 1(1) [OF True f c r] True 1(4) by simp
    have i256: "i < 256" using True 1(4) by simp
    have p: "(2::nat) ^ (257 - i) = 2 * 2 ^ (257 - (i + 1))"
      using i256 by (simp flip: power_Suc add: Suc_diff_le)
    have "stack_weight (rr_stack s2) \<le> stack_weight (rr_stack s1) + 2 ^ (257 - (i + 1))"
    proof -
      consider "rr_stack s2 = rr_stack s1"
        | k where "rr_stack s2 = k # rr_stack s1" "i \<le> block_start k"
        using check_entry_stack [OF c i256] by blast
      then show ?thesis
        by cases (simp_all add: power_increasing)
    qed
    then show ?thesis using le p fetch_quadlet_done(1) [OF f] by simp
  qed
qed

lemma read_block_weight:
  assumes "read_block answer speed key st = Rom_done (st', n)"
  shows "stack_weight (rr_stack st') < stack_weight (rr_stack st) + 2 ^ (256 - block_start key)"
proof -
  let ?i = "block_start key"
  have i: "?i < 256"
    using assms by (auto simp: read_block_def block_start_def Let_def split: if_splits)
  obtain s1 where f: "fetch_quadlet answer speed ?i st = Rom_done s1"
    using assms i by (auto simp: read_block_def block_start_def Let_def split: if_splits rom_outcome.splits)
  obtain s2 e where e: "read_entries answer speed key (?i + 1) e s2 = Rom_done st'"
    "rr_stack s2 = rr_stack s1" "e \<le> 256"
  proof -
    let ?e = "?i + unat (drop_bit 16 (rr_rom s1 ! ?i)) + 1"
    show ?thesis
    proof (cases "?e > 256")
      case True
      then show ?thesis using assms i f
        by (intro that [of ?i "s1\<lparr>rr_rom := (rr_rom s1)[?i := 0]\<rparr>"])
          (auto simp: read_block_def block_start_def [symmetric] Let_def split: rom_outcome.splits)
    next
      case False
      then show ?thesis using assms i f
        by (intro that [of ?e s1])
          (auto simp: read_block_def block_start_def [symmetric] Let_def split: rom_outcome.splits)
    qed
  qed
  show ?thesis
  proof (cases "?i + 1 \<le> e")
    case True
    have "stack_weight (rr_stack st') + 2 ^ (257 - e) \<le> stack_weight (rr_stack s2) + 2 ^ (257 - (?i + 1))"
      by (rule read_entries_weight [OF e(1) True e(3)])
    moreover have "(1::nat) \<le> 2 ^ (257 - e)" by simp
    ultimately have "stack_weight (rr_stack st') < stack_weight (rr_stack s2) + 2 ^ (257 - (?i + 1))" by linarith
    then show ?thesis using e(2) fetch_quadlet_done(1) [OF f] by simp
  next
    case False
    then have "st' = s2" using e(1) by (simp add: read_entries.simps)
    then show ?thesis using e(2) fetch_quadlet_done(1) [OF f] by simp
  qed
qed

function read_blocks :: "rom_node \<Rightarrow> u32 \<Rightarrow> rom_reader \<Rightarrow> nat \<Rightarrow> (rom_reader \<times> nat) rom_outcome" where
  "read_blocks answer speed st len =
    (case rr_stack st of
       [] \<Rightarrow> Rom_done (st, len)
     | key # stack \<Rightarrow>
         (case read_block answer speed key (st\<lparr>rr_stack := stack\<rparr>) of
            Rom_done (st, i) \<Rightarrow> read_blocks answer speed st (if len < i then i else len)
          | Rom_ret r h \<Rightarrow> Rom_ret r h | Rom_fault \<Rightarrow> Rom_fault))"
  by pat_completeness auto
termination
  by (relation "measure (\<lambda>(answer, speed, st, len). stack_weight (rr_stack st))")
    (auto dest: read_block_weight)

declare read_blocks.simps [simp del]

section \<open>Reading the ROM\<close>

text \<open>The part of a device that reading sets; the device layer extends it.  Without a ROM the pointer
  \<open>config_rom\<close> is \<open>NULL\<close>.\<close>

datatype bc_implemented = BC_UNKNOWN | BC_UNIMPLEMENTED | BC_IMPLEMENTED

record rom_device =
  rd_quirks :: u32
  rd_max_speed :: u32
  rd_config_rom :: "u32 list option"
  rd_config_rom_length :: nat
  rd_max_rec :: u32
  rd_cmc :: bool
  rd_irmc :: bool
  rd_bc_implemented :: bc_implemented

text \<open>What the reader finds in the card and the node, and whether its two allocations succeed.\<close>

record rom_env =
  re_kmalloc :: bool
  re_kmemdup :: bool
  re_node_max_speed :: u32
  re_link_speed :: u32
  re_beta_repeaters_present :: bool
  re_broadcast_channel_allocated :: bool

function probe_speed :: "rom_node \<Rightarrow> u32 \<Rightarrow> rom_request list \<Rightarrow> u32 \<times> rom_request list" where
  "probe_speed answer speed h =
    (if speed > SCODE_100 then
       let (ret, dummy, h) = read_rom answer speed 0 h
       in if ret = RCODE_COMPLETE then (speed, h) else probe_speed answer (speed - 1) h
     else (speed, h))"
  by pat_completeness auto
termination
proof (relation "measure (\<lambda>(answer, speed, h). unat speed)", goal_cases)
  case 1
  show ?case by simp
next
  case (2 answer speed h)
  then have "speed \<noteq> 0" by auto
  then show ?case by (simp add: unat_minus_one word_gt_0 unat_gt_0)
qed

declare probe_speed.simps [simp del]

definition determine_speed ::
  "rom_node \<Rightarrow> rom_env \<Rightarrow> u32 \<Rightarrow> u32 list \<Rightarrow> rom_request list \<Rightarrow> u32 \<times> rom_request list" where
  "determine_speed answer env quirks rom h =
    (let speed = (if (quirks AND FW_DEVICE_QUIRK_UNSTABLE_AT_S400) \<noteq> 0 then SCODE_200 else re_node_max_speed env)
     in if (rom ! 2 AND 0x7) < speed \<or> speed = SCODE_BETA \<or> re_beta_repeaters_present env
        then probe_speed answer (if speed = SCODE_BETA then re_link_speed env else speed) h
        else (speed, h))"

text \<open>What is done with the image when all of its blocks have been read.\<close>

definition take_config_rom ::
  "rom_node \<Rightarrow> rom_env \<Rightarrow> 'a rom_device_scheme \<Rightarrow> u32 \<Rightarrow> rom_reader \<Rightarrow> nat \<Rightarrow>
     (errno + u32) \<times> 'a rom_device_scheme \<times> rom_request list" where
  "take_config_rom answer env dev quirks st len =
    (let rom = rr_rom st;
         quirks = quirks OR detect_quirks_by_root_directory (drop ROOT_DIR_OFFSET rom) (len - ROOT_DIR_OFFSET);
         dev = dev\<lparr>rd_quirks := quirks\<rparr>;
         (speed, h) = determine_speed answer env quirks rom (rr_history st);
         dev = dev\<lparr>rd_max_speed := speed\<rparr>
     in if \<not> re_kmemdup env then (Inl ENOMEM, dev, h)
        else (Inr RCODE_COMPLETE,
              dev\<lparr>rd_config_rom := Some (take len rom), rd_config_rom_length := len,
                  rd_max_rec := drop_bit 12 (rom ! 2) AND 0xf,
                  rd_cmc := bit (rom ! 2) 30,
                  rd_irmc := bit (rom ! 2) 31\<rparr>, h))"

definition read_config_rom ::
  "rom_node \<Rightarrow> rom_env \<Rightarrow> 'a rom_device_scheme \<Rightarrow> rom_request list \<Rightarrow>
     ((errno + u32) \<times> 'a rom_device_scheme \<times> rom_request list) option" where
  "read_config_rom answer env dev h =
    (if \<not> re_kmalloc env then Some (Inl ENOMEM, dev, h)
     else
       (case read_bus_info answer SCODE_100 0
               \<lparr>rr_rom = replicate MAX_CONFIG_ROM_SIZE 0, rr_stack = [], rr_history = h\<rparr> of
          Rom_fault \<Rightarrow> None
        | Rom_ret r h \<Rightarrow> Some (r, dev, h)
        | Rom_done st \<Rightarrow>
            let quirks = detect_quirks_by_bus_information_block (rr_rom st);
                dev = dev\<lparr>rd_quirks := quirks\<rparr>
            in (case read_blocks answer SCODE_100 (st\<lparr>rr_stack := [0xc0000005]\<rparr>) 5 of
                  Rom_fault \<Rightarrow> None
                | Rom_ret r h \<Rightarrow> Some (r, dev, h)
                | Rom_done (st, len) \<Rightarrow> Some (take_config_rom answer env dev quirks st len))))"

text \<open>\<open>reread_config_rom\<close> compares the bus information block and the header of the root directory
  with the ROM of the device.  The last component of the result is \<open>changed\<close>, if it has been set; a
  device without a ROM, or with one of less than six quadlets, would be a fault.\<close>

function reread_loop ::
  "rom_node \<Rightarrow> u32 \<Rightarrow> u32 list \<Rightarrow> nat \<Rightarrow> rom_request list \<Rightarrow> (u32 \<times> bool option \<times> rom_request list) option" where
  "reread_loop answer speed rom i h =
    (if i < 6 then
       (let (rcode, q, h) = read_rom answer speed i h
        in if rcode \<noteq> RCODE_COMPLETE then Some (rcode, None, h)
           else if i = 0 \<and> q = 0 then Some (RCODE_BUSY, None, h)
           else (case rom_at rom i of
                   None \<Rightarrow> None
                 | Some old \<Rightarrow>
                     if q \<noteq> old then Some (RCODE_COMPLETE, Some True, h)
                     else reread_loop answer speed rom (i + 1) h))
     else Some (RCODE_COMPLETE, Some False, h))"
  by pat_completeness auto
termination
  by (relation "measure (\<lambda>(answer, speed, rom, i, h). 6 - i)") auto

declare reread_loop.simps [simp del]

definition reread_config_rom ::
  "rom_node \<Rightarrow> 'a rom_device_scheme \<Rightarrow> rom_request list \<Rightarrow> (u32 \<times> bool option \<times> rom_request list) option" where
  "reread_config_rom answer dev h =
    (case rd_config_rom dev of
       None \<Rightarrow> None
     | Some rom \<Rightarrow> reread_loop answer (rd_max_speed dev) rom 0 h)"

section \<open>The broadcast channel register\<close>

definition broadcast_channel_offset :: u64 where
  "broadcast_channel_offset = CSR_REGISTER_BASE + 0x234"

definition set_broadcast_channel ::
  "rom_node \<Rightarrow> rom_env \<Rightarrow> 'a rom_device_scheme \<Rightarrow> rom_request list \<Rightarrow> 'a rom_device_scheme \<times> rom_request list" where
  "set_broadcast_channel answer env dev h =
    (if \<not> re_broadcast_channel_allocated env then (dev, h)
     else if \<not> rd_irmc dev \<or> rd_max_rec dev < 8 then (dev, h)
     else
       let (dev, h) =
             (if rd_bc_implemented dev = BC_UNKNOWN then
                let (rcode, q, h) =
                      node_transaction answer (Read_quadlet (rd_max_speed dev) broadcast_channel_offset) h
                in if rcode = RCODE_COMPLETE \<and> bit q 31 then (dev\<lparr>rd_bc_implemented := BC_IMPLEMENTED\<rparr>, h)
                   else if rcode = RCODE_COMPLETE \<or> rcode = RCODE_ADDRESS_ERROR
                        then (dev\<lparr>rd_bc_implemented := BC_UNIMPLEMENTED\<rparr>, h)
                   else (dev, h)
              else (dev, h))
       in if rd_bc_implemented dev = BC_IMPLEMENTED then
            let (rcode, q, h) =
                  node_transaction answer
                    (Write_quadlet (rd_max_speed dev) broadcast_channel_offset (0x8000001f OR 0x40000000)) h
            in (dev, h)
          else (dev, h))"

end
