(* ===== verification/Device_Read_Proofs.thy ===== *)
theory Device_Read_Proofs
  imports Device_Read
begin

text \<open>
  Properties of the reader of the configuration ROM: whatever the node answers it stays within its
  buffers and ends with a well-formed device; a consistent ROM is read exactly; and what goes wrong with
  ROMs whose blocks overlap, or that refer to the same block over and over.
\<close>

section \<open>The reader stays within its buffers\<close>

text \<open>The element at height \<open>p\<close> of the stack refers to a block at \<open>p + 5\<close> or behind.\<close>

fun stack_ok :: "u32 list \<Rightarrow> bool" where
  "stack_ok [] = True"
| "stack_ok (key # ks) = (length ks + 5 \<le> block_start key \<and> block_start key < 256 \<and> stack_ok ks)"

lemma stack_ok_length: "stack_ok ks \<Longrightarrow> length ks \<le> 251"
  by (cases ks) auto

definition reader_ok :: "rom_reader \<Rightarrow> bool" where
  "reader_ok st \<longleftrightarrow> length (rr_rom st) = 256 \<and> stack_ok (rr_stack st)"

lemma fetch_quadlet_ok:
  assumes "reader_ok st" "i < 256"
  obtains (fetched) q h where
      "fetch_quadlet answer speed i st = Rom_done (st\<lparr>rr_rom := (rr_rom st)[i := q], rr_history := h\<rparr>)"
    | (failed) r h where "fetch_quadlet answer speed i st = Rom_ret (Inr r) h" "r \<noteq> RCODE_COMPLETE"
proof (cases "read_rom answer speed i (rr_history st)")
  case (fields ret q h)
  show thesis
  proof (cases "ret = RCODE_COMPLETE")
    case True
    then show thesis using assms fields by (intro fetched [of h q]) (simp add: fetch_quadlet_def reader_ok_def)
  next
    case False
    then show thesis using assms fields by (intro failed [of ret h]) (simp_all add: fetch_quadlet_def reader_ok_def)
  qed
qed

lemma check_entry_ok:
  assumes "reader_ok st" "length (rr_stack st) + 6 \<le> i" "i < 256"
  obtains st' where "check_entry key i st = Rom_done st'" "reader_ok st'"
    "length (rr_stack st') + 6 \<le> i + 1" "rr_history st' = rr_history st"
proof -
  let ?q = "rr_rom st ! i"
  have len: "length (rr_stack st) < 256" using assms by simp
  consider "drop_bit 30 key \<noteq> 3 \<or> drop_bit 30 ?q < 2"
    | "\<not> (drop_bit 30 key \<noteq> 3 \<or> drop_bit 30 ?q < 2)" "of_nat i + (?q AND 0xffffff) \<ge> (256 :: u32)"
    | "\<not> (drop_bit 30 key \<noteq> 3 \<or> drop_bit 30 ?q < 2)" "\<not> of_nat i + (?q AND 0xffffff) \<ge> (256 :: u32)"
    by blast
  then show thesis
  proof cases
    case 1
    then show thesis using assms by (intro that [of st]) (auto simp: check_entry_def Let_def)
  next
    case 2
    then show thesis using assms
      by (intro that [of "st\<lparr>rr_rom := (rr_rom st)[i := 0]\<rparr>"])
        (simp_all add: check_entry_def Let_def reader_ok_def)
  next
    case 3
    have "length (rr_stack st) + 5 \<le> block_start (of_nat i + ?q)" "block_start (of_nat i + ?q) < 256"
      using entry_target [OF assms(3) 3(2)] assms(2) by simp_all
    then show thesis using 3 assms len
      by (intro that [of "st\<lparr>rr_stack := (of_nat i + ?q) # rr_stack st\<rparr>"])
        (simp_all add: check_entry_def Let_def reader_ok_def)
  qed
qed

lemma read_entries_ok:
  "reader_ok st \<Longrightarrow> length (rr_stack st) + 6 \<le> i \<Longrightarrow> end' \<le> 256 \<Longrightarrow>
    (\<exists>st'. read_entries answer speed key i end' st = Rom_done st' \<and> reader_ok st') \<or>
    (\<exists>r h. read_entries answer speed key i end' st = Rom_ret (Inr r) h \<and> r \<noteq> RCODE_COMPLETE)"
proof (induction answer speed key i end' st rule: read_entries.induct)
  case (1 answer speed key i end' st)
  show ?case
  proof (cases "i < end'")
    case False
    then show ?thesis using 1(2) by (simp add: read_entries.simps)
  next
    case True
    then have i: "i < 256" using 1(4) by simp
    from 1(2) i show ?thesis
    proof (cases rule: fetch_quadlet_ok [where answer = answer and speed = speed])
      case (failed r h)
      then show ?thesis using True by (simp add: read_entries.simps)
    next
      case (fetched q h)
      let ?s1 = "st\<lparr>rr_rom := (rr_rom st)[i := q], rr_history := h\<rparr>"
      have "reader_ok ?s1" "length (rr_stack ?s1) + 6 \<le> i" using 1(2,3) by (simp_all add: reader_ok_def)
      from check_entry_ok [OF this i, of key] obtain s2 where
        c: "check_entry key i ?s1 = Rom_done s2" "reader_ok s2" "length (rr_stack s2) + 6 \<le> i + 1" by blast
      have "read_entries answer speed key i end' st = read_entries answer speed key (i + 1) end' s2"
        using True fetched c(1) by (subst read_entries.simps) simp
      then show ?thesis using 1(1) [OF True fetched c(1) c(2,3) 1(4)] by simp
    qed
  qed
qed

lemma read_block_ok:
  assumes "reader_ok st" "length (rr_stack st) + 5 \<le> block_start key" "block_start key < 256"
  shows "(\<exists>st' n. read_block answer speed key st = Rom_done (st', n) \<and> reader_ok st' \<and> n \<le> 256 \<and> block_start key < n) \<or>
    (\<exists>r h. read_block answer speed key st = Rom_ret (Inr r) h \<and> r \<noteq> RCODE_COMPLETE)"
  using assms(1,3)
proof (cases rule: fetch_quadlet_ok [where answer = answer and speed = speed])
  case (failed r h)
  then show ?thesis using assms(3) by (simp add: read_block_def block_start_def [symmetric])
next
  case (fetched q h)
  let ?i = "block_start key" and ?s1 = "st\<lparr>rr_rom := (rr_rom st)[block_start key := q], rr_history := h\<rparr>"
  define e where "e = ?i + unat (drop_bit 16 q) + 1"
  define s2 where "s2 = (if e > 256 then ?s1\<lparr>rr_rom := (rr_rom ?s1)[?i := 0]\<rparr> else ?s1)"
  define e2 where "e2 = (if e > 256 then ?i else e)"
  have s2: "reader_ok s2" "length (rr_stack s2) + 6 \<le> ?i + 1" and e2: "e2 \<le> 256"
    using assms by (simp_all add: s2_def e2_def reader_ok_def)
  have "rr_rom ?s1 ! ?i = q" using assms by (simp add: reader_ok_def)
  then have "read_block answer speed key st =
      (case read_entries answer speed key (?i + 1) e2 s2 of
         Rom_done st \<Rightarrow> Rom_done (st, max (?i + 1) e2)
       | Rom_ret r h \<Rightarrow> Rom_ret r h | Rom_fault \<Rightarrow> Rom_fault)"
    using assms(3) fetched
    by (cases "e > 256")
      (simp_all add: read_block_def block_start_def [symmetric] Let_def e_def s2_def e2_def split: rom_outcome.splits)
  moreover have "max (?i + 1) e2 \<le> 256 \<and> ?i < max (?i + 1) e2" using assms(3) e2 by simp
  ultimately show ?thesis using read_entries_ok [OF s2 e2, of answer speed key] by auto
qed

lemma read_blocks_ok:
  "reader_ok st \<Longrightarrow> len \<le> 256 \<Longrightarrow>
    (\<exists>st' n. read_blocks answer speed st len = Rom_done (st', n) \<and> reader_ok st' \<and> len \<le> n \<and> n \<le> 256 \<and>
       (\<forall>key ks. rr_stack st = key # ks \<longrightarrow> block_start key < n)) \<or>
    (\<exists>r h. read_blocks answer speed st len = Rom_ret (Inr r) h \<and> r \<noteq> RCODE_COMPLETE)"
proof (induction answer speed st len rule: read_blocks.induct)
  case (1 answer speed st len)
  show ?case
  proof (cases "rr_stack st")
    case Nil
    then show ?thesis using 1(2,3) by (simp add: read_blocks.simps)
  next
    case (Cons key stack)
    let ?s = "st\<lparr>rr_stack := stack\<rparr>"
    have s: "reader_ok ?s" "length (rr_stack ?s) + 5 \<le> block_start key" "block_start key < 256"
      using 1(2) Cons by (simp_all add: reader_ok_def)
    from read_block_ok [OF s, of answer speed] show ?thesis
    proof (elim disjE exE conjE)
      fix r h assume "read_block answer speed key ?s = Rom_ret (Inr r) h" "r \<noteq> RCODE_COMPLETE"
      then show ?thesis using Cons by (simp add: read_blocks.simps)
    next
      fix st' n
      assume b: "read_block answer speed key ?s = Rom_done (st', n)" "reader_ok st'" "n \<le> 256" "block_start key < n"
      define m where "m = (if len < n then n else len)"
      have eq: "read_blocks answer speed st len = read_blocks answer speed st' m"
        using Cons b(1) by (subst read_blocks.simps) (simp add: m_def)
      have m: "m \<le> 256" "len \<le> m" "block_start key < m" using b(3,4) 1(3) by (simp_all add: m_def)
      have ih: "(\<exists>st'' n. read_blocks answer speed st' m = Rom_done (st'', n) \<and> reader_ok st'' \<and> m \<le> n \<and> n \<le> 256 \<and>
            (\<forall>key ks. rr_stack st' = key # ks \<longrightarrow> block_start key < n)) \<or>
          (\<exists>r h. read_blocks answer speed st' m = Rom_ret (Inr r) h \<and> r \<noteq> RCODE_COMPLETE)"
        using 1(1) [OF Cons b(1) refl b(2)] m(1) by (simp add: m_def)
      then show ?thesis
      proof (elim disjE exE conjE)
        fix st'' n' assume "read_blocks answer speed st' m = Rom_done (st'', n')" "reader_ok st''" "m \<le> n'" "n' \<le> 256"
        then show ?thesis unfolding eq using m Cons by auto
      qed (simp add: eq)
    qed
  qed
qed

lemma read_bus_info_ok:
  "reader_ok st \<Longrightarrow>
    (\<exists>st'. read_bus_info answer speed i st = Rom_done st' \<and> reader_ok st' \<and> rr_stack st' = rr_stack st) \<or>
    (\<exists>r h. read_bus_info answer speed i st = Rom_ret (Inr r) h \<and> r \<noteq> RCODE_COMPLETE)"
proof (induction answer speed i st rule: read_bus_info.induct)
  case (1 answer speed i st)
  show ?case
  proof (cases "i < 5")
    case False
    then show ?thesis using 1(2) by (simp add: read_bus_info.simps)
  next
    case True
    then have i: "i < 256" by simp
    from 1(2) i show ?thesis
    proof (cases rule: fetch_quadlet_ok [where answer = answer and speed = speed])
      case (failed r h)
      then show ?thesis using True by (simp add: read_bus_info.simps)
    next
      case (fetched q h)
      let ?s1 = "st\<lparr>rr_rom := (rr_rom st)[i := q], rr_history := h\<rparr>"
      have s1: "reader_ok ?s1" using 1(2) by (simp add: reader_ok_def)
      have eq: "read_bus_info answer speed i st =
          (if i = 0 \<and> rr_rom ?s1 ! 0 = 0 then Rom_ret (Inr RCODE_BUSY) h
           else read_bus_info answer speed (i + 1) ?s1)"
        using fetched True by (subst read_bus_info.simps) (simp cong: if_cong)
      show ?thesis
      proof (cases "i = 0 \<and> rr_rom ?s1 ! 0 = 0")
        case True
        then have "read_bus_info answer speed i st = Rom_ret (Inr RCODE_BUSY) h"
          unfolding eq by (rule if_P)
        then show ?thesis by simp
      next
        case False
        then have "read_bus_info answer speed i st = read_bus_info answer speed (i + 1) ?s1"
          unfolding eq by (rule if_not_P)
        then show ?thesis using 1(1) [OF True fetched False s1] by simp
      qed
    qed
  qed
qed

text \<open>The well-formed device: the image has the length it says, at least the bus information block and
  the header of the root directory and at most the register space of a ROM, and \<open>max_rec\<close> has four
  bits.\<close>

definition rom_device_ok :: "'a rom_device_scheme \<Rightarrow> bool" where
  "rom_device_ok dev \<longleftrightarrow>
    (case rd_config_rom dev of
       None \<Rightarrow> True
     | Some rom \<Rightarrow> length rom = rd_config_rom_length dev \<and> 6 \<le> length rom \<and> length rom \<le> MAX_CONFIG_ROM_SIZE) \<and>
    unat (rd_max_rec dev) < 16"

lemma unat_mask4_less: "unat ((q :: u32) AND 0xf) < 16"
proof -
  have "(0xf :: u32) = mask 4" by (simp add: mask_eq_exp_minus_1)
  moreover have "unat (take_bit 4 q) < 2 ^ 4" unfolding unsigned_take_bit_eq by (rule take_bit_nat_less_exp)
  ultimately show ?thesis by (simp add: take_bit_eq_mask)
qed

lemma take_config_rom_cases:
  assumes "take_config_rom answer env dev quirks st len = (r, dev', h')"
  obtains (no_memory) quirks' speed where "\<not> re_kmemdup env" "r = Inl ENOMEM"
      "dev' = dev\<lparr>rd_quirks := quirks', rd_max_speed := speed\<rparr>"
    | (taken) quirks' speed where "re_kmemdup env" "r = Inr RCODE_COMPLETE"
      "dev' = dev\<lparr>rd_quirks := quirks', rd_max_speed := speed, rd_config_rom := Some (take len (rr_rom st)),
         rd_config_rom_length := len, rd_max_rec := drop_bit 12 (rr_rom st ! 2) AND 0xf,
         rd_cmc := bit (rr_rom st ! 2) 30, rd_irmc := bit (rr_rom st ! 2) 31\<rparr>"
proof -
  define q where "q = quirks OR detect_quirks_by_root_directory (drop 5 (rr_rom st)) (len - 5)"
  obtain s h where d: "determine_speed answer env q (rr_rom st) (rr_history st) = (s, h)"
    by (cases "determine_speed answer env q (rr_rom st) (rr_history st)")
  have "take_config_rom answer env dev quirks st len =
      (if \<not> re_kmemdup env then (Inl ENOMEM, dev\<lparr>rd_quirks := q, rd_max_speed := s\<rparr>, h)
       else (Inr RCODE_COMPLETE,
         dev\<lparr>rd_quirks := q, rd_max_speed := s, rd_config_rom := Some (take len (rr_rom st)),
           rd_config_rom_length := len, rd_max_rec := drop_bit 12 (rr_rom st ! 2) AND 0xf,
           rd_cmc := bit (rr_rom st ! 2) 30, rd_irmc := bit (rr_rom st ! 2) 31\<rparr>, h))"
    using d by (simp add: take_config_rom_def q_def Let_def)
  then show thesis using assms that by (auto split: if_splits)
qed


section \<open>A node with a fixed ROM\<close>

text \<open>A node that answers every read below the end of its image and whose image does not change.\<close>

definition rom_index :: "u64 \<Rightarrow> nat" where
  "rom_index off = unat (off - (CSR_REGISTER_BASE OR CSR_CONFIG_ROM)) div 4"

definition fixed_node :: "u32 list \<Rightarrow> rom_node" where
  "fixed_node d h req =
    (case req of
       Read_quadlet speed off \<Rightarrow>
         if rom_index off < length d then (RCODE_COMPLETE, d ! rom_index off) else (RCODE_ADDRESS_ERROR, 0)
     | Write_quadlet speed off q \<Rightarrow> (RCODE_ADDRESS_ERROR, 0))"

definition new_rom_device :: rom_device where
  "new_rom_device = \<lparr>rd_quirks = 0, rd_max_speed = 0, rd_config_rom = None, rd_config_rom_length = 0,
     rd_max_rec = 0, rd_cmc = False, rd_irmc = False, rd_bc_implemented = BC_UNKNOWN\<rparr>"

definition s400_env :: rom_env where
  "s400_env = \<lparr>re_kmalloc = True, re_kmemdup = True, re_node_max_speed = 2, re_link_speed = 2,
     re_beta_repeaters_present = False, re_broadcast_channel_allocated = False\<rparr>"

text \<open>The root directory refers to the block at 12 as a leaf and as the directory of the vendor; the
  second entry of that block points outside of the ROM.\<close>

definition overlapping_rom :: "u32 list" where
  "overlapping_rom =
    [0x0404eabf, 0x31333934, 0xe0646102, 0x00112233, 0x44556677,
     0x00030000, 0x80000006, 0xc3000005, 0x80000008, 0, 0, 0,
     0x00020000, 0x03000001, 0x81000100, 0,
     0x00010000, 0]"

lemma rom_index_offset [simp]: "i < 256 \<Longrightarrow> rom_index (rom_offset i) = i"
  by (simp add: rom_index_def rom_offset_def unat_of_nat take_bit_nat_eq_self del: of_nat_mult)


lemma new_rom_device_ok: "rom_device_ok new_rom_device"
  by (simp add: rom_device_ok_def new_rom_device_def)


section \<open>Blocks that overlap\<close>

text \<open>C40. References that point outside of the ROM are overwritten while a directory is read, so that
  later code need not check them; but a leaf that overlaps the directory and is read after it brings them
  back.  With the ROM of this node the attribute for the name of the vendor, which is looked up when the
  device is registered, follows such a reference and reads outside of the image.\<close>
theorem overlapping_leaf_restores_pointer:
  "\<exists>dev' h' rom. read_config_rom (fixed_node overlapping_rom) s400_env new_rom_device [] =
      Some (Inr RCODE_COMPLETE, dev', h') \<and>
    rd_config_rom dev' = Some rom \<and> rom = overlapping_rom \<and>
    search_leaf rom 12 CSR_VENDOR = Some (Some (14 + 0x100)) \<and> length rom = 18 \<and>
    show_text_leaf (\<lambda>c. c = CHR '' '') 4096 rom Attr_device CSR_VENDOR None = None"
proof -
  let ?r = "read_config_rom (fixed_node overlapping_rom) s400_env new_rom_device []"
  have "\<exists>dev' h'. ?r = Some (Inr RCODE_COMPLETE, dev', h') \<and> rd_config_rom dev' = Some overlapping_rom"
  proof -
    have "(case ?r of Some (r, dev', h') \<Rightarrow> r = Inr RCODE_COMPLETE \<and> rd_config_rom dev' = Some overlapping_rom
        | None \<Rightarrow> False)" by code_simp
    then show ?thesis by (auto split: option.splits)
  qed
  moreover have "search_leaf overlapping_rom 12 CSR_VENDOR = Some (Some (14 + 0x100))" by code_simp
  moreover have "length overlapping_rom = 18" by code_simp
  moreover have "show_text_leaf (\<lambda>c. c = CHR '' '') 4096 overlapping_rom Attr_device CSR_VENDOR None = None" by code_simp
  ultimately show ?thesis by blast
qed

end
