(* ===== verification/Device_Exact.thy ===== *)
theory Device_Exact
  imports Device_Read_Proofs
begin

text \<open>
  A node whose configuration ROM is consistent and does not change is read exactly: the image of the
  device holds every block that can be reached from the root directory, as the node serves it, and
  nothing else.
\<close>

section \<open>Reachable blocks\<close>

definition block_len :: "u32 list \<Rightarrow> u32 \<Rightarrow> nat" where
  "block_len d key = unat (drop_bit 16 (d ! block_start key))"

definition is_pointer :: "u32 list \<Rightarrow> u32 \<Rightarrow> nat \<Rightarrow> bool" where
  "is_pointer d key i \<longleftrightarrow> drop_bit 30 key = 3 \<and> \<not> drop_bit 30 (d ! i) < 2"

inductive rom_block :: "u32 list \<Rightarrow> u32 \<Rightarrow> bool" for d where
  root: "rom_block d 0xc0000005"
| entry: "rom_block d key \<Longrightarrow> block_start key < i \<Longrightarrow> i \<le> block_start key + block_len d key \<Longrightarrow>
    is_pointer d key i \<Longrightarrow> rom_block d (of_nat i + d ! i)"

text \<open>All blocks and all references end within the image.\<close>

definition rom_closed :: "u32 list \<Rightarrow> bool" where
  "rom_closed d \<longleftrightarrow> length d \<le> 256 \<and>
    (\<forall>key. rom_block d key \<longrightarrow> block_start key + block_len d key < length d \<and>
       (\<forall>i. block_start key < i \<and> i \<le> block_start key + block_len d key \<and> is_pointer d key i \<longrightarrow>
          i + unat (d ! i AND 0xffffff) < length d))"

definition block_span :: "u32 list \<Rightarrow> u32 \<Rightarrow> nat set" where
  "block_span d key = {block_start key .. block_start key + block_len d key}"

definition rom_reached :: "u32 list \<Rightarrow> nat \<Rightarrow> bool" where
  "rom_reached d i \<longleftrightarrow> i < 5 \<or> (\<exists>key. rom_block d key \<and> i \<in> block_span d key)"

definition node_serves :: "rom_node \<Rightarrow> u32 list \<Rightarrow> bool" where
  "node_serves answer d \<longleftrightarrow>
    (\<forall>h i. i < length d \<longrightarrow> answer h (Read_quadlet SCODE_100 (rom_offset i)) = (RCODE_COMPLETE, d ! i))"

lemma fixed_node_serves: "length d \<le> 256 \<Longrightarrow> node_serves (fixed_node d) d"
  by (simp add: node_serves_def fixed_node_def)

section \<open>The loops over the bus\<close>

text \<open>The image with the quadlets at the positions \<open>R\<close> read and zeros elsewhere.\<close>

definition rom_with :: "u32 list \<Rightarrow> nat set \<Rightarrow> u32 list" where
  "rom_with d R = map (\<lambda>i. if i \<in> R then d ! i else 0) [0..<256]"

lemma length_rom_with [simp]: "length (rom_with d R) = 256"
  by (simp add: rom_with_def)

lemma nth_rom_with [simp]: "i < 256 \<Longrightarrow> rom_with d R ! i = (if i \<in> R then d ! i else 0)"
  by (simp add: rom_with_def)

lemma rom_with_update: "(rom_with d R)[i := d ! i] = rom_with d (insert i R)"
proof (rule nth_equalityI)
  fix j assume "j < length ((rom_with d R)[i := d ! i])"
  then show "(rom_with d R)[i := d ! i] ! j = rom_with d (insert i R) ! j"
    by (cases "j = i") simp_all
qed simp

lemma fetch_quadlet_serves:
  assumes "node_serves answer d" "i < length d" "length d \<le> 256" "rr_rom st = rom_with d R"
  shows "\<exists>h. fetch_quadlet answer SCODE_100 i st = Rom_done (st\<lparr>rr_rom := rom_with d (insert i R), rr_history := h\<rparr>)"
proof -
  have "read_rom answer SCODE_100 i h =
      (RCODE_COMPLETE, d ! i, Read_quadlet SCODE_100 (rom_offset i) # h)" for h
    using assms(1,2) by (subst read_rom_def, subst read_rom_tries.simps)
      (simp add: node_serves_def node_transaction_def)
  then show ?thesis using assms
    by (intro exI [of _ "Read_quadlet SCODE_100 (rom_offset i) # rr_history st"])
      (simp add: fetch_quadlet_def rom_with_update)
qed

text \<open>The references that a block puts on the stack, the last one on top.\<close>

definition targets :: "u32 list \<Rightarrow> u32 \<Rightarrow> nat \<Rightarrow> nat \<Rightarrow> u32 list" where
  "targets d key i e = rev (map (\<lambda>i. of_nat i + d ! i) (filter (is_pointer d key) [i..<e]))"

lemma targets_step:
  "i < e \<Longrightarrow> targets d key i e = targets d key (i + 1) e @ (if is_pointer d key i then [of_nat i + d ! i] else [])"
  by (simp add: targets_def upt_conv_Cons)

lemma pointer_inside:
  assumes "i + unat (q AND 0xffffff) < 256"
  shows "\<not> (of_nat i + (q AND 0xffffff) \<ge> (256 :: u32))"
proof -
  have "unat (of_nat i :: u32) = i" using assms by (simp add: unat_of_nat take_bit_nat_eq_self)
  then have "unat (of_nat i + (q AND 0xffffff)) = i + unat (q AND 0xffffff)"
    using assms by (subst unat_add_lem [THEN iffD1]) simp_all
  then show ?thesis using assms by (simp add: word_le_nat_alt)
qed

lemma check_entry_serves:
  assumes "rr_rom st = rom_with d R" "i \<in> R" "i < length d" "length d \<le> 256" "length (rr_stack st) < 256"
    "is_pointer d key i \<Longrightarrow> i + unat (d ! i AND 0xffffff) < length d"
  shows "check_entry key i st =
    Rom_done (st\<lparr>rr_stack := (if is_pointer d key i then [of_nat i + d ! i] else []) @ rr_stack st\<rparr>)"
proof (cases "is_pointer d key i")
  case False
  then show ?thesis using assms by (simp add: check_entry_def is_pointer_def Let_def)
next
  case True
  let ?off = "d ! i AND 0xffffff"
  have "i + unat ?off < 256" using assms(4,6) True by simp
  then have "\<not> (of_nat i + ?off \<ge> (256 :: u32))" by (rule pointer_inside)
  then show ?thesis using assms True by (simp add: check_entry_def is_pointer_def Let_def)
qed

lemma read_entries_serves:
  assumes d: "node_serves answer d" "length d \<le> 256" "e \<le> length d"
  shows "i \<le> e \<Longrightarrow> rr_rom st = rom_with d R \<Longrightarrow> length (rr_stack st) + 6 \<le> i \<Longrightarrow>
    (\<And>j. i \<le> j \<Longrightarrow> j < e \<Longrightarrow> is_pointer d key j \<Longrightarrow> j + unat (d ! j AND 0xffffff) < length d) \<Longrightarrow>
    \<exists>h. read_entries answer SCODE_100 key i e st =
      Rom_done (st\<lparr>rr_rom := rom_with d (R \<union> {i..<e}), rr_stack := targets d key i e @ rr_stack st, rr_history := h\<rparr>)"
proof (induction "e - i" arbitrary: i st R)
  case 0
  then have "i = e" by simp
  then show ?case using 0 by (intro exI [of _ "rr_history st"]) (simp add: read_entries.simps targets_def)
next
  case (Suc n)
  then have ie: "i < e" and il: "i < length d" and i256: "i < 256" using d by simp_all
  obtain h where f: "fetch_quadlet answer SCODE_100 i st =
      Rom_done (st\<lparr>rr_rom := rom_with d (insert i R), rr_history := h\<rparr>)"
    using fetch_quadlet_serves [OF d(1) il d(2) Suc(4)] by blast
  let ?s1 = "st\<lparr>rr_rom := rom_with d (insert i R), rr_history := h\<rparr>"
  let ?s2 = "?s1\<lparr>rr_stack := (if is_pointer d key i then [of_nat i + d ! i] else []) @ rr_stack st\<rparr>"
  have c: "check_entry key i ?s1 = Rom_done ?s2"
    using check_entry_serves [of ?s1 d "insert i R" i key] il d(2) Suc(5,6) ie i256 by simp
  have "\<exists>h. read_entries answer SCODE_100 key (i + 1) e ?s2 =
      Rom_done (?s2\<lparr>rr_rom := rom_with d (insert i R \<union> {i + 1..<e}),
        rr_stack := targets d key (i + 1) e @ rr_stack ?s2, rr_history := h\<rparr>)"
    using Suc(2) ie Suc(5,6) by (intro Suc(1)) auto
  moreover have "insert i R \<union> {i + 1..<e} = R \<union> {i..<e}" using ie by auto
  moreover have "read_entries answer SCODE_100 key i e st = read_entries answer SCODE_100 key (i + 1) e ?s2"
    using ie f c by (subst read_entries.simps) simp
  ultimately show ?case using targets_step [OF ie, of d key] by auto
qed

lemma rom_closedD:
  assumes "rom_closed d" "rom_block d key"
  shows "block_start key + block_len d key < length d" "length d \<le> 256" "block_start key < 256"
    "block_start key < i \<Longrightarrow> i \<le> block_start key + block_len d key \<Longrightarrow> is_pointer d key i \<Longrightarrow>
       i + unat (d ! i AND 0xffffff) < length d"
  using assms unfolding rom_closed_def by (blast, blast, force, blast)

definition block_targets :: "u32 list \<Rightarrow> u32 \<Rightarrow> u32 list" where
  "block_targets d key = targets d key (block_start key + 1) (block_start key + block_len d key + 1)"

lemma set_block_targets:
  "set (block_targets d key) = {of_nat i + d ! i | i. block_start key < i \<and> i \<le> block_start key + block_len d key \<and> is_pointer d key i}"
  by (auto simp: block_targets_def targets_def)

lemma read_block_serves:
  assumes d: "node_serves answer d" "rom_closed d" "rom_block d key"
    and st: "rr_rom st = rom_with d R" "length (rr_stack st) + 5 \<le> block_start key"
  shows "\<exists>h. read_block answer SCODE_100 key st =
    Rom_done (st\<lparr>rr_rom := rom_with d (R \<union> block_span d key), rr_stack := block_targets d key @ rr_stack st,
      rr_history := h\<rparr>, block_start key + block_len d key + 1)"
proof -
  let ?i = "block_start key"
  let ?e = "?i + block_len d key + 1"
  note c = rom_closedD [OF d(2,3)]
  obtain h where f: "fetch_quadlet answer SCODE_100 ?i st =
      Rom_done (st\<lparr>rr_rom := rom_with d (insert ?i R), rr_history := h\<rparr>)"
    using fetch_quadlet_serves [OF d(1) _ c(2) st(1), of ?i] c(1) by auto
  let ?s1 = "st\<lparr>rr_rom := rom_with d (insert ?i R), rr_history := h\<rparr>"
  have e: "?i + unat (drop_bit 16 (rr_rom ?s1 ! ?i)) + 1 = ?e" using c(3) by (simp add: block_len_def)
  have "?e \<le> length d" using c(1) by simp
  then have "\<exists>h. read_entries answer SCODE_100 key (?i + 1) ?e ?s1 =
      Rom_done (?s1\<lparr>rr_rom := rom_with d (insert ?i R \<union> {?i + 1..<?e}),
        rr_stack := targets d key (?i + 1) ?e @ rr_stack ?s1, rr_history := h\<rparr>)"
    using st(2) c(4) by (intro read_entries_serves [OF d(1) c(2)]) auto
  moreover have "insert ?i R \<union> {?i + 1..<?e} = R \<union> block_span d key" by (auto simp: block_span_def)
  moreover have "read_block answer SCODE_100 key st =
      (case read_entries answer SCODE_100 key (?i + 1) ?e ?s1 of
         Rom_done st \<Rightarrow> Rom_done (st, ?e)
       | Rom_ret r h \<Rightarrow> Rom_ret r h | Rom_fault \<Rightarrow> Rom_fault)"
    using c(1,2,3) f e by (simp add: read_block_def block_start_def [symmetric] Let_def split: rom_outcome.splits)
  ultimately show ?thesis by (auto simp: block_targets_def)
qed

text \<open>What has been read after the blocks \<open>P\<close>: the bus information block and these blocks; every
  reference they hold has been followed or is on the stack.\<close>

definition blocks_read :: "u32 list \<Rightarrow> u32 set \<Rightarrow> rom_reader \<Rightarrow> nat \<Rightarrow> bool" where
  "blocks_read d P st len \<longleftrightarrow> reader_ok st \<and>
    rr_rom st = rom_with d ({..<5} \<union> (\<Union>key \<in> P. block_span d key)) \<and>
    P \<subseteq> Collect (rom_block d) \<and> set (rr_stack st) \<subseteq> Collect (rom_block d) \<and>
    0xc0000005 \<in> P \<union> set (rr_stack st) \<and>
    (\<forall>key \<in> P. set (block_targets d key) \<subseteq> P \<union> set (rr_stack st)) \<and>
    5 \<le> len \<and> len \<le> 256 \<and>
    (\<forall>key \<in> P. block_start key + block_len d key < len) \<and>
    (len = 5 \<or> (\<exists>key \<in> P. len = block_start key + block_len d key + 1))"

lemma blocks_read_step:
  assumes d: "node_serves answer d" "rom_closed d"
    and r: "blocks_read d P st len" "rr_stack st = key # stack"
  shows "\<exists>st' n. read_block answer SCODE_100 key (st\<lparr>rr_stack := stack\<rparr>) = Rom_done (st', n) \<and>
    blocks_read d (insert key P) st' (if len < n then n else len)"
proof -
  let ?s = "st\<lparr>rr_stack := stack\<rparr>" and ?R = "{..<5} \<union> (\<Union>key \<in> P. block_span d key)"
  let ?n = "block_start key + block_len d key + 1"
  have k: "rom_block d key" and ok: "reader_ok ?s" "length (rr_stack ?s) + 5 \<le> block_start key" "block_start key < 256"
    using r by (auto simp: blocks_read_def reader_ok_def)
  have "rr_rom ?s = rom_with d ?R" using r(1) by (simp add: blocks_read_def)
  from read_block_serves [OF d k this ok(2)] obtain h where
    b: "read_block answer SCODE_100 key ?s =
      Rom_done (?s\<lparr>rr_rom := rom_with d (?R \<union> block_span d key), rr_stack := block_targets d key @ stack,
        rr_history := h\<rparr>, ?n)" by auto
  let ?s' = "?s\<lparr>rr_rom := rom_with d (?R \<union> block_span d key), rr_stack := block_targets d key @ stack, rr_history := h\<rparr>"
  have ok': "reader_ok ?s'"
    using read_block_ok [OF ok, of answer SCODE_100] unfolding b by auto
  have n: "?n \<le> 256" using rom_closedD(1,2) [OF d(2) k] by simp
  have t: "set (block_targets d key) \<subseteq> Collect (rom_block d)"
    using k by (auto simp: set_block_targets intro: rom_block.entry)
  have u: "?R \<union> block_span d key = {..<5} \<union> (\<Union>key \<in> insert key P. block_span d key)" by auto
  have stack: "set stack \<subseteq> Collect (rom_block d)" "P \<subseteq> Collect (rom_block d)"
    "0xc0000005 \<in> P \<union> insert key (set stack)"
    "\<forall>key' \<in> P. set (block_targets d key') \<subseteq> P \<union> insert key (set stack)"
    using r by (auto simp: blocks_read_def)
  have len: "5 \<le> len" "len \<le> 256" "\<forall>key \<in> P. block_start key + block_len d key < len"
    "len = 5 \<or> (\<exists>key \<in> P. len = block_start key + block_len d key + 1)"
    using r(1) by (auto simp: blocks_read_def)
  let ?m = "if len < ?n then ?n else len"
  have m: "5 \<le> ?m" "?m \<le> 256" "\<forall>key' \<in> insert key P. block_start key' + block_len d key' < ?m"
    "?m = 5 \<or> (\<exists>key' \<in> insert key P. ?m = block_start key' + block_len d key' + 1)"
    using len n by auto
  have "blocks_read d (insert key P) ?s' ?m"
    unfolding blocks_read_def u using ok' k t stack m by (simp add: u) blast
  then show ?thesis using b by blast
qed

lemma read_blocks_serves:
  assumes d: "node_serves answer d" "rom_closed d"
  shows "blocks_read d P st len \<Longrightarrow>
    \<exists>P st' n. read_blocks answer SCODE_100 st len = Rom_done (st', n) \<and> blocks_read d P st' n \<and> rr_stack st' = []"
proof (induction "stack_weight (rr_stack st)" arbitrary: P st len rule: less_induct)
  case less
  show ?case
  proof (cases "rr_stack st")
    case Nil
    then show ?thesis using less(2) by (auto simp: read_blocks.simps)
  next
    case (Cons key stack)
    then obtain st' n where b: "read_block answer SCODE_100 key (st\<lparr>rr_stack := stack\<rparr>) = Rom_done (st', n)"
      "blocks_read d (insert key P) st' (if len < n then n else len)"
      using blocks_read_step [OF d less(2)] by blast
    have "stack_weight (rr_stack st') < stack_weight (rr_stack st)"
      using read_block_weight [OF b(1)] Cons by simp
    from less(1) [OF this b(2)]
    show ?thesis using Cons b(1) by (subst read_blocks.simps) simp
  qed
qed

lemma blocks_read_all:
  assumes "blocks_read d P st len" "rr_stack st = []"
  shows "P = Collect (rom_block d)"
proof -
  have "key \<in> P" if "rom_block d key" for key
    using that
  proof induction
    case root
    then show ?case using assms by (simp add: blocks_read_def)
  next
    case (entry key i)
    then have "of_nat i + d ! i \<in> set (block_targets d key)" by (auto simp: set_block_targets)
    then show ?case using assms entry by (auto simp: blocks_read_def)
  qed
  then show ?thesis using assms by (auto simp: blocks_read_def)
qed

lemma read_bus_info_serves:
  assumes d: "node_serves answer d" "5 \<le> length d" "length d \<le> 256" "d ! 0 \<noteq> 0"
  shows "i \<le> 5 \<Longrightarrow> rr_rom st = rom_with d {..<i} \<Longrightarrow>
    \<exists>h. read_bus_info answer SCODE_100 i st = Rom_done (st\<lparr>rr_rom := rom_with d {..<5}, rr_history := h\<rparr>)"
proof (induction "5 - i" arbitrary: i st)
  case 0
  then have "i = 5" by simp
  then show ?case using 0 by (intro exI [of _ "rr_history st"]) (simp add: read_bus_info.simps)
next
  case (Suc n)
  then have i: "i < 5" by simp
  then have "i < length d" using d(2) by simp
  then obtain h where f: "fetch_quadlet answer SCODE_100 i st =
      Rom_done (st\<lparr>rr_rom := rom_with d (insert i {..<i}), rr_history := h\<rparr>)"
    using fetch_quadlet_serves [OF d(1) _ d(3) Suc(4)] by blast
  let ?s = "st\<lparr>rr_rom := rom_with d {..<i + 1}, rr_history := h\<rparr>"
  have ins: "insert i {..<i} = {..<i + 1}" by auto
  have "\<exists>h. read_bus_info answer SCODE_100 (i + 1) ?s = Rom_done (?s\<lparr>rr_rom := rom_with d {..<5}, rr_history := h\<rparr>)"
    using Suc(2) i by (intro Suc(1)) auto
  moreover have "rr_rom ?s ! 0 \<noteq> 0" using d(4) by simp
  then have "read_bus_info answer SCODE_100 i st = read_bus_info answer SCODE_100 (i + 1) ?s"
    using i f unfolding ins by (subst read_bus_info.simps) simp
  ultimately show ?case by simp
qed

section \<open>The image of the device\<close>

text \<open>The image after a consistent ROM has been read.\<close>

lemma consistent_rom_image:
  assumes "node_serves answer d" "rom_closed d" "d ! 0 \<noteq> 0" "re_kmalloc env" "re_kmemdup env"
  shows "\<exists>dev' h' rom. read_config_rom answer env dev h = Some (Inr RCODE_COMPLETE, dev', h') \<and>
    rd_config_rom dev' = Some rom \<and>
    (\<forall>i. i < length rom \<longrightarrow> rom ! i = (if rom_reached d i then d ! i else 0)) \<and>
    (\<forall>i. rom_reached d i \<longrightarrow> i < length rom) \<and> rom_reached d (length rom - 1)"
proof -
  define s0 where "s0 = \<lparr>rr_rom = replicate 256 0, rr_stack = [], rr_history = h\<rparr>"
  have b5: "block_start 0xc0000005 = 5" by (simp add: block_start_def)
  have len: "5 \<le> length d" "length d \<le> 256"
    using rom_closedD(1,2) [OF assms(2) rom_block.root] b5 by simp_all
  have "rr_rom s0 = rom_with d {..<0}"
    by (simp add: s0_def rom_with_def map_replicate_const)
  then obtain h1 where i: "read_bus_info answer SCODE_100 0 s0 =
      Rom_done (s0\<lparr>rr_rom := rom_with d {..<5}, rr_history := h1\<rparr>)"
    using read_bus_info_serves [OF assms(1) len assms(3)] by blast
  define s2 where "s2 = s0\<lparr>rr_rom := rom_with d {..<5}, rr_history := h1, rr_stack := [0xc0000005]\<rparr>"
  have "blocks_read d {} s2 5"
    using b5 by (simp add: blocks_read_def s2_def reader_ok_def rom_block.root)
  from read_blocks_serves [OF assms(1,2) this] obtain P st n where
    b: "read_blocks answer SCODE_100 s2 5 = Rom_done (st, n)" "blocks_read d P st n" "rr_stack st = []"
    by blast
  have P: "P = Collect (rom_block d)" by (rule blocks_read_all [OF b(2,3)])
  have R: "{..<5} \<union> (\<Union>key \<in> P. block_span d key) = Collect (rom_reached d)"
    by (auto simp: P rom_reached_def)
  have rom: "rr_rom st = rom_with d (Collect (rom_reached d))" "n \<le> 256" "5 \<le> n"
    using b(2) R by (simp_all add: blocks_read_def)
  have below: "i < n" if "rom_reached d i" for i
    using that b(2) P by (fastforce simp: blocks_read_def rom_reached_def block_span_def)
  have last: "rom_reached d (n - 1)"
    using b(2) P by (auto simp: blocks_read_def rom_reached_def block_span_def)
  obtain dev1 q where e: "read_config_rom answer env dev h = Some (take_config_rom answer env dev1 q st n)"
    using assms(4) i b(1) by (auto simp: read_config_rom_def s0_def s2_def Let_def)
  obtain r dev' h' where t: "take_config_rom answer env dev1 q st n = (r, dev', h')" by (metis prod_cases3)
  from t show ?thesis
  proof (cases rule: take_config_rom_cases)
    case no_memory
    then show ?thesis using assms(5) by simp
  next
    case taken
    have "rd_config_rom dev' = Some (take n (rr_rom st))" using taken by simp
    moreover have "length (take n (rr_rom st)) = n" using rom by simp
    ultimately show ?thesis using e t taken(2) rom below last by auto
  qed
qed

text \<open>C38. A node that serves a consistent ROM at S100, whatever else it does, is read completely: the
  image ends with the last quadlet of the last block that can be reached from the root directory, holds
  every quadlet of the bus information block and of the reachable blocks as the node serves it, and zeros
  in the gaps.\<close>
theorem consistent_rom_read_exactly:
  assumes "node_serves answer d" "rom_closed d" "d ! 0 \<noteq> 0" "re_kmalloc env" "re_kmemdup env"
  shows "\<exists>dev' h' rom. read_config_rom answer env dev h = Some (Inr RCODE_COMPLETE, dev', h') \<and>
    rd_config_rom dev' = Some rom \<and>
    (\<forall>i. i < length rom \<longrightarrow> rom ! i = (if rom_reached d i then d ! i else 0)) \<and>
    (\<forall>i. rom_reached d i \<longrightarrow> i < length rom) \<and> rom_reached d (length rom - 1)"
  using assms by (rule consistent_rom_image)

text \<open>To check that a given image is consistent it is enough to name its blocks.\<close>

definition blocks_closed :: "u32 list \<Rightarrow> u32 list \<Rightarrow> bool" where
  "blocks_closed d ks \<longleftrightarrow> length d \<le> 256 \<and> 0xc0000005 \<in> set ks \<and>
    list_all (\<lambda>key. block_start key + block_len d key < length d \<and>
      list_all (\<lambda>i. is_pointer d key i \<longrightarrow>
          i + unat (d ! i AND 0xffffff) < length d \<and> of_nat i + d ! i \<in> set ks)
        [block_start key + 1..<block_start key + block_len d key + 1]) ks"

lemma blocks_closedD:
  assumes "blocks_closed d ks"
  shows "rom_block d key \<Longrightarrow> key \<in> set ks" and "rom_closed d"
proof -
  have all: "\<forall>key \<in> set ks. block_start key + block_len d key < length d \<and>
      (\<forall>i \<in> set [block_start key + 1..<block_start key + block_len d key + 1]. is_pointer d key i \<longrightarrow>
        i + unat (d ! i AND 0xffffff) < length d \<and> of_nat i + d ! i \<in> set ks)"
    using assms unfolding blocks_closed_def list_all_iff by blast
  have step: "i + unat (d ! i AND 0xffffff) < length d \<and> of_nat i + d ! i \<in> set ks"
    if "key \<in> set ks" "block_start key < i" "i \<le> block_start key + block_len d key" "is_pointer d key i" for key i
  proof -
    have "i \<in> set [block_start key + 1..<block_start key + block_len d key + 1]" using that(2,3) unfolding set_upt by (simp only: atLeastLessThan_iff) linarith
    then show ?thesis using all that(1,4) by blast
  qed
  show ks: "key \<in> set ks" if "rom_block d key" for key
    using that
  proof induction
    case root
    then show ?case using assms by (simp add: blocks_closed_def)
  qed (use step in blast)
  have "length d \<le> 256" using assms by (simp add: blocks_closed_def)
  then show "rom_closed d" unfolding rom_closed_def using ks step all by blast
qed

text \<open>An AV/C device, from Annex C of its configuration ROM specification; the unit tests of the code
  use the same image.\<close>

definition simple_avc_config_rom :: "u32 list" where
  "simple_avc_config_rom =
    [0x0404eabf, 0x31333934, 0xe0646102, 0xffffffff, 0xffffffff,
     0x00063287, 0x03ffffff, 0x8100000a, 0x17ffffff, 0x8100000e, 0x0c0083c0, 0xd1000001,
     0x0004442d, 0x1200a02d, 0x13010001, 0x17ffffff, 0x81000007,
     0x0005c915, 0x00000000, 0x00000000, 0x56656e64, 0x6f72204e, 0x616d6500,
     0x00057f16, 0x00000000, 0x00000000, 0x4d6f6465, 0x6c204e61, 0x6d650000]"

lemma simple_avc_closed:
  "blocks_closed simple_avc_config_rom [0xc0000005, 0xd100000c, 0x81000011, 0x81000017]"
  by (simp add: blocks_closed_def simple_avc_config_rom_def block_len_def block_start_def is_pointer_def)

lemma simple_avc_start: "simple_avc_config_rom ! 0 \<noteq> 0 \<and> length simple_avc_config_rom \<le> 256"
  by (simp add: simple_avc_config_rom_def)

theorem consistent_rom_read_exactly_witness:
  "\<exists>dev' h' rom. read_config_rom (fixed_node simple_avc_config_rom) s400_env new_rom_device [] =
      Some (Inr RCODE_COMPLETE, dev', h') \<and> rd_config_rom dev' = Some rom \<and>
    (\<forall>i. i < length rom \<longrightarrow> rom ! i = (if rom_reached simple_avc_config_rom i then simple_avc_config_rom ! i else 0)) \<and>
    (\<forall>i. rom_reached simple_avc_config_rom i \<longrightarrow> i < length rom) \<and>
    rom_reached simple_avc_config_rom (length rom - 1)"
  by (rule consistent_rom_read_exactly)
    (use simple_avc_start blocks_closedD(2) [OF simple_avc_closed] in
      \<open>simp_all add: fixed_node_serves s400_env_def\<close>)

end
