(* ===== verification/Device_Attr.thy ===== *)
theory Device_Attr
  imports Device_Exact
begin

text \<open>
  Properties of the functions on the configuration ROM of a device: an attribute is shown exactly when it
  can be read, and for a ROM as the reader leaves it after reading a consistent one no function on
  attributes reads outside of the image or writes behind its page.
\<close>

section \<open>Walking through a directory\<close>

lemma rom_at_Some [simp]: "p < length rom \<Longrightarrow> rom_at rom p = Some (rom ! p)"
  by (simp add: rom_at_def)

text \<open>A walk that stays below the end of the image, and what the entry is at which it leaves the loop.\<close>

lemma csr_walk_cases:
  "ci_p ci \<le> ci_end ci \<Longrightarrow> ci_end ci < length rom \<Longrightarrow>
    (\<exists>s'. csr_walk rom body ci s = Some (Inr s')) \<or>
    (\<exists>r i s'. csr_walk rom body ci s = Some (Inl r) \<and> ci_p ci \<le> i \<and> i < ci_end ci \<and>
       body (ci\<lparr>ci_p := i + 1\<rparr>) (drop_bit 24 (rom ! i)) (rom ! i AND 0xffffff) s' = Inl r)"
proof (induction "ci_end ci - ci_p ci" arbitrary: ci s)
  case 0
  then have "csr_walk rom body ci s = Some (Inr s)"
    by (subst csr_walk.simps) (simp add: fw_csr_iterator_next_def)
  then show ?case by blast
next
  case (Suc n)
  let ?ci = "ci\<lparr>ci_p := ci_p ci + 1\<rparr>"
  let ?b = "body ?ci (drop_bit 24 (rom ! ci_p ci)) (rom ! ci_p ci AND 0xffffff) s"
  have less: "ci_p ci < ci_end ci" using Suc(2) by simp
  then have walk: "csr_walk rom body ci s =
      (case ?b of Inl r \<Rightarrow> Some (Inl r) | Inr s' \<Rightarrow> csr_walk rom body ?ci s')"
    using Suc(4) less by (subst csr_walk.simps) (simp add: fw_csr_iterator_next_def split: sum.split)
  show ?case
  proof (cases ?b)
    case (Inl r)
    then show ?thesis using walk less by auto
  next
    case (Inr s')
    have "n = ci_end ?ci - ci_p ?ci" "ci_p ?ci \<le> ci_end ?ci" "ci_end ?ci < length rom"
      using Suc(2,4) less by simp_all
    from Suc(1) [OF this, of s'] walk Inr show ?thesis by fastforce
  qed
qed

text \<open>A directory that does not end the image.\<close>

definition dir_safe :: "u32 list \<Rightarrow> rom_ptr \<Rightarrow> bool" where
  "dir_safe rom p \<longleftrightarrow> p + 1 + unat (drop_bit 16 (rom ! p)) < length rom"

definition dir_entry :: "u32 list \<Rightarrow> rom_ptr \<Rightarrow> nat \<Rightarrow> bool" where
  "dir_entry rom p i \<longleftrightarrow> p < i \<and> i \<le> p + unat (drop_bit 16 (rom ! p))"

lemma walk_directory:
  assumes "dir_safe rom p"
  obtains (through) ci s' where "fw_csr_iterator_init rom p = Some ci" "csr_walk rom body ci s = Some (Inr s')"
    | (left) ci r i s' where "fw_csr_iterator_init rom p = Some ci" "csr_walk rom body ci s = Some (Inl r)"
        "dir_entry rom p i" "body (ci\<lparr>ci_p := i + 1\<rparr>) (drop_bit 24 (rom ! i)) (rom ! i AND 0xffffff) s' = Inl r"
proof -
  let ?ci = "\<lparr>ci_p = p + 1, ci_end = p + 1 + unat (drop_bit 16 (rom ! p))\<rparr>"
  have init: "fw_csr_iterator_init rom p = Some ?ci"
    using assms by (simp add: fw_csr_iterator_init_def dir_safe_def)
  have "ci_p ?ci \<le> ci_end ?ci" "ci_end ?ci < length rom"
    using assms by (simp_all add: dir_safe_def)
  from csr_walk_cases [OF this, of body s] show thesis
  proof (elim disjE exE conjE)
    fix s' assume "csr_walk rom body ?ci s = Some (Inr s')"
    then show thesis by (rule through [OF init])
  next
    fix r i s'
    assume "csr_walk rom body ?ci s = Some (Inl r)" "ci_p ?ci \<le> i" "i < ci_end ?ci"
      "body (?ci\<lparr>ci_p := i + 1\<rparr>) (drop_bit 24 (rom ! i)) (rom ! i AND 0xffffff) s' = Inl r"
    moreover from this have "dir_entry rom p i" by (simp add: dir_entry_def)
    ultimately show thesis by (intro left [OF init]) simp_all
  qed
qed

lemma csr_scan_safe:
  assumes "dir_safe rom p"
  shows "\<exists>s'. csr_scan rom body p s = Some s'"
  using assms
proof (cases rule: walk_directory [where body = "\<lambda>ci key val s. Inr (body ci key val s) :: unit + _" and s = s])
  case through
  then show ?thesis by (simp add: csr_scan_def)
next
  case left
  then show ?thesis by simp
qed

lemma search_directory_safe:
  assumes "dir_safe rom p"
  shows "search_directory rom p k = Some None \<or>
    (\<exists>i. search_directory rom p k = Some (Some (i + unat (rom ! i AND 0xffffff))) \<and> dir_entry rom p i \<and>
       drop_bit 24 (rom ! i) = (k OR CSR_DIRECTORY))"
  using assms
proof (cases rule: walk_directory
    [where body = "\<lambda>ci key val _. if key = (k OR CSR_DIRECTORY) then Inl (ci_p ci - 1 + unat val) else Inr ()" and s = "()"])
  case through
  then show ?thesis by (simp add: search_directory_def)
next
  case (left ci r i s')
  then show ?thesis by (auto simp: search_directory_def split: if_splits)
qed

lemma search_leaf_safe:
  assumes "dir_safe rom p"
  shows "search_leaf rom p k = Some None \<or>
    (\<exists>i. search_leaf rom p k = Some (Some (i + unat (rom ! i AND 0xffffff))) \<and> dir_entry rom p i \<and>
       drop_bit 24 (rom ! i) = (CSR_DESCRIPTOR OR CSR_LEAF))"
  using assms
proof (cases rule: walk_directory
    [where body = "\<lambda>ci key val last_key. if last_key = k \<and> key = (CSR_DESCRIPTOR OR CSR_LEAF)
       then Inl (ci_p ci - 1 + unat val) else Inr key" and s = 0])
  case through
  then show ?thesis by (simp add: search_leaf_def)
next
  case (left ci r i s')
  then show ?thesis by (auto simp: search_leaf_def split: if_splits)
qed

section \<open>Strings\<close>

definition leaf_safe :: "u32 list \<Rightarrow> rom_ptr \<Rightarrow> bool" where
  "leaf_safe rom p \<longleftrightarrow> p + unat (drop_bit 16 (rom ! p)) < length rom"

text \<open>Copying stays within the leaf and leaves room for the zero byte.\<close>

lemma textual_leaf_copy_safe:
  "0 < n \<Longrightarrow> n \<le> length buf \<Longrightarrow> i \<le> n - 1 \<Longrightarrow> block + quadlets \<le> length rom \<Longrightarrow>
    \<exists>j b. textual_leaf_copy rom block quadlets n i buf = Some (j, b) \<and> j \<le> n - 1 \<and> length b = length buf"
proof (induction rom block quadlets n i buf rule: textual_leaf_copy.induct)
  case (1 rom block quadlets n i buf)
  show ?case
  proof (cases "i < quadlets * 4 \<and> i < n - 1")
    case False
    then show ?thesis using 1(4) by (subst textual_leaf_copy.simps) auto
  next
    case True
    then have p: "block + i div 4 < length rom" "i < length buf" using 1(3,5) by linarith+
    let ?c = "char_of (unat (drop_bit (24 - 8 * (i mod 4)) (rom ! (block + i div 4)) AND 0xff)) :: char"
    have step: "textual_leaf_copy rom block quadlets n i buf =
        (if ?c = CHR 0x00 then Some (i, buf) else textual_leaf_copy rom block quadlets n (i + 1) (buf[i := ?c]))"
      using True p by (subst textual_leaf_copy.simps) (simp add: Let_def buf_put_def)
    show ?thesis
    proof (cases "?c = CHR 0x00")
      case True
      then show ?thesis using step 1(4) by simp
    next
      case False
      have "\<exists>j b. textual_leaf_copy rom block quadlets n (i + 1) (buf[i := ?c]) = Some (j, b) \<and>
          j \<le> n - 1 \<and> length b = length (buf[i := ?c])"
        using p True 1(2,3,5)
        by (intro 1(1) [OF True rom_at_Some [OF p(1)] refl False]) (simp_all add: buf_put_def)
      then show ?thesis using step False by simp
    qed
  qed
qed

lemma textual_leaf_to_string_safe:
  assumes "leaf_safe rom p" "0 < n" "n \<le> length buf"
  obtains (error) e where "textual_leaf_to_string rom p (Some buf) n = Some (Inl e, Some buf)"
    | (string) j b where "textual_leaf_to_string rom p (Some buf) n = Some (Inr j, Some b)" "j \<le> n - 1" "length b = length buf"
proof -
  let ?q = "min (unat (drop_bit 16 (rom ! p))) 256"
  have p: "p + unat (drop_bit 16 (rom ! p)) < length rom" using assms(1) by (simp add: leaf_safe_def)
  show thesis
  proof (cases "?q < 2")
    case True
    then show thesis using p assms(2) by (intro error [of ENODATA]) (simp add: textual_leaf_to_string_def Let_def min_less_iff_disj)
  next
    case False
    then have at: "p < length rom" "p + 1 < length rom" "p + 2 < length rom" "p + 3 + (?q - 2) \<le> length rom"
      using p by linarith+
    obtain j b where c: "textual_leaf_copy rom (p + 3) (?q - 2) n 0 buf = Some (j, b)" "j \<le> n - 1" "length b = length buf"
      using textual_leaf_copy_safe [OF assms(2,3) _ at(4), of 0] by auto
    have "j < length buf" using c(2) assms(2,3) by linarith
    then have eq: "textual_leaf_to_string rom p (Some buf) n =
        (if rom ! (p + 1) \<noteq> 0 \<or> rom ! (p + 2) \<noteq> 0 then Some (Inl ENODATA, Some buf)
         else Some (Inr j, Some (b[j := CHR 0x00])))"
      using False at assms(2,3) c by (simp add: textual_leaf_to_string_def Let_def buf_put_def numeral_3_eq_3)
    show thesis
    proof (cases "rom ! (p + 1) \<noteq> 0 \<or> rom ! (p + 2) \<noteq> 0")
      case True
      then show thesis using eq by (intro error [of ENODATA]) simp
    next
      case False
      then show thesis using eq c(2,3) by (intro string [of j "b[j := CHR 0x00]"]) simp_all
    qed
  qed
qed

text \<open>A directory all of whose text leaves lie within the image.\<close>

definition text_safe :: "u32 list \<Rightarrow> rom_ptr \<Rightarrow> bool" where
  "text_safe rom p \<longleftrightarrow> dir_safe rom p \<and>
    (\<forall>i. dir_entry rom p i \<and> drop_bit 24 (rom ! i) = (CSR_DESCRIPTOR OR CSR_LEAF) \<longrightarrow>
       leaf_safe rom (i + unat (rom ! i AND 0xffffff)))"

lemma fw_csr_string_safe:
  assumes "text_safe rom p" "0 < n" "n \<le> length buf"
  obtains (error) e where "fw_csr_string rom p k (Some buf) n = Some (Inl e, Some buf)"
    | (string) j b where "fw_csr_string rom p k (Some buf) n = Some (Inr j, Some b)" "j \<le> n - 1" "length b = length buf"
proof -
  have "dir_safe rom p" using assms(1) by (simp add: text_safe_def)
  from search_leaf_safe [OF this, of k] show thesis
  proof (elim disjE exE conjE)
    assume "search_leaf rom p k = Some None"
    then show thesis by (intro error [of ENOENT]) (simp add: fw_csr_string_def)
  next
    fix i assume i: "search_leaf rom p k = Some (Some (i + unat (rom ! i AND 0xffffff)))"
      "dir_entry rom p i" "drop_bit 24 (rom ! i) = (CSR_DESCRIPTOR OR CSR_LEAF)"
    then have "leaf_safe rom (i + unat (rom ! i AND 0xffffff))" using assms(1) by (simp add: text_safe_def)
    from this assms(2,3) show thesis
    proof (cases rule: textual_leaf_to_string_safe)
      case (error e)
      then show thesis using i(1) by (intro that(1) [of e]) (simp add: fw_csr_string_def)
    next
      case (string j b)
      then show thesis using i(1) by (intro that(2) [of j b]) (simp_all add: fw_csr_string_def)
    qed
  qed
qed

section \<open>Attributes stay within the image and the page\<close>

text \<open>The directories that the functions on attributes go through: the root directory, its directories,
  among them the one of the vendor, and those of the units.\<close>

definition rom_safe :: "u32 list \<Rightarrow> bool" where
  "rom_safe rom \<longleftrightarrow> text_safe rom ROOT_DIR_OFFSET \<and>
    (\<forall>i. dir_entry rom ROOT_DIR_OFFSET i \<and> drop_bit 30 (rom ! i) = 3 \<longrightarrow>
       text_safe rom (i + unat (rom ! i AND 0xffffff)))"

definition attr_dev_ok :: "u32 list \<Rightarrow> attr_dev \<Rightarrow> bool" where
  "attr_dev_ok rom dev \<longleftrightarrow>
    (case dev of
       Attr_device \<Rightarrow> True
     | Attr_unit p \<Rightarrow> \<exists>i. dir_entry rom ROOT_DIR_OFFSET i \<and> drop_bit 24 (rom ! i) = (CSR_UNIT OR CSR_DIRECTORY) \<and>
         p = i + unat (rom ! i AND 0xffffff))"

lemma directory_key:
  assumes "drop_bit 24 (q :: u32) = k" "drop_bit 6 k = 3"
  shows "drop_bit 30 q = 3"
proof -
  have "drop_bit 30 q = drop_bit 6 (drop_bit 24 q)" by (simp add: drop_bit_drop_bit)
  then show ?thesis using assms by simp
qed

lemma vendor_directory_safe:
  assumes "rom_safe rom"
  shows "\<exists>v. search_directory rom ROOT_DIR_OFFSET CSR_VENDOR = Some v \<and> (\<forall>p. v = Some p \<longrightarrow> text_safe rom p)"
proof -
  have "dir_safe rom ROOT_DIR_OFFSET" using assms by (simp add: rom_safe_def text_safe_def)
  from search_directory_safe [OF this, of CSR_VENDOR] show ?thesis
  proof (elim disjE exE conjE)
    fix i assume i: "search_directory rom ROOT_DIR_OFFSET CSR_VENDOR = Some (Some (i + unat (rom ! i AND 0xffffff)))"
      "dir_entry rom ROOT_DIR_OFFSET i" "drop_bit 24 (rom ! i) = (CSR_VENDOR OR CSR_DIRECTORY)"
    have "drop_bit 30 (rom ! i) = 3" by (rule directory_key [OF i(3)]) simp
    then show ?thesis using assms i(1,2) by (simp add: rom_safe_def)
  qed simp
qed

lemma unit_directory_safe:
  assumes "rom_safe rom" "attr_dev_ok rom (Attr_unit p)"
  shows "text_safe rom p"
proof -
  obtain i where i: "dir_entry rom ROOT_DIR_OFFSET i" "drop_bit 24 (rom ! i) = (CSR_UNIT OR CSR_DIRECTORY)"
      "p = i + unat (rom ! i AND 0xffffff)"
    using assms(2) by (auto simp: attr_dev_ok_def)
  have "drop_bit 30 (rom ! i) = 3" by (rule directory_key [OF i(2)]) simp
  then show ?thesis using assms(1) i by (simp add: rom_safe_def)
qed

text \<open>Both functions go through a list of safe directories.\<close>

definition dirs_safe :: "u32 list \<Rightarrow> rom_ptr option list \<Rightarrow> bool" where
  "dirs_safe rom ds \<longleftrightarrow> (\<forall>p. Some p \<in> set ds \<longrightarrow> text_safe rom p)"

lemma scan_directories_safe:
  "dirs_safe rom ds \<Longrightarrow> \<exists>v. scan_directories rom ds key val = Some v"
proof (induction rom ds key val rule: scan_directories.induct)
  case (1 rom d ds key val)
  have "dir_safe rom d" "dirs_safe rom ds" using 1(2) by (simp_all add: dirs_safe_def text_safe_def)
  from csr_scan_safe [OF this(1), of "\<lambda>ci k v val. if key = k then uint v else val" val] obtain v where
    v: "csr_scan rom (\<lambda>ci k v val. if key = k then uint v else val) d val = Some v" by (elim exE)
  show ?case using 1(1) [OF v \<open>dirs_safe rom ds\<close>] v by simp
qed simp_all

text \<open>The results with a buffer of any size and without one agree on whether there is a text.\<close>

definition text_result :: "string \<Rightarrow> nat \<Rightarrow> errno + nat \<Rightarrow> string \<Rightarrow> bool" where
  "text_result buf n ret b \<longleftrightarrow> length b = length buf \<and> (case ret of Inl _ \<Rightarrow> True | Inr j \<Rightarrow> j \<le> n - 1)"

lemma text_of_directory_safe:
  assumes "text_safe rom d" "0 < n" "n \<le> length buf" "text_result buf n ret buf"
  shows "\<exists>ret' b. text_of_directory rom d i key (Some buf) n ret = Some (ret', Some b) \<and> text_result buf n ret' b"
  using assms(1,2,3)
proof (cases rule: fw_csr_string_safe [where k = key])
  case (string j b)
  then show ?thesis by (simp add: text_of_directory_def text_result_def)
next
  case first: (error e)
  show ?thesis
  proof (cases "i = 0 \<and> key = CSR_VENDOR")
    case False
    then show ?thesis using first assms(4) by (auto simp: text_of_directory_def)
  next
    case True
    from assms(1,2,3) show ?thesis
    proof (cases rule: fw_csr_string_safe [where k = "CSR_DIRECTORY OR key"])
      case (string j b)
      then show ?thesis using first True by (simp add: text_of_directory_def text_result_def)
    next
      case (error e)
      then show ?thesis using first True assms(4) by (simp add: text_of_directory_def)
    qed
  qed
qed

lemma text_of_directories_safe:
  "dirs_safe rom ds \<Longrightarrow> 0 < n \<Longrightarrow> n \<le> length buf \<Longrightarrow> text_result buf n ret buf \<Longrightarrow>
    \<exists>ret' b. text_of_directories rom ds i key (Some buf) n ret = Some (ret', Some b) \<and> text_result buf n ret' b"
proof (induction ds arbitrary: i buf ret)
  case Nil
  then show ?case by simp
next
  case (Cons x ds)
  show ?case
  proof (cases x)
    case None
    then show ?thesis using Cons(5) by simp
  next
    case (Some d)
    then have d: "text_safe rom d" "dirs_safe rom ds" using Cons(2) by (simp_all add: dirs_safe_def)
    obtain ret1 b1 where one: "text_of_directory rom d i key (Some buf) n ret = Some (ret1, Some b1)" "text_result buf n ret1 b1"
      using text_of_directory_safe [OF d(1) Cons(3-5)] by blast
    have b1: "n \<le> length b1" "text_result b1 n ret1 b1" using one(2) Cons(4) by (simp_all add: text_result_def)
    obtain ret' b where "text_of_directories rom ds (i + 1) key (Some b1) n ret1 = Some (ret', Some b)" "text_result b1 n ret' b"
      using Cons(1) [OF d(2) Cons(3) b1] by blast
    then show ?thesis using one Some by (simp add: text_result_def)
  qed
qed

text \<open>Whether there is a text depends on the ROM alone, not on the buffer.\<close>

lemma textual_leaf_agree:
  assumes "textual_leaf_to_string rom p (Some b) n = Some (r, x)" "textual_leaf_to_string rom p (Some b') n' = Some (r', x')"
    "0 < n" "0 < n'"
  shows "isl r = isl r'"
  using assms by (auto simp: textual_leaf_to_string_def Let_def bind_eq_Some_conv split: if_splits)

lemma fw_csr_string_agree:
  assumes "fw_csr_string rom p k (Some b) n = Some (r, x)" "fw_csr_string rom p k (Some b') n' = Some (r', x')"
    "0 < n" "0 < n'"
  shows "isl r = isl r'"
  using assms by (auto simp: fw_csr_string_def bind_eq_Some_conv split: option.splits dest: textual_leaf_agree)

lemma text_of_directory_agree:
  assumes d: "text_safe rom d" and n: "0 < n" "n \<le> length b" "0 < n'" "n' \<le> length b'"
    and r: "text_of_directory rom d i key (Some b) n ret = Some (r, x)"
      "text_of_directory rom d i key (Some b') n' ret' = Some (r', x')" and ret: "isl ret = isl ret'"
  shows "isl r = isl r'"
proof -
  have found: "\<exists>v y. fw_csr_string rom d k (Some c) m = Some (v, Some y) \<and> (isl v \<longrightarrow> y = c)"
    if "0 < m" "m \<le> length c" for k c m
    using d that by (cases rule: fw_csr_string_safe [where k = k]) auto
  obtain v y v' y' where f: "fw_csr_string rom d key (Some b) n = Some (v, Some y)" "isl v \<longrightarrow> y = b"
      "fw_csr_string rom d key (Some b') n' = Some (v', Some y')" "isl v' \<longrightarrow> y' = b'"
    using found n by meson
  have v: "isl v = isl v'" by (rule fw_csr_string_agree [OF f(1,3) n(1,3)])
  obtain w z w' z' where g: "fw_csr_string rom d (CSR_DIRECTORY OR key) (Some b) n = Some (w, Some z)"
      "fw_csr_string rom d (CSR_DIRECTORY OR key) (Some b') n' = Some (w', Some z')"
    using found n by meson
  have w: "isl w = isl w'" by (rule fw_csr_string_agree [OF g n(1,3)])
  show ?thesis
  proof (cases v)
    case (Inr j)
    then show ?thesis using r f v by (cases v') (auto simp: text_of_directory_def)
  next
    case (Inl e)
    then obtain e' where e': "v' = Inl e'" using v by (cases v') auto
    show ?thesis
    proof (cases "i = 0 \<and> key = CSR_VENDOR")
      case False
      then show ?thesis using r f Inl e' ret by (auto simp: text_of_directory_def)
    next
      case True
      then have "r = (case w of Inr n \<Rightarrow> Inr n | Inl _ \<Rightarrow> ret)" "r' = (case w' of Inr n \<Rightarrow> Inr n | Inl _ \<Rightarrow> ret')"
        using r f Inl e' g by (auto simp: text_of_directory_def)
      then show ?thesis using w ret by (cases w; cases w') auto
    qed
  qed
qed

lemma text_of_directories_agree:
  "dirs_safe rom ds \<Longrightarrow> 0 < n \<Longrightarrow> n \<le> length b \<Longrightarrow> 0 < n' \<Longrightarrow> n' \<le> length b' \<Longrightarrow>
    text_result b n ret b \<Longrightarrow> text_result b' n' ret' b' \<Longrightarrow> isl ret = isl ret' \<Longrightarrow>
    text_of_directories rom ds i key (Some b) n ret = Some (r, x) \<Longrightarrow>
    text_of_directories rom ds i key (Some b') n' ret' = Some (r', x') \<Longrightarrow> isl r = isl r'"
proof (induction ds arbitrary: i b b' ret ret')
  case Nil
  then show ?case by simp
next
  case (Cons y ds)
  show ?case
  proof (cases y)
    case None
    then show ?thesis using Cons(9-11) by simp
  next
    case (Some d)
    then have d: "text_safe rom d" "dirs_safe rom ds" using Cons(2) by (simp_all add: dirs_safe_def)
    obtain r1 b1 where one: "text_of_directory rom d i key (Some b) n ret = Some (r1, Some b1)" "text_result b n r1 b1"
      using text_of_directory_safe [OF d(1) Cons(3,4,7)] by blast
    obtain r2 b2 where two: "text_of_directory rom d i key (Some b') n' ret' = Some (r2, Some b2)" "text_result b' n' r2 b2"
      using text_of_directory_safe [OF d(1) Cons(5,6,8)] by blast
    have isl: "isl r1 = isl r2" by (rule text_of_directory_agree [OF d(1) Cons(3-6) one(1) two(1) Cons(9)])
    have len: "n \<le> length b1" "n' \<le> length b2" "text_result b1 n r1 b1" "text_result b2 n' r2 b2"
      using one(2) two(2) Cons(4,6) by (simp_all add: text_result_def)
    show ?thesis
      by (rule Cons(1) [OF d(2) Cons(3) len(1) Cons(5) len(2-4) isl, of "i + 1"])
        (use Cons(10,11) one(1) two(1) Some in simp_all)
  qed
qed

lemma strip_space_le: "strip_space isspace buf n \<le> n"
  by (induction n) auto

text \<open>What reading an attribute with a buffer returns: whether there is a value.\<close>

definition attr_read :: "(char \<Rightarrow> bool) \<Rightarrow> nat \<Rightarrow> u32 list \<Rightarrow> attr_dev \<Rightarrow> rom_attribute \<Rightarrow> string \<Rightarrow> bool option" where
  "attr_read isspace page_size rom dev a buf =
    (case a of
       Immediate_attr n key \<Rightarrow> map_option (\<lambda>r. \<not> isl r) (show_immediate rom dev key True)
     | Text_leaf_attr n key \<Rightarrow> map_option (\<lambda>r. \<not> isl (fst r)) (show_text_leaf isspace page_size rom dev key (Some buf)))"

lemma attr_directories_safe:
  assumes "rom_safe rom" "attr_dev_ok rom dev"
  shows "\<exists>v. search_directory rom ROOT_DIR_OFFSET CSR_VENDOR = Some v \<and>
    dirs_safe rom (case v of None \<Rightarrow> [Some ROOT_DIR_OFFSET, None] | Some v \<Rightarrow> [Some v, Some ROOT_DIR_OFFSET]) \<and>
    dirs_safe rom (case v of None \<Rightarrow> [Some ROOT_DIR_OFFSET, None] | Some v \<Rightarrow> [Some ROOT_DIR_OFFSET, Some v])"
    and "dev = Attr_unit p \<Longrightarrow> dirs_safe rom [Some p, None]"
proof -
  have root: "text_safe rom ROOT_DIR_OFFSET" using assms(1) by (simp add: rom_safe_def)
  obtain v where "search_directory rom ROOT_DIR_OFFSET CSR_VENDOR = Some v" "\<forall>p. v = Some p \<longrightarrow> text_safe rom p"
    using vendor_directory_safe [OF assms(1)] by blast
  then show "\<exists>v. search_directory rom ROOT_DIR_OFFSET CSR_VENDOR = Some v \<and>
    dirs_safe rom (case v of None \<Rightarrow> [Some ROOT_DIR_OFFSET, None] | Some v \<Rightarrow> [Some v, Some ROOT_DIR_OFFSET]) \<and>
    dirs_safe rom (case v of None \<Rightarrow> [Some ROOT_DIR_OFFSET, None] | Some v \<Rightarrow> [Some ROOT_DIR_OFFSET, Some v])"
    using root by (auto simp: dirs_safe_def split: option.splits)
  show "dirs_safe rom [Some p, None]" if "dev = Attr_unit p"
    using unit_directory_safe [OF assms(1)] assms(2) that by (simp add: dirs_safe_def)
qed

lemma show_immediate_safe:
  assumes "rom_safe rom" "attr_dev_ok rom dev"
  shows "\<exists>r r'. show_immediate rom dev key True = Some r \<and> show_immediate rom dev key False = Some r' \<and> isl r = isl r'"
proof -
  obtain ds where ds: "dirs_safe rom ds" "\<And>b. show_immediate rom dev key b =
      do { val \<leftarrow> scan_directories rom ds key (- 1);
           Some (if val < 0 then Inl ENOENT
                 else if b then Inr (''0x'' @ format_hex False 6 (word_of_int val) @ [newline]) else Inr []) }"
  proof (cases dev)
    case Attr_device
    then show thesis using attr_directories_safe(1) [OF assms] that by (auto simp: show_immediate_def)
  next
    case (Attr_unit p)
    then show thesis using attr_directories_safe(2) [OF assms] that by (auto simp: show_immediate_def)
  qed
  then show ?thesis using scan_directories_safe [OF ds(1), of key "- 1"] by auto
qed

lemma show_text_leaf_safe:
  assumes "rom_safe rom" "attr_dev_ok rom dev" "length buf = page_size" "2 \<le> page_size"
  shows "\<exists>r b r' b'. show_text_leaf isspace page_size rom dev key (Some buf) = Some (r, Some b) \<and>
    show_text_leaf isspace page_size rom dev key None = Some (r', b') \<and> isl r = isl r' \<and>
    length b = page_size \<and> (case r of Inl _ \<Rightarrow> True | Inr j \<Rightarrow> j < page_size)"
proof -
  define fin where "fin = (\<lambda>(buf :: string option) (ret, b'). do { b \<leftarrow> b'; (case ret of
         Inl e \<Rightarrow> Some (Inl e :: errno + nat, map_option (\<lambda>_. b) buf)
       | Inr n \<Rightarrow> do {
           let n = strip_space isspace b n;
           b \<leftarrow> buf_puts b n [newline];
           Some (Inr (n + 1), map_option (\<lambda>_. b) buf)
         }) })"
  obtain ds where ds: "dirs_safe rom ds"
    "show_text_leaf isspace page_size rom dev key (Some buf) =
       do { x \<leftarrow> text_of_directories rom ds 0 key (Some buf) (page_size - 1) (Inl ENOENT); fin (Some buf) x }"
    "show_text_leaf isspace page_size rom dev key None =
       do { x \<leftarrow> text_of_directories rom ds 0 key (Some (replicate 2 (CHR 0x00))) 1 (Inl ENOENT); fin None x }"
  proof (cases dev)
    case Attr_device
    then show thesis using attr_directories_safe(1) [OF assms(1,2)] that
      by (auto simp: show_text_leaf_def fin_def split_def)
  next
    case (Attr_unit p)
    then show thesis using attr_directories_safe(2) [OF assms(1,2)] that
      by (auto simp: show_text_leaf_def fin_def split_def)
  qed
  let ?d = "replicate 2 (CHR 0x00)"
  have pre: "0 < page_size - 1" "page_size - 1 \<le> length buf" "(0::nat) < 1" "1 \<le> length ?d"
    "text_result buf (page_size - 1) (Inl ENOENT) buf" "text_result ?d 1 (Inl ENOENT) ?d"
    using assms(3,4) by (simp_all add: text_result_def)
  obtain r b where one: "text_of_directories rom ds 0 key (Some buf) (page_size - 1) (Inl ENOENT) = Some (r, Some b)"
      "text_result buf (page_size - 1) r b"
    using text_of_directories_safe [OF ds(1) pre(1,2,5), of 0 key] by blast
  obtain r' b' where two: "text_of_directories rom ds 0 key (Some ?d) 1 (Inl ENOENT) = Some (r', Some b')"
      "text_result ?d 1 r' b'"
    using text_of_directories_safe [OF ds(1) pre(3,4,6), of 0 key] by blast
  have isl: "isl r = isl r'"
    by (rule text_of_directories_agree [OF ds(1) pre refl one(1) two(1)])
  show ?thesis
  proof (cases r)
    case (Inl e)
    then obtain e' where "r' = Inl e'" using isl by (cases r') auto
    then show ?thesis using Inl one two ds(2,3) assms(3) by (simp add: fin_def text_result_def)
  next
    case (Inr j)
    then obtain j' where j': "r' = Inr j'" using isl by (cases r') auto
    have len: "j \<le> page_size - 1 - 1" "length b = page_size"
      using one(2) Inr assms(3) by (simp_all add: text_result_def)
    then have j: "strip_space isspace b j + 1 < length b" "length b = page_size"
      using strip_space_le [of isspace b j] assms(4) by linarith+
    have "j' = 0" "length b' = 2" using two(2) j' by (simp_all add: text_result_def)
    then show ?thesis using Inr j j' one(1) two(1) ds(2,3) by (simp add: fin_def buf_puts_def Let_def)
  qed
qed

lemma attributes_shown_iff_readable:
  assumes "rom_safe rom" "attr_dev_ok rom dev" "length buf = page_size" "2 \<le> page_size"
  shows "\<exists>p. attr_present isspace page_size rom dev a = Some p \<and> attr_read isspace page_size rom dev a buf = Some p"
proof (cases a)
  case (Immediate_attr n key)
  obtain r r' where "show_immediate rom dev key True = Some r" "show_immediate rom dev key False = Some r'" "isl r = isl r'"
    using show_immediate_safe [OF assms(1,2), of key] by blast
  then show ?thesis using Immediate_attr by (intro exI [of _ "\<not> isl r"], cases r') (simp_all add: attr_read_def)
next
  case (Text_leaf_attr n key)
  obtain r b r' b' where "show_text_leaf isspace page_size rom dev key (Some buf) = Some (r, Some b)"
    "show_text_leaf isspace page_size rom dev key None = Some (r', b')" "isl r = isl r'"
    using show_text_leaf_safe [OF assms, of isspace key] by blast
  then show ?thesis using Text_leaf_attr by (intro exI [of _ "\<not> isl r"], cases r') (simp_all add: attr_read_def)
qed

lemma init_fw_attribute_group_safe:
  assumes "rom_safe rom" "attr_dev_ok rom dev" "2 \<le> page_size"
  shows "init_fw_attribute_group isspace page_size rom dev attrs \<noteq> None"
proof -
  have "\<exists>p. attr_present isspace page_size rom dev a = Some p" for a
    using attributes_shown_iff_readable [OF assms(1,2) _ assms(3), of "replicate page_size (CHR 0x00)"] by auto
  then have "\<exists>ns. present_attributes isspace page_size rom dev as = Some ns" for as
    by (induction "as") (auto, metis bind.bind_lunit)
  then show ?thesis by (auto simp: init_fw_attribute_group_def bind_eq_None_conv)
qed

section \<open>The attributes of a consistent ROM\<close>

text \<open>No directory ends the image; the iterator reads one quadlet behind the block it goes through.\<close>

definition directories_inside :: "u32 list \<Rightarrow> bool" where
  "directories_inside d \<longleftrightarrow>
    (\<forall>key. rom_block d key \<and> drop_bit 30 key = 3 \<longrightarrow> (\<exists>i. rom_reached d i \<and> block_start key + block_len d key < i))"

lemma entry_kind:
  assumes "i + unat (q AND 0xffffff) < 256"
  shows "drop_bit 24 (of_nat i + q :: u32) = drop_bit 24 q"
proof -
  have ui: "unat (of_nat i :: u32) = i" using assms by (simp add: unat_of_nat take_bit_nat_eq_self)
  have "unat (q AND 0xffffff) = unat q mod 16777216"
    unfolding word_mask24 unsigned_take_bit_eq by (simp add: take_bit_eq_mod)
  then have lt: "i + unat q mod 16777216 < 16777216" using assms by simp
  have q: "unat q < 4294967296" using unsigned_less [of q] by simp
  obtain a r where ar: "unat q = a * 16777216 + r" "r < 16777216" "i + r < 16777216"
    using lt by (metis add_leE div_mult_mod_eq mod_less_divisor zero_less_numeral)
  have "a < 256" using q ar(1) by simp
  then have less: "i + unat q < 4294967296" using ar by simp
  have "(i + unat q) div 16777216 = unat q div 16777216" using ar by simp
  then have "unat (drop_bit 24 (of_nat i + q)) = unat (drop_bit 24 q)"
    using less by (simp add: unsigned_drop_bit_eq drop_bit_eq_div unat_word_ariths ui)
  then show ?thesis by (rule unsigned_word_eqI)
qed

lemma consistent_rom_safe:
  assumes c: "rom_closed d" "directories_inside d"
    and rom: "\<forall>i. i < length rom \<longrightarrow> rom ! i = (if rom_reached d i then d ! i else 0)"
      "\<forall>i. rom_reached d i \<longrightarrow> i < length rom"
  shows "rom_safe rom"
proof -
  have at: "rom ! i = d ! i" "i < length rom" if "rom_block d key" "i \<in> block_span d key" for key i
  proof -
    have "rom_reached d i" using that by (auto simp: rom_reached_def)
    then show "rom ! i = d ! i" "i < length rom" using rom by simp_all
  qed
  have hdr: "unat (drop_bit 16 (rom ! block_start key)) = block_len d key" if "rom_block d key" for key
    using at(1) [OF that, of "block_start key"] by (simp add: block_span_def block_len_def)
  have leaf: "leaf_safe rom (block_start key)" if "rom_block d key" for key
    using at(2) [OF that, of "block_start key + block_len d key"] hdr [OF that]
    by (simp add: leaf_safe_def block_span_def)
  have dir: "dir_safe rom (block_start key)" if k: "rom_block d key" "drop_bit 30 key = 3" for key
  proof -
    obtain i where "rom_reached d i" "block_start key + block_len d key < i"
      using c(2) k by (auto simp: directories_inside_def)
    then show ?thesis using rom(2) hdr [OF k(1)] by (fastforce simp: dir_safe_def)
  qed
  have entry: "rom_block d (of_nat i + rom ! i)" "block_start (of_nat i + rom ! i) = i + unat (rom ! i AND 0xffffff)"
      "drop_bit 24 (of_nat i + rom ! i) = drop_bit 24 (rom ! i)"
    if k: "rom_block d key" "drop_bit 30 key = 3" and i: "dir_entry rom (block_start key) i"
      and p: "\<not> drop_bit 30 (rom ! i) < 2" for key i
  proof -
    have i': "block_start key < i" "i \<le> block_start key + block_len d key"
      using i hdr [OF k(1)] by (simp_all add: dir_entry_def)
    have e: "rom ! i = d ! i" using i' by (intro at(1) [OF k(1)]) (simp add: block_span_def)
    have ptr: "is_pointer d key i" using k(2) p e by (simp add: is_pointer_def)
    show "rom_block d (of_nat i + rom ! i)" unfolding e by (rule rom_block.entry [OF k(1) i' ptr])
    have l: "i + unat (d ! i AND 0xffffff) < 256"
      using rom_closedD(4) [OF c(1) k(1) i' ptr] rom_closedD(2) [OF c(1) k(1)] by simp
    then show "drop_bit 24 (of_nat i + rom ! i) = drop_bit 24 (rom ! i)" unfolding e by (rule entry_kind)
    have "i < 256" using l by simp
    then show "block_start (of_nat i + rom ! i) = i + unat (rom ! i AND 0xffffff)"
      unfolding e using pointer_inside [OF l] by (rule entry_target(1))
  qed
  have str: "text_safe rom (block_start key)" if k: "rom_block d key" "drop_bit 30 key = 3" for key
  proof -
    have "leaf_safe rom (i + unat (rom ! i AND 0xffffff))"
      if i: "dir_entry rom (block_start key) i" "drop_bit 24 (rom ! i) = (CSR_DESCRIPTOR OR CSR_LEAF)" for i
    proof -
      have "drop_bit 30 (rom ! i) = drop_bit 6 (drop_bit 24 (rom ! i))" by (simp add: drop_bit_drop_bit)
      then have "\<not> drop_bit 30 (rom ! i) < 2" using i(2) by simp
      from entry [OF k i(1) this] leaf show ?thesis by metis
    qed
    then show ?thesis using dir [OF k] by (simp add: text_safe_def)
  qed
  have root: "rom_block d 0xc0000005" "drop_bit 30 (0xc0000005 :: u32) = 3" "block_start 0xc0000005 = 5"
    by (simp_all add: rom_block.root block_start_def)
  have "text_safe rom (i + unat (rom ! i AND 0xffffff))"
    if i: "dir_entry rom 5 i" "drop_bit 30 (rom ! i) = 3" for i
  proof -
    have p: "\<not> drop_bit 30 (rom ! i) < 2" using i(2) by simp
    note e = entry [OF root(1,2) i(1) [folded root(3)] p]
    have "drop_bit 30 (of_nat i + rom ! i) = drop_bit 6 (drop_bit 24 (rom ! i))"
      using e(3) drop_bit_drop_bit [of 6 24 "of_nat i + rom ! i"] by simp
    then have "drop_bit 30 (of_nat i + rom ! i) = 3" using i(2) by (simp add: drop_bit_drop_bit)
    from str [OF e(1) this] show ?thesis using e(2) by simp
  qed
  then show ?thesis using str [OF root(1,2)] root(3) by (simp add: rom_safe_def)
qed


lemma simple_avc_inside: "directories_inside simple_avc_config_rom"
proof -
  let ?d = simple_avc_config_rom
  have "rom_block ?d (of_nat 9 + ?d ! 9)"
    by (rule rom_block.entry [OF rom_block.root])
      (simp_all add: block_start_def block_len_def is_pointer_def simple_avc_config_rom_def)
  then have "rom_block ?d 0x81000017" by (simp add: simple_avc_config_rom_def)
  moreover have "28 \<in> block_span ?d 0x81000017"
    by (simp add: block_span_def block_start_def block_len_def simple_avc_config_rom_def)
  ultimately have last: "rom_reached ?d 28" by (auto simp: rom_reached_def)
  have "block_start key + block_len ?d key < 28" if k: "rom_block ?d key" "drop_bit 30 key = 3" for key
  proof -
    have "key \<in> {0xc0000005, 0xd100000c, 0x81000011, 0x81000017}"
      using blocks_closedD(1) [OF simple_avc_closed k(1)] by simp
    then show ?thesis using k(2) by (auto simp: block_start_def block_len_def simple_avc_config_rom_def)
  qed
  then show ?thesis using last by (auto simp: directories_inside_def)
qed


end
