(* ===== verification/Spec2Isabelle.thy ===== *)
theory Spec2Isabelle
  imports Topology_Proofs Request_Proofs Bus_Manager Net_Proofs Snd_Cmp Amdtp_Domain Cdev_Clients Device_Attr
begin

text \<open>
  A verification of the core of the Linux FireWire (IEEE 1394) stack.

  \<^bold>\<open>The program.\<close>  The core (\<^verbatim>\<open>drivers/firewire/core-*.c\<close>) sits between card drivers and
  protocol drivers.  After a bus reset the card driver hands it the self-ID packets;
  the core builds the tree of nodes, compares it with the old one and tells the device layer what has
  changed (\<^verbatim>\<open>core-topology.c\<close>), which reads the configuration ROM of the nodes (\<^verbatim>\<open>core-device.c\<close>), and then it contends for the role of bus manager, chooses root and gap count and
  resets the bus again if need be (\<^verbatim>\<open>core-card.c\<close>).  Protocol drivers send requests and get responses
  through transactions with labels and timeouts, and register handlers for address ranges to which
  inbound requests are dispatched (\<^verbatim>\<open>core-transaction.c\<close>).  The node's own configuration ROM is generated from registered
  descriptors (\<^verbatim>\<open>core-card.c\<close>).  Channels and bandwidth are allocated by lock transactions with
  the isochronous resource manager (\<^verbatim>\<open>core-iso.c\<close>).  Programs in user space reach all of this
  through the character device (\<^verbatim>\<open>core-cdev.c\<close>).  IP over IEEE 1394 (\<^verbatim>\<open>net.c\<close>) is a
  protocol driver: it cuts datagrams into fragments and puts them together again.
  The library of the sound drivers (\<^verbatim>\<open>sound/firewire/\<close>) is another: it sends commands by the function control protocol
  (\<^verbatim>\<open>fcp.c\<close>), reserves channel, bandwidth and plugs for a stream (\<^verbatim>\<open>iso-resources.c\<close>, \<^verbatim>\<open>cmp.c\<close>) and keeps streams of
  audio packets going in isochronous contexts (\<^verbatim>\<open>amdtp-stream.c\<close>, \<^verbatim>\<open>packets-buffer.c\<close>).

  \<^bold>\<open>The theories.\<close>
  \<^item> \<^verbatim>\<open>Fw_Prelude\<close>: machine integers, error numbers, bit fields by mask and shift, the locales
    \<open>packet_field\<close>, \<open>independent_fields\<close> and \<open>packet_flag\<close> with the contract of a pair of
    accessors, lists that are overwritten in place.
  \<^item> \<^verbatim>\<open>Packet_Header\<close>, \<^verbatim>\<open>Phy_Packet\<close>: the accessors of \<^verbatim>\<open>packet-header-definitions.h\<close> and
    \<^verbatim>\<open>phy-packet-definitions.h\<close>, one interpretation of the contract for each; self-ID sequences and ports.
  \<^item> \<^verbatim>\<open>Config_Rom\<close>: descriptors and the ROM image of \<^verbatim>\<open>core-card.c\<close>; the layout as a specification,
    the generated image equal to it, sealed blocks, directory entries that lead to their descriptors.
  \<^item> \<^verbatim>\<open>Topology\<close>, \<^verbatim>\<open>Topology_Proofs\<close>: nodes as a heap, \<open>build_tree\<close>, the walks, \<open>update_tree\<close>,
    the bus reset handler; soundness of the tree for every self-ID stream, hop counts, the topology map.
  \<^item> \<^verbatim>\<open>Address_Handler\<close>: the registry of address handlers as the locale \<open>address_registry\<close> and its
    interpretation; disjointness and lookup.
  \<^item> \<^verbatim>\<open>Transaction\<close>, \<^verbatim>\<open>Transaction_Proofs\<close>: outbound transactions as steps of a state
    machine with labels, the pending list and timers; the invariant over all interleavings, completion exactly once.
  \<^item> \<^verbatim>\<open>Request\<close>, \<^verbatim>\<open>Request_Proofs\<close>: inbound requests, CSR registers, the topology map region, dispatch to
    handlers, FCP; the life of request objects.
  \<^item> \<^verbatim>\<open>Iso_Resource\<close>: allocation of channels and bandwidth against an arbitrary IRM, and the page buffers.
  \<^item> \<^verbatim>\<open>Bus_Manager\<close>: bus resets and the bus manager's work over the states of topology, transactions and
    isochronous resources; references to the card, the bound on resets, gap counts.
  \<^item> \<^verbatim>\<open>Cdev\<close>, \<^verbatim>\<open>Cdev_Iso\<close>, \<^verbatim>\<open>Cdev_Proofs\<close>: the character device, an open file being a client with its resources,
    events and references, all ioctls and the work that goes on behind them; the table of handles as the locale \<open>handle_table\<close> and a refinement
    of a map.
  \<^item> \<^verbatim>\<open>Cdev_Refs\<close>, \<^verbatim>\<open>Cdev_Races\<close>, \<^verbatim>\<open>Cdev_Clients\<close>: the holders of references to a client and their invariant
    over all interleavings of files, callbacks and work items; executed runs in which work items go wrong; requests that clients answer, and
    packets from user memory.
  \<^item> \<^verbatim>\<open>Device_Rom\<close>, \<^verbatim>\<open>Device_Read\<close>: the configuration ROM of another node in \<^verbatim>\<open>core-device.c\<close>: the
    iterator, strings, identifiers and attributes, where \<open>None\<close> is an access outside of the image, and the reader with its stack
    of blocks against a node that may answer anything.
  \<^item> \<^verbatim>\<open>Device_Read_Proofs\<close>, \<^verbatim>\<open>Device_Exact\<close>: the reader ends and stays within its buffers, a
    consistent ROM is read exactly; a ROM with overlapping blocks from which attributes are read out of bounds.
  \<^item> \<^verbatim>\<open>Device_Attr\<close>: the attributes of a device with a consistent ROM stay within image and page, and those are
    shown that can be read.
  \<^item> \<^verbatim>\<open>Net_Receive\<close>, \<^verbatim>\<open>Net_Receive_Proofs\<close>: fragment lists and reassembly; delivered
    datagrams consist of received bytes.
  \<^item> \<^verbatim>\<open>Net_Transmit\<close>, \<^verbatim>\<open>Net_Proofs\<close>: fragmentation; the round trip from sender to receiver, and the life of a packet
    task under all interleavings.
  \<^item> \<^verbatim>\<open>Snd_Fcp\<close>: requests with retries and FCP transactions (\<^verbatim>\<open>lib.c\<close>, \<^verbatim>\<open>fcp.c\<close>); when they return and what they deliver.
  \<^item> \<^verbatim>\<open>Snd_Cmp\<close>: resources of a stream and connections by plug control registers (\<^verbatim>\<open>iso-resources.c\<close>,
    \<^verbatim>\<open>cmp.c\<close>); what is allocated is given back, a plug is taken only when it is free.
  \<^item> \<^verbatim>\<open>Amdtp_Seq\<close>, \<^verbatim>\<open>Amdtp_Cip\<close>, \<^verbatim>\<open>Amdtp_Proofs\<close>: the generators of data blocks and time stamps, replay, cycle counts,
    CIP headers and packet descriptors; the generators against their ideal rates, and what one stream sends another accepts.
  \<^item> \<^verbatim>\<open>Packets_Buffer\<close>: the layout of packets in pages.
  \<^item> \<^verbatim>\<open>Amdtp_Stream\<close>, \<^verbatim>\<open>Amdtp_Domain\<close>: domains of streams, callbacks of the contexts, start and stop; the contract of a
    callback as the locale \<open>batch_callback\<close> with an interpretation for each, cancellation of a whole domain, interrupts, balance
    of resources.

  \<^bold>\<open>Conventions.\<close>  A C function is one definition with its name.  State is a record that is
  returned updated; pointers are indices into a list of objects; calls that leave the modelled code go to a log in order.
  A null or dangling pointer, \<open>BUG\<close> and the use of freed memory are values (\<open>None\<close> or a
  constructor of their own), so that their absence is a theorem.  A function that takes a spin lock
  is one step; where the code drops a lock or hands over to another context, other steps can come in between (\<open>tx_run\<close>,
  \<open>be_meanwhile\<close>, \<open>life_step\<close>, \<open>cdev_step\<close>).  Machine integers keep their width where the code relies on it.  Code outside the
  repository is a parameter: the checksum \<open>crc_itu_t\<close>, the memory and page allocators, the DMA
  layer, \<open>netif_rx\<close>, jiffies and their conversions, the card driver and the answers of other nodes.

  \<^bold>\<open>Loops and fuel.\<close>  Loops are structural recursion or have a termination proof: the tree walks by the number of
  nodes without the current color, the label search by the labels not yet tried, the channel loop by retries and channels, the reader of
  configuration ROMs by a weight of its stack.  Only
  \<open>transmit_all\<close>, which strings together the fragments of one datagram, has fuel; the number of bytes of the datagram is enough.
  Loops that need not end are \<open>partial_function\<close>s, where \<open>None\<close> stands for a loop that does not: waiting and repeating of FCP transactions, the
  compare-and-swap loop on plug registers, retries after bus resets, and filling the idle queue of a stream.  For each
  there is a theorem that says when it ends.

  \<^bold>\<open>What is not modelled.\<close>  The card driver \<^verbatim>\<open>ohci.c\<close> and \<^verbatim>\<open>nosy.c\<close> (registers and DMA
  programs of hardware), the registration of devices and units with the
  driver model in \<^verbatim>\<open>core-device.c\<close>, the isochronous context functions (they forward to the card driver), SBP-2 initiator and target (SCSI layers),
  DVB, the sound drivers for families of devices, the contents of audio packets (\<^verbatim>\<open>amdtp-am824.c\<close> and the drivers' own
  formats), the constraints of the PCM layer, the tools and the kernel's unit tests.
\<close>

end
